(* ===== verification/Prelude.thy ===== *)
theory Prelude
  imports Main "HOL-Library.Word" "HOL-Library.AList" "HOL-Library.Monad_Syntax"
begin

text \<open>
  Shared vocabulary of the development: how values of the Go program are represented, the
  pieces of the Go standard library that the program calls on strings and numbers, and the
  generic lemmas the component theories use.

  \<^item> A Go \<open>string\<close> is a sequence of bytes: the HOL type \<open>string\<close> (a list of 8-bit
    characters). Japanese literals of the source are written as code points under \<open>utf8\<close>.
  \<^item> A Go slice can be \<open>nil\<close>, which differs from an empty slice for \<open>reflect.DeepEqual\<close> and
    for JSON: \<open>'a slice\<close> is \<open>'a list option\<close>, \<open>None\<close> being \<open>nil\<close>.
  \<^item> A Go pointer to a value that is never shared for mutation is an \<open>option\<close>.
  \<^item> A Go map is an association list without duplicate keys; its order stands for the
    iteration order, which Go leaves unspecified. Where a loop ranges over a map, a lemma shows that
    the order does not matter.
  \<^item> A run-time panic is \<open>None\<close> in the option monad of the operations that can panic.
  \<^item> A Go \<open>int\<close> is an \<open>int\<close>: none of the modelled arithmetic on it comes near 64 bits.
    \<open>uint8\<close> and \<open>uint32\<close> are words.
\<close>

named_theorems clone_simps \<open>what the Clone methods keep of a value\<close>
named_theorems valid_simps \<open>acceptance conditions of the Validate methods\<close>
named_theorems wf_intros \<open>preservation of well-formedness by the operations\<close>

section \<open>Slices\<close>

type_synonym 'a slice = "'a list option"

definition elems :: "'a slice \<Rightarrow> 'a list" where
  "elems s = (case s of None \<Rightarrow> [] | Some xs \<Rightarrow> xs)"

lemma elems_simps [simp]: "elems None = []" "elems (Some xs) = xs"
  by (simp_all add: elems_def)

text \<open>
  \<open>if s != nil { out = append([]T(nil), s...) }\<close>, the copy idiom of the source: appending no
  element to a nil slice gives nil, so an empty slice becomes nil.
\<close>

definition slice_copy :: "'a slice \<Rightarrow> 'a slice" where
  "slice_copy s = (case s of None \<Rightarrow> None | Some xs \<Rightarrow> if xs = [] then None else Some xs)"

lemma elems_slice_copy [simp]: "elems (slice_copy s) = elems s"
  by (simp add: slice_copy_def split: option.split)

lemma slice_copy_idem [simp]: "slice_copy (slice_copy s) = slice_copy s"
  by (simp add: slice_copy_def split: option.split)

lemma slice_copy_None_iff [simp]: "slice_copy s = None \<longleftrightarrow> elems s = []"
  by (cases s) (simp_all add: slice_copy_def)

lemma slice_copy_id_iff: "slice_copy s = s \<longleftrightarrow> s \<noteq> Some []"
  by (cases s) (simp_all add: slice_copy_def)

lemma slice_copy_eq_iff: "slice_copy s = slice_copy t \<longleftrightarrow> elems s = elems t"
  by (cases s; cases t) (simp_all add: slice_copy_def)

section \<open>Strings\<close>

text \<open>The UTF-8 encoding of one code point.\<close>

definition utf8_char :: "nat \<Rightarrow> string" where
  "utf8_char n =
     (if n < 0x80 then [char_of n]
      else if n < 0x800 then [char_of (0xC0 + n div 64), char_of (0x80 + n mod 64)]
      else if n < 0x10000 then
        [char_of (0xE0 + n div 4096), char_of (0x80 + (n div 64) mod 64),
      char_of (0x80 + n mod 64)]
      else
        [char_of (0xF0 + n div 262144), char_of (0x80 + (n div 4096) mod 64),
         char_of (0x80 + (n div 64) mod 64), char_of (0x80 + n mod 64)])"

definition utf8 :: "nat list \<Rightarrow> string" where
  "utf8 ns = concat (map utf8_char ns)"

lemma utf8_char_not_Nil [simp]: "utf8_char n \<noteq> []"
  by (simp add: utf8_char_def)

lemma utf8_eq_Nil_iff [simp]: "utf8 ns = [] \<longleftrightarrow> ns = []"
  by (cases ns) (simp_all add: utf8_def)

text \<open>Decimal printing: \<open>strconv.Itoa\<close> and the verb \<open>%d\<close> of \<open>fmt.Sprintf\<close>.\<close>

definition digit_char :: "nat \<Rightarrow> char" where
  "digit_char d = char_of (48 + d)"

fun dec :: "nat \<Rightarrow> string" where
  "dec n = (if n < 10 then [digit_char n] else dec (n div 10) @ [digit_char (n mod 10)])"

declare dec.simps [simp del]

definition itoa :: "int \<Rightarrow> string" where
  "itoa i = (if i < 0 then ''-'' @ dec (nat (- i)) else dec (nat i))"

lemma dec_not_Nil [simp]: "dec n \<noteq> []"
  by (subst dec.simps) simp

text \<open>
  The verb \<open>%q\<close>: \<open>strconv.Quote\<close>. Exact on ASCII; a character outside ASCII is kept as it is,
  which is what Go does for every printable one.
\<close>

definition hex_char :: "nat \<Rightarrow> char" where
  "hex_char d = (if d < 10 then char_of (48 + d) else char_of (87 + d))"

definition quote_char :: "char \<Rightarrow> string" where
  "quote_char c =
     (if c = CHR 0x22 then [CHR 0x5C, CHR 0x22]
      else if c = CHR 0x5C then [CHR 0x5C, CHR 0x5C]
      else if c = CHR 0x07 then [CHR 0x5C, CHR ''a'']
      else if c = CHR 0x08 then [CHR 0x5C, CHR ''b'']
      else if c = CHR 0x0C then [CHR 0x5C, CHR ''f'']
      else if c = CHR 0x0A then [CHR 0x5C, CHR ''n'']
      else if c = CHR 0x0D then [CHR 0x5C, CHR ''r'']
      else if c = CHR 0x09 then [CHR 0x5C, CHR ''t'']
      else if c = CHR 0x0B then [CHR 0x5C, CHR ''v'']
      else
        (let n = (of_char c :: nat) in
         if n < 32 \<or> n = 127 then [CHR 0x5C, CHR ''x'', hex_char (n div 16),
      hex_char (n mod 16)]
         else [c]))"

definition quote :: "string \<Rightarrow> string" where
  "quote s = [CHR 0x22] @ concat (map quote_char s) @ [CHR 0x22]"

subsection \<open>Trimming white space\<close>

text \<open>
  \<open>strings.TrimSpace\<close> removes leading and trailing Unicode white space: the encodings of the
  code points for which \<open>unicode.IsSpace\<close> holds.
\<close>

definition space_runes :: "nat list" where
  "space_runes =
     [0x09, 0x0A, 0x0B, 0x0C, 0x0D, 0x20, 0x85, 0xA0, 0x1680,
      0x2000, 0x2001, 0x2002, 0x2003, 0x2004, 0x2005, 0x2006, 0x2007, 0x2008, 0x2009, 0x200A,
      0x2028, 0x2029, 0x202F, 0x205F, 0x3000]"

definition starts_with :: "string \<Rightarrow> string \<Rightarrow> bool" where
  "starts_with p s \<longleftrightarrow> take (length p) s = p"

text \<open>Remove from the front of \<open>s\<close> as many elements of \<open>ws\<close> as there are.\<close>

function strip_front :: "string list \<Rightarrow> string \<Rightarrow> string" where
  "strip_front ws s =
     (case find (\<lambda>w. w \<noteq> [] \<and> starts_with w s) ws of
        None \<Rightarrow> s
      | Some w \<Rightarrow> strip_front ws (drop (length w) s))"
  by pat_completeness auto
termination
proof (relation "measure (\<lambda>(ws, s). length s)", goal_cases)
  case 1
  show ?case by simp
next
  case (2 ws s w)
  then have "w \<noteq> []" "starts_with w s" by (auto simp: find_Some_iff)
  then have "s \<noteq> []" by (auto simp: starts_with_def)
  with \<open>w \<noteq> []\<close> show ?case by simp
qed

declare strip_front.simps [simp del]

definition TrimSpace :: "string \<Rightarrow> string" where
  "TrimSpace s =
     (let ws = map utf8_char space_runes
      in rev (strip_front (map rev ws) (rev (strip_front ws s))))"

lemma length_strip_front: "length (strip_front ws s) \<le> length s"
proof (induction ws s rule: strip_front.induct)
  case (1 ws s)
  then show ?case
    by (subst strip_front.simps) (auto split: option.split)
qed

lemma length_TrimSpace: "length (TrimSpace s) \<le> length s"
  unfolding TrimSpace_def Let_def
  by (metis length_rev length_strip_front order_trans)

text \<open>
  Diagnostics are cut to a byte limit and marked with an ellipsis (\<open>truncate\<close>, written once in
  \<open>runtime/errors.go\<close> and once in \<open>replay/script_runner.go\<close>).
\<close>

section \<open>Go maps\<close>

text \<open>
  A map is an association list; \<open>map_of\<close> looks a key up, \<open>AList.update\<close> assigns,
  \<open>AList.delete\<close> is the builtin \<open>delete\<close>, \<open>length\<close> is \<open>len\<close>.
\<close>

type_synonym ('k, 'v) gomap = "('k \<times> 'v) list"

definition gomap_wf :: "('k, 'v) gomap \<Rightarrow> bool" where
  "gomap_wf m \<longleftrightarrow> distinct (map fst m)"

lemma gomap_wf_Nil [simp, wf_intros]: "gomap_wf []"
  by (simp add: gomap_wf_def)

lemma gomap_wf_update [wf_intros]: "gomap_wf m \<Longrightarrow> gomap_wf (AList.update k v m)"
  by (simp add: gomap_wf_def distinct_update)

lemma gomap_wf_delete [wf_intros]: "gomap_wf m \<Longrightarrow> gomap_wf (AList.delete k m)"
  by (simp add: gomap_wf_def distinct_delete)

lemma map_of_update [simp]: "map_of (AList.update k v m) = (map_of m)(k \<mapsto> v)"
  by (simp add: update_conv')

lemma map_of_delete [simp]: "map_of (AList.delete k m) = (map_of m)(k := None)"
  by (simp add: delete_conv')

lemma gomap_mem_iff: "gomap_wf m \<Longrightarrow> (k, v) \<in> set m \<longleftrightarrow> map_of m k = Some v"
  by (simp add: gomap_wf_def)

lemma gomap_length: "gomap_wf m \<Longrightarrow> length m = card (dom (map_of m))"
  by (metis distinct_card gomap_wf_def dom_map_of_conv_image_fst length_map set_map)

end
