(* ===== verification/Protocol.thy ===== *)
theory Protocol
  imports Prelude
begin

text \<open>
  The JSON contract as Go types: \<open>server/internal/protocol\<close>
  (\<open>protocol.go\<close>, \<open>validate.go\<close>, \<open>errors.go\<close>).

  The enumerations of the contract (\<open>Player\<close>, \<open>Phase\<close>, \<open>Action\<close>, \<open>CommandType\<close>,
  \<open>EventType\<close>, \<open>ErrorCode\<close>) are Go strings: any string can arrive from JSON, so they are
  strings here too and the \<open>Valid\<close> methods are predicates on them. Pointers are options,
  \<open>uint8\<close> and \<open>uint32\<close> are words. A \<open>Validate\<close> method returns \<open>*Error\<close>: \<open>None\<close> is nil,
  acceptance.
\<close>

section \<open>Error codes (errors.go)\<close>

abbreviation "CodeInvalidJSON \<equiv> ''invalid_json''"
abbreviation "CodeUnsupportedVersion \<equiv> ''unsupported_version''"
abbreviation "CodeInvalidRequest \<equiv> ''invalid_request''"
abbreviation "CodeInvalidState \<equiv> ''invalid_state''"
abbreviation "CodeInvalidCommand \<equiv> ''invalid_command''"
abbreviation "CodeInvalidCoordinate \<equiv> ''invalid_coordinate''"
abbreviation "CodeOccupied \<equiv> ''occupied''"
abbreviation "CodeIllegalMove \<equiv> ''illegal_move''"
abbreviation "CodeNotYourTurn \<equiv> ''not_your_turn''"
abbreviation "CodeStaleTurn \<equiv> ''stale_turn''"
abbreviation "CodePassNotAllowed \<equiv> ''pass_not_allowed''"
abbreviation "CodeGameFinished \<equiv> ''game_finished''"

definition errorCodes :: "string list" where
  "errorCodes =
     [CodeInvalidJSON, CodeUnsupportedVersion, CodeInvalidRequest, CodeInvalidState,
      CodeInvalidCommand, CodeInvalidCoordinate, CodeOccupied, CodeIllegalMove,
      CodeNotYourTurn, CodeStaleTurn, CodePassNotAllowed, CodeGameFinished]"

definition ErrorCodes :: "string list" where
  "ErrorCodes = errorCodes"

definition ErrorCode_Valid :: "string \<Rightarrow> bool" where
  "ErrorCode_Valid c \<longleftrightarrow> c \<in> set errorCodes"

record perror =
  pe_Code :: string
  pe_Message :: string

definition NewError :: "string \<Rightarrow> string \<Rightarrow> perror" where
  "NewError code message = \<lparr>pe_Code = code, pe_Message = message\<rparr>"

definition perror_Error :: "perror option \<Rightarrow> string" where
  "perror_Error e =
     (case e of
        None \<Rightarrow> ''<nil protocol error>''
      | Some e \<Rightarrow> pe_Code e @ '': '' @ pe_Message e)"

section \<open>Data types (protocol.go)\<close>

abbreviation "Version \<equiv> ''1''"

abbreviation "PlayerDark \<equiv> ''dark''"
abbreviation "PlayerLight \<equiv> ''light''"

definition Player_Valid :: "string \<Rightarrow> bool" where
  "Player_Valid p \<longleftrightarrow> p = PlayerDark \<or> p = PlayerLight"

definition Opponent :: "string \<Rightarrow> string" where
  "Opponent p = (if p = PlayerDark then PlayerLight else PlayerDark)"

abbreviation "PhasePlaying \<equiv> ''playing''"
abbreviation "PhaseFinished \<equiv> ''finished''"

definition Phase_Valid :: "string \<Rightarrow> bool" where
  "Phase_Valid p \<longleftrightarrow> p = PhasePlaying \<or> p = PhaseFinished"

abbreviation "ActionNewGame \<equiv> ''newGame''"
abbreviation "ActionApplyCommand \<equiv> ''applyCommand''"
abbreviation "CommandPlace \<equiv> ''place''"
abbreviation "CommandPass \<equiv> ''pass''"
abbreviation "EventPlaced \<equiv> ''placed''"
abbreviation "EventPassed \<equiv> ''passed''"

subsection \<open>The board\<close>

definition BoardSize :: int where "BoardSize = 8"

definition BoardCells :: int where "BoardCells = BoardSize * BoardSize"

type_synonym cell = "8 word option"

definition NewCell :: "8 word \<Rightarrow> cell" where
  "NewCell color = Some color"

type_synonym board = "cell slice"

definition NewBoard :: board where
  "NewBoard = Some (replicate (nat BoardCells) None)"

definition Index :: "int \<Rightarrow> int \<Rightarrow> int" where
  "Index row col = row * BoardSize + col"

definition InBounds :: "int \<Rightarrow> int \<Rightarrow> bool" where
  "InBounds row col \<longleftrightarrow> row \<ge> 0 \<and> row < BoardSize \<and> col \<ge> 0 \<and> col < BoardSize"

definition Board_At :: "board \<Rightarrow> int \<Rightarrow> int \<Rightarrow> cell" where
  "Board_At b row col =
     (if \<not> InBounds row col \<or> int (length (elems b)) \<noteq> BoardCells then None
      else elems b ! nat (Index row col))"

definition Board_Clone :: "board \<Rightarrow> board" where
  "Board_Clone b =
     (case b of
        None \<Rightarrow> None
      | Some cs \<Rightarrow> Some (map (\<lambda>cell. case cell of None \<Rightarrow> None | Some c \<Rightarrow> NewCell c) cs))"

subsection \<open>Commands, states and events\<close>

record position =
  pos_Row :: int
  pos_Col :: int

record command =
  cm_CommandID :: string
  cm_Type :: string
  cm_Player :: string
  cm_ExpectedTurn :: int
  cm_Row :: "int option"
  cm_Col :: "int option"

definition PlaceCommand :: "string \<Rightarrow> string \<Rightarrow> int \<Rightarrow> int \<Rightarrow> int \<Rightarrow> command" where
  "PlaceCommand commandID player expectedTurn row col =
     \<lparr>cm_CommandID = commandID, cm_Type = CommandPlace, cm_Player = player,
      cm_ExpectedTurn = expectedTurn, cm_Row = Some row, cm_Col = Some col\<rparr>"

definition PassCommand :: "string \<Rightarrow> string \<Rightarrow> int \<Rightarrow> command" where
  "PassCommand commandID player expectedTurn =
     \<lparr>cm_CommandID = commandID, cm_Type = CommandPass, cm_Player = player,
      cm_ExpectedTurn = expectedTurn, cm_Row = None, cm_Col = None\<rparr>"

record state =
  st_Version :: string
  st_GameID :: string
  st_Board :: board
  st_TurnNumber :: int
  st_CurrentPlayer :: string
  st_NextColor :: "8 word"
  st_RNGState :: "32 word"
  st_ConsecutivePasses :: int
  st_Phase :: string
  st_Winner :: "string option"
  st_LegalMoves :: "position slice"

definition State_Clone :: "state \<Rightarrow> state" where
  "State_Clone s =
     s\<lparr>st_Board := Board_Clone (st_Board s),
       st_LegalMoves := slice_copy (st_LegalMoves s),
       st_Winner := (case st_Winner s of None \<Rightarrow> None | Some winner \<Rightarrow> Some winner)\<rparr>"

definition IsLegalMove :: "state \<Rightarrow> int \<Rightarrow> int \<Rightarrow> bool" where
  "IsLegalMove s row col \<longleftrightarrow>
     (\<exists>move \<in> set (elems (st_LegalMoves s)). pos_Row move = row \<and> pos_Col move = col)"

record change =
  ch_Row :: int
  ch_Col :: int
  ch_Color :: "8 word"

record event =
  ev_CommandID :: string
  ev_Type :: string
  ev_Player :: string
  ev_TurnNumber :: int
  ev_Row :: "int option"
  ev_Col :: "int option"
  ev_PlacedColor :: "8 word option"
  ev_Changes :: "change slice"

subsection \<open>Requests and responses\<close>

record request =
  rq_Version :: string
  rq_Action :: string
  rq_GameID :: string
  rq_Seed :: "32 word option"
  rq_State :: "state option"
  rq_Command :: "command option"

definition NewGameRequest :: "string \<Rightarrow> 32 word \<Rightarrow> request" where
  "NewGameRequest gameID seed =
     \<lparr>rq_Version = Version, rq_Action = ActionNewGame, rq_GameID = gameID, rq_Seed = Some seed,
      rq_State = None, rq_Command = None\<rparr>"

definition ApplyCommandRequest :: "state \<Rightarrow> command \<Rightarrow> request" where
  "ApplyCommandRequest s c =
     \<lparr>rq_Version = Version, rq_Action = ActionApplyCommand, rq_GameID = '''', rq_Seed = None,
      rq_State = Some s, rq_Command = Some c\<rparr>"

record response =
  rs_Version :: string
  rs_OK :: bool
  rs_State :: "state option"
  rs_Event :: "event option"
  rs_Error :: "perror option"

section \<open>Validation (validate.go)\<close>

definition Command_Validate :: "command \<Rightarrow> perror option" where
  "Command_Validate c =
     (if cm_CommandID c = '''' then Some (NewError CodeInvalidCommand (''commandId'' @ utf8 [0x304C, 0x5FC5, 0x8981, 0x3067, 0x3059]))
      else if \<not> Player_Valid (cm_Player c) then
        Some (NewError CodeInvalidCommand (''player'' @ utf8 [0x304C, 0x4E0D, 0x6B63, 0x3067,
      0x3059]))
      else if cm_ExpectedTurn c < 0 then
        Some (NewError CodeInvalidCommand (''expectedTurn'' @ utf8 [0x304C, 0x8CA0, 0x306E,
      0x5024, 0x3067, 0x3059]))
      else if cm_Type c = CommandPlace then
        (case (cm_Row c, cm_Col c) of
           (Some row, Some col) \<Rightarrow>
             if \<not> InBounds row col then
               Some (NewError CodeInvalidCoordinate (utf8 [0x5EA7, 0x6A19, 0x304C, 0x76E4,
      0x5916, 0x3067, 0x3059]))
             else None
         | _ \<Rightarrow> Some (NewError CodeInvalidCommand (''place'' @ utf8 [0x306B,
      0x306F] @ ''row'' @ utf8 [0x3068] @ ''col'' @ utf8 [0x304C, 0x5FC5, 0x8981, 0x3067,
      0x3059])))
      else if cm_Type c = CommandPass then
        (if cm_Row c \<noteq> None \<or> cm_Col c \<noteq> None then
           Some (NewError CodeInvalidCommand (''pass'' @ utf8 [0x306F] @ ''row'' @ utf8 [0x3068] @ ''col'' @ utf8 [0x3092, 0x6301, 0x3066, 0x307E, 0x305B, 0x3093]))
         else None)
      else Some (NewError CodeInvalidCommand ((utf8 [0x672A, 0x5BFE, 0x5FDC,
      0x306E] @ ''command type'' @ utf8 [0x3067, 0x3059] @ '': '') @ quote (cm_Type c))))"

definition Board_Validate :: "board \<Rightarrow> perror option" where
  "Board_Validate b =
     (if int (length (elems b)) \<noteq> BoardCells then
        Some (NewError CodeInvalidState
          ((''board'' @ utf8 [0x306F]) @ itoa BoardCells @ (utf8 [0x8981, 0x7D20, 0x3067,
      0x3042, 0x308B, 0x5FC5, 0x8981, 0x304C, 0x3042, 0x308A, 0x307E, 0x3059] @ '': '')
             @ itoa (int (length (elems b)))))
      else None)"

definition State_Validate :: "state \<Rightarrow> perror option" where
  "State_Validate s =
     (if st_Version s \<noteq> Version then
        Some (NewError CodeUnsupportedVersion (utf8 [0x5BFE, 0x5FDC, 0x3057, 0x3066, 0x3044,
      0x306A, 0x3044, 0x30D0, 0x30FC, 0x30B8, 0x30E7, 0x30F3, 0x3067, 0x3059]))
      else if st_GameID s = '''' then Some (NewError CodeInvalidState (''gameId'' @ utf8 [0x304C, 0x5FC5, 0x8981, 0x3067, 0x3059]))
      else case Board_Validate (st_Board s) of Some err \<Rightarrow> Some err | None \<Rightarrow>
      if st_TurnNumber s < 0 then
        Some (NewError CodeInvalidState (''turnNumber'' @ utf8 [0x304C, 0x8CA0, 0x306E, 0x5024,
      0x3067, 0x3059]))
      else if \<not> Player_Valid (st_CurrentPlayer s) then
        Some (NewError CodeInvalidState (''currentPlayer'' @ utf8 [0x304C, 0x4E0D, 0x6B63,
      0x3067, 0x3059]))
      else if st_ConsecutivePasses s < 0 \<or> st_ConsecutivePasses s > 2 then
        Some (NewError CodeInvalidState (''consecutivePasses'' @ utf8 [0x304C] @ ''0'' @ utf8 [0x301C] @ ''2'' @ utf8 [0x306E, 0x5916, 0x3067, 0x3059]))
      else if \<not> Phase_Valid (st_Phase s) then
        Some (NewError CodeInvalidState (''phase'' @ utf8 [0x304C, 0x4E0D, 0x6B63, 0x3067,
      0x3059]))
      else if \<exists>move \<in> set (elems (st_LegalMoves s)). \<not> InBounds (pos_Row move) (pos_Col move) then
        Some (NewError CodeInvalidState (''legalMoves'' @ utf8 [0x306B, 0x76E4, 0x5916, 0x306E,
      0x5EA7, 0x6A19, 0x304C, 0x3042, 0x308A, 0x307E, 0x3059]))
      else if st_Phase s = PhasePlaying then
        (if st_Winner s \<noteq> None then
           Some (NewError CodeInvalidState (''playing'' @ utf8 [0x4E2D,
      0x306F] @ ''winner'' @ utf8 [0x304C] @ ''null'' @ utf8 [0x3067, 0x3042, 0x308B, 0x5FC5,
      0x8981, 0x304C, 0x3042, 0x308A, 0x307E, 0x3059]))
         else None)
      else if st_Phase s = PhaseFinished then
        (case st_Winner s of
           None \<Rightarrow> Some (NewError CodeInvalidState (''finished'' @ utf8 [0x6642,
      0x306F] @ ''winner'' @ utf8 [0x304C, 0x5FC5, 0x8981, 0x3067, 0x3059]))
         | Some w \<Rightarrow>
             if \<not> Player_Valid w then Some (NewError CodeInvalidState (''winner'' @ utf8 [0x304C, 0x4E0D, 0x6B63, 0x3067, 0x3059]))
             else if length (elems (st_LegalMoves s)) \<noteq> 0 then
               Some (NewError CodeInvalidState (''finished'' @ utf8 [0x6642,
      0x306F] @ ''legalMoves'' @ utf8 [0x304C, 0x7A7A, 0x3067, 0x3042, 0x308B, 0x5FC5, 0x8981,
      0x304C, 0x3042, 0x308A, 0x307E, 0x3059]))
             else None)
      else None)"

definition Event_Validate :: "event \<Rightarrow> perror option" where
  "Event_Validate e =
     (if ev_CommandID e = '''' then
        Some (NewError CodeInvalidCommand (''event'' @ utf8 [0x306B] @ ''commandId'' @ utf8 [0x304C, 0x5FC5, 0x8981, 0x3067, 0x3059]))
      else if \<not> Player_Valid (ev_Player e) then
        Some (NewError CodeInvalidCommand (''event'' @ utf8 [0x306E] @ ''player'' @ utf8 [0x304C, 0x4E0D, 0x6B63, 0x3067, 0x3059]))
      else if ev_TurnNumber e < 1 then
        Some (NewError CodeInvalidCommand (''event'' @ utf8 [0x306E] @ ''turnNumber'' @ utf8 [0x306F] @ ''1'' @ utf8 [0x4EE5, 0x4E0A, 0x3067, 0x3042, 0x308B, 0x5FC5, 0x8981, 0x304C, 0x3042, 0x308A, 0x307E, 0x3059]))
      else if ev_Type e = EventPlaced then
        (case (ev_Row e, ev_Col e) of
           (Some row, Some col) \<Rightarrow>
             if \<not> InBounds row col then
               Some (NewError CodeInvalidCoordinate (''event'' @ utf8 [0x306E, 0x5EA7, 0x6A19,
      0x304C, 0x76E4, 0x5916, 0x3067, 0x3059]))
             else if ev_PlacedColor e = None then
               Some (NewError CodeInvalidCommand (''placed event'' @ utf8 [0x306B,
      0x306F] @ ''placedColor'' @ utf8 [0x304C, 0x5FC5, 0x8981, 0x3067, 0x3059]))
             else if \<exists>ch \<in> set (elems (ev_Changes e)). \<not> InBounds (ch_Row ch) (ch_Col ch) then
               Some (NewError CodeInvalidCoordinate (''changes'' @ utf8 [0x306B, 0x76E4,
      0x5916, 0x306E, 0x5EA7, 0x6A19, 0x304C, 0x3042, 0x308A, 0x307E, 0x3059]))
             else None
         | _ \<Rightarrow> Some (NewError CodeInvalidCommand (''placed event'' @ utf8 [0x306B,
      0x306F] @ ''row'' @ utf8 [0x3068] @ ''col'' @ utf8 [0x304C, 0x5FC5, 0x8981, 0x3067,
      0x3059])))
      else if ev_Type e = EventPassed then
        (if ev_Row e \<noteq> None \<or> ev_Col e \<noteq> None \<or> ev_PlacedColor e \<noteq> None
            \<or> length (elems (ev_Changes e)) > 0 then
           Some (NewError CodeInvalidCommand (''passed event'' @ utf8 [0x306F, 0x7740, 0x624B,
      0x60C5, 0x5831, 0x3092, 0x6301, 0x3066, 0x307E, 0x305B, 0x3093]))
         else None)
      else Some (NewError CodeInvalidCommand ((utf8 [0x672A, 0x5BFE, 0x5FDC,
      0x306E] @ ''event type'' @ utf8 [0x3067, 0x3059] @ '': '') @ quote (ev_Type e))))"

definition Request_Validate :: "request \<Rightarrow> perror option" where
  "Request_Validate r =
     (if rq_Version r \<noteq> Version then
        Some (NewError CodeUnsupportedVersion (utf8 [0x5BFE, 0x5FDC, 0x3057, 0x3066, 0x3044,
      0x306A, 0x3044, 0x30D0, 0x30FC, 0x30B8, 0x30E7, 0x30F3, 0x3067, 0x3059]))
      else if rq_Action r = ActionNewGame then
        (if rq_GameID r = '''' then Some (NewError CodeInvalidRequest (''gameId'' @ utf8 [0x304C, 0x5FC5, 0x8981, 0x3067, 0x3059]))
         else if rq_Seed r = None then Some (NewError CodeInvalidRequest (''seed'' @ utf8 [0x304C, 0x5FC5, 0x8981, 0x3067, 0x3059]))
         else if rq_State r \<noteq> None \<or> rq_Command r \<noteq> None then
           Some (NewError CodeInvalidRequest (''newGame'' @ utf8 [0x306F] @ ''state'' @ utf8 [0x3068] @ ''command'' @ utf8 [0x3092, 0x6301, 0x3066, 0x307E, 0x305B, 0x3093]))
         else None)
      else if rq_Action r = ActionApplyCommand then
        (case rq_State r of
           None \<Rightarrow> Some (NewError CodeInvalidRequest (''state'' @ utf8 [0x304C,
      0x5FC5, 0x8981, 0x3067, 0x3059]))
         | Some s \<Rightarrow>
             (case rq_Command r of
                None \<Rightarrow> Some (NewError CodeInvalidRequest (''command'' @ utf8 [0x304C, 0x5FC5, 0x8981, 0x3067, 0x3059]))
              | Some c \<Rightarrow>
                  if rq_GameID r \<noteq> '''' \<or> rq_Seed r \<noteq> None then
                    Some (NewError CodeInvalidRequest (''applyCommand'' @ utf8 [0x306F] @ ''gameId'' @ utf8 [0x3068] @ ''seed'' @ utf8 [0x3092, 0x6301, 0x3066, 0x307E, 0x305B, 0x3093]))
                  else
                    (case State_Validate s of
                       Some err \<Rightarrow> Some err
                     | None \<Rightarrow> Command_Validate c)))
      else Some (NewError CodeInvalidRequest ((utf8 [0x672A, 0x5BFE, 0x5FDC,
      0x306E] @ ''action'' @ utf8 [0x3067, 0x3059] @ '': '') @ quote (rq_Action r))))"

definition Response_Validate :: "response \<Rightarrow> perror option" where
  "Response_Validate r =
     (if rs_Version r \<noteq> Version then
        Some (NewError CodeUnsupportedVersion (utf8 [0x5BFE, 0x5FDC, 0x3057, 0x3066, 0x3044,
      0x306A, 0x3044, 0x30D0, 0x30FC, 0x30B8, 0x30E7, 0x30F3, 0x3067, 0x3059]))
      else if rs_OK r then
        (if rs_Error r \<noteq> None then
           Some (NewError CodeInvalidRequest (utf8 [0x6210, 0x529F, 0x5FDC, 0x7B54,
      0x306F] @ ''error'' @ utf8 [0x3092, 0x6301, 0x3066, 0x307E, 0x305B, 0x3093]))
         else
           (case rs_State r of
              None \<Rightarrow> Some (NewError CodeInvalidState (utf8 [0x6210, 0x529F, 0x5FDC,
      0x7B54, 0x306B, 0x306F] @ ''state'' @ utf8 [0x304C, 0x5FC5, 0x8981, 0x3067, 0x3059]))
            | Some s \<Rightarrow>
                (case State_Validate s of
                   Some err \<Rightarrow> Some err
                 | None \<Rightarrow>
                     (case rs_Event r of
                        Some e \<Rightarrow> Event_Validate e
                      | None \<Rightarrow> None))))
      else
        (case rs_Error r of
           None \<Rightarrow> Some (NewError CodeInvalidRequest (utf8 [0x62D2, 0x5426, 0x5FDC,
      0x7B54, 0x306B, 0x306F] @ ''error'' @ utf8 [0x304C, 0x5FC5, 0x8981, 0x3067, 0x3059]))
         | Some e \<Rightarrow>
             if \<not> ErrorCode_Valid (pe_Code e) then
               Some (NewError CodeInvalidRequest ((utf8 [0x672A, 0x77E5,
      0x306E] @ ''error code'' @ utf8 [0x3067, 0x3059] @ '': '') @ quote (pe_Code e)))
             else if pe_Message e = '''' then
               Some (NewError CodeInvalidRequest (''error'' @ utf8 [0x306B] @ ''message'' @ utf8 [0x304C, 0x5FC5, 0x8981, 0x3067, 0x3059]))
             else if rs_Event r \<noteq> None then
               Some (NewError CodeInvalidRequest (utf8 [0x62D2, 0x5426, 0x5FDC, 0x7B54,
      0x306F] @ ''event'' @ utf8 [0x3092, 0x6301, 0x3066, 0x307E, 0x305B, 0x3093]))
             else
               (case rs_State r of
                  Some s \<Rightarrow> State_Validate s
                | None \<Rightarrow> None)))"

section \<open>Lemmas\<close>

subsection \<open>Cloning\<close>

lemma Board_Clone_id [simp, clone_simps]: "Board_Clone b = b"
proof -
  have "map (\<lambda>cell. case cell of None \<Rightarrow> None | Some c \<Rightarrow> NewCell c) cs = cs" for cs
    by (rule map_idI) (simp add: NewCell_def split: option.split)
  then show ?thesis by (simp add: Board_Clone_def split: option.split)
qed

lemma State_Clone_eq: "State_Clone s = s\<lparr>st_LegalMoves := slice_copy (st_LegalMoves s)\<rparr>"
  by (cases s) (simp add: State_Clone_def split: option.split)

lemma State_Clone_fields [simp, clone_simps]:
  "st_Version (State_Clone s) = st_Version s"
  "st_GameID (State_Clone s) = st_GameID s"
  "st_Board (State_Clone s) = st_Board s"
  "st_TurnNumber (State_Clone s) = st_TurnNumber s"
  "st_CurrentPlayer (State_Clone s) = st_CurrentPlayer s"
  "st_NextColor (State_Clone s) = st_NextColor s"
  "st_RNGState (State_Clone s) = st_RNGState s"
  "st_ConsecutivePasses (State_Clone s) = st_ConsecutivePasses s"
  "st_Phase (State_Clone s) = st_Phase s"
  "st_Winner (State_Clone s) = st_Winner s"
  "elems (st_LegalMoves (State_Clone s)) = elems (st_LegalMoves s)"
  by (simp_all add: State_Clone_eq)

lemma State_Clone_idem [simp, clone_simps]: "State_Clone (State_Clone s) = State_Clone s"
  by (simp add: State_Clone_eq)

lemma State_Clone_id_iff: "State_Clone s = s \<longleftrightarrow> st_LegalMoves s \<noteq> Some []"
  by (cases s) (simp add: State_Clone_eq slice_copy_id_iff)

lemma IsLegalMove_Clone [simp, clone_simps]:
  "IsLegalMove (State_Clone s) row col = IsLegalMove s row col"
  by (simp add: IsLegalMove_def)

text \<open>
  Two states that a client cannot tell apart: all fields equal, the lists of legal moves having
  the same elements. Cloning maps a state to the representative of its class.
\<close>

definition same_state :: "state \<Rightarrow> state \<Rightarrow> bool" where
  "same_state s t \<longleftrightarrow> State_Clone s = State_Clone t"

lemma same_state_refl [simp]: "same_state s s"
  by (simp add: same_state_def)

lemma same_state_Clone [simp, clone_simps]:
  "same_state (State_Clone s) t = same_state s t" "same_state s (State_Clone t) = same_state s t"
  by (simp_all add: same_state_def)

subsection \<open>Acceptance conditions\<close>

lemma InBounds_iff [valid_simps]: "InBounds row col \<longleftrightarrow> 0 \<le> row \<and> row < 8 \<and> 0 \<le> col \<and> col < 8"
  by (auto simp: InBounds_def BoardSize_def)

lemma BoardCells_eq [simp]: "BoardCells = 64"
  by (simp add: BoardCells_def BoardSize_def)

lemma Board_Validate_None [valid_simps]: "Board_Validate b = None \<longleftrightarrow> length (elems b) = 64"
  by (auto simp: Board_Validate_def)

lemma Command_Validate_None [valid_simps]:
  "Command_Validate c = None \<longleftrightarrow>
     cm_CommandID c \<noteq> '''' \<and> Player_Valid (cm_Player c) \<and> 0 \<le> cm_ExpectedTurn c \<and>
     (cm_Type c = CommandPlace \<and>
        (\<exists>row col. cm_Row c = Some row \<and> cm_Col c = Some col \<and> InBounds row col) \<or>
      cm_Type c = CommandPass \<and> cm_Row c = None \<and> cm_Col c = None)"
  by (auto simp: Command_Validate_def split: option.splits)

lemma State_Validate_None [valid_simps]:
  "State_Validate s = None \<longleftrightarrow>
     st_Version s = Version \<and> st_GameID s \<noteq> '''' \<and> length (elems (st_Board s)) = 64 \<and>
     0 \<le> st_TurnNumber s \<and> Player_Valid (st_CurrentPlayer s) \<and>
     0 \<le> st_ConsecutivePasses s \<and> st_ConsecutivePasses s \<le> 2 \<and>
     list_all (\<lambda>m. InBounds (pos_Row m) (pos_Col m)) (elems (st_LegalMoves s)) \<and>
     (st_Phase s = PhasePlaying \<and> st_Winner s = None \<or>
      st_Phase s = PhaseFinished \<and>
        (\<exists>w. st_Winner s = Some w \<and> Player_Valid w) \<and> elems (st_LegalMoves s) = [])"
proof -
  have 1: "(\<exists>move\<in>set (elems (st_LegalMoves s)). \<not> InBounds (pos_Row move) (pos_Col move)) \<longleftrightarrow>
      \<not> list_all (\<lambda>m. InBounds (pos_Row m) (pos_Col m)) (elems (st_LegalMoves s))"
    by (simp add: list_all_iff)
  have 2: "Board_Validate (st_Board s) = None \<longleftrightarrow> length (elems (st_Board s)) = 64"
    by (rule Board_Validate_None)
  show ?thesis
    unfolding State_Validate_def 1
    by (cases "Board_Validate (st_Board s)")
      (auto simp: 2[symmetric] Phase_Valid_def split: option.splits)
qed

lemma Event_Validate_None [valid_simps]:
  "Event_Validate e = None \<longleftrightarrow>
     ev_CommandID e \<noteq> '''' \<and> Player_Valid (ev_Player e) \<and> 1 \<le> ev_TurnNumber e \<and>
     (ev_Type e = EventPlaced \<and>
        (\<exists>row col. ev_Row e = Some row \<and> ev_Col e = Some col \<and> InBounds row col) \<and>
        ev_PlacedColor e \<noteq> None \<and>
        list_all (\<lambda>ch. InBounds (ch_Row ch) (ch_Col ch)) (elems (ev_Changes e)) \<or>
      ev_Type e = EventPassed \<and> ev_Row e = None \<and> ev_Col e = None \<and> ev_PlacedColor e = None \<and>
        elems (ev_Changes e) = [])"
  by (auto simp: Event_Validate_def list_all_iff split: option.splits)

lemma Request_Validate_None [valid_simps]:
  "Request_Validate r = None \<longleftrightarrow>
     rq_Version r = Version \<and>
     (rq_Action r = ActionNewGame \<and> rq_GameID r \<noteq> '''' \<and> rq_Seed r \<noteq> None \<and>
        rq_State r = None \<and> rq_Command r = None \<or>
      rq_Action r = ActionApplyCommand \<and> rq_GameID r = '''' \<and> rq_Seed r = None \<and>
        (\<exists>s c. rq_State r = Some s \<and> rq_Command r = Some c \<and>
           State_Validate s = None \<and> Command_Validate c = None))"
  by (auto simp: Request_Validate_def split: option.splits)

lemma Response_Validate_None [valid_simps]:
  "Response_Validate r = None \<longleftrightarrow>
     rs_Version r = Version \<and>
     (rs_OK r \<and> rs_Error r = None \<and>
        (\<exists>s. rs_State r = Some s \<and> State_Validate s = None) \<and>
        pred_option (\<lambda>e. Event_Validate e = None) (rs_Event r) \<or>
      \<not> rs_OK r \<and>
        (\<exists>e. rs_Error r = Some e \<and> ErrorCode_Valid (pe_Code e) \<and> pe_Message e \<noteq> '''') \<and>
        rs_Event r = None \<and> pred_option (\<lambda>s. State_Validate s = None) (rs_State r))"
  by (auto simp: Response_Validate_def split: option.splits)

lemma State_Validate_Clone [simp, clone_simps]:
  "State_Validate (State_Clone s) = None \<longleftrightarrow> State_Validate s = None"
  by (simp add: State_Validate_None)

lemma Opponent_Valid [simp]: "Player_Valid (Opponent p)"
  by (simp add: Opponent_def Player_Valid_def)

lemma Opponent_Opponent [simp]: "Player_Valid p \<Longrightarrow> Opponent (Opponent p) = p"
  by (auto simp: Opponent_def Player_Valid_def)

lemma Opponent_neq [simp]: "Opponent p \<noteq> p"
  by (simp add: Opponent_def)

text \<open>
  The error code of a rejection by the command validator is one of the contract's, and its
  message is not empty: a validator's error can be sent as it is.
\<close>

lemma Command_Validate_code:
  "Command_Validate c = Some e \<Longrightarrow> ErrorCode_Valid (pe_Code e) \<and> pe_Message e \<noteq> ''''"
  by (auto simp: Command_Validate_def NewError_def ErrorCode_Valid_def errorCodes_def
      split: if_splits option.splits)

end
