(* ===== verification/Rules.thy ===== *)
theory Rules
  imports Protocol
begin

text \<open>
  The rule engine \<open>rules/game/rules.nako3\<close>, the program that the Go server runs to judge every
  command. Its values arrive as JSON that the Go side has validated, so its objects are the typed
  records of \<open>Protocol\<close>; a test such as \<open>INT(x) != x\<close> cannot fail on them and is left out. The
  functions follow the file's order; the Japanese names are given in English:
  \<open>lcg_next\<close> (LCG next state), \<open>color_of\<close> (take colour), \<open>in_board\<close>, \<open>board_index\<close>,
  \<open>opponent_of\<close>, \<open>sandwich_lines\<close> (take sandwich lines), \<open>legal_moves\<close>, \<open>board_full\<close>,
  \<open>winner_of\<close>, \<open>state_valid\<close>, \<open>error_response\<close>, \<open>new_game\<close>, \<open>apply_place\<close>, \<open>apply_pass\<close>
  and \<open>evaluate\<close> (evaluate request).
\<close>

section \<open>Definitions\<close>

subsection \<open>Random numbers and coordinates\<close>

definition directions :: "(int \<times> int) list" where
  "directions = [(-1,-1), (-1,0), (-1,1), (0,-1), (0,1), (1,-1), (1,0), (1,1)]"

definition lcg_next :: "32 word \<Rightarrow> 32 word" where
  "lcg_next rng =
     (let r = (int (unat rng) * 1664525 + 1013904223) mod 4294967296;
          r = (if r < 0 then r + 4294967296 else r)
      in of_int r)"

definition color_of :: "32 word \<Rightarrow> 8 word" where
  "color_of rng = of_nat (unat rng div 16777216)"

definition in_board :: "int \<Rightarrow> int \<Rightarrow> bool" where
  "in_board row col \<longleftrightarrow> row \<ge> 0 \<and> row < 8 \<and> col \<ge> 0 \<and> col < 8"

definition board_index :: "int \<Rightarrow> int \<Rightarrow> nat" where
  "board_index row col = nat (row * 8 + col)"

definition opponent_of :: "string \<Rightarrow> string" where
  "opponent_of p = (if p = ''dark'' then ''light'' else ''dark'')"

subsection \<open>Sandwiched lines and legal moves\<close>

text \<open>
  The inner loop: collect the squares in one direction while they are on the board and occupied.
  A step moves at least one square, so the loop leaves the board within 8 iterations; the fuel is
  8 (\<open>walk_enough\<close> below shows that more changes nothing).
\<close>

fun walk :: "nat \<Rightarrow> cell list \<Rightarrow> int \<Rightarrow> int \<Rightarrow> int \<Rightarrow> int \<Rightarrow> nat list" where
  "walk 0 b row col dr dc = []"
| "walk (Suc fuel) b row col dr dc =
     (if in_board row col then
        (let i = board_index row col in
         if b ! i = None then []
         else i # walk fuel b (row + dr) (col + dc) dr dc)
      else [])"

record line =
  ln_FixedIndex :: nat
  ln_Targets :: "nat list"

definition sandwich_lines :: "cell list \<Rightarrow> int \<Rightarrow> int \<Rightarrow> line list" where
  "sandwich_lines b row col =
     concat (map (\<lambda>(dr, dc).
       let w = walk 8 b (row + dr) (col + dc) dr dc; n = length w in
       if n \<ge> 2 then [\<lparr>ln_FixedIndex = w ! (n - 1), ln_Targets = map (\<lambda>k. w ! k) [0..<n - 1]\<rparr>]
       else []) directions)"

definition legal_moves :: "cell list \<Rightarrow> position list" where
  "legal_moves b =
     concat (map (\<lambda>row.
       concat (map (\<lambda>col.
         if b ! board_index row col = None \<and> length (sandwich_lines b row col) > 0
         then [\<lparr>pos_Row = row, pos_Col = col\<rparr>] else []) [0..7])) [0..7])"

definition board_full :: "cell list \<Rightarrow> bool" where
  "board_full b \<longleftrightarrow> list_all (\<lambda>i. b ! i \<noteq> None) [0..<64]"

definition winner_of :: "cell list \<Rightarrow> string" where
  "winner_of b =
     (let (color_sum, pieces) =
        foldl (\<lambda>(color_sum, pieces) i.
            case b ! i of
              None \<Rightarrow> (color_sum, pieces)
            | Some c \<Rightarrow> (color_sum + int (unat c), pieces + 1)) (0, 0) [0..<64]
      in if 2 * color_sum < pieces * 255 then ''dark'' else ''light'')"

subsection \<open>State check and responses\<close>

definition state_valid :: "state \<Rightarrow> bool" where
  "state_valid s =
     (if st_Version s \<noteq> ''1'' then False
      else if st_GameID s = '''' then False
      else if length (elems (st_Board s)) \<noteq> 64 then False
      else if st_CurrentPlayer s \<noteq> ''dark'' \<and> st_CurrentPlayer s \<noteq> ''light'' then False
      else if st_TurnNumber s < 0 then False
      else if st_ConsecutivePasses s < 0 \<or> st_ConsecutivePasses s > 2 then False
      else if st_Phase s \<noteq> ''playing'' \<and> st_Phase s \<noteq> ''finished'' then False
      else if st_Phase s = ''playing'' \<and> st_Winner s \<noteq> None then False
      else if st_Phase s \<noteq> ''playing'' \<and> st_Winner s \<noteq> Some ''dark'' \<and> st_Winner s \<noteq> Some ''light''
      then False
      else if st_Phase s \<noteq> ''playing'' \<and> length (elems (st_LegalMoves s)) \<noteq> 0 then False
      else list_all (\<lambda>m. \<not> (pos_Row m < 0 \<or> pos_Row m > 7 \<or> pos_Col m < 0 \<or> pos_Col m > 7))
             (elems (st_LegalMoves s)))"

definition error_response :: "string \<Rightarrow> string \<Rightarrow> state option \<Rightarrow> response" where
  "error_response code message s =
     \<lparr>rs_Version = ''1'', rs_OK = False, rs_State = s, rs_Event = None,
      rs_Error = Some \<lparr>pe_Code = code, pe_Message = message\<rparr>\<rparr>"

definition ok_response :: "state \<Rightarrow> event option \<Rightarrow> response" where
  "ok_response s e =
     \<lparr>rs_Version = ''1'', rs_OK = True, rs_State = Some s, rs_Event = e, rs_Error = None\<rparr>"

definition new_game :: "string \<Rightarrow> 32 word \<Rightarrow> state" where
  "new_game gameId seed =
     (let b = (replicate 64 None)[27 := Some 0, 28 := Some 255, 35 := Some 255, 36 := Some 0];
          rng = lcg_next seed
      in \<lparr>st_Version = ''1'', st_GameID = gameId, st_Board = Some b, st_TurnNumber = 0,
          st_CurrentPlayer = ''dark'', st_NextColor = color_of rng, st_RNGState = rng,
          st_ConsecutivePasses = 0, st_Phase = ''playing'', st_Winner = None,
          st_LegalMoves = Some (legal_moves b)\<rparr>)"

subsection \<open>Placing and passing\<close>

text \<open>The number a cell holds. The engine reads only cells that a walk found occupied.\<close>

definition cell_color :: "cell \<Rightarrow> nat" where
  "cell_color c = (case c of None \<Rightarrow> 0 | Some v \<Rightarrow> unat v)"

definition mix_color :: "8 word \<Rightarrow> cell \<Rightarrow> cell \<Rightarrow> 8 word" where
  "mix_color placed fixed target =
     of_nat ((unat placed + cell_color fixed + cell_color target) div 3)"

text \<open>
  The two nested loops over lines and targets: every new colour is computed from the old board
  \<open>ob\<close> and written to the new board, and a change is recorded.
\<close>

definition flip_target ::
  "cell list \<Rightarrow> 8 word \<Rightarrow> cell \<Rightarrow> cell list \<times> change list \<Rightarrow> nat \<Rightarrow> cell list \<times> change list" where
  "flip_target ob placed fixed acc t =
     (let v = mix_color placed fixed (ob ! t)
      in ((fst acc)[t := Some v],
          snd acc @ [\<lparr>ch_Row = int (t div 8), ch_Col = int (t mod 8), ch_Color = v\<rparr>]))"

definition flip_line ::
  "cell list \<Rightarrow> 8 word \<Rightarrow> cell list \<times> change list \<Rightarrow> line \<Rightarrow> cell list \<times> change list" where
  "flip_line ob placed acc ln =
     foldl (flip_target ob placed (ob ! ln_FixedIndex ln)) acc (ln_Targets ln)"

definition flip_lines :: "cell list \<Rightarrow> 8 word \<Rightarrow> line list \<Rightarrow> cell list \<times> change list" where
  "flip_lines ob placed lns = foldl (flip_line ob placed) (ob, []) lns"

text \<open>The part of both handlers that ends the game or lists the next legal moves.\<close>

definition apply_place :: "state \<Rightarrow> string \<Rightarrow> int \<Rightarrow> int \<Rightarrow> response" where
  "apply_place s commandId row col =
     (if row < 0 \<or> row > 7 \<or> col < 0 \<or> col > 7 then
        error_response ''invalid_coordinate'' (utf8 [0x884C, 0x3068, 0x5217,
      0x306F] @ ''0'' @ utf8 [0x304B, 0x3089] @ ''7'' @ utf8 [0x306E, 0x6574, 0x6570, 0x3067,
      0x6307, 0x5B9A, 0x3057, 0x3066, 0x304F, 0x3060, 0x3055, 0x3044]) (Some s)
      else
      let ob = elems (st_Board s); i = board_index row col in
      if ob ! i \<noteq> None then
        error_response ''occupied'' (utf8 [0x305D, 0x306E, 0x30DE, 0x30B9, 0x306B, 0x306F,
      0x65E2, 0x306B, 0x99D2, 0x304C, 0x3042, 0x308A, 0x307E, 0x3059]) (Some s)
      else
      let lns = sandwich_lines ob row col in
      if length lns = 0 then
        error_response ''illegal_move'' (utf8 [0x305D, 0x306E, 0x4F4D, 0x7F6E, 0x3067, 0x306F,
      0x99D2, 0x3092, 0x631F, 0x3081, 0x307E, 0x305B, 0x3093]) (Some s)
      else
      let placed = st_NextColor s;
          (flipped, changes) = flip_lines ob placed lns;
          nb = flipped[i := Some placed];
          rng = lcg_next (st_RNGState s);
          s1 = s\<lparr>st_Board := Some nb,
                 st_TurnNumber := st_TurnNumber s + 1,
                 st_CurrentPlayer := opponent_of (st_CurrentPlayer s),
                 st_ConsecutivePasses := 0,
                 st_RNGState := rng,
                 st_NextColor := color_of rng\<rparr>;
          s2 = (if board_full nb then
                  s1\<lparr>st_Phase := ''finished'', st_Winner := Some (winner_of nb),
                     st_LegalMoves := Some []\<rparr>
                else s1\<lparr>st_LegalMoves := Some (legal_moves nb)\<rparr>)
      in ok_response s2
           (Some \<lparr>ev_CommandID = commandId, ev_Type = ''placed'',
                  ev_Player = st_CurrentPlayer s, ev_TurnNumber = st_TurnNumber s2,
                  ev_Row = Some row, ev_Col = Some col, ev_PlacedColor = Some placed,
                  ev_Changes = Some changes\<rparr>))"

definition apply_pass :: "state \<Rightarrow> string \<Rightarrow> response" where
  "apply_pass s commandId =
     (let b = elems (st_Board s) in
      if length (legal_moves b) > 0 then
        error_response ''pass_not_allowed'' (utf8 [0x5408, 0x6CD5, 0x624B, 0x304C, 0x3042,
      0x308B, 0x305F, 0x3081, 0x30D1, 0x30B9, 0x3067, 0x304D, 0x307E, 0x305B, 0x3093]) (Some s)
      else
      let rng = lcg_next (st_RNGState s);
          s1 = s\<lparr>st_TurnNumber := st_TurnNumber s + 1,
                 st_CurrentPlayer := opponent_of (st_CurrentPlayer s),
                 st_ConsecutivePasses := st_ConsecutivePasses s + 1,
                 st_RNGState := rng,
                 st_NextColor := color_of rng\<rparr>;
          s2 = (if st_ConsecutivePasses s1 \<ge> 2 then
                  s1\<lparr>st_Phase := ''finished'', st_Winner := Some (winner_of b),
                     st_LegalMoves := Some []\<rparr>
                else s1\<lparr>st_LegalMoves := Some (legal_moves b)\<rparr>)
      in ok_response s2
           (Some \<lparr>ev_CommandID = commandId, ev_Type = ''passed'',
                  ev_Player = st_CurrentPlayer s, ev_TurnNumber = st_TurnNumber s2,
                  ev_Row = None, ev_Col = None, ev_PlacedColor = None, ev_Changes = None\<rparr>))"

subsection \<open>Evaluating a request\<close>

text \<open>
  The checks of \<open>applyCommand\<close> in their order; \<open>None\<close> when the command goes on to
  \<open>apply_place\<close> or \<open>apply_pass\<close>.
\<close>

definition command_check :: "state \<Rightarrow> command \<Rightarrow> response option" where
  "command_check s c =
     (if cm_CommandID c = '''' then
        Some (error_response ''invalid_command'' (''commandId'' @ utf8 [0x304C, 0x5FC5, 0x8981,
      0x3067, 0x3059]) (Some s))
      else if cm_Type c \<noteq> ''place'' \<and> cm_Type c \<noteq> ''pass'' then
        Some (error_response ''invalid_command'' (''type'' @ utf8 [0x306F] @ ''place'' @ utf8 [0x307E, 0x305F, 0x306F] @ ''pass'' @ utf8 [0x3067, 0x3059]) (Some s))
      else if cm_Player c \<noteq> ''dark'' \<and> cm_Player c \<noteq> ''light'' then
        Some (error_response ''invalid_command'' (''player'' @ utf8 [0x304C, 0x4E0D, 0x6B63,
      0x3067, 0x3059]) (Some s))
      else if cm_ExpectedTurn c < 0 then
        Some (error_response ''invalid_command'' (''expectedTurn'' @ utf8 [0x304C, 0x4E0D,
      0x6B63, 0x3067, 0x3059]) (Some s))
      else if cm_Type c = ''place'' \<and> (cm_Row c = None \<or> cm_Col c = None) then
        Some (error_response ''invalid_command'' (''place'' @ utf8 [0x306B,
      0x306F] @ ''row'' @ utf8 [0x3068] @ ''col'' @ utf8 [0x304C, 0x5FC5, 0x8981, 0x3067,
      0x3059]) (Some s))
      else if st_Phase s = ''finished'' then
        Some (error_response ''game_finished'' (utf8 [0x30B2, 0x30FC, 0x30E0, 0x306F, 0x7D42,
      0x4E86, 0x3057, 0x3066, 0x3044, 0x307E, 0x3059]) (Some s))
      else if cm_ExpectedTurn c \<noteq> st_TurnNumber s then
        Some (error_response ''stale_turn'' (utf8 [0x53E4, 0x3044, 0x624B, 0x756A, 0x306E,
      0x30B3, 0x30DE, 0x30F3, 0x30C9, 0x3067, 0x3059]) (Some s))
      else if cm_Player c \<noteq> st_CurrentPlayer s then
        Some (error_response ''not_your_turn'' (utf8 [0x73FE, 0x5728, 0x306E, 0x624B, 0x756A,
      0x3067, 0x306F, 0x3042, 0x308A, 0x307E, 0x305B, 0x3093]) (Some s))
      else None)"

definition apply_command :: "state \<Rightarrow> command \<Rightarrow> response" where
  "apply_command s c =
     (case command_check s c of
        Some r \<Rightarrow> r
      | None \<Rightarrow>
          if cm_Type c = ''place'' then
            apply_place s (cm_CommandID c) (the (cm_Row c)) (the (cm_Col c))
          else apply_pass s (cm_CommandID c))"

definition evaluate :: "request \<Rightarrow> response" where
  "evaluate q =
     (if rq_Version q \<noteq> ''1'' then
        error_response ''unsupported_version'' (utf8 [0x5BFE, 0x5FDC, 0x3057, 0x3066, 0x3044,
      0x306A, 0x3044, 0x30D0, 0x30FC, 0x30B8, 0x30E7, 0x30F3, 0x3067, 0x3059]) None
      else if rq_Action q = ''newGame'' then
        (case rq_Seed q of
           None \<Rightarrow> error_response ''invalid_request'' (''gameId'' @ utf8 [0x3068] @ ''seed'' @ utf8 [0x304C, 0x5FC5, 0x8981, 0x3067, 0x3059]) None
         | Some seed \<Rightarrow>
             if rq_GameID q = '''' then
               error_response ''invalid_request'' (''gameId'' @ utf8 [0x3068] @ ''seed'' @ utf8 [0x304C, 0x5FC5, 0x8981, 0x3067, 0x3059]) None
             else ok_response (new_game (rq_GameID q) seed) None)
      else if rq_Action q \<noteq> ''applyCommand'' then
        error_response ''invalid_request'' (''action'' @ utf8 [0x306F] @ ''newGame'' @ utf8 [0x307E, 0x305F, 0x306F] @ ''applyCommand'' @ utf8 [0x3067, 0x3059]) None
      else
        (case (rq_State q, rq_Command q) of
           (Some s, Some c) \<Rightarrow>
             if \<not> state_valid s then
               error_response ''invalid_state'' (utf8 [0x30B2, 0x30FC, 0x30E0, 0x72B6, 0x614B,
      0x304C, 0x4E0D, 0x6B63, 0x3067, 0x3059]) None
             else apply_command s c
         | _ \<Rightarrow> error_response ''invalid_request'' (''state'' @ utf8 [0x3068] @ ''command'' @ utf8 [0x304C, 0x5FC5, 0x8981, 0x3067, 0x3059]) None))"

end
