(* ===== verification/RulesLemmas.thy ===== *)
theory RulesLemmas
  imports Rules "HOL-Library.Multiset"
begin

text \<open>
  Lemmas on the rule engine: the geometry of the eight directions, what a placement does to the
  board, and which moves are legal.
\<close>

section \<open>Directions and walks\<close>

lemma directions_iff:
  "(dr, dc) \<in> set directions \<longleftrightarrow>
     dr \<in> {-1, 0, 1} \<and> dc \<in> {-1, 0, 1} \<and> (dr, dc) \<noteq> (0, 0)"
  by (auto simp: directions_def)

lemma distinct_directions: "distinct directions"
  by (simp add: directions_def)

lemma in_board_InBounds: "in_board row col = InBounds row col"
  by (auto simp: in_board_def InBounds_iff)

lemma board_index_less: "in_board row col \<Longrightarrow> board_index row col < 64"
  unfolding in_board_def board_index_def by linarith

lemma board_index_inj:
  assumes "in_board r c" "in_board r' c'"
  shows "board_index r c = board_index r' c' \<longleftrightarrow> r = r' \<and> c = c'"
proof
  assume "board_index r c = board_index r' c'"
  then have e: "r * 8 + c = r' * 8 + c'"
    using assms unfolding in_board_def board_index_def by linarith
  have "(r * 8 + c) div 8 = r" "(r' * 8 + c') div 8 = r'"
    using assms by (simp_all add: in_board_def)
  with e have "r = r'" by metis
  with e show "r = r' \<and> c = c'" by linarith
qed simp

lemma board_index_div_mod:
  assumes "in_board r c"
  shows "int (board_index r c div 8) = r" "int (board_index r c mod 8) = c"
  using assms by (simp_all add: in_board_def board_index_def zdiv_int zmod_int)

lemma board_index_surj: "i < 64 \<Longrightarrow> \<exists>r c. in_board r c \<and> i = board_index r c"
proof (intro exI conjI)
  assume "i < 64"
  then show "in_board (int (i div 8)) (int (i mod 8))"
    unfolding in_board_def by simp
  have "int (i div 8) * 8 + int (i mod 8) = int i"
    by (metis div_mult_mod_eq of_nat_add of_nat_mult of_nat_numeral)
  then show "i = board_index (int (i div 8)) (int (i mod 8))"
    unfolding board_index_def by simp
qed

lemma length_walk: "length (walk f b r c dr dc) \<le> f"
  by (induction f arbitrary: r c) (auto simp: Let_def)

lemma walk_nth:
  "k < length (walk f b r c dr dc) \<Longrightarrow>
     in_board (r + int k * dr) (c + int k * dc) \<and>
     walk f b r c dr dc ! k = board_index (r + int k * dr) (c + int k * dc) \<and>
     b ! board_index (r + int k * dr) (c + int k * dc) \<noteq> None"
proof (induction f arbitrary: r c k)
  case 0
  then show ?case by simp
next
  case (Suc f)
  show ?case
  proof (cases k)
    case 0
    with Suc.prems show ?thesis by (auto simp: Let_def split: if_splits)
  next
    case (Suc j)
    with Suc.prems have j: "j < length (walk f b (r + dr) (c + dc) dr dc)"
      and w: "walk (Suc f) b r c dr dc = board_index r c # walk f b (r + dr) (c + dc) dr dc"
      by (auto simp: Let_def split: if_splits)
    have e: "r + int (Suc j) * dr = (r + dr) + int j * dr"
      "c + int (Suc j) * dc = (c + dc) + int j * dc"
      by (simp_all add: algebra_simps)
    show ?thesis
      using Suc.IH[OF j] unfolding Suc w nth_Cons_Suc e by blast
  qed
qed

text \<open>The walk goes on exactly as long as the squares are on the board and occupied.\<close>

lemma walk_longer:
  assumes "\<And>j. j \<le> k \<Longrightarrow> in_board (r + int j * dr) (c + int j * dc) \<and>
             b ! board_index (r + int j * dr) (c + int j * dc) \<noteq> None" and "k < f"
  shows "k < length (walk f b r c dr dc)"
  using assms
proof (induction f arbitrary: r c k)
  case 0
  then show ?case by simp
next
  case (Suc f)
  from Suc.prems(1)[of 0] have w:
    "walk (Suc f) b r c dr dc = board_index r c # walk f b (r + dr) (c + dc) dr dc"
    by (simp add: Let_def)
  show ?case
  proof (cases k)
    case 0
    with w show ?thesis by simp
  next
    case (Suc k')
    have "k' < length (walk f b (r + dr) (c + dc) dr dc)"
    proof (rule Suc.IH)
      fix j assume "j \<le> k'"
      then show "in_board (r + dr + int j * dr) (c + dc + int j * dc) \<and>
             b ! board_index (r + dr + int j * dr) (c + dc + int j * dc) \<noteq> None"
        using Suc.prems(1)[of "Suc j"] Suc by (simp add: algebra_simps)
    qed (use Suc.prems(2) Suc in simp)
    with w Suc show ?thesis by simp
  qed
qed

lemma walk_fuel:
  assumes "\<not> in_board (r + int k * dr) (c + int k * dc)" and "k \<le> f"
  shows "walk (f + n) b r c dr dc = walk f b r c dr dc"
  using assms
proof (induction f arbitrary: r c k)
  case 0
  then show ?case by (cases n) simp_all
next
  case (Suc f)
  show ?case
  proof (cases k)
    case 0
    with Suc.prems show ?thesis by simp
  next
    case (Suc k')
    have "walk (f + n) b (r + dr) (c + dc) dr dc = walk f b (r + dr) (c + dc) dr dc"
      by (rule Suc.IH[of _ k']) (use Suc.prems Suc in \<open>simp_all add: algebra_simps\<close>)
    then show ?thesis by (simp add: Let_def)
  qed
qed

lemma walk_enough:
  assumes "(dr, dc) \<in> set directions"
  shows "walk (8 + n) b r c dr dc = walk 8 b r c dr dc"
proof (cases "in_board r c")
  case True
  then have "\<not> in_board (r + int 8 * dr) (c + int 8 * dc)"
    using assms by (auto simp: directions_iff in_board_def)
  then show ?thesis by (rule walk_fuel) simp
next
  case False
  then show ?thesis by (intro walk_fuel[of _ 0]) simp_all
qed

text \<open>Different directions from the same square never meet.\<close>

lemma rays_disjoint:
  assumes "(dr, dc) \<in> set directions" "(dr', dc') \<in> set directions"
    and "int (Suc k) * dr = int (Suc k') * dr'" "int (Suc k) * dc = int (Suc k') * dc'"
  shows "(dr, dc) = (dr', dc') \<and> k = k'"
  using assms by (auto simp: directions_iff)

abbreviation ray :: "cell list \<Rightarrow> int \<Rightarrow> int \<Rightarrow> int \<times> int \<Rightarrow> nat list" where
  "ray b r c d \<equiv> walk 8 b (r + fst d) (c + snd d) (fst d) (snd d)"

lemma ray_nth:
  assumes "k < length (ray b r c (dr, dc))"
  shows "in_board (r + int (Suc k) * dr) (c + int (Suc k) * dc)"
    "ray b r c (dr, dc) ! k = board_index (r + int (Suc k) * dr) (c + int (Suc k) * dc)"
    "b ! (ray b r c (dr, dc) ! k) \<noteq> None"
proof -
  have e: "r + int (Suc k) * dr = r + dr + int k * dr" "c + int (Suc k) * dc = c + dc + int k * dc"
    by (simp_all add: algebra_simps)
  show "in_board (r + int (Suc k) * dr) (c + int (Suc k) * dc)"
    "ray b r c (dr, dc) ! k = board_index (r + int (Suc k) * dr) (c + int (Suc k) * dc)"
    "b ! (ray b r c (dr, dc) ! k) \<noteq> None"
    using walk_nth[of k 8 b "r + dr" "c + dc" dr dc] assms unfolding e by auto
qed

lemma ray_disjoint:
  assumes "d \<in> set directions" "d' \<in> set directions"
    and "k < length (ray b r c d)" "k' < length (ray b r c d')"
    and "ray b r c d ! k = ray b r c d' ! k'"
  shows "d = d' \<and> k = k'"
proof -
  obtain dr dc dr' dc' where d: "d = (dr, dc)" "d' = (dr', dc')" by fastforce
  note n = ray_nth[where k = k and dr = dr and dc = dc and r = r and c = c and b = b]
    ray_nth[where k = k' and dr = dr' and dc = dc' and r = r and c = c and b = b]
  have "board_index (r + int (Suc k) * dr) (c + int (Suc k) * dc) =
        board_index (r + int (Suc k') * dr') (c + int (Suc k') * dc')"
    using n assms(3-5) unfolding d by simp
  then have "r + int (Suc k) * dr = r + int (Suc k') * dr' \<and>
             c + int (Suc k) * dc = c + int (Suc k') * dc'"
    using board_index_inj n assms(3,4) unfolding d by blast
  then have "int (Suc k) * dr = int (Suc k') * dr'" "int (Suc k) * dc = int (Suc k') * dc'"
    by linarith+
  with rays_disjoint assms(1,2) show ?thesis unfolding d by blast
qed

lemma ray_origin: "in_board r c \<Longrightarrow> d \<in> set directions \<Longrightarrow> board_index r c \<notin> set (ray b r c d)"
proof
  assume a: "in_board r c" "d \<in> set directions" "board_index r c \<in> set (ray b r c d)"
  obtain dr dc where d: "d = (dr, dc)" by fastforce
  from a(3) obtain k where k: "k < length (ray b r c d)" "ray b r c d ! k = board_index r c"
    by (auto simp: in_set_conv_nth)
  then have "r = r + int (Suc k) * dr \<and> c = c + int (Suc k) * dc"
    using ray_nth(1,2)[where k = k and dr = dr and dc = dc and r = r and c = c and b = b]
      a(1) board_index_inj unfolding d by metis
  then show False using a(2) unfolding d by (auto simp: directions_iff)
qed

section \<open>The simultaneous colour change\<close>

text \<open>
  The rules document describes a move without any order of writes: in each direction, the
  contiguous pieces next to the placed one are collected, the farthest is the fixed end, and the
  pieces before it take the mean of the placed colour, the fixed colour and their own, all read
  from the board before the move.
\<close>

definition run :: "cell list \<Rightarrow> int \<Rightarrow> int \<Rightarrow> int \<times> int \<Rightarrow> nat list" where
  "run b row col d =
     map (\<lambda>(r, c). board_index r c)
       (takeWhile (\<lambda>(r, c). in_board r c \<and> b ! board_index r c \<noteq> None)
         (map (\<lambda>k. (row + int k * fst d, col + int k * snd d)) [1..<9]))"

definition converting :: "cell list \<Rightarrow> int \<Rightarrow> int \<Rightarrow> nat \<Rightarrow> (int \<times> int) list" where
  "converting b row col i = filter (\<lambda>d. i \<in> set (butlast (run b row col d))) directions"

definition converted_cell :: "cell list \<Rightarrow> 8 word \<Rightarrow> int \<Rightarrow> int \<Rightarrow> nat \<Rightarrow> cell" where
  "converted_cell b placed row col i =
     (if i = board_index row col then Some placed
      else case converting b row col i of
             [] \<Rightarrow> b ! i
           | d # _ \<Rightarrow> Some (mix_color placed (b ! last (run b row col d)) (b ! i)))"

lemma walk_eq_takeWhile:
  "walk f b r c dr dc =
     map (\<lambda>(r, c). board_index r c)
       (takeWhile (\<lambda>(r, c). in_board r c \<and> b ! board_index r c \<noteq> None)
         (map (\<lambda>k. (r + int k * dr, c + int k * dc)) [0..<f]))"
proof (induction f arbitrary: r c)
  case 0
  then show ?case by simp
next
  case (Suc f)
  have e: "map (\<lambda>k. (r + int k * dr, c + int k * dc)) [0..<Suc f] =
      (r, c) # map (\<lambda>k. (r + dr + int k * dr, c + dc + int k * dc)) [0..<f]"
    by (simp add: map_upt_Suc algebra_simps del: upt_Suc)
  show ?case
    unfolding e using Suc.IH[of "r + dr" "c + dc"] by (simp add: Let_def)
qed

lemma ray_eq_run: "ray b r c d = run b r c d"
proof -
  have "map (\<lambda>k. (r + fst d + int k * fst d, c + snd d + int k * snd d)) [0..<8] =
      map (\<lambda>k. (r + int k * fst d, c + int k * snd d)) (map Suc [0..<8])"
    by (simp add: algebra_simps)
  also have "map Suc [0..<8] = [1..<9]"
    by (simp add: map_Suc_upt)
  finally show ?thesis
    unfolding run_def walk_eq_takeWhile by simp
qed

lemma map_nth_upt: "m \<le> length w \<Longrightarrow> map ((!) w) [0..<m] = take m w"
  by (rule nth_equalityI) auto

text \<open>The lines of a square, one per direction with a run of two or more.\<close>

lemma sandwich_lines_run:
  "sandwich_lines b r c =
     concat (map (\<lambda>d. let w = run b r c d in
       if length w \<ge> 2 then [\<lparr>ln_FixedIndex = last w, ln_Targets = butlast w\<rparr>] else []) directions)"
proof -
  have ends: "w ! (length w - 1) = last w \<and> map (\<lambda>k. w ! k) [0..<length w - 1] = butlast w"
    if "length w \<ge> 2" for w :: "nat list"
  proof
    show "w ! (length w - 1) = last w" using that by (cases w rule: rev_cases) simp_all
    show "map (\<lambda>k. w ! k) [0..<length w - 1] = butlast w"
      using map_nth_upt[of "length w - 1" w] by (simp add: butlast_conv_take)
  qed
  show ?thesis
    unfolding sandwich_lines_def
  proof (rule arg_cong[where f = concat], rule map_cong[OF refl], clarify)
    fix dr dc
    show "(let w = walk 8 b (r + dr) (c + dc) dr dc; n = length w in
        if n \<ge> 2 then [\<lparr>ln_FixedIndex = w ! (n - 1), ln_Targets = map (\<lambda>k. w ! k) [0..<n - 1]\<rparr>]
        else []) =
      (let w = run b r c (dr, dc) in
        if length w \<ge> 2 then [\<lparr>ln_FixedIndex = last w, ln_Targets = butlast w\<rparr>] else [])"
      using ray_eq_run[where b = b and r = r and c = c and d = "(dr, dc)"] ends by (simp add: Let_def)
  qed
qed

lemma run_short: "length w < 2 \<Longrightarrow> butlast w = []"
  by (cases w) auto

lemma run_props:
  assumes "k < length (run b r c (dr, dc))"
  shows "in_board (r + int (Suc k) * dr) (c + int (Suc k) * dc)"
    "run b r c (dr, dc) ! k = board_index (r + int (Suc k) * dr) (c + int (Suc k) * dc)"
    "b ! (run b r c (dr, dc) ! k) \<noteq> None"
  using ray_nth[where k = k and dr = dr and dc = dc and r = r and c = c and b = b] assms
  unfolding ray_eq_run by blast+

lemma run_mem:
  assumes "i \<in> set (run b r c d)"
  shows "i < 64" "b ! i \<noteq> None"
proof -
  obtain dr dc where d: "d = (dr, dc)" by fastforce
  from assms obtain k where "k < length (run b r c d)" "run b r c d ! k = i"
    by (auto simp: in_set_conv_nth)
  with run_props[of k b r c dr dc] board_index_less show "i < 64" "b ! i \<noteq> None"
    unfolding d by metis+
qed

lemmas run_disjoint = ray_disjoint[unfolded ray_eq_run]
lemmas run_origin = ray_origin[unfolded ray_eq_run]

lemma distinct_run: "d \<in> set directions \<Longrightarrow> distinct (run b r c d)"
  by (auto simp: distinct_conv_nth dest: run_disjoint[where d = d and d' = d])

lemma run_inter:
  assumes "d \<in> set directions" "d' \<in> set directions" "i \<in> set (run b r c d)" "i \<in> set (run b r c d')"
  shows "d = d'"
  using assms run_disjoint[of d d'] by (metis in_set_conv_nth)

lemma filter_eq_single: "distinct xs \<Longrightarrow> d \<in> set xs \<Longrightarrow> filter (\<lambda>x. x = d) xs = [d]"
  by (induction xs) (auto simp: filter_empty_conv)

text \<open>A square is converted in at most one direction.\<close>

lemma converting_unique:
  assumes "d \<in> set directions" "i \<in> set (butlast (run b r c d))"
  shows "converting b r c i = [d]"
proof -
  have "filter (\<lambda>d'. i \<in> set (butlast (run b r c d'))) directions = filter (\<lambda>d'. d' = d) directions"
    by (rule filter_cong) (use assms run_inter in_set_butlastD in metis)+
  also have "\<dots> = [d]"
    using distinct_directions assms(1) by (rule filter_eq_single)
  finally show ?thesis by (simp add: converting_def)
qed

lemma length_converting: "length (converting b r c i) \<le> 1"
proof (cases "converting b r c i")
  case (Cons d ds)
  then have "d \<in> set (converting b r c i)" by simp
  then have "d \<in> set directions" "i \<in> set (butlast (run b r c d))"
    by (simp_all add: converting_def)
  then show ?thesis by (simp add: converting_unique)
qed simp


section \<open>The loops over lines and targets\<close>

definition flips :: "cell list \<Rightarrow> 8 word \<Rightarrow> line list \<Rightarrow> (nat \<times> 8 word) list" where
  "flips ob placed lns =
     concat (map (\<lambda>ln. map (\<lambda>t. (t, mix_color placed (ob ! ln_FixedIndex ln) (ob ! t)))
       (ln_Targets ln)) lns)"

definition write_cells :: "cell list \<Rightarrow> (nat \<times> 8 word) list \<Rightarrow> cell list" where
  "write_cells b fs = foldl (\<lambda>b (t, v). b[t := Some v]) b fs"

definition change_of :: "nat \<times> 8 word \<Rightarrow> change" where
  "change_of f = \<lparr>ch_Row = int (fst f div 8), ch_Col = int (fst f mod 8), ch_Color = snd f\<rparr>"

lemma flip_line_eq:
  "foldl (flip_target ob placed fx) acc ts =
     (write_cells (fst acc) (map (\<lambda>t. (t, mix_color placed fx (ob ! t))) ts),
      snd acc @ map (\<lambda>t. change_of (t, mix_color placed fx (ob ! t))) ts)"
  by (induction ts arbitrary: acc)
    (simp_all add: write_cells_def flip_target_def change_of_def Let_def)

lemma write_cells_append: "write_cells b (fs @ gs) = write_cells (write_cells b fs) gs"
  by (simp add: write_cells_def)

lemma flip_lines_eq:
  "flip_lines ob placed lns = (write_cells ob (flips ob placed lns), map change_of (flips ob placed lns))"
proof -
  have "foldl (flip_line ob placed) acc lns =
      (write_cells (fst acc) (flips ob placed lns), snd acc @ map change_of (flips ob placed lns))" for acc
  proof (induction lns arbitrary: acc)
    case Nil
    then show ?case by (simp add: write_cells_def flips_def)
  next
    case (Cons ln lns)
    then show ?case
      by (simp add: flip_line_def flip_line_eq flips_def write_cells_append o_def)
  qed
  then show ?thesis by (simp add: flip_lines_def)
qed

lemma length_write_cells [simp]: "length (write_cells b fs) = length b"
  by (induction fs arbitrary: b) (auto simp: write_cells_def)

lemma nth_write_cells:
  "distinct (map fst fs) \<Longrightarrow> i < length b \<Longrightarrow>
     write_cells b fs ! i = (case map_of fs i of None \<Rightarrow> b ! i | Some v \<Rightarrow> Some v)"
proof (induction fs arbitrary: b)
  case Nil
  then show ?case by (simp add: write_cells_def)
next
  case (Cons f fs)
  obtain t v where f: "f = (t, v)" by fastforce
  have w: "write_cells b ((t, v) # fs) = write_cells (b[t := Some v]) fs"
    by (simp add: write_cells_def)
  have "t \<notin> fst ` set fs" using Cons.prems(1) f by simp
  then have "map_of fs t = None" by (simp add: map_of_eq_None_iff)
  moreover have "write_cells (b[t := Some v]) fs ! i =
      (case map_of fs i of None \<Rightarrow> b[t := Some v] ! i | Some v \<Rightarrow> Some v)"
    using Cons by simp
  ultimately show ?case
    using Cons.prems(2) by (cases "i = t") (simp_all add: w f split: option.split)
qed

text \<open>The loop as an association list: a square is written at most once.\<close>

lemma flips_run:
  "flips ob placed (sandwich_lines ob r c) =
     concat (map (\<lambda>d. map (\<lambda>t. (t, mix_color placed (ob ! last (run ob r c d)) (ob ! t)))
       (butlast (run ob r c d))) directions)"
proof -
  have 1: "concat (map g (concat xss)) = concat (map (\<lambda>xs. concat (map g xs)) xss)"
    for g :: "line \<Rightarrow> (nat \<times> 8 word) list" and xss
    by (induction xss) simp_all
  show ?thesis
    unfolding flips_def sandwich_lines_run 1 map_map o_def
    by (rule arg_cong[where f = concat], rule map_cong[OF refl]) (simp add: Let_def run_short)
qed

lemma distinct_concat_map:
  assumes "distinct ds" "\<And>d. d \<in> set ds \<Longrightarrow> distinct (g d)"
    and "\<And>d d'. d \<in> set ds \<Longrightarrow> d' \<in> set ds \<Longrightarrow> d \<noteq> d' \<Longrightarrow> set (g d) \<inter> set (g d') = {}"
  shows "distinct (concat (map g ds))"
  using assms
proof (induction ds)
  case (Cons d ds)
  then have "set (g d) \<inter> set (g d') = {}" if "d' \<in> set ds" for d'
    using that by (metis distinct.simps(2) list.set_intros)
  with Cons show ?case by auto
qed simp

lemma map_fst_flips:
  "map fst (flips ob placed (sandwich_lines ob r c)) = concat (map (\<lambda>d. butlast (run ob r c d)) directions)"
  by (simp add: flips_run map_concat o_def)

lemma distinct_flips: "distinct (map fst (flips ob placed (sandwich_lines ob r c)))"
  unfolding map_fst_flips
proof (rule distinct_concat_map[OF distinct_directions])
  show "distinct (butlast (run ob r c d))" if "d \<in> set directions" for d
    using that by (simp add: distinct_run distinct_butlast)
  show "set (butlast (run ob r c d)) \<inter> set (butlast (run ob r c d')) = {}"
    if "d \<in> set directions" "d' \<in> set directions" "d \<noteq> d'" for d d'
    using that run_inter in_set_butlastD by fast
qed

lemma map_of_flips:
  "map_of (flips ob placed (sandwich_lines ob r c)) i =
     (case converting ob r c i of
        [] \<Rightarrow> None
      | d # _ \<Rightarrow> Some (mix_color placed (ob ! last (run ob r c d)) (ob ! i)))"
proof (cases "converting ob r c i")
  case Nil
  then have "i \<notin> fst ` set (flips ob placed (sandwich_lines ob r c))"
    by (auto simp: flips_run converting_def filter_empty_conv)
  with Nil show ?thesis by (simp add: map_of_eq_None_iff)
next
  case (Cons d ds)
  then have "d \<in> set (converting ob r c i)" by simp
  then have "(i, mix_color placed (ob ! last (run ob r c d)) (ob ! i))
      \<in> set (flips ob placed (sandwich_lines ob r c))"
    by (auto simp: flips_run converting_def)
  with Cons distinct_flips show ?thesis by simp
qed

text \<open>The board after a placement is the simultaneous change of the board before it.\<close>

lemma placed_board:
  assumes "in_board r c" "length ob = 64"
  shows "(fst (flip_lines ob placed (sandwich_lines ob r c)))[board_index r c := Some placed] =
    map (converted_cell ob placed r c) [0..<64]"
proof (rule nth_equalityI)
  fix i assume "i < length ((fst (flip_lines ob placed (sandwich_lines ob r c)))
    [board_index r c := Some placed])"
  then have i: "i < 64" by (simp add: flip_lines_eq assms)
  have "write_cells ob (flips ob placed (sandwich_lines ob r c)) ! i =
      (case converting ob r c i of [] \<Rightarrow> ob ! i
       | d # _ \<Rightarrow> Some (mix_color placed (ob ! last (run ob r c d)) (ob ! i)))"
    using i by (simp add: nth_write_cells distinct_flips assms map_of_flips split: list.split)
  then show "(fst (flip_lines ob placed (sandwich_lines ob r c)))[board_index r c := Some placed] ! i =
      map (converted_cell ob placed r c) [0..<64] ! i"
    using i by (simp add: flip_lines_eq nth_list_update assms converted_cell_def)
qed (simp add: flip_lines_eq assms)

text \<open>Processing the lines in any other order gives the same board.\<close>

lemma flip_lines_perm:
  assumes "mset lns = mset (sandwich_lines ob r c)"
  shows "fst (flip_lines ob placed lns) = fst (flip_lines ob placed (sandwich_lines ob r c))"
proof -
  let ?fs = "flips ob placed lns" and ?gs = "flips ob placed (sandwich_lines ob r c)"
  have perm: "mset ?fs = mset ?gs"
  proof -
    have "mset (concat (map g lns)) = mset (concat (map g lns'))"
      if "mset lns = mset lns'" for g :: "line \<Rightarrow> (nat \<times> 8 word) list" and lns'
      using that by (simp add: mset_concat flip: sum_mset_sum_list)
    with assms show ?thesis unfolding flips_def by blast
  qed
  then have d: "distinct (map fst ?fs)"
    using distinct_flips mset_eq_imp_distinct_iff[of "map fst ?fs" "map fst ?gs"] by simp
  have "map_of ?fs = map_of ?gs"
    using mset_eq_setD[OF perm] by (simp add: map_of_inject_set[OF d distinct_flips])
  then show ?thesis
    by (intro nth_equalityI) (simp_all add: flip_lines_eq nth_write_cells d distinct_flips)
qed

section \<open>Legal moves\<close>

text \<open>
  A line exists exactly when, in some direction, the two next squares are on the board and
  occupied; colour plays no part.
\<close>

definition sandwiches :: "cell list \<Rightarrow> int \<Rightarrow> int \<Rightarrow> bool" where
  "sandwiches b row col \<longleftrightarrow>
     list_ex (\<lambda>(dr, dc). in_board (row + 2 * dr) (col + 2 * dc) \<and>
       b ! board_index (row + dr) (col + dc) \<noteq> None \<and>
       b ! board_index (row + 2 * dr) (col + 2 * dc) \<noteq> None) directions"

lemma walk_ge_2:
  assumes "in_board r c" "(dr, dc) \<in> set directions"
  shows "2 \<le> length (walk 8 b (r + dr) (c + dc) dr dc) \<longleftrightarrow>
    in_board (r + 2 * dr) (c + 2 * dc) \<and> b ! board_index (r + dr) (c + dc) \<noteq> None \<and>
    b ! board_index (r + 2 * dr) (c + 2 * dc) \<noteq> None"
proof -
  have "in_board (r + 2 * dr) (c + 2 * dc) \<Longrightarrow> in_board (r + dr) (c + dc)"
    using assms by (auto simp: in_board_def directions_iff)
  then show ?thesis
    by (auto simp: numeral_eq_Suc Let_def algebra_simps)
qed

lemma sandwich_lines_iff:
  assumes "in_board r c"
  shows "sandwich_lines b r c \<noteq> [] \<longleftrightarrow> sandwiches b r c"
proof -
  have "sandwich_lines b r c \<noteq> [] \<longleftrightarrow> (\<exists>d \<in> set directions. 2 \<le> length (ray b r c d))"
    by (auto simp: sandwich_lines_run ray_eq_run Let_def split: if_splits)
  also have "\<dots> \<longleftrightarrow> (\<exists>d \<in> set directions. in_board (r + 2 * fst d) (c + 2 * snd d) \<and>
      b ! board_index (r + fst d) (c + snd d) \<noteq> None \<and>
      b ! board_index (r + 2 * fst d) (c + 2 * snd d) \<noteq> None)"
    by (rule bex_cong[OF refl]) (use walk_ge_2[OF assms] in \<open>simp only: prod.collapse\<close>)
  also have "\<dots> \<longleftrightarrow> sandwiches b r c"
    by (simp add: sandwiches_def list_ex_iff case_prod_beta)
  finally show ?thesis .
qed

text \<open>The squares of the board in row-major order, and the list of legal moves as a filter.\<close>

definition squares :: "position list" where
  "squares = concat (map (\<lambda>row. map (\<lambda>col. \<lparr>pos_Row = row, pos_Col = col\<rparr>) [0..7]) [0..7])"

lemma concat_map_if:
  "concat (map (\<lambda>x. if P x then [f x] else []) xs) = map f (filter P xs)"
  by (induction xs) simp_all

lemma legal_moves_filter:
  "legal_moves b = filter (\<lambda>m. b ! board_index (pos_Row m) (pos_Col m) = None \<and>
     sandwich_lines b (pos_Row m) (pos_Col m) \<noteq> []) squares"
  unfolding legal_moves_def squares_def concat_map_if
  by (simp add: filter_concat filter_map o_def)

lemma squares_sorted:
  "sorted_wrt (\<lambda>p q. pos_Row p * 8 + pos_Col p < pos_Row q * 8 + pos_Col q) squares"
proof -
  have "map (\<lambda>p. pos_Row p * 8 + pos_Col p) squares = [0..63]"
    by (simp add: squares_def upto.simps)
  then have "sorted_wrt (<) (map (\<lambda>p. pos_Row p * 8 + pos_Col p) squares)"
    by (simp add: strict_sorted_iff)
  then show ?thesis by (simp only: sorted_wrt_map)
qed

lemma squares_iff: "m \<in> set squares \<longleftrightarrow> in_board (pos_Row m) (pos_Col m)"
proof -
  have "m \<in> set squares \<longleftrightarrow> (\<exists>r\<in>{0..7}. \<exists>c\<in>{0..7}. m = \<lparr>pos_Row = r, pos_Col = c\<rparr>)"
    by (simp add: squares_def image_iff)
  then show ?thesis by (cases m) (auto simp: in_board_def)
qed

lemma legal_moves_iff:
  "\<lparr>pos_Row = r, pos_Col = c\<rparr> \<in> set (legal_moves b) \<longleftrightarrow>
     in_board r c \<and> b ! board_index r c = None \<and> sandwiches b r c"
  using sandwich_lines_iff by (auto simp: legal_moves_filter squares_iff)

lemma legal_moves_in_board:
  "list_all (\<lambda>m. in_board (pos_Row m) (pos_Col m)) (legal_moves b)"
  by (simp add: legal_moves_filter squares_iff list_all_iff)

text \<open>The list is in row-major order without repetitions.\<close>

lemma legal_moves_sorted:
  "sorted_wrt (\<lambda>p q. pos_Row p * 8 + pos_Col p < pos_Row q * 8 + pos_Col q) (legal_moves b)"
  unfolding legal_moves_filter by (rule sorted_wrt_filter[OF squares_sorted])

section \<open>Counting pieces\<close>

definition pieces :: "cell list \<Rightarrow> nat" where
  "pieces b = length (filter (\<lambda>c. c \<noteq> None) b)"

definition color_sum :: "cell list \<Rightarrow> nat" where
  "color_sum b = sum_list (map cell_color b)"

lemma pieces_le: "pieces b \<le> length b"
  by (simp add: pieces_def)

lemma board_full_iff:
  assumes "length b = 64"
  shows "board_full b \<longleftrightarrow> pieces b = 64"
proof -
  have "board_full b \<longleftrightarrow> (\<forall>c \<in> set b. c \<noteq> None)"
    using assms by (auto simp: board_full_def list_all_iff all_set_conv_all_nth)
  also have "\<dots> \<longleftrightarrow> pieces b = 64"
    unfolding pieces_def using length_filter_less[of _ b "\<lambda>c. c \<noteq> None"] assms
    by (metis (mono_tags, lifting) filter_True nat_neq_iff)
  finally show ?thesis .
qed

lemma pieces_list_update:
  assumes "i < length b" "b ! i = None"
  shows "pieces (b[i := Some v]) = Suc (pieces b)"
  using assms
proof (induction b arbitrary: i)
  case (Cons c b)
  then show ?case by (cases i) (auto simp: pieces_def)
qed simp

lemma pieces_eq_card: "pieces b = card {i. i < length b \<and> b ! i \<noteq> None}"
  by (simp add: pieces_def length_filter_conv_card)

text \<open>Writing to occupied squares keeps the number of pieces.\<close>

lemma pieces_write_cells:
  "list_all (\<lambda>f. fst f < length b \<and> b ! fst f \<noteq> None) fs \<Longrightarrow> pieces (write_cells b fs) = pieces b"
proof (induction fs arbitrary: b)
  case Nil
  then show ?case by (simp add: write_cells_def)
next
  case (Cons f fs)
  obtain t v where f: "f = (t, v)" by fastforce
  have w: "write_cells b ((t, v) # fs) = write_cells (b[t := Some v]) fs"
    by (simp add: write_cells_def)
  have occ: "{i. i < length b \<and> b[t := Some v] ! i \<noteq> None} = {i. i < length b \<and> b ! i \<noteq> None}"
    using Cons.prems by (auto simp: f nth_list_update split: if_splits)
  have "pieces (write_cells (b[t := Some v]) fs) = pieces (b[t := Some v])"
    by (rule Cons.IH) (use Cons.prems in \<open>auto simp: f list_all_iff nth_list_update\<close>)
  with occ show ?case by (simp add: f w pieces_eq_card)
qed

lemma pieces_placed:
  assumes "in_board r c" "length ob = 64" "ob ! board_index r c = None"
  shows "pieces ((fst (flip_lines ob placed (sandwich_lines ob r c)))[board_index r c := Some placed])
    = Suc (pieces ob)"
proof -
  let ?fs = "flips ob placed (sandwich_lines ob r c)"
  have "list_all (\<lambda>f. fst f < length ob \<and> ob ! fst f \<noteq> None) ?fs"
    using run_mem assms(2) by (fastforce simp: list_all_iff flips_run dest!: in_set_butlastD)
  then have "pieces (write_cells ob ?fs) = pieces ob" by (rule pieces_write_cells)
  moreover have "write_cells ob ?fs ! board_index r c = None"
  proof -
    have "converting ob r c (board_index r c) = []"
      using run_origin[OF assms(1)] in_set_butlastD
      by (fastforce simp: converting_def filter_empty_conv)
    then show ?thesis
      using board_index_less[OF assms(1)] assms
      by (simp add: nth_write_cells distinct_flips map_of_flips)
  qed
  ultimately show ?thesis
    using board_index_less[OF assms(1)] assms(2) by (simp add: flip_lines_eq pieces_list_update)
qed

lemma winner_of_eq:
  assumes "length b = 64"
  shows "winner_of b = (if 2 * color_sum b < pieces b * 255 then ''dark'' else ''light'')"
proof -
  have fold: "foldl (\<lambda>(cs, ps) i. case b ! i of None \<Rightarrow> (cs, ps)
        | Some c \<Rightarrow> (cs + int (unat c), ps + 1)) acc is =
      (fst acc + int (sum_list (map (\<lambda>i. cell_color (b ! i)) is)),
       snd acc + int (length (filter (\<lambda>i. b ! i \<noteq> None) is)))" for acc "is"
    by (induction "is" arbitrary: acc) (auto simp: cell_color_def split: option.split)
  have b: "map ((!) b) [0..<64] = b"
    using map_nth[of b] assms by simp
  have "sum_list (map (\<lambda>i. cell_color (b ! i)) [0..<64]) = color_sum b"
    unfolding color_sum_def by (subst b[symmetric]) (simp only: map_map o_def)
  moreover have "length (filter (\<lambda>i. b ! i \<noteq> None) [0..<64]) = pieces b"
    unfolding pieces_def by (subst b[symmetric]) (simp only: filter_map length_map o_def)
  ultimately show ?thesis
    unfolding winner_of_def fold by simp
qed

lemma winner_of_cases: "winner_of b = ''dark'' \<or> winner_of b = ''light''"
  by (simp add: winner_of_def Let_def case_prod_beta)

section \<open>Arithmetic\<close>

lemma of_int_mod_word: "(of_int (k mod 4294967296) :: 32 word) = of_int k"
proof -
  have "take_bit 32 (k mod 4294967296) = take_bit 32 k"
    by (simp add: take_bit_eq_mod)
  then have "(word_of_int (k mod 4294967296) :: 32 word) = word_of_int k"
    by (subst word_of_int_eq_iff) simp
  then show ?thesis by simp
qed

lemma lcg_next_word: "lcg_next rng = rng * 1664525 + 1013904223"
proof -
  have "lcg_next rng = of_int ((int (unat rng) * 1664525 + 1013904223) mod 4294967296)"
    by (simp add: lcg_next_def Let_def)
  also have "\<dots> = of_int (int (unat rng) * 1664525 + 1013904223)"
    by (rule of_int_mod_word)
  also have "\<dots> = of_int (int (unat rng)) * 1664525 + 1013904223"
    by (simp only: of_int_add of_int_mult of_int_numeral)
  finally show ?thesis by simp
qed

text \<open>
  The engine computes with doubles. Every intermediate value of the generator stays below
  \<open>2 ^ 53\<close>, so the double arithmetic is exact.
\<close>

lemma lcg_exact_in_double: "int (unat (rng :: 32 word)) * 1664525 + 1013904223 < 2 ^ 53"
proof -
  have "uint rng < 2 ^ 32" using unsigned_less[of rng, where ?'a = int] by simp
  then show ?thesis by simp
qed

lemma color_of_unat: "unat (color_of rng) = unat rng div 16777216"
proof -
  have "unat rng < 2 ^ 32" using unsigned_less[of rng, where ?'a = nat] by simp
  then have "unat rng div 16777216 < 256" by (simp add: div_less_iff_less_mult)
  then show ?thesis by (simp add: color_of_def unat_of_nat)
qed

text \<open>A mixed colour fits in a byte: the mean never wraps.\<close>

lemma cell_color_less: "cell_color c < 256"
  using unsigned_less[where ?'b = 8 and ?'a = nat] by (simp add: cell_color_def split: option.split)

lemma mix_color_unat:
  "unat (mix_color placed fx t) = (unat placed + cell_color fx + cell_color t) div 3"
proof -
  have "unat placed < 256" using unsigned_less[of placed, where ?'a = nat] by simp
  then have "(unat placed + cell_color fx + cell_color t) div 3 < 256"
    using cell_color_less[of fx] cell_color_less[of t] by linarith
  then show ?thesis by (simp add: mix_color_def unat_of_nat)
qed

end
