(* ===== verification/Game.thy ===== *)
theory Game
  imports RulesLemmas
begin

text \<open>
  Games: the invariant of the states that the engine produces, what acceptance and rejection do
  to a state, and how long a game can be.
\<close>

section \<open>The invariant of a game\<close>

abbreviation cells :: "state \<Rightarrow> cell list" where
  "cells s \<equiv> elems (st_Board s)"

text \<open>
  A game state: the contract's fields, the colour at the top of the generator's state, the turn
  number counting the placed pieces and the passes, and the legal moves of the board. Passing
  does not change the board, so once a pass was accepted there is no legal move for anybody.
\<close>

definition game_inv :: "state \<Rightarrow> bool" where
  "game_inv s \<longleftrightarrow>
     st_Version s = ''1'' \<and> st_GameID s \<noteq> '''' \<and> length (cells s) = 64 \<and>
     st_NextColor s = color_of (st_RNGState s) \<and>
     Player_Valid (st_CurrentPlayer s) \<and>
     0 \<le> st_ConsecutivePasses s \<and> 4 \<le> pieces (cells s) \<and>
     st_TurnNumber s = int (pieces (cells s)) - 4 + st_ConsecutivePasses s \<and>
     (st_ConsecutivePasses s = 0 \<or> legal_moves (cells s) = []) \<and>
     (st_CurrentPlayer s = ''dark'') = even (st_TurnNumber s) \<and>
     (st_Phase s = ''playing'' \<and> st_Winner s = None \<and> pieces (cells s) < 64 \<and>
        st_ConsecutivePasses s \<le> 1 \<and> st_LegalMoves s = Some (legal_moves (cells s)) \<or>
      st_Phase s = ''finished'' \<and> st_Winner s = Some (winner_of (cells s)) \<and>
        st_LegalMoves s = Some [] \<and>
        (pieces (cells s) = 64 \<and> st_ConsecutivePasses s = 0 \<or>
         pieces (cells s) < 64 \<and> st_ConsecutivePasses s = 2))"

definition first_board :: "cell list" where
  "first_board = (replicate 64 None)[27 := Some 0, 28 := Some 255, 35 := Some 255, 36 := Some 0]"

lemma first_board_eq:
  "first_board =
     replicate 27 None @ [Some 0, Some 255] @ replicate 6 None @ [Some 255, Some 0] @ replicate 27 None"
  by (simp add: first_board_def numeral_eq_Suc)

lemma new_game_board [simp]: "st_Board (new_game gameId seed) = Some first_board"
  by (simp add: new_game_def first_board_def Let_def)

lemma new_game_fields [simp]:
  "st_Version (new_game gameId seed) = ''1''"
  "st_GameID (new_game gameId seed) = gameId"
  "st_TurnNumber (new_game gameId seed) = 0"
  "st_CurrentPlayer (new_game gameId seed) = ''dark''"
  "st_RNGState (new_game gameId seed) = lcg_next seed"
  "st_NextColor (new_game gameId seed) = color_of (lcg_next seed)"
  "st_ConsecutivePasses (new_game gameId seed) = 0"
  "st_Phase (new_game gameId seed) = ''playing''"
  "st_Winner (new_game gameId seed) = None"
  "st_LegalMoves (new_game gameId seed) = Some (legal_moves first_board)"
  by (simp_all add: new_game_def first_board_def Let_def)

lemma first_board_pieces: "length first_board = 64" "pieces first_board = 4"
  by (simp_all add: first_board_eq pieces_def)

lemma new_game_inv: "gameId \<noteq> '''' \<Longrightarrow> game_inv (new_game gameId seed)"
  by (simp add: game_inv_def first_board_pieces Player_Valid_def)

section \<open>Commands\<close>

text \<open>Acceptance as a relation, and a sequence of accepted commands.\<close>

definition accepts :: "state \<Rightarrow> command \<Rightarrow> state option" where
  "accepts s c = (let r = apply_command s c in if rs_OK r then rs_State r else None)"

fun play :: "state \<Rightarrow> command list \<Rightarrow> state option" where
  "play s [] = Some s"
| "play s (c # cs) = (case accepts s c of None \<Rightarrow> None | Some s' \<Rightarrow> play s' cs)"

text \<open>The state after an accepted placement and after an accepted pass.\<close>

definition after_place :: "state \<Rightarrow> int \<Rightarrow> int \<Rightarrow> state" where
  "after_place s row col =
     (let nb = map (converted_cell (cells s) (st_NextColor s) row col) [0..<64];
          rng = lcg_next (st_RNGState s);
          full = (pieces nb = 64)
      in s\<lparr>st_Board := Some nb, st_TurnNumber := st_TurnNumber s + 1,
           st_CurrentPlayer := opponent_of (st_CurrentPlayer s), st_NextColor := color_of rng,
           st_RNGState := rng, st_ConsecutivePasses := 0,
           st_Phase := (if full then ''finished'' else st_Phase s),
           st_Winner := (if full then Some (winner_of nb) else st_Winner s),
           st_LegalMoves := Some (if full then [] else legal_moves nb)\<rparr>)"

definition after_pass :: "state \<Rightarrow> state" where
  "after_pass s =
     (let rng = lcg_next (st_RNGState s); over = (st_ConsecutivePasses s + 1 \<ge> 2)
      in s\<lparr>st_TurnNumber := st_TurnNumber s + 1,
           st_CurrentPlayer := opponent_of (st_CurrentPlayer s), st_NextColor := color_of rng,
           st_RNGState := rng, st_ConsecutivePasses := st_ConsecutivePasses s + 1,
           st_Phase := (if over then ''finished'' else st_Phase s),
           st_Winner := (if over then Some (winner_of (cells s)) else st_Winner s),
           st_LegalMoves := Some []\<rparr>)"

lemma length_flip_lines [simp]: "length (fst (flip_lines ob placed lns)) = length ob"
  by (simp add: flip_lines_eq)

lemma apply_place_accepted:
  assumes "length (cells s) = 64"
  shows "rs_OK (apply_place s cid row col) \<longleftrightarrow>
      in_board row col \<and> cells s ! board_index row col = None \<and> sandwiches (cells s) row col"
    and "rs_OK (apply_place s cid row col) \<Longrightarrow>
      rs_State (apply_place s cid row col) = Some (after_place s row col)"
proof -
  have b: "\<not> (row < 0 \<or> 7 < row \<or> col < 0 \<or> 7 < col) \<longleftrightarrow> in_board row col"
    by (auto simp: in_board_def)
  show ok: "rs_OK (apply_place s cid row col) \<longleftrightarrow>
      in_board row col \<and> cells s ! board_index row col = None \<and> sandwiches (cells s) row col"
    using sandwich_lines_iff[of row col "cells s"]
    unfolding apply_place_def b[symmetric]
    by (auto simp: error_response_def ok_response_def Let_def case_prod_beta)
  assume "rs_OK (apply_place s cid row col)"
  then have a: "in_board row col" "cells s ! board_index row col = None" "sandwiches (cells s) row col"
    by (simp_all add: ok)
  let ?nb = "(fst (flip_lines (cells s) (st_NextColor s) (sandwich_lines (cells s) row col)))
     [board_index row col := Some (st_NextColor s)]"
  have nb: "?nb = map (converted_cell (cells s) (st_NextColor s) row col) [0..<64]"
    using a(1) assms by (rule placed_board)
  have full: "board_full ?nb \<longleftrightarrow> pieces ?nb = 64"
    by (rule board_full_iff) (simp add: assms)
  have "rs_State (apply_place s cid row col) = Some
     (let s1 = s\<lparr>st_Board := Some ?nb, st_TurnNumber := st_TurnNumber s + 1,
                 st_CurrentPlayer := opponent_of (st_CurrentPlayer s), st_ConsecutivePasses := 0,
                 st_RNGState := lcg_next (st_RNGState s),
                 st_NextColor := color_of (lcg_next (st_RNGState s))\<rparr>
      in if board_full ?nb then
           s1\<lparr>st_Phase := ''finished'', st_Winner := Some (winner_of ?nb), st_LegalMoves := Some []\<rparr>
         else s1\<lparr>st_LegalMoves := Some (legal_moves ?nb)\<rparr>)"
    using a b sandwich_lines_iff[OF a(1), of "cells s"]
    unfolding apply_place_def by (auto simp: ok_response_def Let_def case_prod_beta)
  then show "rs_State (apply_place s cid row col) = Some (after_place s row col)"
    unfolding full unfolding nb after_place_def by (simp add: Let_def)
qed

lemma apply_pass_accepted:
  shows "rs_OK (apply_pass s cid) \<longleftrightarrow> legal_moves (cells s) = []"
    and "rs_OK (apply_pass s cid) \<Longrightarrow> rs_State (apply_pass s cid) = Some (after_pass s)"
  by (auto simp: apply_pass_def after_pass_def error_response_def ok_response_def Let_def)

text \<open>The conditions of \<open>command_check\<close>, gathered.\<close>

definition command_timely :: "state \<Rightarrow> command \<Rightarrow> bool" where
  "command_timely s c \<longleftrightarrow>
     cm_CommandID c \<noteq> '''' \<and> (cm_Type c = ''place'' \<and> cm_Row c \<noteq> None \<and> cm_Col c \<noteq> None \<or> cm_Type c = ''pass'') \<and>
     Player_Valid (cm_Player c) \<and> 0 \<le> cm_ExpectedTurn c \<and> st_Phase s \<noteq> ''finished'' \<and>
     cm_ExpectedTurn c = st_TurnNumber s \<and> cm_Player c = st_CurrentPlayer s"

lemma command_check_None: "command_check s c = None \<longleftrightarrow> command_timely s c"
  by (auto simp: command_check_def command_timely_def Player_Valid_def)

lemma command_check_Some:
  "command_check s c = Some r \<Longrightarrow> \<not> rs_OK r \<and> rs_State r = Some s \<and> rs_Event r = None"
  by (auto simp: command_check_def error_response_def split: if_splits)

lemma accepts_iff:
  assumes "length (cells s) = 64"
  shows "accepts s c = Some s' \<longleftrightarrow>
    command_timely s c \<and>
    (cm_Type c = ''place'' \<and>
       (\<exists>row col. cm_Row c = Some row \<and> cm_Col c = Some col \<and> in_board row col \<and>
          cells s ! board_index row col = None \<and> sandwiches (cells s) row col \<and>
          s' = after_place s row col) \<or>
     cm_Type c = ''pass'' \<and> legal_moves (cells s) = [] \<and> s' = after_pass s)"
proof (cases "command_check s c")
  case (Some r)
  then have "\<not> command_timely s c" by (metis command_check_None option.distinct(1))
  then show ?thesis
    using command_check_Some[OF Some] Some by (simp add: accepts_def apply_command_def Let_def)
next
  case None
  then have t: "command_timely s c" by (simp add: command_check_None)
  show ?thesis
  proof (cases "cm_Type c = ''place''")
    case True
    with t obtain row col where rc: "cm_Row c = Some row" "cm_Col c = Some col"
      by (auto simp: command_timely_def)
    show ?thesis
      using apply_place_accepted[OF assms, of "cm_CommandID c" row col] True t None rc
      by (auto simp: accepts_def apply_command_def Let_def)
  next
    case False
    with t have "cm_Type c = ''pass''" by (simp add: command_timely_def)
    then show ?thesis
      using apply_pass_accepted[of s "cm_CommandID c"] t None
      by (auto simp: accepts_def apply_command_def Let_def)
  qed
qed

section \<open>Preservation\<close>

lemma opponent_of_eq: "opponent_of = Opponent"
  by (simp add: fun_eq_iff opponent_of_def Opponent_def)

lemma pieces_converted:
  assumes "length b = 64" "in_board r c" "b ! board_index r c = None"
  shows "pieces (map (converted_cell b v r c) [0..<64]) = Suc (pieces b)"
  using pieces_placed[OF assms(2,1,3), of v] placed_board[OF assms(2,1), of v] by simp

lemma opponent_parity:
  assumes "Player_Valid p" "(p = ''dark'') = even (t::int)"
  shows "(opponent_of p = ''dark'') = even (t + 1)"
  using assms by (auto simp: opponent_of_def Player_Valid_def)

text \<open>A state with a legal move has had no pass.\<close>

lemma game_inv_passes:
  "game_inv s \<Longrightarrow> sandwiches (cells s) r c \<Longrightarrow> in_board r c \<Longrightarrow> cells s ! board_index r c = None \<Longrightarrow>
     st_ConsecutivePasses s = 0"
  using legal_moves_iff[of r c "cells s"] by (auto simp: game_inv_def)

lemma after_place_inv:
  assumes inv: "game_inv s" and ph: "st_Phase s \<noteq> ''finished''"
    and m: "in_board r c" "cells s ! board_index r c = None" "sandwiches (cells s) r c"
  shows "game_inv (after_place s r c)"
proof -
  let ?nb = "map (converted_cell (cells s) (st_NextColor s) r c) [0..<64]"
  have len: "length (cells s) = 64" using inv by (simp add: game_inv_def)
  have p: "pieces ?nb = Suc (pieces (cells s))" using pieces_converted[OF len m(1,2)] .
  have "pieces ?nb \<le> 64" using pieces_le[of ?nb] by simp
  moreover have "st_ConsecutivePasses s = 0" using game_inv_passes[OF inv m(3,1,2)] .
  ultimately show ?thesis
    using inv ph p opponent_parity[of "st_CurrentPlayer s" "st_TurnNumber s"]
    unfolding game_inv_def after_place_def Let_def
    by (simp add: opponent_of_eq del: map_map)
qed

lemma after_pass_inv:
  assumes inv: "game_inv s" and ph: "st_Phase s \<noteq> ''finished''" and m: "legal_moves (cells s) = []"
  shows "game_inv (after_pass s)"
  using inv ph m opponent_parity[of "st_CurrentPlayer s" "st_TurnNumber s"]
  unfolding game_inv_def after_pass_def Let_def
  by (simp add: opponent_of_eq)

lemma game_inv_length: "game_inv s \<Longrightarrow> length (cells s) = 64"
  by (simp add: game_inv_def)

lemma accepts_inv:
  assumes "game_inv s" "accepts s c = Some s'"
  shows "game_inv s'"
proof -
  have t: "st_Phase s \<noteq> ''finished''"
    using assms accepts_iff[OF game_inv_length[OF assms(1)], of c s'] by (simp add: command_timely_def)
  then show ?thesis
    using assms accepts_iff[OF game_inv_length[OF assms(1)], of c s']
      after_place_inv[OF assms(1) t] after_pass_inv[OF assms(1) t] by blast
qed

lemma play_inv: "game_inv s \<Longrightarrow> play s cs = Some s' \<Longrightarrow> game_inv s'"
proof (induction cs arbitrary: s)
  case (Cons c cs)
  then show ?case by (auto split: option.splits dest: accepts_inv)
qed simp

text \<open>Acceptance advances the turn by one and hands the move over.\<close>

lemma accepts_turn:
  assumes "length (cells s) = 64" "accepts s c = Some s'"
  shows "cm_ExpectedTurn c = st_TurnNumber s" "cm_Player c = st_CurrentPlayer s"
    "st_Phase s \<noteq> ''finished''"
    "st_TurnNumber s' = st_TurnNumber s + 1" "st_CurrentPlayer s' = Opponent (st_CurrentPlayer s)"
    "st_RNGState s' = lcg_next (st_RNGState s)" "st_NextColor s' = color_of (lcg_next (st_RNGState s))"
    "st_GameID s' = st_GameID s" "st_Version s' = st_Version s"
  using assms(2) unfolding accepts_iff[OF assms(1)]
  by (auto simp: command_timely_def after_place_def after_pass_def Let_def opponent_of_eq)

lemma play_turn:
  "game_inv s \<Longrightarrow> play s cs = Some s' \<Longrightarrow> st_TurnNumber s' = st_TurnNumber s + int (length cs)"
proof (induction cs arbitrary: s)
  case (Cons c cs)
  then obtain s1 where s1: "accepts s c = Some s1" "play s1 cs = Some s'"
    by (auto split: option.splits)
  with Cons accepts_inv accepts_turn(4)[OF game_inv_length] show ?case by fastforce
qed simp

text \<open>No game is longer than 61 accepted commands; a game that fills the board has 60.\<close>

lemma game_inv_turn_bound: "game_inv s \<Longrightarrow> st_TurnNumber s \<le> 61"
  by (auto simp: game_inv_def)

lemma game_inv_full: "game_inv s \<Longrightarrow> pieces (cells s) = 64 \<Longrightarrow> st_TurnNumber s = 60 \<and> st_Phase s = ''finished''"
  by (auto simp: game_inv_def)

text \<open>Rejections.\<close>

text \<open>The two shapes of a response to a command: a rejection with the state, or a new state.\<close>

definition rejection_of :: "state \<Rightarrow> response \<Rightarrow> bool" where
  "rejection_of s r \<longleftrightarrow>
     (\<exists>code message. r = error_response code message (Some s) \<and> ErrorCode_Valid code \<and> message \<noteq> '''')"

definition acceptance :: "response \<Rightarrow> bool" where
  "acceptance r \<longleftrightarrow> (\<exists>s e. r = ok_response s (Some e))"

lemma contract_codes [simp]:
  "ErrorCode_Valid CodeInvalidJSON" "ErrorCode_Valid CodeUnsupportedVersion"
  "ErrorCode_Valid CodeInvalidRequest" "ErrorCode_Valid CodeInvalidState"
  "ErrorCode_Valid CodeInvalidCommand" "ErrorCode_Valid CodeInvalidCoordinate"
  "ErrorCode_Valid CodeOccupied" "ErrorCode_Valid CodeIllegalMove"
  "ErrorCode_Valid CodeNotYourTurn" "ErrorCode_Valid CodeStaleTurn"
  "ErrorCode_Valid CodePassNotAllowed" "ErrorCode_Valid CodeGameFinished"
  by (simp_all add: ErrorCode_Valid_def errorCodes_def)

lemma rejection_of_error [simp]:
  "ErrorCode_Valid code \<Longrightarrow> message \<noteq> '''' \<Longrightarrow> rejection_of s (error_response code message (Some s))"
  by (auto simp: rejection_of_def)

lemma acceptance_ok [simp]: "acceptance (ok_response s (Some e))"
  by (auto simp: acceptance_def)

lemma apply_place_shape:
  "rejection_of s (apply_place s cid row col) \<or> acceptance (apply_place s cid row col)"
  unfolding apply_place_def Let_def case_prod_beta by simp

lemma apply_pass_shape: "rejection_of s (apply_pass s cid) \<or> acceptance (apply_pass s cid)"
  unfolding apply_pass_def Let_def by simp

lemma command_check_shape: "pred_option (rejection_of s) (command_check s c)"
  unfolding command_check_def by simp

lemma apply_command_shape: "rejection_of s (apply_command s c) \<or> acceptance (apply_command s c)"
  using apply_place_shape apply_pass_shape command_check_shape[of s c]
  unfolding apply_command_def by (auto split: option.split)

lemma rejection_of_fields:
  "rejection_of s r \<Longrightarrow> \<not> rs_OK r \<and> rs_State r = Some s \<and> rs_Event r = None \<and> rs_Version r = ''1'' \<and>
     (\<exists>e. rs_Error r = Some e \<and> ErrorCode_Valid (pe_Code e) \<and> pe_Message e \<noteq> '''')"
  by (auto simp: rejection_of_def error_response_def)

lemma rejection_iff: "\<not> rs_OK (apply_command s c) \<longleftrightarrow> rejection_of s (apply_command s c)"
  using apply_command_shape[of s c] rejection_of_fields[of s "apply_command s c"]
  by (auto simp: acceptance_def ok_response_def)

lemma accepts_None_iff: "accepts s c = None \<longleftrightarrow> \<not> rs_OK (apply_command s c)"
  using apply_command_shape[of s c] rejection_iff[of s c]
  by (auto simp: accepts_def acceptance_def ok_response_def Let_def)

lemma accepts_Some:
  "accepts s c = Some s' \<Longrightarrow> \<exists>e. apply_command s c = ok_response s' (Some e)"
  using apply_command_shape[of s c] rejection_of_fields[of s "apply_command s c"]
  by (auto simp: accepts_def acceptance_def ok_response_def Let_def split: if_splits)

text \<open>What a command that was accepted gets when it is sent again.\<close>

lemma command_check_late:
  "command_timely s c \<Longrightarrow> cm_ExpectedTurn c \<noteq> st_TurnNumber s' \<Longrightarrow>
   command_check s' c = Some
    (if st_Phase s' = ''finished''
     then error_response ''game_finished'' (utf8 [0x30B2, 0x30FC, 0x30E0, 0x306F, 0x7D42,
      0x4E86, 0x3057, 0x3066, 0x3044, 0x307E, 0x3059]) (Some s')
     else error_response ''stale_turn'' (utf8 [0x53E4, 0x3044, 0x624B, 0x756A, 0x306E, 0x30B3,
      0x30DE, 0x30F3, 0x30C9, 0x3067, 0x3059]) (Some s'))"
  unfolding command_check_def command_timely_def Player_Valid_def by auto

lemma resend_code:
  assumes "length (cells s) = 64" "accepts s c = Some s'"
  shows "apply_command s' c =
    (if st_Phase s' = ''finished''
     then error_response ''game_finished'' (utf8 [0x30B2, 0x30FC, 0x30E0, 0x306F, 0x7D42,
      0x4E86, 0x3057, 0x3066, 0x3044, 0x307E, 0x3059]) (Some s')
     else error_response ''stale_turn'' (utf8 [0x53E4, 0x3044, 0x624B, 0x756A, 0x306E, 0x30B3,
      0x30DE, 0x30F3, 0x30C9, 0x3067, 0x3059]) (Some s'))"
proof -
  have t: "command_timely s c" using assms accepts_iff by blast
  have "cm_ExpectedTurn c \<noteq> st_TurnNumber s'" using accepts_turn(1,4)[OF assms] by simp
  with t show ?thesis by (simp add: apply_command_def command_check_late)
qed

text \<open>Progress: the player to move has an acceptable command.\<close>

definition next_command :: "state \<Rightarrow> string \<Rightarrow> command" where
  "next_command s cid =
     (case legal_moves (cells s) of
        [] \<Rightarrow> PassCommand cid (st_CurrentPlayer s) (st_TurnNumber s)
      | m # _ \<Rightarrow> PlaceCommand cid (st_CurrentPlayer s) (st_TurnNumber s) (pos_Row m) (pos_Col m))"

lemma next_command_accepted:
  assumes inv: "game_inv s" and ph: "st_Phase s = ''playing''" and cid: "cid \<noteq> ''''"
  shows "accepts s (next_command s cid) \<noteq> None"
proof (cases "legal_moves (cells s)")
  case Nil
  then have "accepts s (next_command s cid) = Some (after_pass s)"
    using inv ph cid unfolding accepts_iff[OF game_inv_length[OF inv]]
    by (auto simp: next_command_def PassCommand_def command_timely_def game_inv_def)
  then show ?thesis by simp
next
  case (Cons m ms)
  then have "\<lparr>pos_Row = pos_Row m, pos_Col = pos_Col m\<rparr> \<in> set (legal_moves (cells s))" by simp
  then have "accepts s (next_command s cid) = Some (after_place s (pos_Row m) (pos_Col m))"
    using Cons inv ph cid unfolding accepts_iff[OF game_inv_length[OF inv]] legal_moves_iff
    by (auto simp: next_command_def PlaceCommand_def command_timely_def game_inv_def)
  then show ?thesis by simp
qed

text \<open>Following the available commands ends the game.\<close>

lemma play_append: "play s (cs @ ds) = (case play s cs of None \<Rightarrow> None | Some s' \<Rightarrow> play s' ds)"
  by (induction cs arbitrary: s) (auto split: option.split)

lemma next_command_valid:
  assumes inv: "game_inv s" and cid: "cid \<noteq> ''''"
  shows "Command_Validate (next_command s cid) = None"
proof (cases "legal_moves (cells s)")
  case Nil
  then show ?thesis
    using inv cid by (auto simp: next_command_def PassCommand_def Command_Validate_None game_inv_def)
next
  case (Cons m ms)
  then have "\<lparr>pos_Row = pos_Row m, pos_Col = pos_Col m\<rparr> \<in> set (legal_moves (cells s))" by simp
  then have "InBounds (pos_Row m) (pos_Col m)"
    using inv unfolding legal_moves_iff by (auto simp: in_board_def InBounds_def BoardSize_def)
  then show ?thesis
    using Cons inv cid by (auto simp: next_command_def PlaceCommand_def Command_Validate_None game_inv_def)
qed

lemma play_finishes:
  assumes "game_inv s"
  shows "\<exists>cs s'. play s cs = Some s' \<and> st_Phase s' = ''finished'' \<and> list_all (\<lambda>c. Command_Validate c = None) cs"
  using assms
proof (induction "nat (62 - st_TurnNumber s)" arbitrary: s rule: less_induct)
  case less
  show ?case
  proof (cases "st_Phase s = ''finished''")
    case True
    then have "play s [] = Some s \<and> st_Phase s = ''finished'' \<and> list_all (\<lambda>c. Command_Validate c = None) []" by simp
    then show ?thesis by blast
  next
    case False
    then have "st_Phase s = ''playing''" using less.prems by (auto simp: game_inv_def)
    then obtain s1 where s1: "accepts s (next_command s ''x'') = Some s1"
      using next_command_accepted[OF less.prems] by fastforce
    have inv: "game_inv s1" using accepts_inv[OF less.prems s1] .
    have "nat (62 - st_TurnNumber s1) < nat (62 - st_TurnNumber s)"
      using accepts_turn(4)[OF game_inv_length[OF less.prems] s1] game_inv_turn_bound[OF inv] by simp
    with less.hyps[OF _ inv] obtain cs s' where "play s1 cs = Some s'" "st_Phase s' = ''finished''"
      "list_all (\<lambda>c. Command_Validate c = None) cs"
      by blast
    with s1 have "play s (next_command s ''x'' # cs) = Some s' \<and> st_Phase s' = ''finished'' \<and>
        list_all (\<lambda>c. Command_Validate c = None) (next_command s ''x'' # cs)"
      using next_command_valid[OF less.prems, of "''x''"] by simp
    then show ?thesis by blast
  qed
qed

section \<open>The engine and the Go validators\<close>

lemma ok_response_fields [simp]:
  "rs_OK (ok_response s e)" "rs_State (ok_response s e) = Some s" "rs_Event (ok_response s e) = e"
  "rs_Error (ok_response s e) = None" "rs_Version (ok_response s e) = ''1''"
  by (simp_all add: ok_response_def)

text \<open>The engine's check of a state and the Go check of a state agree.\<close>

lemma state_valid_iff: "state_valid s \<longleftrightarrow> State_Validate s = None"
proof -
  have l: "list_all (\<lambda>m. \<not> (pos_Row m < 0 \<or> pos_Row m > 7 \<or> pos_Col m < 0 \<or> pos_Col m > 7)) ms =
      list_all (\<lambda>m. InBounds (pos_Row m) (pos_Col m)) ms" for ms
    by (rule list.pred_cong) (auto simp: InBounds_iff)
  show ?thesis
    unfolding state_valid_def State_Validate_None l Player_Valid_def by auto
qed

lemma game_inv_valid: "game_inv s \<Longrightarrow> State_Validate s = None"
  using legal_moves_in_board[of "cells s"] winner_of_cases[of "cells s"]
  by (auto simp: State_Validate_None game_inv_def Player_Valid_def in_board_InBounds)

text \<open>Changes lie on the board.\<close>

lemma changes_in_bounds:
  "list_all (\<lambda>ch. InBounds (ch_Row ch) (ch_Col ch))
     (snd (flip_lines ob placed (sandwich_lines ob row col)))"
proof -
  have b: "InBounds (ch_Row (change_of f)) (ch_Col (change_of f))" if "fst f < 64" for f
    using that by (simp add: InBounds_iff change_of_def)
  have "fst f < 64" if f: "f \<in> set (flips ob placed (sandwich_lines ob row col))" for f
  proof -
    obtain d t where "t \<in> set (butlast (run ob row col d))" "fst f = t"
      using f unfolding flips_run by auto
    then show ?thesis using run_mem(1) in_set_butlastD by metis
  qed
  with b show ?thesis by (simp add: flip_lines_eq list_all_iff)
qed

lemma winner_of_valid: "Player_Valid (winner_of b)"
  using winner_of_cases[of b] by (auto simp: Player_Valid_def)

lemma apply_place_event:
  assumes "rs_OK (apply_place s cid row col)"
  shows "rs_Event (apply_place s cid row col) = Some
    \<lparr>ev_CommandID = cid, ev_Type = ''placed'', ev_Player = st_CurrentPlayer s,
     ev_TurnNumber = st_TurnNumber s + 1, ev_Row = Some row, ev_Col = Some col,
     ev_PlacedColor = Some (st_NextColor s),
     ev_Changes = Some (snd (flip_lines (cells s) (st_NextColor s) (sandwich_lines (cells s) row col)))\<rparr>"
  using assms unfolding apply_place_def Let_def case_prod_beta
  by (simp add: error_response_def ok_response_def split: if_splits)

lemma apply_pass_event:
  assumes "rs_OK (apply_pass s cid)"
  shows "rs_Event (apply_pass s cid) = Some
    \<lparr>ev_CommandID = cid, ev_Type = ''passed'', ev_Player = st_CurrentPlayer s,
     ev_TurnNumber = st_TurnNumber s + 1, ev_Row = None, ev_Col = None, ev_PlacedColor = None,
     ev_Changes = None\<rparr>"
  using assms unfolding apply_pass_def Let_def
  by (simp add: error_response_def ok_response_def split: if_splits)

text \<open>
  A state that is valid for the contract and, while playing, has passed at most once: what the
  server ever sends to the engine. From it, an accepted command gives such a state again.
\<close>

definition sendable :: "state \<Rightarrow> bool" where
  "sendable s \<longleftrightarrow> State_Validate s = None \<and> (st_Phase s = ''finished'' \<or> st_ConsecutivePasses s \<le> 1)"

lemma game_inv_sendable: "game_inv s \<Longrightarrow> sendable s"
  using game_inv_valid[of s] by (auto simp: sendable_def game_inv_def)

lemma after_place_valid:
  assumes "State_Validate s = None" "st_Phase s \<noteq> ''finished''"
  shows "sendable (after_place s row col)"
proof -
  let ?nb = "map (converted_cell (cells s) (st_NextColor s) row col) [0..<64]"
  have "list_all (\<lambda>m. InBounds (pos_Row m) (pos_Col m)) (legal_moves ?nb)"
    using legal_moves_in_board[of ?nb] by (simp add: in_board_InBounds)
  then show ?thesis
    using assms unfolding sendable_def State_Validate_None after_place_def Let_def
    by (simp add: opponent_of_eq winner_of_valid)
qed

lemma after_pass_valid:
  assumes "sendable s" "st_Phase s \<noteq> ''finished''"
  shows "sendable (after_pass s)"
  using assms unfolding sendable_def State_Validate_None after_pass_def Let_def
  by (simp add: opponent_of_eq winner_of_valid)

lemma sendable_valid: "sendable s \<Longrightarrow> State_Validate s = None"
  by (simp add: sendable_def)

lemma sendable_length: "sendable s \<Longrightarrow> length (cells s) = 64"
  by (simp add: sendable_def State_Validate_None)

lemma apply_command_valid:
  assumes "sendable s"
  shows "Response_Validate (apply_command s c) = None"
proof (cases "accepts s c")
  case None
  then show ?thesis
    using rejection_iff[of s c] rejection_of_fields[of s "apply_command s c"] sendable_valid[OF assms]
    by (auto simp: accepts_None_iff Response_Validate_None)
next
  case (Some s')
  note len = sendable_length[OF assms]
  obtain e where r: "apply_command s c = ok_response s' (Some e)" using accepts_Some[OF Some] by blast
  have t: "command_timely s c" using Some accepts_iff[OF len] by blast
  then have chk: "command_check s c = None" by (simp add: command_check_None)
  have fin: "st_Phase s \<noteq> ''finished''" using t by (simp add: command_timely_def)
  have s': "sendable s'"
    using Some after_place_valid[OF sendable_valid[OF assms] fin] after_pass_valid[OF assms fin]
    unfolding accepts_iff[OF len] by blast
  have turn: "0 \<le> st_TurnNumber s" "Player_Valid (st_CurrentPlayer s)" "cm_CommandID c \<noteq> ''''"
    using assms t by (simp_all add: sendable_def State_Validate_None command_timely_def)
  have "Event_Validate e = None"
  proof (cases "cm_Type c = ''place''")
    case True
    with t obtain row col where rc: "cm_Row c = Some row" "cm_Col c = Some col"
      by (auto simp: command_timely_def)
    then have a: "apply_command s c = apply_place s (cm_CommandID c) row col"
      using chk True by (simp add: apply_command_def)
    have ok: "rs_OK (apply_place s (cm_CommandID c) row col)" using r unfolding a by simp
    have "in_board row col" using ok apply_place_accepted(1)[OF len] by blast
    moreover have "rs_Event (apply_place s (cm_CommandID c) row col) = Some e"
      using r unfolding a by simp
    ultimately show ?thesis
      using apply_place_event[OF ok] turn
        changes_in_bounds[of "cells s" "st_NextColor s" row col]
      by (auto simp: Event_Validate_None in_board_InBounds)
  next
    case False
    then have a: "apply_command s c = apply_pass s (cm_CommandID c)"
      using chk by (simp add: apply_command_def)
    have ok: "rs_OK (apply_pass s (cm_CommandID c))" using r unfolding a by simp
    have "rs_Event (apply_pass s (cm_CommandID c)) = Some e"
      using r unfolding a by simp
    then show ?thesis
      using apply_pass_event[OF ok] turn by (auto simp: Event_Validate_None)
  qed
  then show ?thesis
    unfolding r using sendable_valid[OF s'] by (simp add: Response_Validate_None ok_response_def)
qed

lemma evaluate_apply:
  assumes "State_Validate s = None"
  shows "evaluate (ApplyCommandRequest s c) = apply_command s c"
  using assms by (simp add: evaluate_def ApplyCommandRequest_def state_valid_iff)

lemma evaluate_new:
  assumes "gameId \<noteq> ''''"
  shows "evaluate (NewGameRequest gameId seed) = ok_response (new_game gameId seed) None"
  using assms by (simp add: evaluate_def NewGameRequest_def)

lemma evaluate_valid:
  assumes "Request_Validate q = None" "pred_option sendable (rq_State q)"
  shows "Response_Validate (evaluate q) = None"
proof -
  consider (new) seed where "rq_Version q = ''1''" "rq_Action q = ActionNewGame" "rq_GameID q \<noteq> ''''"
      "rq_Seed q = Some seed"
    | (command) s c where "rq_Version q = ''1''" "rq_Action q = ActionApplyCommand" "rq_State q = Some s"
      "rq_Command q = Some c" "State_Validate s = None"
    using assms(1) by (auto simp: Request_Validate_None)
  then show ?thesis
  proof cases
    case new
    then show ?thesis
      using game_inv_valid[OF new_game_inv[OF new(3), of seed]]
      by (simp add: evaluate_def Response_Validate_None ok_response_def)
  next
    case command
    then show ?thesis
      using apply_command_valid assms(2) by (simp add: evaluate_def state_valid_iff)
  qed
qed

end
