(* ===== verification/Runtime.thy ===== *)
theory Runtime
  imports Game
begin

text \<open>
  The boundary to the rule engine: \<open>server/internal/runtime\<close> (\<open>runtime.go\<close>, \<open>errors.go\<close>).

  The operating system is a parameter: \<open>stat\<close> for \<open>os.Stat\<close> and \<open>cmd\<close> for one run of the
  gonako process, which gives what \<open>exec.Cmd.Run\<close> and the context leave behind. So are
  \<open>marshal\<close> and \<open>unmarshal\<close>, the calls of \<open>encoding/json\<close> at the process boundary. A Go result
  \<open>(*Response, error)\<close> is \<open>rt_error + response option\<close>: \<open>Inl\<close> an error, \<open>Inr None\<close> a nil
  response with a nil error.
\<close>

section \<open>Errors (errors.go)\<close>

datatype decode_cause =
    JSONError string
  | ContractError perror

datatype rt_error =
    ConfigError string string string \<comment> \<open>Field, Value, Message\<close>
  | TimeoutError int string \<comment> \<open>Timeout in nanoseconds, Stderr\<close>
  | ContextCanceled
  | ExecError int string string \<comment> \<open>ExitCode, Stderr, Stdout\<close>
  | DecodeError string decode_cause \<comment> \<open>Output, Err\<close>

definition stderrLimit :: nat where "stderrLimit = 8 * 1024"

definition truncate_text :: "string \<Rightarrow> nat \<Rightarrow> string" where
  "truncate_text value limit =
     (let value = TrimSpace value in
      if length value \<le> limit then value else take limit value @ utf8 [0x2026])"

definition ExecError_ProtocolError :: perror where
  "ExecError_ProtocolError = NewError CodeInvalidJSON (utf8 [0x30EB, 0x30FC,
      0x30EB] @ ''engine'' @ utf8 [0x304C, 0x8981, 0x6C42, 0x3092, 0x89E3, 0x6790, 0x3067,
      0x304D, 0x307E, 0x305B, 0x3093, 0x3067, 0x3057, 0x305F])"

section \<open>The gonako runner (runtime.go)\<close>

definition DefaultTimeout :: int where "DefaultTimeout = 5 * 1000000000"

record config =
  cf_GonakoPath :: string
  cf_RulesPath :: string
  cf_Timeout :: int

record gonako =
  gk_gonakoPath :: string
  gk_rulesPath :: string
  gk_timeout :: int

text \<open>\<open>stat path\<close> is \<open>None\<close> when \<open>os.Stat\<close> fails, else whether the path is a directory.\<close>

definition New ::
  "(string \<Rightarrow> bool option) \<Rightarrow> (int \<Rightarrow> string) \<Rightarrow> config \<Rightarrow> rt_error + gonako" where
  "New stat show_duration config =
     (if cf_GonakoPath config = '''' then
        Inl (ConfigError ''GonakoPath'' '''' (''gonako'' @ utf8 [0x5B9F, 0x884C, 0x30D5,
      0x30A1, 0x30A4, 0x30EB, 0x306E, 0x30D1, 0x30B9, 0x304C, 0x5FC5, 0x8981, 0x3067, 0x3059]))
      else if cf_RulesPath config = '''' then
        Inl (ConfigError ''RulesPath'' '''' (utf8 [0x30EB, 0x30FC,
      0x30EB] @ ''source'' @ utf8 [0x306E, 0x30D1, 0x30B9, 0x304C, 0x5FC5, 0x8981, 0x3067,
      0x3059]))
      else if cf_Timeout config < 0 then
        Inl (ConfigError ''Timeout'' (show_duration (cf_Timeout config))
          (''Timeout'' @ utf8 [0x306F] @ ''0'' @ utf8 [0x4EE5, 0x4E0A, 0x3067, 0x3042, 0x308B,
      0x5FC5, 0x8981, 0x304C, 0x3042, 0x308A, 0x307E, 0x3059]))
      else case stat (cf_GonakoPath config) of
        None \<Rightarrow> Inl (ConfigError ''GonakoPath'' (cf_GonakoPath config)
                  (''gonako'' @ utf8 [0x5B9F, 0x884C, 0x30D5, 0x30A1, 0x30A4, 0x30EB, 0x304C,
      0x898B, 0x3064, 0x304B, 0x308A, 0x307E, 0x305B, 0x3093]))
      | Some True \<Rightarrow> Inl (ConfigError ''GonakoPath'' (cf_GonakoPath config)
                       (''gonako'' @ utf8 [0x5B9F, 0x884C, 0x30D5, 0x30A1, 0x30A4, 0x30EB,
      0x304C, 0x30C7, 0x30A3, 0x30EC, 0x30AF, 0x30C8, 0x30EA, 0x3067, 0x3059]))
      | Some False \<Rightarrow>
      (case stat (cf_RulesPath config) of
        None \<Rightarrow> Inl (ConfigError ''RulesPath'' (cf_RulesPath config)
                  (utf8 [0x30EB, 0x30FC, 0x30EB] @ ''source'' @ utf8 [0x304C, 0x898B, 0x3064,
      0x304B, 0x308A, 0x307E, 0x305B, 0x3093]))
      | Some True \<Rightarrow> Inl (ConfigError ''RulesPath'' (cf_RulesPath config)
                       (utf8 [0x30EB, 0x30FC, 0x30EB] @ ''source'' @ utf8 [0x304C, 0x30C7,
      0x30A3, 0x30EC, 0x30AF, 0x30C8, 0x30EA, 0x3067, 0x3059]))
      | Some False \<Rightarrow>
          Inr \<lparr>gk_gonakoPath = cf_GonakoPath config, gk_rulesPath = cf_RulesPath config,
               gk_timeout = (if cf_Timeout config = 0 then DefaultTimeout else cf_Timeout config)\<rparr>))"

definition Ready :: "(string \<Rightarrow> bool option) \<Rightarrow> gonako \<Rightarrow> bool" where
  "Ready stat g \<longleftrightarrow> stat (gk_gonakoPath g) \<noteq> None \<and> stat (gk_rulesPath g) \<noteq> None"

definition Timeout :: "gonako \<Rightarrow> int" where
  "Timeout g = gk_timeout g"

datatype ctx_error = DeadlineExceeded | Canceled

datatype run_error = ExitError int | StartError string

record process_result =
  pr_Stdout :: string
  pr_Stderr :: string
  pr_CtxErr :: "ctx_error option"
  pr_RunErr :: "run_error option"

definition run_process ::
  "gonako \<Rightarrow> (string \<Rightarrow> process_result) \<Rightarrow> string \<Rightarrow> rt_error + string \<times> string" where
  "run_process g cmd payload =
     (let r = cmd payload; stderrText = truncate_text (pr_Stderr r) stderrLimit in
      if pr_CtxErr r = Some DeadlineExceeded then Inl (TimeoutError (gk_timeout g) stderrText)
      else if pr_CtxErr r = Some Canceled then Inl ContextCanceled
      else case pr_RunErr r of
        Some err \<Rightarrow>
          Inl (ExecError (case err of ExitError code \<Rightarrow> code | StartError _ \<Rightarrow> -1)
                 stderrText (truncate_text (pr_Stdout r) stderrLimit))
      | None \<Rightarrow> Inr (pr_Stdout r, pr_Stderr r))"

definition rejected_response :: "perror \<Rightarrow> response" where
  "rejected_response protocolErr =
     \<lparr>rs_Version = Version, rs_OK = False, rs_State = None, rs_Event = None,
      rs_Error = Some protocolErr\<rparr>"

definition Evaluate ::
  "gonako \<Rightarrow> (request \<Rightarrow> string + string) \<Rightarrow> (string \<Rightarrow> string + response) \<Rightarrow>
   (string \<Rightarrow> process_result) \<Rightarrow> request \<Rightarrow> rt_error + response option" where
  "Evaluate g marshal unmarshal cmd request =
     (case Request_Validate request of
        Some protocolErr \<Rightarrow> Inr (Some (rejected_response protocolErr))
      | None \<Rightarrow>
      (case marshal request of
        Inl err \<Rightarrow> Inl (DecodeError '''' (JSONError err))
      | Inr payload \<Rightarrow>
      (case run_process g cmd payload of
        Inl err \<Rightarrow> Inl err
      | Inr (stdout, stderr) \<Rightarrow>
      (case unmarshal stdout of
        Inl err \<Rightarrow> Inl (DecodeError stdout (JSONError err))
      | Inr response \<Rightarrow>
      (case Response_Validate response of
        Some protocolErr \<Rightarrow> Inl (DecodeError stdout (ContractError protocolErr))
      | None \<Rightarrow> Inr (Some response))))))"

text \<open>The conveniences that work with any \<open>Runner\<close>.\<close>

type_synonym runner = "request \<Rightarrow> rt_error + response option"

definition NewGame :: "runner \<Rightarrow> string \<Rightarrow> 32 word \<Rightarrow> rt_error + response option" where
  "NewGame runner gameID seed = runner (NewGameRequest gameID seed)"

definition ApplyCommand :: "runner \<Rightarrow> state \<Rightarrow> command \<Rightarrow> rt_error + response option" where
  "ApplyCommand runner s c = runner (ApplyCommandRequest s c)"

section \<open>The interface of the services: Runner\<close>

text \<open>
  The services depend on the Go interface \<open>Runner\<close> only. What they may rely on: a nil error comes
  with a response, the response satisfies the contract, and a request that does not is answered by
  a rejection with the validator's error.
\<close>

locale contract_runner =
  fixes eval :: runner
  assumes eval_not_nil: "eval q \<noteq> Inr None"
    and eval_valid: "eval q = Inr (Some r) \<Longrightarrow> Response_Validate r = None"
    and eval_invalid:
      "Request_Validate q = Some e \<Longrightarrow> eval q = Inr (Some (rejected_response e))"
begin

lemma eval_cases:
  obtains (error) err where "eval q = Inl err"
  | (response) r where "eval q = Inr (Some r)" "Response_Validate r = None"
  using eval_not_nil[of q] eval_valid[of q] by (cases "eval q") auto

lemma eval_ok_state:
  "eval q = Inr (Some r) \<Longrightarrow> rs_OK r \<Longrightarrow> \<exists>s. rs_State r = Some s \<and> State_Validate s = None"
  using eval_valid by (auto simp: Response_Validate_None)

lemma eval_rejection:
  "eval q = Inr (Some r) \<Longrightarrow> \<not> rs_OK r \<Longrightarrow>
     rs_Event r = None \<and> (\<exists>e. rs_Error r = Some e \<and> ErrorCode_Valid (pe_Code e) \<and> pe_Message e \<noteq> '''')"
  using eval_valid by (auto simp: Response_Validate_None)

end

text \<open>
  The stronger contract of a runner that judges by the rules: a new game is the rules' new game,
  and a command is judged on a game state as the rules judge it. The state may have gone through
  JSON, where a nil list of legal moves becomes an empty one.
\<close>

definition wire_state :: "state \<Rightarrow> state" where
  "wire_state s = s\<lparr>st_LegalMoves := Some (elems (st_LegalMoves s))\<rparr>"

locale rules_runner = contract_runner +
  assumes eval_new:
      "eval (NewGameRequest gameId seed) = Inr (Some r) \<Longrightarrow> gameId \<noteq> '''' \<Longrightarrow>
         r = ok_response (new_game gameId seed) None"
    and eval_apply:
      "eval (ApplyCommandRequest s c) = Inr (Some r) \<Longrightarrow>
         State_Validate s = None \<Longrightarrow> Command_Validate c = None \<Longrightarrow> r = apply_command (wire_state s) c"
begin

lemma eval_apply_ok:
  assumes "eval (ApplyCommandRequest s c) = Inr (Some r)" "State_Validate s = None"
    "Command_Validate c = None" "rs_OK r"
  shows "\<exists>s' e. accepts (wire_state s) c = Some s' \<and> r = ok_response s' (Some e)"
proof -
  have r: "r = apply_command (wire_state s) c" using eval_apply assms(1-3) by blast
  then have "acceptance r" using apply_command_shape[of "wire_state s" c] assms(4) rejection_of_fields by blast
  then show ?thesis using r by (auto simp: acceptance_def accepts_def Let_def)
qed

end

section \<open>What the gonako runner guarantees\<close>

text \<open>The error of every validator is fit to be sent as a response.\<close>

lemma Request_Validate_code:
  "Request_Validate q = Some e \<Longrightarrow> ErrorCode_Valid (pe_Code e) \<and> pe_Message e \<noteq> ''''"
proof -
  have b: "Board_Validate b = Some e \<Longrightarrow> ErrorCode_Valid (pe_Code e) \<and> pe_Message e \<noteq> ''''" for b
    by (auto simp: Board_Validate_def NewError_def split: if_splits)
  have s: "State_Validate s = Some e \<Longrightarrow> ErrorCode_Valid (pe_Code e) \<and> pe_Message e \<noteq> ''''" for s
    using b by (auto simp: State_Validate_def NewError_def split: if_splits option.splits)
  assume "Request_Validate q = Some e"
  then show ?thesis
    using s Command_Validate_code
    by (auto simp: Request_Validate_def NewError_def split: if_splits option.splits)
qed

lemma rejected_response_valid:
  "Request_Validate q = Some e \<Longrightarrow> Response_Validate (rejected_response e) = None"
  using Request_Validate_code by (auto simp: rejected_response_def Response_Validate_None)

text \<open>Whatever the process and the JSON functions do, \<open>Evaluate\<close> is a contract runner.\<close>

interpretation gonako: contract_runner "Evaluate g marshal unmarshal cmd"
  for g marshal unmarshal cmd
proof unfold_locales
  show "Evaluate g marshal unmarshal cmd q \<noteq> Inr None" for q
    by (auto simp: Evaluate_def split: option.splits sum.splits)
  show "Response_Validate r = None" if "Evaluate g marshal unmarshal cmd q = Inr (Some r)" for q r
    using that rejected_response_valid[of q]
    by (auto simp: Evaluate_def split: option.splits sum.splits)
  show "Evaluate g marshal unmarshal cmd q = Inr (Some (rejected_response e))"
    if "Request_Validate q = Some e" for q e
    using that by (simp add: Evaluate_def)
qed

text \<open>
  The runner with the engine in place of the process: a request that passes validation either
  meets a failure of the execution platform or is judged by the rules.
\<close>

definition wire_request :: "request \<Rightarrow> request" where
  "wire_request q = q\<lparr>rq_State := map_option wire_state (rq_State q)\<rparr>"

definition engine_runner :: "(request \<Rightarrow> rt_error option) \<Rightarrow> runner" where
  "engine_runner fails q =
     (case Request_Validate q of
        Some protocolErr \<Rightarrow> Inr (Some (rejected_response protocolErr))
      | None \<Rightarrow>
      (case fails q of
        Some err \<Rightarrow> Inl err
      | None \<Rightarrow>
          let response = evaluate (wire_request q) in
          (case Response_Validate response of
             Some protocolErr \<Rightarrow> Inl (DecodeError '''' (ContractError protocolErr))
           | None \<Rightarrow> Inr (Some response))))"

lemma wire_state_fields [simp]:
  "st_Version (wire_state s) = st_Version s" "st_GameID (wire_state s) = st_GameID s"
  "st_Board (wire_state s) = st_Board s" "st_TurnNumber (wire_state s) = st_TurnNumber s"
  "st_CurrentPlayer (wire_state s) = st_CurrentPlayer s"
  "st_NextColor (wire_state s) = st_NextColor s" "st_RNGState (wire_state s) = st_RNGState s"
  "st_ConsecutivePasses (wire_state s) = st_ConsecutivePasses s"
  "st_Phase (wire_state s) = st_Phase s" "st_Winner (wire_state s) = st_Winner s"
  "elems (st_LegalMoves (wire_state s)) = elems (st_LegalMoves s)"
  by (simp_all add: wire_state_def)

lemma wire_state_valid [simp]: "State_Validate (wire_state s) = None \<longleftrightarrow> State_Validate s = None"
  by (simp add: State_Validate_None)

lemma wire_apply: "wire_request (ApplyCommandRequest s c) = ApplyCommandRequest (wire_state s) c"
  by (simp add: wire_request_def ApplyCommandRequest_def)

lemma wire_new: "wire_request (NewGameRequest gameId seed) = NewGameRequest gameId seed"
  by (simp add: wire_request_def NewGameRequest_def)

lemma Request_Validate_new: "Request_Validate (NewGameRequest gameId seed) = None \<longleftrightarrow> gameId \<noteq> ''''"
  by (simp add: Request_Validate_None NewGameRequest_def)

lemma Request_Validate_apply:
  "Request_Validate (ApplyCommandRequest s c) = None \<longleftrightarrow>
     State_Validate s = None \<and> Command_Validate c = None"
  by (simp add: Request_Validate_None ApplyCommandRequest_def)

interpretation engine: rules_runner "engine_runner fails" for fails
proof unfold_locales
  show "engine_runner fails q \<noteq> Inr None" for q
    by (auto simp: engine_runner_def Let_def split: option.splits)
  show "Response_Validate r = None" if "engine_runner fails q = Inr (Some r)" for q r
    using that rejected_response_valid[of q]
    by (auto simp: engine_runner_def Let_def split: option.splits)
  show "engine_runner fails q = Inr (Some (rejected_response e))"
    if "Request_Validate q = Some e" for q e
    using that by (simp add: engine_runner_def)
  show "r = ok_response (new_game gameId seed) None"
    if "engine_runner fails (NewGameRequest gameId seed) = Inr (Some r)" "gameId \<noteq> ''''" for gameId seed r
    using that Request_Validate_new[of gameId seed] evaluate_new[of gameId seed]
    by (auto simp: engine_runner_def wire_new Let_def split: option.splits)
  show "r = apply_command (wire_state s) c"
    if "engine_runner fails (ApplyCommandRequest s c) = Inr (Some r)"
      "State_Validate s = None" "Command_Validate c = None" for s c r
    using that Request_Validate_apply[of s c] evaluate_apply[of "wire_state s" c]
    by (auto simp: engine_runner_def wire_apply Let_def split: option.splits)
qed

lemma engine_starts:
  assumes "gid \<noteq> ''''"
  shows "engine_runner (\<lambda>_. None) (NewGameRequest gid seed) = Inr (Some (ok_response (new_game gid seed) None))"
proof -
  have "Response_Validate (evaluate (NewGameRequest gid seed)) = None"
    using assms by (intro evaluate_valid) (simp_all add: Request_Validate_new, simp add: NewGameRequest_def)
  then show ?thesis
    using assms Request_Validate_new[of gid seed]
    by (simp add: engine_runner_def wire_new evaluate_new Let_def)
qed

text \<open>
  \<open>Evaluate\<close> refines the engine runner when the process does what it is there for: on the JSON of
  a valid request, if it ends without an error, it prints the JSON of the engine's response.
\<close>

definition process_runs_rules ::
  "(request \<Rightarrow> string + string) \<Rightarrow> (string \<Rightarrow> string + response) \<Rightarrow> (string \<Rightarrow> process_result) \<Rightarrow>
   request \<Rightarrow> bool" where
  "process_runs_rules marshal unmarshal cmd q \<longleftrightarrow>
     (case marshal q of
        Inl _ \<Rightarrow> False
      | Inr payload \<Rightarrow>
          pr_CtxErr (cmd payload) \<noteq> None \<or> pr_RunErr (cmd payload) \<noteq> None \<or>
          unmarshal (pr_Stdout (cmd payload)) = Inr (evaluate (wire_request q)))"

definition platform_failure ::
  "gonako \<Rightarrow> (request \<Rightarrow> string + string) \<Rightarrow> (string \<Rightarrow> process_result) \<Rightarrow> request \<Rightarrow> rt_error option" where
  "platform_failure g marshal cmd q =
     (case marshal q of
        Inl _ \<Rightarrow> None
      | Inr payload \<Rightarrow>
          (case run_process g cmd payload of Inl err \<Rightarrow> Some err | Inr _ \<Rightarrow> None))"

lemma sendable_wire [simp]: "sendable (wire_state s) = sendable s"
  by (simp add: sendable_def)

lemma Request_Validate_wire: "Request_Validate (wire_request q) = None \<longleftrightarrow> Request_Validate q = None"
  by (auto simp: Request_Validate_None wire_request_def)

lemma run_process_ok:
  "run_process g cmd payload = Inr (out, err) \<Longrightarrow>
     pr_CtxErr (cmd payload) = None \<and> pr_RunErr (cmd payload) = None \<and> out = pr_Stdout (cmd payload)"
  by (cases "pr_CtxErr (cmd payload)"; cases "the (pr_CtxErr (cmd payload))")
    (auto simp: run_process_def Let_def split: option.splits)

lemma Evaluate_refines_engine:
  assumes run: "process_runs_rules marshal unmarshal cmd q" and send: "pred_option sendable (rq_State q)"
  shows "Evaluate g marshal unmarshal cmd q = engine_runner (platform_failure g marshal cmd) q"
proof (cases "Request_Validate q")
  case (Some e)
  then show ?thesis by (simp add: Evaluate_def engine_runner_def)
next
  case None
  from run obtain payload where p: "marshal q = Inr payload"
    by (auto simp: process_runs_rules_def split: sum.splits)
  have v: "Response_Validate (evaluate (wire_request q)) = None"
  proof (rule evaluate_valid)
    show "Request_Validate (wire_request q) = None" using None by (simp add: Request_Validate_wire)
    show "pred_option sendable (rq_State (wire_request q))"
      using send by (simp add: wire_request_def option.pred_map o_def)
  qed
  show ?thesis
  proof (cases "run_process g cmd payload")
    case (Inl err)
    with None p show ?thesis by (simp add: Evaluate_def engine_runner_def platform_failure_def)
  next
    case (Inr out)
    obtain so se where "out = (so, se)" by fastforce
    with Inr run_process_ok[of g cmd payload so se] run p
    have "unmarshal so = Inr (evaluate (wire_request q))"
      by (simp add: process_runs_rules_def)
    with None p Inr v \<open>out = (so, se)\<close> show ?thesis
      by (simp add: Evaluate_def engine_runner_def platform_failure_def Let_def)
  qed
qed

lemma length_truncate: "length (truncate_text value limit) \<le> limit + 3"
  by (auto simp: truncate_text_def Let_def utf8_def utf8_char_def)

end
