(* ===== verification/RuntimeTest.thy ===== *)
theory RuntimeTest
  imports Runtime
begin

text \<open>
  The replacement for the rule engine in the server's tests:
  \<open>server/internal/runtime/runtimetest/fake.go\<close>. It records the requests and answers them with a
  given function or with a fixed accepted state, which is meant to be the state of a new game.
\<close>

section \<open>Definitions\<close>

record fake =
  fk_requests :: "request list"
  fk_EvaluateFunc :: "runner option"

definition fake_New :: "runner option \<Rightarrow> fake" where
  "fake_New evaluateFunc = \<lparr>fk_requests = [], fk_EvaluateFunc = evaluateFunc\<rparr>"

definition Accepted :: "state \<Rightarrow> response" where
  "Accepted s =
     \<lparr>rs_Version = Version, rs_OK = True, rs_State = Some s, rs_Event = None, rs_Error = None\<rparr>"

definition Rejected :: "string \<Rightarrow> string \<Rightarrow> state \<Rightarrow> response" where
  "Rejected code message s =
     \<lparr>rs_Version = Version, rs_OK = False, rs_State = Some s, rs_Event = None,
      rs_Error = Some (NewError code message)\<rparr>"

definition NewState :: "string \<Rightarrow> state" where
  "NewState gameID =
     (let gameID = (if gameID = '''' then ''fake-game'' else gameID);
          board = elems NewBoard;
          board = board[nat (Index 3 3) := NewCell 0];
          board = board[nat (Index 4 4) := NewCell 0];
          board = board[nat (Index 3 4) := NewCell 255];
          board = board[nat (Index 4 3) := NewCell 255]
      in \<lparr>st_Version = Version, st_GameID = gameID, st_Board = Some board, st_TurnNumber = 0,
          st_CurrentPlayer = PlayerDark, st_NextColor = 60, st_RNGState = 1015568748,
          st_ConsecutivePasses = 0, st_Phase = PhasePlaying, st_Winner = None,
          st_LegalMoves = Some
            [\<lparr>pos_Row = 2, pos_Col = 2\<rparr>, \<lparr>pos_Row = 2, pos_Col = 3\<rparr>,
             \<lparr>pos_Row = 2, pos_Col = 4\<rparr>, \<lparr>pos_Row = 2, pos_Col = 5\<rparr>,
             \<lparr>pos_Row = 3, pos_Col = 2\<rparr>, \<lparr>pos_Row = 3, pos_Col = 5\<rparr>,
             \<lparr>pos_Row = 4, pos_Col = 2\<rparr>, \<lparr>pos_Row = 4, pos_Col = 5\<rparr>,
             \<lparr>pos_Row = 5, pos_Col = 2\<rparr>, \<lparr>pos_Row = 5, pos_Col = 3\<rparr>,
             \<lparr>pos_Row = 5, pos_Col = 4\<rparr>, \<lparr>pos_Row = 5, pos_Col = 5\<rparr>]\<rparr>)"

definition fake_Evaluate :: "fake \<Rightarrow> request \<Rightarrow> fake \<times> (rt_error + response option)" where
  "fake_Evaluate f request =
     (let f' = f\<lparr>fk_requests := fk_requests f @ [request]\<rparr>
      in case fk_EvaluateFunc f' of
           Some evaluateFunc \<Rightarrow> (f', evaluateFunc request)
         | None \<Rightarrow> (f', Inr (Some (Accepted (NewState (rq_GameID request))))))"

definition fake_Requests :: "fake \<Rightarrow> request list" where
  "fake_Requests f = fk_requests f"

definition fake_Len :: "fake \<Rightarrow> nat" where
  "fake_Len f = length (fk_requests f)"

definition fake_Reset :: "fake \<Rightarrow> fake" where
  "fake_Reset f = f\<lparr>fk_requests := []\<rparr>"

section \<open>The fixed state\<close>

lemma first_board_walks:
  "legal_moves first_board =
     [\<lparr>pos_Row = 2, pos_Col = 2\<rparr>, \<lparr>pos_Row = 2, pos_Col = 3\<rparr>,
      \<lparr>pos_Row = 2, pos_Col = 4\<rparr>, \<lparr>pos_Row = 2, pos_Col = 5\<rparr>,
      \<lparr>pos_Row = 3, pos_Col = 2\<rparr>, \<lparr>pos_Row = 3, pos_Col = 5\<rparr>,
      \<lparr>pos_Row = 4, pos_Col = 2\<rparr>, \<lparr>pos_Row = 4, pos_Col = 5\<rparr>,
      \<lparr>pos_Row = 5, pos_Col = 2\<rparr>, \<lparr>pos_Row = 5, pos_Col = 3\<rparr>,
      \<lparr>pos_Row = 5, pos_Col = 4\<rparr>, \<lparr>pos_Row = 5, pos_Col = 5\<rparr>]"
  unfolding first_board_eq by code_simp

lemma fake_new_game: "gameID \<noteq> '''' \<Longrightarrow> NewState gameID = new_game gameID 1"
proof -
  assume g: "gameID \<noteq> ''''"
  have b: "(replicate 64 None)[nat (Index 3 3) := NewCell 0, nat (Index 4 4) := NewCell 0,
      nat (Index 3 4) := NewCell 255, nat (Index 4 3) := NewCell 255] = first_board"
    by (simp add: first_board_eq Index_def BoardSize_def NewCell_def numeral_eq_Suc)
  have r: "lcg_next 1 = 1015568748" by (simp add: lcg_next_word)
  have c: "color_of 1015568748 = 60" by (simp add: color_of_def)
  show ?thesis
    by (rule state.equality)
      (use g b in \<open>simp_all add: NewState_def Let_def r c NewBoard_def BoardCells_def BoardSize_def
          first_board_walks\<close>)
qed

end
