(* ===== verification/Lines.thy ===== *)
theory Lines
  imports Prelude
begin

text \<open>
  Text as lines: \<open>strings.Split\<close> on newlines and the pieces of which the line patterns of
  \<open>server/internal/replay\<close> (Go regular expressions) are composed. The patterns are
  deterministic from left to right (every repetition stops at a character that the next piece does
  not admit), so each is a chain of functions that take what they match off the front of a line and
  return the rest: \<open>lit\<close> for a literal, \<open>digits\<close> for \<open>\d+\<close>, \<open>break_at\<close> for the text up to a
  delimiter, \<open>comment_tail\<close> for \<open>\s*(?:#(.*))?$\<close>. UTF-8 is self-synchronising, so a search for a
  delimiter on bytes finds what the search on characters finds.
\<close>

section \<open>Lines\<close>

text \<open>The newline character, and \<open>strings.Split\<close> for a separator of one byte.\<close>

definition nl :: char where "nl = CHR 0x0A"

fun split_on :: "char \<Rightarrow> string \<Rightarrow> string list" where
  "split_on c [] = [[]]"
| "split_on c (x # xs) =
     (if x = c then [] # split_on c xs
      else (let ls = split_on c xs in (x # hd ls) # tl ls))"

definition unlines :: "string list \<Rightarrow> string" where
  "unlines ls = concat (map (\<lambda>l. l @ [nl]) ls)"

section \<open>Pieces of the line patterns\<close>

definition lit :: "string \<Rightarrow> string \<Rightarrow> string option" where
  "lit p s = (if starts_with p s then Some (drop (length p) s) else None)"

definition is_ws :: "char \<Rightarrow> bool" where
  "is_ws c \<longleftrightarrow> c \<in> {CHR 0x09, CHR 0x0A, CHR 0x0C, CHR 0x0D, CHR 0x20}"

definition is_digit :: "char \<Rightarrow> bool" where
  "is_digit c \<longleftrightarrow> 48 \<le> (of_char c :: nat) \<and> (of_char c :: nat) \<le> 57"

definition digits :: "string \<Rightarrow> (string \<times> string) option" where
  "digits s = (let ds = takeWhile is_digit s in if ds = [] then None else Some (ds, dropWhile is_digit s))"

fun break_at :: "string \<Rightarrow> string \<Rightarrow> string \<times> string" where
  "break_at p [] = ([], [])"
| "break_at p (c # cs) =
     (if starts_with p (c # cs) then ([], c # cs)
      else (let (a, b) = break_at p cs in (c # a, b)))"

definition comment_tail :: "string \<Rightarrow> string option" where
  "comment_tail s =
     (case dropWhile is_ws s of
        [] \<Rightarrow> Some ''''
      | c # t \<Rightarrow> if c = CHR 0x23 \<and> nl \<notin> set t then Some t else None)"

definition num :: "string \<Rightarrow> nat" where
  "num s = foldl (\<lambda>n c. 10 * n + (of_char c - 48)) 0 s"

lemma split_on_not_Nil [simp]: "split_on c s \<noteq> []"
  by (cases s) (simp_all add: Let_def)

lemma split_on_append:
  "c \<notin> set l \<Longrightarrow> split_on c (l @ c # r) = l # split_on c r"
  by (induction l) (auto simp: Let_def)

lemma split_on_none: "c \<notin> set l \<Longrightarrow> split_on c l = [l]"
  by (induction l) (auto simp: Let_def)

lemma split_unlines:
  "\<forall>l \<in> set ls. nl \<notin> set l \<Longrightarrow> split_on nl (unlines ls) = ls @ [[]]"
  by (induction ls) (simp_all add: unlines_def split_on_append)

lemma split_on_no_sep: "l \<in> set (split_on c s) \<Longrightarrow> c \<notin> set l"
proof (induction s arbitrary: l)
  case Nil
  then show ?case by simp
next
  case (Cons x xs)
  obtain l0 ls where "split_on c xs = l0 # ls" by (cases "split_on c xs") auto
  with Cons show ?case by (auto simp: Let_def split: if_splits)
qed

lemma starts_with_append [simp]: "starts_with p (p @ s)"
  by (simp add: starts_with_def)

lemma starts_with_iff: "starts_with p s \<longleftrightarrow> (\<exists>r. s = p @ r)"
  by (metis append_eq_conv_conj append_take_drop_id starts_with_def)

lemma lit_append [simp]: "lit p (p @ s) = Some s"
  by (simp add: lit_def)

lemma lit_Some: "lit p s = Some r \<longleftrightarrow> s = p @ r"
  by (auto simp: lit_def starts_with_iff)

lemma of_char_char_of: "n < 256 \<Longrightarrow> (of_char (char_of n :: char) :: nat) = n"
  by simp

lemma is_digit_char [simp]: "d < 10 \<Longrightarrow> is_digit (digit_char d)"
  by (simp add: is_digit_def digit_char_def)

lemma dec_digits: "list_all is_digit (dec n)"
proof (induction n rule: dec.induct)
  case (1 n)
  then show ?case by (subst dec.simps) simp
qed

lemma num_append: "num (s @ [c]) = 10 * num s + (of_char c - 48)"
  by (simp add: num_def)

lemma num_dec [simp]: "num (dec n) = n"
proof (induction n rule: dec.induct)
  case (1 n)
  have d: "of_char (digit_char k) - 48 = k" if "k < 10" for k
    using that by (simp add: digit_char_def)
  show ?case
  proof (cases "n < 10")
    case True
    then show ?thesis by (subst dec.simps) (simp add: num_def d)
  next
    case False
    then show ?thesis using 1 by (subst dec.simps) (simp add: num_append d)
  qed
qed

lemma digits_dec:
  "r = [] \<or> \<not> is_digit (hd r) \<Longrightarrow> digits (dec n @ r) = Some (dec n, r)"
proof -
  assume r: "r = [] \<or> \<not> is_digit (hd r)"
  have "takeWhile is_digit (dec n @ r) = dec n" "dropWhile is_digit (dec n @ r) = r"
    using dec_digits[of n] r
    by (simp_all add: list_all_iff takeWhile_append dropWhile_append) (cases r; simp)+
  then show ?thesis by (simp add: digits_def Let_def)
qed

lemma break_at_append:
  assumes "p \<noteq> []" "\<And>k. k < length a \<Longrightarrow> \<not> starts_with p (drop k (a @ p @ s))"
  shows "break_at p (a @ p @ s) = (a, p @ s)"
  using assms(2)
proof (induction a)
  case Nil
  then show ?case using assms(1) by (cases p) (auto simp: starts_with_def)
next
  case (Cons x a)
  have "\<not> starts_with p (drop k (a @ p @ s))" if "k < length a" for k
    using Cons.prems[of "Suc k"] that by simp
  with Cons.IH Cons.prems[of 0] show ?case by simp
qed

lemma break_at_hd:
  "p \<noteq> [] \<Longrightarrow> hd p \<notin> set a \<Longrightarrow> break_at p (a @ p @ s) = (a, p @ s)"
  by (induction a) (cases p; auto simp: starts_with_def)+

section \<open>Trimming\<close>

lemma strip_front_none:
  "find (\<lambda>w. w \<noteq> [] \<and> starts_with w s) ws = None \<Longrightarrow> strip_front ws s = s"
  by (subst strip_front.simps) simp

lemma TrimSpace_keeps:
  assumes "\<forall>n \<in> set space_runes. \<not> starts_with (utf8_char n) s \<and> \<not> starts_with (rev (utf8_char n)) (rev s)"
  shows "TrimSpace s = s"
proof -
  have f: "find (\<lambda>w. w \<noteq> [] \<and> starts_with w s) (map utf8_char space_runes) = None"
    using assms by (simp add: find_None_iff)
  have b: "find (\<lambda>w. w \<noteq> [] \<and> starts_with w (rev s)) (map rev (map utf8_char space_runes)) = None"
    using assms by (simp add: find_None_iff)
  show ?thesis
    unfolding TrimSpace_def Let_def strip_front_none[OF f] strip_front_none[OF b] by simp
qed

end
