(* ===== verification/Transport.thy ===== *)
theory Transport
  imports Prelude
begin

text \<open>
  The WebSocket transport of \<open>server/main.go\<close>: the frames that \<open>readFrame\<close> takes off a connection
  and \<open>writeFrame\<close> puts on it, and the close frame with its truncated reason. A connection is the
  list of the bytes that arrive before it ends: \<open>io.ReadFull\<close> fails exactly when they are too few.
  What \<open>writeFrame\<close> writes is its result; that the operating system takes it is not modelled.

  The lengths of two and of eight bytes are natural numbers: as \<open>uint64\<close> they do not wrap. The
  \<open>uint16\<close> that \<open>writeFrame\<close> writes can wrap, and is a word.
\<close>

unbundle bit_operations_syntax

section \<open>Bytes\<close>

type_synonym bytes = "8 word list"

definition bytes_of :: "string \<Rightarrow> bytes" where
  "bytes_of s = map of_char s"

text \<open>\<open>binary.BigEndian\<close>: the number that some bytes are, and the two bytes of a \<open>uint16\<close>.\<close>

definition be_nat :: "bytes \<Rightarrow> nat" where
  "be_nat bs = foldl (\<lambda>n b. 256 * n + unat b) 0 bs"

definition PutUint16 :: "16 word \<Rightarrow> bytes" where
  "PutUint16 w = [ucast (drop_bit 8 w), ucast w]"

subsection \<open>Valid UTF-8\<close>

text \<open>
  \<open>utf8.Valid\<close> of the Go library: the first byte of a sequence tells its size (0 for none) and the
  range of its second byte; the text is a sequence of them.
\<close>

definition lead_size :: "8 word \<Rightarrow> nat" where
  "lead_size b =
     (if b < 0x80 then 1
      else if 0xC2 \<le> b \<and> b \<le> 0xDF then 2
      else if 0xE0 \<le> b \<and> b \<le> 0xEF then 3
      else if 0xF0 \<le> b \<and> b \<le> 0xF4 then 4
      else 0)"

definition accept_lo :: "8 word \<Rightarrow> 8 word" where
  "accept_lo b = (if b = 0xE0 then 0xA0 else if b = 0xF0 then 0x90 else 0x80)"

definition accept_hi :: "8 word \<Rightarrow> 8 word" where
  "accept_hi b = (if b = 0xED then 0x9F else if b = 0xF4 then 0x8F else 0xBF)"

definition rune_ok :: "bytes \<Rightarrow> bool" where
  "rune_ok r =
     (case r of
        b # c # ds \<Rightarrow>
          accept_lo b \<le> c \<and> c \<le> accept_hi b \<and> list_all (\<lambda>d. 0x80 \<le> d \<and> d \<le> 0xBF) ds
      | _ \<Rightarrow> True)"

definition rune_size :: "bytes \<Rightarrow> nat" where
  "rune_size s =
     (if s = [] then 0
      else
        let n = lead_size (hd s) in
        if n \<le> length s \<and> rune_ok (take n s) then n else 0)"

function utf8_valid :: "bytes \<Rightarrow> bool" where
  "utf8_valid s =
     (if s = [] then True
      else if rune_size s = 0 then False
      else utf8_valid (drop (rune_size s) s))"
  by pat_completeness auto
termination by (relation "measure length") auto

declare utf8_valid.simps [simp del]

section \<open>Frames (main.go)\<close>

definition maxWSMessage :: nat where "maxWSMessage = 64 * 1024"

record ws_frame =
  wf_opcode :: "8 word"
  wf_data :: bytes

datatype ws_error =
    ReadErr \<comment> \<open>the connection ended\<close>
  | WSProtocol
  | WSMessageTooLarge

definition read_full :: "nat \<Rightarrow> bytes \<Rightarrow> (bytes \<times> bytes) option" where
  "read_full n s = (if length s < n then None else Some (take n s, drop n s))"

text \<open>The length of a frame, from the seven bits of the second byte.\<close>

definition read_length :: "nat \<Rightarrow> bytes \<Rightarrow> ws_error + nat \<times> bytes" where
  "read_length len s =
     (if len = 126 then
        (case read_full 2 s of
           None \<Rightarrow> Inl ReadErr
         | Some (extended, s) \<Rightarrow>
             if be_nat extended < 126 then Inl WSProtocol else Inr (be_nat extended, s))
      else if len = 127 then
        (case read_full 8 s of
           None \<Rightarrow> Inl ReadErr
         | Some (extended, s) \<Rightarrow>
             if be_nat extended < 65536 \<or> be_nat extended div 2 ^ 63 \<noteq> 0 then Inl WSProtocol
             else Inr (be_nat extended, s))
      else Inr (len, s))"

definition unmask :: "bytes \<Rightarrow> bytes \<Rightarrow> bytes" where
  "unmask key data = map (\<lambda>(i, b). b XOR key ! (i mod 4)) (enumerate 0 data)"

definition readFrame :: "bytes \<Rightarrow> ws_error + ws_frame \<times> bytes" where
  "readFrame s =
     (case read_full 2 s of
        None \<Rightarrow> Inl ReadErr
      | Some (header, s) \<Rightarrow>
      let opcode = (header ! 0) AND 0x0f;
          fin = ((header ! 0) AND 0x80 \<noteq> 0)
      in
      if \<not> fin \<or> (header ! 0) AND 0x70 \<noteq> 0 \<or> (header ! 1) AND 0x80 = 0 then Inl WSProtocol
      else if opcode \<noteq> 1 \<and> opcode \<noteq> 8 \<and> opcode \<noteq> 9 \<and> opcode \<noteq> 10 then Inl WSProtocol
      else case read_length (unat ((header ! 1) AND 0x7f)) s of
        Inl err \<Rightarrow> Inl err
      | Inr (len, s) \<Rightarrow>
      if len > maxWSMessage then Inl WSMessageTooLarge
      else if opcode \<ge> 8 \<and> len > 125 then Inl WSProtocol
      else case read_full 4 s of
        None \<Rightarrow> Inl ReadErr
      | Some (key, s) \<Rightarrow>
      (case read_full len s of
        None \<Rightarrow> Inl ReadErr
      | Some (masked, s) \<Rightarrow>
          let data = unmask key masked in
          if opcode = 1 \<and> \<not> utf8_valid data \<or>
             opcode = 8 \<and> (length data = 1 \<or> length data \<ge> 2 \<and> \<not> utf8_valid (drop 2 data))
          then Inl WSProtocol
          else Inr (\<lparr>wf_opcode = opcode, wf_data = data\<rparr>, s)))"

definition writeFrame :: "ws_frame \<Rightarrow> ws_error + bytes" where
  "writeFrame f =
     (if length (wf_data f) > maxWSMessage then Inl WSMessageTooLarge
      else
        let len = length (wf_data f) in
        Inr ([0x80 OR wf_opcode f] @
             (if len < 126 then [of_nat len] else 126 # PutUint16 (of_nat len)) @
             wf_data f))"

section \<open>Closing (main.go)\<close>

definition closeGoingAway :: "16 word" where "closeGoingAway = 1001"
definition closeProtocol :: "16 word" where "closeProtocol = 1002"
definition closeTooLarge :: "16 word" where "closeTooLarge = 1009"
definition closeTryLater :: "16 word" where "closeTryLater = 1013"
definition closeIdle :: "16 word" where "closeIdle = 4001"
definition closeMaxAge :: "16 word" where "closeMaxAge = 4002"

text \<open>The loop that drops the last byte until the text is valid.\<close>

function shorten :: "bytes \<Rightarrow> bytes" where
  "shorten s = (if s = [] \<or> utf8_valid s then s else shorten (butlast s))"
  by pat_completeness auto
termination by (relation "measure length") auto

declare shorten.simps [simp del]

definition truncateCloseReason :: "bytes \<Rightarrow> bytes" where
  "truncateCloseReason reason =
     (if length reason \<le> 123 then reason else shorten (take 123 reason))"

definition wsCloseFrame :: "16 word \<Rightarrow> bytes \<Rightarrow> ws_frame" where
  "wsCloseFrame code reason =
     \<lparr>wf_opcode = 8, wf_data = PutUint16 code @ truncateCloseReason reason\<rparr>"

end
