(* ===== verification/Server.thy ===== *)
theory Server
  imports Complex_Main Lines Transport Runtime
begin

text \<open>
  The server process of \<open>server/main.go\<close> around the matches: the configuration, the origins that
  may connect, the checks of a WebSocket handshake, the number of connections, the rate of commands,
  health, and what keeps a connection alive. \<open>url.Parse\<close>, \<open>net.ParseIP\<close>, base64 and SHA-1 are
  parameters; \<open>strings.ToLower\<close> and \<open>strings.EqualFold\<close> are exact when one side is ASCII. A
  \<open>time.Duration\<close> and a \<open>time.Time\<close> are integers in nanoseconds.
\<close>

section \<open>The library\<close>

text \<open>\<open>strconv.Atoi\<close>.\<close>

definition Atoi :: "string \<Rightarrow> int option" where
  "Atoi s =
     (let ds = (if s \<noteq> [] \<and> (hd s = CHR ''-'' \<or> hd s = CHR ''+'') then tl s else s);
          n = (if s \<noteq> [] \<and> hd s = CHR ''-'' then - int (num ds) else int (num ds))
      in if ds = [] \<or> \<not> list_all is_digit ds then None
         else if - (2 ^ 63) \<le> n \<and> n < 2 ^ 63 then Some n
         else None)"

definition lower_char :: "char \<Rightarrow> char" where
  "lower_char c =
     (let n = (of_char c :: nat) in if 65 \<le> n \<and> n \<le> 90 then char_of (n + 32) else c)"

text \<open>The two characters outside ASCII whose lower case is ASCII are the Kelvin sign and the dotted I.\<close>

function ToLower :: "string \<Rightarrow> string" where
  "ToLower s =
     (if s = [] then []
      else if starts_with (utf8 [0x212A]) s then CHR ''k'' # ToLower (drop 3 s)
      else if starts_with (utf8 [0x0130]) s then CHR ''i'' # ToLower (drop 2 s)
      else lower_char (hd s) # ToLower (tl s))"
  by pat_completeness auto
termination by (relation "measure length") auto

declare ToLower.simps [simp del]

text \<open>The two characters outside ASCII that fold to ASCII letters are the long s and the Kelvin sign.\<close>

function fold_text :: "string \<Rightarrow> string" where
  "fold_text s =
     (if s = [] then []
      else if starts_with (utf8 [0x017F]) s then CHR ''s'' # fold_text (drop 2 s)
      else if starts_with (utf8 [0x212A]) s then CHR ''k'' # fold_text (drop 3 s)
      else lower_char (hd s) # fold_text (tl s))"
  by pat_completeness auto
termination by (relation "measure length") auto

declare fold_text.simps [simp del]

definition EqualFold :: "string \<Rightarrow> string \<Rightarrow> bool" where
  "EqualFold s t \<longleftrightarrow> fold_text s = fold_text t"

text \<open>\<open>net.SplitHostPort\<close>: the part before the last colon and the part after it.\<close>

definition SplitHostPort :: "string \<Rightarrow> (string \<times> string) option" where
  "SplitHostPort s =
     (if CHR '':'' \<notin> set s then None
      else
        let port = rev (takeWhile (\<lambda>c. c \<noteq> CHR '':'') (rev s));
            i = length s - length port - 1;
            upto = length (takeWhile (\<lambda>c. c \<noteq> CHR '']'') s)
        in if hd s = CHR ''['' then
             (if upto = length s \<or> upto + 1 \<noteq> i then None
              else if CHR ''['' \<in> set (drop 1 s) \<or> CHR '']'' \<in> set (drop (upto + 1) s) then None
              else Some (take (upto - 1) (drop 1 s), port))
           else
             (if CHR '':'' \<in> set (take i s) \<or> CHR ''['' \<in> set s \<or> CHR '']'' \<in> set s then None
              else Some (take i s, port)))"

definition JoinHostPort :: "string \<Rightarrow> string \<Rightarrow> string" where
  "JoinHostPort host port =
     (if CHR '':'' \<in> set host then ''['' @ host @ '']:'' @ port else host @ '':'' @ port)"

text \<open>\<open>strings.Trim(s, "[]")\<close>.\<close>

definition trim_brackets :: "string \<Rightarrow> string" where
  "trim_brackets s =
     (let p = (\<lambda>c. c = CHR ''['' \<or> c = CHR '']'') in rev (dropWhile p (rev (dropWhile p s))))"

text \<open>The fields of a \<open>url.URL\<close> that the code reads; \<open>User\<close> is only compared with nil.\<close>

record url =
  ur_Scheme :: string
  ur_Opaque :: string
  ur_User :: bool
  ur_Host :: string
  ur_Path :: string
  ur_RawQuery :: string
  ur_Fragment :: string

text \<open>\<open>url.Parse\<close> (an error text or the URL), and whether a text parses as a loopback IP address.\<close>

type_synonym url_parser = "string \<Rightarrow> string + url"

section \<open>Configuration (main.go)\<close>

abbreviation second :: int where "second \<equiv> 1000000000"
abbreviation minute :: int where "minute \<equiv> 60 * second"
abbreviation hour :: int where "hour \<equiv> 60 * minute"

definition defaultAddr :: string where "defaultAddr = ''127.0.0.1:4173''"
definition defaultMaxConns :: int where "defaultMaxConns = 20"
definition defaultMaxRooms :: int where "defaultMaxRooms = 10"
definition defaultCommandRate :: int where "defaultCommandRate = 2"
definition defaultCommandBurst :: int where "defaultCommandBurst = 8"
definition defaultIdleTimeout :: int where "defaultIdleTimeout = 10 * minute"
definition defaultConnectionAge :: int where "defaultConnectionAge = 55 * minute"
definition wsPingInterval :: int where "wsPingInterval = 30 * second"

record demo_config =
  dc_addr :: string
  dc_webDir :: string
  dc_rulesDir :: string
  dc_publicOrigin :: string
  dc_maxConnections :: int
  dc_maxRooms :: int
  dc_commandRate :: rat
  dc_commandBurst :: int
  dc_idleTimeout :: int
  dc_maxConnectionAge :: int
  dc_pingInterval :: int
  dc_readTimeout :: int

definition resolveAddr :: "string \<Rightarrow> bool \<Rightarrow> string \<Rightarrow> string + string" where
  "resolveAddr addr addrSet port =
     (if addrSet then
        (if TrimSpace addr = '''' then Inl (''-addr'' @ utf8 [0x304C, 0x7A7A, 0x3067,
      0x3059]) else Inr addr)
      else
        let port = TrimSpace port in
        if port = '''' then Inr addr
        else
          let err = (''PORT'' @ utf8 [0x306F] @ ''1'' @ utf8 [0x301C] @ ''65535'' @ utf8 [0x306E, 0x6574, 0x6570, 0x3067, 0x3042, 0x308B, 0x5FC5, 0x8981, 0x304C, 0x3042, 0x308A, 0x307E, 0x3059] @ '': '') @ quote port in
          (case Atoi port of
             None \<Rightarrow> Inl err
           | Some number \<Rightarrow>
               if number < 1 \<or> number > 65535 then Inl err
               else Inr (JoinHostPort ''0.0.0.0'' (itoa number))))"

definition envInt ::
  "(string \<Rightarrow> string) \<Rightarrow> string \<Rightarrow> int \<Rightarrow> int \<Rightarrow> int \<Rightarrow> string + int" where
  "envInt getenv name fallback lo hi =
     (let raw = TrimSpace (getenv name) in
      if raw = '''' then Inr fallback
      else
        let err = name @ (utf8 [0x306F]) @ itoa lo @ (utf8 [0x301C]) @ itoa hi
                  @ (utf8 [0x306E, 0x6574, 0x6570, 0x3067, 0x3042, 0x308B, 0x5FC5, 0x8981,
      0x304C, 0x3042, 0x308A, 0x307E, 0x3059] @ '': '') @ quote raw in
        (case Atoi raw of
           None \<Rightarrow> Inl err
         | Some value \<Rightarrow> if value < lo \<or> value > hi then Inl err else Inr value))"

definition envSeconds ::
  "(string \<Rightarrow> string) \<Rightarrow> string \<Rightarrow> int \<Rightarrow> int \<Rightarrow> int \<Rightarrow> string + int" where
  "envSeconds getenv name fallback lo hi =
     (case envInt getenv name (fallback div second) (lo div second) (hi div second) of
        Inl err \<Rightarrow> Inl err
      | Inr seconds \<Rightarrow> Inr (seconds * second))"

definition loopbackHost :: "(string \<Rightarrow> bool) \<Rightarrow> string \<Rightarrow> bool" where
  "loopbackHost isLoopback host =
     (let name = (case SplitHostPort host of Some (withoutPort, _) \<Rightarrow> withoutPort | None \<Rightarrow> host) in
      if EqualFold name ''localhost'' then True else isLoopback (trim_brackets name))"

definition parsePublicOrigin :: "url_parser \<Rightarrow> (string \<Rightarrow> bool) \<Rightarrow> string \<Rightarrow> string + string" where
  "parsePublicOrigin parse isLoopback raw =
     (let trimmed = TrimSpace raw in
      if trimmed = '''' then Inr ''''
      else case parse trimmed of
        Inl err \<Rightarrow> Inl ((''PUBLIC_ORIGIN'' @ utf8 [0x3092, 0x89E3, 0x6790, 0x3067,
      0x304D, 0x307E, 0x305B, 0x3093] @ '': '') @ err)
      | Inr parsed \<Rightarrow>
          let scheme = ToLower (ur_Scheme parsed) in
          if scheme \<noteq> ''https'' \<and> \<not> (scheme = ''http'' \<and> loopbackHost isLoopback (ur_Host parsed)) then
            Inl ((''PUBLIC_ORIGIN'' @ utf8 [0x306F] @ ''https'' @ utf8 [0x3067, 0x6307, 0x5B9A,
      0x3057, 0x3066, 0x304F, 0x3060, 0x3055, 0x3044, 0xFF08] @ ''http'' @ utf8 [0x306F,
      0x30EB, 0x30FC, 0x30D7, 0x30D0, 0x30C3, 0x30AF] @ ''host'' @ utf8 [0x306E, 0x307F,
      0xFF09] @ '': '') @ quote raw)
          else if ur_Host parsed = '''' \<or> ur_Opaque parsed \<noteq> '''' \<or> ur_User parsed \<or>
            (ur_Path parsed \<noteq> '''' \<and> ur_Path parsed \<noteq> ''/'') \<or> ur_RawQuery parsed \<noteq> '''' \<or>
            ur_Fragment parsed \<noteq> '''' then
            Inl ((''PUBLIC_ORIGIN'' @ utf8 [0x306F] @ ''scheme+host'' @ utf8 [0x3060, 0x3051,
      0x3067, 0x6307, 0x5B9A, 0x3057, 0x3066, 0x304F, 0x3060, 0x3055,
      0x3044] @ '': '') @ quote raw)
          else Inr (scheme @ ''://'' @ ToLower (ur_Host parsed)))"

definition loadConfig ::
  "url_parser \<Rightarrow> (string \<Rightarrow> bool) \<Rightarrow> (string \<Rightarrow> string) \<Rightarrow> string \<Rightarrow> bool \<Rightarrow> string \<Rightarrow> string \<Rightarrow>
   string + demo_config" where
  "loadConfig parse isLoopback getenv addr addrSet webDir rulesDir =
     (case resolveAddr addr addrSet (getenv ''PORT'') of Inl err \<Rightarrow> Inl err | Inr listen \<Rightarrow>
     (case parsePublicOrigin parse isLoopback (getenv ''PUBLIC_ORIGIN'') of
        Inl err \<Rightarrow> Inl err | Inr publicOrigin \<Rightarrow>
     (case envInt getenv ''MAX_CONNECTIONS'' defaultMaxConns 1 10000 of
        Inl err \<Rightarrow> Inl err | Inr maxConnections \<Rightarrow>
     (case envInt getenv ''MAX_ROOMS'' defaultMaxRooms 1 10000 of
        Inl err \<Rightarrow> Inl err | Inr maxRooms \<Rightarrow>
     (case envInt getenv ''COMMAND_RATE_PER_SEC'' defaultCommandRate 1 1000 of
        Inl err \<Rightarrow> Inl err | Inr commandRate \<Rightarrow>
     (case envInt getenv ''COMMAND_BURST'' defaultCommandBurst 1 1000 of
        Inl err \<Rightarrow> Inl err | Inr commandBurst \<Rightarrow>
     (case envSeconds getenv ''IDLE_TIMEOUT_SECONDS'' defaultIdleTimeout minute (24 * hour) of
        Inl err \<Rightarrow> Inl err | Inr idleTimeout \<Rightarrow>
     (case envSeconds getenv ''MAX_CONNECTION_SECONDS'' defaultConnectionAge minute (24 * hour) of
        Inl err \<Rightarrow> Inl err | Inr maxAge \<Rightarrow>
        Inr \<lparr>dc_addr = listen, dc_webDir = webDir, dc_rulesDir = rulesDir,
             dc_publicOrigin = publicOrigin, dc_maxConnections = maxConnections,
             dc_maxRooms = maxRooms, dc_commandRate = of_int commandRate,
             dc_commandBurst = commandBurst, dc_idleTimeout = idleTimeout,
             dc_maxConnectionAge = maxAge, dc_pingInterval = wsPingInterval,
             dc_readTimeout = 2 * wsPingInterval + 15 * second\<rparr>))))))))"

section \<open>Origins and the handshake (main.go)\<close>

definition publicOriginMatches :: "url_parser \<Rightarrow> string \<Rightarrow> string \<Rightarrow> bool" where
  "publicOriginMatches parse publicOrigin header =
     (let trimmed = TrimSpace header in
      if publicOrigin = '''' \<or> trimmed = '''' then False
      else case parse trimmed of
        Inl err \<Rightarrow> False
      | Inr parsed \<Rightarrow>
          let scheme = ToLower (ur_Scheme parsed) in
          if scheme \<noteq> ''https'' \<and> scheme \<noteq> ''http'' then False
          else if ur_Host parsed = '''' \<or> ur_Opaque parsed \<noteq> '''' \<or> ur_User parsed \<or>
            ur_Path parsed \<noteq> '''' \<or> ur_RawQuery parsed \<noteq> '''' \<or> ur_Fragment parsed \<noteq> '''' then False
          else scheme @ ''://'' @ ToLower (ur_Host parsed) = publicOrigin)"

text \<open>What the code reads of an \<open>http.Request\<close>; \<open>rq_Header\<close> is \<open>Header.Get\<close>.\<close>

record http_request =
  rq_RemoteAddr :: string
  rq_Host :: string
  rq_Header :: "string \<Rightarrow> string"

definition headerHasToken :: "string \<Rightarrow> string \<Rightarrow> bool" where
  "headerHasToken value token =
     list_ex (\<lambda>item. EqualFold (TrimSpace item) token) (split_on (CHR '','') value)"

definition localWebSocketOrigin :: "url_parser \<Rightarrow> (string \<Rightarrow> bool) \<Rightarrow> http_request \<Rightarrow> bool" where
  "localWebSocketOrigin parse isLoopback r =
     (case SplitHostPort (rq_RemoteAddr r) of
        None \<Rightarrow> False
      | Some (remoteHost, _) \<Rightarrow>
      if \<not> isLoopback remoteHost then False
      else
        let requestHost = (case SplitHostPort (rq_Host r) of Some (host, _) \<Rightarrow> host | None \<Rightarrow> rq_Host r) in
        if \<not> EqualFold requestHost ''localhost'' \<and> \<not> isLoopback requestHost then False
        else case parse (rq_Header r ''Origin'') of
          Inl err \<Rightarrow> False
        | Inr origin \<Rightarrow>
            if ur_Scheme origin \<noteq> ''http'' \<and> ur_Scheme origin \<noteq> ''https'' then False
            else EqualFold (ur_Host origin) (rq_Host r) \<and> ur_Path origin = '''' \<and> ur_RawQuery origin = '''')"

definition allowWebSocketOrigin ::
  "url_parser \<Rightarrow> (string \<Rightarrow> bool) \<Rightarrow> demo_config \<Rightarrow> http_request \<Rightarrow> bool" where
  "allowWebSocketOrigin parse isLoopback config r =
     (if localWebSocketOrigin parse isLoopback r then True
      else publicOriginMatches parse (dc_publicOrigin config) (rq_Header r ''Origin''))"

text \<open>
  The handshake: a status and a text, or the answer that the hijacked connection gets. \<open>decode64\<close>
  is base64 decoding, \<open>acceptKey\<close> the base64 of the SHA-1 of the key and the GUID, \<open>hijacker\<close> and
  \<open>hijack\<close> whether the connection can be and is taken over; a failed \<open>Hijack\<close> answers nothing.
\<close>

datatype upgrade =
    UpgradeRefused nat string
  | UpgradeFailed
  | Upgraded string

definition wsGUID :: string where "wsGUID = ''258EAFA5-E914-47DA-95CA-C5AB0DC85B11''"

definition upgradeWebSocket ::
  "url_parser \<Rightarrow> (string \<Rightarrow> bool) \<Rightarrow> (string \<Rightarrow> bytes option) \<Rightarrow> (string \<Rightarrow> string) \<Rightarrow> bool \<Rightarrow> bool \<Rightarrow>
   demo_config \<Rightarrow> http_request \<Rightarrow> upgrade" where
  "upgradeWebSocket parse isLoopback decode64 acceptKey hijacker hijack config r =
     (if \<not> allowWebSocketOrigin parse isLoopback config r then
        UpgradeRefused 403 (utf8 [0x8A31, 0x53EF, 0x3055, 0x308C, 0x3066, 0x3044, 0x306A,
      0x3044, 0x63A5, 0x7D9A, 0x5143, 0x3067, 0x3059])
      else if \<not> headerHasToken (rq_Header r ''Connection'') ''Upgrade'' \<or>
        \<not> headerHasToken (rq_Header r ''Upgrade'') ''websocket'' \<or>
        rq_Header r ''Sec-WebSocket-Version'' \<noteq> ''13'' then
        UpgradeRefused 400 (''WebSocket'' @ utf8 [0x306E, 0x63A5, 0x7D9A, 0x6761, 0x4EF6,
      0x304C, 0x4E0D, 0x6B63, 0x3067, 0x3059])
      else
        let key = rq_Header r ''Sec-WebSocket-Key''; refused = UpgradeRefused 400 (''WebSocket'' @ utf8 [0x306E, 0x9375, 0x304C, 0x4E0D, 0x6B63, 0x3067, 0x3059]) in
        (case decode64 key of
           None \<Rightarrow> refused
         | Some decoded \<Rightarrow>
             if length decoded \<noteq> 16 then refused
             else if \<not> hijacker then UpgradeRefused 500 (''WebSocket'' @ utf8 [0x3092,
      0x958B, 0x59CB, 0x3067, 0x304D, 0x307E, 0x305B, 0x3093])
             else if \<not> hijack then UpgradeFailed
             else Upgraded (''HTTP/1.1 101 Switching Protocols'' @ [CHR 0x0D, nl] @
                    ''Upgrade: websocket'' @ [CHR 0x0D, nl] @
                    ''Connection: Upgrade'' @ [CHR 0x0D, nl] @
                    ''Sec-WebSocket-Accept: '' @ acceptKey (key @ wsGUID) @ [CHR 0x0D, nl,
      CHR 0x0D, nl])))"

section \<open>The rate of commands (main.go)\<close>

text \<open>The \<open>float64\<close> values are rational numbers: the arithmetic is taken as exact.\<close>

record rate_limiter =
  rl_rate :: rat
  rl_burst :: rat
  rl_tokens :: rat
  rl_lastFill :: int

definition newRateLimiter :: "rat \<Rightarrow> int \<Rightarrow> int \<Rightarrow> rate_limiter" where
  "newRateLimiter rate burst now =
     \<lparr>rl_rate = rate, rl_burst = of_int burst, rl_tokens = of_int burst, rl_lastFill = now\<rparr>"

definition limiter_allow :: "int \<Rightarrow> rate_limiter \<Rightarrow> rate_limiter \<times> bool" where
  "limiter_allow now l =
     (let elapsed = (of_int (now - rl_lastFill l) / of_int second :: rat);
          l1 = (if elapsed > 0
                then l\<lparr>rl_tokens := min (rl_burst l) (rl_tokens l + elapsed * rl_rate l), rl_lastFill := now\<rparr>
                else l)
      in if rl_tokens l1 < 1 then (l1, False)
         else (l1\<lparr>rl_tokens := rl_tokens l1 - 1\<rparr>, True))"

section \<open>The number of connections (main.go)\<close>

text \<open>
  \<open>admit\<close> takes two atomic steps: it adds one and compares the sum with the limit; on a refusal it
  subtracts one, later. The release function subtracts one the first time it is called. Any number of
  connections take these steps in any order; \<open>ad_conns\<close> says where each of them is.
\<close>

datatype conn_phase = Refusing | Refused | Admitted | Released

record admission =
  ad_connections :: int
  ad_conns :: "conn_phase list"

definition no_connections :: admission where
  "no_connections = \<lparr>ad_connections = 0, ad_conns = []\<rparr>"

definition admit :: "demo_config \<Rightarrow> admission \<Rightarrow> admission" where
  "admit config a =
     (let n = ad_connections a + 1 in
      \<lparr>ad_connections = n,
       ad_conns = ad_conns a @ [if n > dc_maxConnections config then Refusing else Admitted]\<rparr>)"

definition admit_refuse :: "nat \<Rightarrow> admission \<Rightarrow> admission" where
  "admit_refuse i a = \<lparr>ad_connections = ad_connections a - 1, ad_conns = (ad_conns a)[i := Refused]\<rparr>"

definition release :: "nat \<Rightarrow> admission \<Rightarrow> admission" where
  "release i a =
     (if ad_conns a ! i = Released then a
      else \<lparr>ad_connections = ad_connections a - 1, ad_conns = (ad_conns a)[i := Released]\<rparr>)"

inductive admission_step :: "demo_config \<Rightarrow> admission \<Rightarrow> admission \<Rightarrow> bool" for config where
  "admission_step config a (admit config a)"
| "i < length (ad_conns a) \<Longrightarrow> ad_conns a ! i = Refusing \<Longrightarrow> admission_step config a (admit_refuse i a)"
| "i < length (ad_conns a) \<Longrightarrow> ad_conns a ! i \<in> {Admitted, Released} \<Longrightarrow> admission_step config a (release i a)"

inductive_cases admission_stepE: "admission_step config a a'"

section \<open>Keeping a connection alive (main.go)\<close>

datatype tick =
    TickClose "16 word" string
  | TickPing

definition keepAlive_tick :: "demo_config \<Rightarrow> int \<Rightarrow> int \<Rightarrow> int \<Rightarrow> tick" where
  "keepAlive_tick config deadline lastActive now =
     (if \<not> now < deadline then
        TickClose closeMaxAge (utf8 [0x63A5, 0x7D9A, 0x6642, 0x9593, 0x306E, 0x4E0A, 0x9650,
      0x306B, 0x9054, 0x3057, 0x307E, 0x3057, 0x305F, 0x3002, 0x518D, 0x63A5, 0x7D9A, 0x3057,
      0x3066, 0x304F, 0x3060, 0x3055, 0x3044])
      else if now - lastActive \<ge> dc_idleTimeout config then
        TickClose closeIdle (utf8 [0x4E00, 0x5B9A, 0x6642, 0x9593, 0x64CD, 0x4F5C, 0x304C,
      0x306A, 0x304B, 0x3063, 0x305F, 0x305F, 0x3081, 0x5207, 0x65AD, 0x3057, 0x307E, 0x3057,
      0x305F, 0x3002, 0x518D, 0x63A5, 0x7D9A, 0x3057, 0x3066, 0x304F, 0x3060, 0x3055, 0x3044])
      else TickPing)"

text \<open>The loop over the ticks, each with the time of the last activity when it comes.\<close>

fun keepAlive :: "demo_config \<Rightarrow> int \<Rightarrow> (int \<times> int) list \<Rightarrow> tick list" where
  "keepAlive config deadline [] = []"
| "keepAlive config deadline ((now, lastActive) # ticks) =
     (case keepAlive_tick config deadline lastActive now of
        TickPing \<Rightarrow> TickPing # keepAlive config deadline ticks
      | t \<Rightarrow> [t])"

section \<open>Health (main.go)\<close>

record health_response =
  hr_Status :: string
  hr_GoReady :: bool
  hr_GonakoReady :: bool

definition gonakoReady :: "bool \<Rightarrow> (unit \<Rightarrow> bool) option \<Rightarrow> bool" where
  "gonakoReady rulesVerified rulesReady =
     (if \<not> rulesVerified then False else (case rulesReady of None \<Rightarrow> True | Some f \<Rightarrow> f ()))"

definition handleHealth :: "bool \<Rightarrow> (unit \<Rightarrow> bool) option \<Rightarrow> nat \<times> health_response" where
  "handleHealth rulesVerified rulesReady =
     (let ready = gonakoReady rulesVerified rulesReady;
          (status, label) = (if \<not> ready then (503, ''degraded'') else (200, ''ok''))
      in (status, \<lparr>hr_Status = label, hr_GoReady = True, hr_GonakoReady = ready\<rparr>))"

text \<open>The check at the start: a runner that returned no response and no error would be a panic.\<close>

definition verifyRules :: "runner \<Rightarrow> (rt_error + string) option option" where
  "verifyRules runner =
     (case runner (NewGameRequest ''startup-check'' 1) of
        Inl err \<Rightarrow> Some (Some (Inl err))
      | Inr None \<Rightarrow> None
      | Inr (Some response) \<Rightarrow>
          Some (if \<not> rs_OK response \<or> rs_State response = None
                then Some (Inr (utf8 [0x30EB, 0x30FC, 0x30EB, 0x306E, 0x8D77, 0x52D5, 0x78BA,
      0x8A8D, 0x304C, 0x62D2, 0x5426, 0x3055, 0x308C, 0x307E, 0x3057, 0x305F])) else None))"

end
