(* ===== verification/LocalGame.thy ===== *)
theory LocalGame
  imports Runtime
begin

text \<open>
  The single-match service of the local hot-seat game: \<open>server/internal/localgame\<close>
  (\<open>service.go\<close>, \<open>handler.go\<close>). The service's state is the authoritative game state, nil before
  the first game; every call runs under one mutex, so an operation is one atomic step. A result is
  \<open>None\<close> when the code would dereference a nil response.
\<close>

section \<open>Definitions\<close>

definition local_rejected :: "string \<Rightarrow> string \<Rightarrow> state option \<Rightarrow> response" where
  "local_rejected code message s =
     (let response = \<lparr>rs_Version = Version, rs_OK = False, rs_State = None, rs_Event = None,
                      rs_Error = Some (NewError code message)\<rparr>
      in case s of
           None \<Rightarrow> response
         | Some s \<Rightarrow> response\<lparr>rs_State := Some (State_Clone s)\<rparr>)"

definition local_cloneResponse :: "response option \<Rightarrow> response option" where
  "local_cloneResponse response =
     (case response of
        None \<Rightarrow> None
      | Some r \<Rightarrow> Some
          (r\<lparr>rs_State := (case rs_State r of None \<Rightarrow> None | Some s \<Rightarrow> Some (State_Clone s)),
             rs_Event := (case rs_Event r of
                            None \<Rightarrow> None
                          | Some e \<Rightarrow> Some (e\<lparr>ev_Changes := slice_copy (ev_Changes e)\<rparr>)),
             rs_Error := (case rs_Error r of None \<Rightarrow> None | Some e \<Rightarrow> Some e)\<rparr>))"

definition local_Evaluate ::
  "runner \<Rightarrow> state option \<Rightarrow> request \<Rightarrow> (state option \<times> (rt_error + response option)) option" where
  "local_Evaluate runner st request =
     (if rq_Action request = ActionNewGame then
        (case runner request of
           Inl err \<Rightarrow> Some (st, Inl err)
         | Inr None \<Rightarrow> None
         | Inr (Some response) \<Rightarrow>
             let st' = (case rs_State response of
                          Some s \<Rightarrow> if rs_OK response then Some (State_Clone s) else st
                        | None \<Rightarrow> st)
             in Some (st', Inr (local_cloneResponse (Some response))))
      else if rq_Action request = ActionApplyCommand then
        (if rq_Version request \<noteq> Version then
           Some (st, Inr (Some (local_rejected CodeUnsupportedVersion (utf8 [0x5BFE, 0x5FDC,
      0x3057, 0x3066, 0x3044, 0x306A, 0x3044, 0x30D0, 0x30FC, 0x30B8, 0x30E7, 0x30F3, 0x3067,
      0x3059]) st)))
         else case rq_Command request of
           None \<Rightarrow> Some (st,
      Inr (Some (local_rejected CodeInvalidRequest (''command'' @ utf8 [0x304C, 0x5FC5, 0x8981,
      0x3067, 0x3059]) st)))
         | Some command \<Rightarrow>
         (case Command_Validate command of
           Some err \<Rightarrow> Some (st, Inr (Some (local_rejected (pe_Code err) (pe_Message err) st)))
         | None \<Rightarrow>
         (case st of
           None \<Rightarrow>
             Some (st, Inr (Some (local_rejected CodeInvalidState (utf8 [0x5148, 0x306B,
      0x65B0, 0x3057, 0x3044, 0x5BFE, 0x5C40, 0x3092, 0x958B, 0x59CB, 0x3057, 0x3066, 0x304F,
      0x3060, 0x3055, 0x3044]) None)))
         | Some s \<Rightarrow>
         (case ApplyCommand runner (State_Clone s) command of
           Inl err \<Rightarrow> Some (st, Inl err)
         | Inr None \<Rightarrow> None
         | Inr (Some response) \<Rightarrow>
             (case rs_State response of
                Some s' \<Rightarrow>
                  if rs_OK response
                  then Some (Some (State_Clone s'), Inr (local_cloneResponse (Some response)))
                  else Some (st, Inr (local_cloneResponse (Some response)))
              | None \<Rightarrow>
                  Some (st, Inr (local_cloneResponse
                    (Some (response\<lparr>rs_State := Some (State_Clone s)\<rparr>)))))))))
      else
        Some (st, Inr (Some (local_rejected CodeInvalidRequest
          (''action'' @ utf8 [0x306F] @ ''newGame'' @ utf8 [0x307E, 0x305F,
      0x306F] @ ''applyCommand'' @ utf8 [0x3067, 0x3059]) st))))"

definition local_Snapshot :: "state option \<Rightarrow> state option" where
  "local_Snapshot st = (case st of None \<Rightarrow> None | Some s \<Rightarrow> Some (State_Clone s))"

definition maxRequestBytes :: nat where "maxRequestBytes = 2 ^ 20"

text \<open>
  The HTTP handler. \<open>decode\<close> is the JSON decoder (unknown fields disallowed) on the bytes that
  the size limit lets through: the first value and what follows it, \<open>None\<close> on a syntax error or
  when the limit cut the value; \<open>at_eof\<close> tells that only white space follows. The response is a
  status and a body.
\<close>

definition local_ServeHTTP ::
  "runner \<Rightarrow> (string \<Rightarrow> (request \<times> string) option) \<Rightarrow> (string \<Rightarrow> bool) \<Rightarrow> state option \<Rightarrow> string \<Rightarrow>
   (state option \<times> nat \<times> response option) option" where
  "local_ServeHTTP runner decode at_eof st body =
     (case decode (take maxRequestBytes body) of
        None \<Rightarrow> Some (st, 400,
      Some (local_rejected CodeInvalidJSON (''JSON'' @ utf8 [0x3092, 0x89E3, 0x6790, 0x3067,
      0x304D, 0x307E, 0x305B, 0x3093]) None))
      | Some (request, rest) \<Rightarrow>
          if \<not> at_eof rest \<or> length body > maxRequestBytes then
            Some (st, 400, Some (local_rejected CodeInvalidJSON
              (''JSON object'' @ utf8 [0x306F] @ ''1'' @ utf8 [0x4EF6, 0x3060, 0x3051, 0x9001,
      0x4FE1, 0x3057, 0x3066, 0x304F, 0x3060, 0x3055, 0x3044]) None))
          else
            (case local_Evaluate runner st request of
               None \<Rightarrow> None
             | Some (st', Inr response) \<Rightarrow> Some (st', 200, response)
             | Some (st', Inl err) \<Rightarrow>
                 let (status, message) =
                   (case err of
                      TimeoutError _ _ \<Rightarrow> (504, (utf8 [0x30EB, 0x30FC, 0x30EB,
      0x8A55, 0x4FA1, 0x304C, 0x6642, 0x9593, 0x5185, 0x306B, 0x5B8C, 0x4E86, 0x3057, 0x307E,
      0x305B, 0x3093, 0x3067, 0x3057, 0x305F]))
                    | _ \<Rightarrow> (502, (utf8 [0x30EB, 0x30FC, 0x30EB, 0x8A55, 0x4FA1,
      0x306B, 0x5931, 0x6557, 0x3057, 0x307E, 0x3057, 0x305F])))
                 in Some (st', status,
                      Some (local_rejected CodeInvalidJSON message (local_Snapshot st')))))"

section \<open>The service follows the rules\<close>

text \<open>
  The specification: the state is that of a game, and a step leaves it alone, starts a new game or
  plays one command that the rules accept. States are compared as the wire shows them.
\<close>

definition server_state :: "state \<Rightarrow> bool" where
  "server_state s \<longleftrightarrow> game_inv (wire_state s)"

inductive game_step :: "state option \<Rightarrow> state option \<Rightarrow> bool" where
  stay: "game_step st st"
| start: "gameId \<noteq> '''' \<Longrightarrow> game_step st (Some (new_game gameId seed))"
| move: "accepts s c = Some s' \<Longrightarrow> game_step (Some s) (Some s')"

inductive_cases game_step_SomeE: "game_step st (Some s')"

lemma wire_Clone [simp]: "wire_state (State_Clone s) = wire_state s"
  by (simp add: wire_state_def State_Clone_eq)

lemma wire_game_inv: "game_inv s \<Longrightarrow> wire_state s = s"
  by (cases s) (auto simp: wire_state_def game_inv_def)

lemma server_state_Clone [simp]: "server_state (State_Clone s) = server_state s"
  by (simp add: server_state_def)

lemma game_inv_server: "game_inv s \<Longrightarrow> server_state s"
  by (simp add: server_state_def wire_game_inv)

lemma server_state_valid: "server_state s \<Longrightarrow> State_Validate s = None"
  using game_inv_valid[of "wire_state s"] by (simp add: server_state_def)

lemma server_state_sendable: "server_state s \<Longrightarrow> sendable s"
  using game_inv_sendable[of "wire_state s"] by (simp add: server_state_def)

lemma game_step_inv:
  "game_step st st' \<Longrightarrow> pred_option game_inv st \<Longrightarrow> pred_option game_inv st'"
  by (auto elim!: game_step.cases intro: accepts_inv new_game_inv)

lemma NewGameRequest_unique:
  assumes "Request_Validate q = None" "rq_Action q = ActionNewGame"
  shows "\<exists>seed. q = NewGameRequest (rq_GameID q) seed \<and> rq_GameID q \<noteq> ''''"
  using assms by (cases q) (auto simp: Request_Validate_None NewGameRequest_def)

context contract_runner
begin

lemma local_no_panic: "local_Evaluate eval st q \<noteq> None"
  using eval_not_nil
  by (auto simp: local_Evaluate_def ApplyCommand_def Let_def split: option.splits sum.splits)

end

context rules_runner
begin

lemma local_Evaluate_step:
  assumes "pred_option server_state st" "local_Evaluate eval st q = Some (st', r)"
  shows "game_step (map_option wire_state st) (map_option wire_state st')"
proof (cases "st' = st")
  case True
  then show ?thesis by (simp add: game_step.stay)
next
  case changed: False
  consider (new) resp s' where "rq_Action q = ActionNewGame" "eval q = Inr (Some resp)" "rs_OK resp"
      "rs_State resp = Some s'" "st' = Some (State_Clone s')"
    | (cmd) s c resp s' where "st = Some s" "Command_Validate c = None"
      "eval (ApplyCommandRequest (State_Clone s) c) = Inr (Some resp)"
      "rs_OK resp" "rs_State resp = Some s'" "st' = Some (State_Clone s')"
    using assms(2) changed
    by (auto simp: local_Evaluate_def ApplyCommand_def Let_def
        split: option.splits sum.splits if_splits)
  then show ?thesis
  proof cases
    case new
    show ?thesis
    proof (cases "Request_Validate q")
      case None
      then obtain seed where q: "q = NewGameRequest (rq_GameID q) seed" "rq_GameID q \<noteq> ''''"
        using NewGameRequest_unique new(1) by blast
      then have "resp = ok_response (new_game (rq_GameID q) seed) None"
        using eval_new new(2) by metis
      then have s': "s' = new_game (rq_GameID q) seed" using new(4) by simp
      show ?thesis
        unfolding new(5) s' using wire_game_inv[OF new_game_inv[OF q(2)]] game_step.start[OF q(2)] by simp
    next
      case (Some e)
      then have "resp = rejected_response e" using eval_invalid new(2) by simp
      then show ?thesis using new(3) by (simp add: rejected_response_def)
    qed
  next
    case cmd
    have s: "server_state s" using assms(1) cmd(1) by simp
    then have v: "State_Validate (State_Clone s) = None" using server_state_valid by simp
    from eval_apply_ok[OF cmd(3) v cmd(2,4)] obtain e where
      a: "accepts (wire_state s) c = Some s'" using cmd(5) by auto
    then have "game_inv s'" using accepts_inv s by (auto simp: server_state_def)
    with cmd a show ?thesis by (auto simp: wire_game_inv intro: game_step.move)
  qed
qed

lemma local_Evaluate_inv:
  assumes "pred_option server_state st" "local_Evaluate eval st q = Some (st', r)"
  shows "pred_option server_state st'"
proof -
  have "pred_option game_inv (map_option wire_state st)"
    using assms(1) by (simp add: option.pred_map o_def server_state_def[abs_def])
  then have "pred_option game_inv (map_option wire_state st')"
    using game_step_inv local_Evaluate_step[OF assms] by blast
  then show ?thesis by (simp add: option.pred_map o_def server_state_def[abs_def])
qed

end

end
