(* ===== verification/Room.thy ===== *)
theory Room
  imports LocalGame
begin

text \<open>
  One match: \<open>server/internal/match\<close> (\<open>room.go\<close>, \<open>event.go\<close>, \<open>errors.go\<close>). Every operation of a
  room runs under the room's mutex, so it is one atomic step of the model: a function from the room
  to the next room and the result, \<open>None\<close> when the code would panic (a send on a closed channel,
  closing a closed channel, a nil dereference).

  The channels a room has made are kept in \<open>rm_chans\<close>; a seat refers to its channel by index. A
  membership that was handed out keeps its index, so a receiver can go on draining a channel that
  its seat has given up.
\<close>

section \<open>Events and errors (event.go, errors.go)\<close>

abbreviation "EventWaiting \<equiv> ''waiting''"
abbreviation "EventMatched \<equiv> ''matched''"
abbreviation "EventState \<equiv> ''state''"
abbreviation "EventOpponentLeft \<equiv> ''opponentLeft''"
abbreviation "EventOpponentReturned \<equiv> ''opponentReturned''"
abbreviation "EventClosed \<equiv> ''closed''"

record room_event =
  re_Type :: string
  re_RoomID :: string
  re_Seat :: string
  re_State :: "state option"
  re_GameEvent :: "event option"
  re_Reason :: string

definition room_event_clone :: "room_event \<Rightarrow> room_event" where
  "room_event_clone e =
     e\<lparr>re_State := (case re_State e of None \<Rightarrow> None | Some s \<Rightarrow> Some (State_Clone s)),
       re_GameEvent := (case re_GameEvent e of
                          None \<Rightarrow> None
                        | Some g \<Rightarrow> Some (g\<lparr>ev_Changes := slice_copy (ev_Changes g)\<rparr>))\<rparr>"

datatype room_phase = RoomWaiting | RoomPlaying | RoomSuspended | RoomClosed

datatype join_error =
    JoinError string string \<comment> \<open>PlayerID, Message\<close>
  | JoinRuntimeError rt_error

datatype leave_error = LeaveError string string \<comment> \<open>PlayerID, Message\<close>

definition room_rejected :: "string \<Rightarrow> string \<Rightarrow> state option \<Rightarrow> response" where
  "room_rejected code message s =
     (let response = \<lparr>rs_Version = Version, rs_OK = False, rs_State = None, rs_Event = None,
                      rs_Error = Some (NewError code message)\<rparr>
      in case s of
           None \<Rightarrow> response
         | Some s \<Rightarrow> response\<lparr>rs_State := Some (State_Clone s)\<rparr>)"

definition room_cloneResponse :: "response option \<Rightarrow> response option" where
  "room_cloneResponse response =
     (case response of
        None \<Rightarrow> None
      | Some r \<Rightarrow> Some
          (r\<lparr>rs_State := (case rs_State r of None \<Rightarrow> None | Some s \<Rightarrow> Some (State_Clone s)),
             rs_Event := (case rs_Event r of
                            None \<Rightarrow> None
                          | Some e \<Rightarrow> Some (e\<lparr>ev_Changes := slice_copy (ev_Changes e)\<rparr>)),
             rs_Error := (case rs_Error r of None \<Rightarrow> None | Some e \<Rightarrow> Some e)\<rparr>))"

section \<open>Channels\<close>

text \<open>\<open>make(chan Event, eventBuffer)\<close>: a bounded queue that can be closed once.\<close>

record chan =
  cn_buf :: "room_event list"
  cn_closed :: bool

definition eventBuffer :: nat where "eventBuffer = 16"

definition chan_make :: "chan list \<Rightarrow> chan list \<times> nat" where
  "chan_make cs = (cs @ [\<lparr>cn_buf = [], cn_closed = False\<rparr>], length cs)"

text \<open>A send in a \<open>select\<close> with a \<open>default\<close>: dropped when full, a panic when closed.\<close>

definition chan_send :: "chan list \<Rightarrow> nat \<Rightarrow> room_event \<Rightarrow> chan list option" where
  "chan_send cs i e =
     (if i \<ge> length cs then None
      else let c = cs ! i in
        if cn_closed c then None
        else if length (cn_buf c) < eventBuffer then Some (cs[i := c\<lparr>cn_buf := cn_buf c @ [e]\<rparr>])
        else Some cs)"

definition chan_close :: "chan list \<Rightarrow> nat \<Rightarrow> chan list option" where
  "chan_close cs i =
     (if i \<ge> length cs \<or> cn_closed (cs ! i) then None
      else Some (cs[i := (cs ! i)\<lparr>cn_closed := True\<rparr>]))"

text \<open>A receive by the holder of a membership: the oldest event, or nothing yet.\<close>

definition chan_recv :: "chan list \<Rightarrow> nat \<Rightarrow> chan list" where
  "chan_recv cs i =
     (if i < length cs then cs[i := (cs ! i)\<lparr>cn_buf := tl (cn_buf (cs ! i))\<rparr>] else cs)"

section \<open>Rooms (room.go)\<close>

record seat =
  se_playerID :: string
  se_events :: "nat option"
  se_connected :: bool

record room =
  rm_id :: string
  rm_seed :: "32 word"
  rm_seats :: "(string, seat) gomap"
  rm_state :: "state option"
  rm_phase :: room_phase
  rm_chans :: "chan list"

definition newRoom :: "string \<Rightarrow> 32 word \<Rightarrow> room" where
  "newRoom roomID seed =
     \<lparr>rm_id = roomID, rm_seed = seed, rm_seats = [], rm_state = None, rm_phase = RoomWaiting,
      rm_chans = []\<rparr>"

definition Room_Phase :: "room \<Rightarrow> room_phase" where
  "Room_Phase r = rm_phase r"

definition Room_Snapshot :: "room \<Rightarrow> state option" where
  "Room_Snapshot r = (case rm_state r of None \<Rightarrow> None | Some s \<Rightarrow> Some (State_Clone s))"

definition Room_Seats :: "room \<Rightarrow> (string, string) gomap" where
  "Room_Seats r = map (\<lambda>(player, s). (player, se_playerID s)) (rm_seats r)"

definition openSeat :: "room \<Rightarrow> string option" where
  "openSeat r = find (\<lambda>player. map_of (rm_seats r) player = None) [PlayerDark, PlayerLight]"

definition seatOf :: "room \<Rightarrow> string \<Rightarrow> (string \<times> seat) option" where
  "seatOf r playerID = find (\<lambda>(player, s). se_playerID s = playerID) (rm_seats r)"

definition deliver :: "seat \<Rightarrow> room_event \<Rightarrow> chan list \<Rightarrow> chan list option" where
  "deliver s e cs =
     (if \<not> se_connected s then Some cs
      else case se_events s of
             None \<Rightarrow> Some cs
           | Some i \<Rightarrow> chan_send cs i (room_event_clone e))"

text \<open>
  Ranging over the seats: \<open>each_seat f\<close> runs \<open>f\<close> on one seat after the other, on the channels the
  previous ones left, and stops at a panic.
\<close>

fun each_seat ::
  "(string \<Rightarrow> seat \<Rightarrow> chan list \<Rightarrow> chan list option) \<Rightarrow> (string, seat) gomap \<Rightarrow> chan list \<Rightarrow> chan list option" where
  "each_seat f [] cs = Some cs"
| "each_seat f ((player, s) # seats) cs =
     (case f player s cs of None \<Rightarrow> None | Some cs' \<Rightarrow> each_seat f seats cs')"

definition broadcast :: "(string \<Rightarrow> room_event) \<Rightarrow> room \<Rightarrow> room option" where
  "broadcast build r =
     map_option (\<lambda>cs. r\<lparr>rm_chans := cs\<rparr>)
       (each_seat (\<lambda>player s cs.
            if \<not> se_connected s then Some cs
            else deliver s ((build player)\<lparr>re_RoomID := rm_id r, re_Seat := player\<rparr>) cs)
          (rm_seats r) (rm_chans r))"

definition room_event :: "string \<Rightarrow> state option \<Rightarrow> event option \<Rightarrow> string \<Rightarrow> room_event" where
  "room_event eventType s g reason =
     \<lparr>re_Type = eventType, re_RoomID = '''', re_Seat = '''', re_State = s, re_GameEvent = g,
      re_Reason = reason\<rparr>"

definition stateEvent :: "room \<Rightarrow> event option \<Rightarrow> string \<Rightarrow> room_event" where
  "stateEvent r gameEvent = (\<lambda>player. room_event EventState (rm_state r) gameEvent '''')"

definition bothConnected :: "room \<Rightarrow> bool" where
  "bothConnected r \<longleftrightarrow> length (rm_seats r) \<ge> 2 \<and> list_all (\<lambda>(player, s). se_connected s) (rm_seats r)"

definition notifyOthers :: "string \<Rightarrow> string \<Rightarrow> string \<Rightarrow> room \<Rightarrow> room option" where
  "notifyOthers playerID eventType reason r =
     map_option (\<lambda>cs. r\<lparr>rm_chans := cs\<rparr>)
       (each_seat (\<lambda>player s cs.
            if se_playerID s = playerID \<or> \<not> se_connected s then Some cs
            else deliver s ((room_event eventType (rm_state r) None reason)
                              \<lparr>re_RoomID := rm_id r, re_Seat := player\<rparr>) cs)
          (rm_seats r) (rm_chans r))"

subsection \<open>Joining\<close>

text \<open>A successful join gives the seat, the channel and whether it is a reconnection.\<close>

type_synonym joined = "string \<times> nat \<times> bool"

definition rejoin :: "room \<Rightarrow> string \<Rightarrow> string \<Rightarrow> seat \<Rightarrow> (room \<times> (join_error + joined)) option" where
  "rejoin r playerID player s =
     (let (cs, i) = chan_make (rm_chans r);
          s' = s\<lparr>se_events := Some i, se_connected := True\<rparr>;
          r1 = r\<lparr>rm_seats := AList.update player s' (rm_seats r), rm_chans := cs\<rparr>;
          r2 = (if rm_phase r1 = RoomSuspended \<and> bothConnected r1
                then r1\<lparr>rm_phase := RoomPlaying\<rparr> else r1)
      in do {
        cs \<leftarrow> deliver s' ((room_event EventState (rm_state r2) None '''')
                            \<lparr>re_RoomID := rm_id r2, re_Seat := player\<rparr>) (rm_chans r2);
        r3 \<leftarrow> notifyOthers playerID EventOpponentReturned (utf8 [0x76F8, 0x624B,
      0x304C, 0x518D, 0x63A5, 0x7D9A, 0x3057, 0x307E, 0x3057, 0x305F])
                (r2\<lparr>rm_chans := cs\<rparr>);
        Some (r3, Inr (player, i, True))
      })"

definition start_match :: "runner \<Rightarrow> room \<Rightarrow> string \<Rightarrow> string \<Rightarrow> nat \<Rightarrow> (room \<times> (join_error + joined)) option" where
  "start_match runner r playerID player i =
     (case NewGame runner (rm_id r) (rm_seed r) of
        Inl err \<Rightarrow>
          Some (r\<lparr>rm_seats := AList.delete player (rm_seats r)\<rparr>, Inl (JoinRuntimeError err))
      | Inr None \<Rightarrow> None
      | Inr (Some response) \<Rightarrow>
          (case (rs_OK response, rs_State response) of
             (True, Some s) \<Rightarrow>
               let r1 = r\<lparr>rm_state := Some (State_Clone s), rm_phase := RoomPlaying\<rparr>
               in do {
                 r2 \<leftarrow> broadcast (\<lambda>player. room_event EventMatched (rm_state r1) None '''') r1;
                 Some (r2, Inr (player, i, False))
               }
           | _ \<Rightarrow>
               let message = (case rs_Error response of
                                None \<Rightarrow> (utf8 [0x5BFE, 0x5C40, 0x3092, 0x958B,
      0x59CB, 0x3067, 0x304D, 0x307E, 0x305B, 0x3093])
                              | Some e \<Rightarrow> pe_Message e)
               in Some (r\<lparr>rm_seats := AList.delete player (rm_seats r)\<rparr>,
                        Inl (JoinError playerID message))))"

definition room_join :: "runner \<Rightarrow> room \<Rightarrow> string \<Rightarrow> (room \<times> (join_error + joined)) option" where
  "room_join runner r playerID =
     (if rm_phase r = RoomClosed then
        Some (r, Inl (JoinError playerID (''room'' @ utf8 [0x306F, 0x7D42, 0x4E86, 0x3057,
      0x3066, 0x3044, 0x307E, 0x3059])))
      else case seatOf r playerID of
        Some (player, s) \<Rightarrow>
          if se_connected s then Some (r, Inl (JoinError playerID (utf8 [0x65E2, 0x306B,
      0x53C2, 0x52A0, 0x3057, 0x3066, 0x3044, 0x307E, 0x3059])))
          else rejoin r playerID player s
      | None \<Rightarrow>
      (case openSeat r of
        None \<Rightarrow> Some (r, Inl (JoinError playerID (''room'' @ utf8 [0x306F, 0x6E80,
      0x5E2D, 0x3067, 0x3059])))
      | Some player \<Rightarrow>
          let (cs, i) = chan_make (rm_chans r);
              newSeat = \<lparr>se_playerID = playerID, se_events = Some i, se_connected = True\<rparr>;
              r1 = r\<lparr>rm_seats := AList.update player newSeat (rm_seats r), rm_chans := cs\<rparr>
          in if length (rm_seats r1) < 2 then
               do {
                 cs \<leftarrow> deliver newSeat ((room_event EventWaiting None None '''')
                                          \<lparr>re_RoomID := rm_id r1, re_Seat := player\<rparr>) (rm_chans r1);
                 Some (r1\<lparr>rm_phase := RoomWaiting, rm_chans := cs\<rparr>, Inr (player, i, False))
               }
             else start_match runner r1 playerID player i))"

subsection \<open>Submitting a command\<close>

definition room_submit ::
  "runner \<Rightarrow> room \<Rightarrow> string \<Rightarrow> command \<Rightarrow> (room \<times> (rt_error + response option)) option" where
  "room_submit runner r playerID command =
     (case seatOf r playerID of
        None \<Rightarrow> Some (r, Inr (Some (room_rejected CodeInvalidRequest
                   (utf8 [0x3053, 0x306E] @ ''room'' @ utf8 [0x306B, 0x53C2, 0x52A0, 0x3057,
      0x3066, 0x3044, 0x307E, 0x305B, 0x3093]) (rm_state r))))
      | Some (player, s) \<Rightarrow>
      if rm_phase r = RoomClosed then
        Some (r, Inr (Some (room_rejected CodeGameFinished (''room'' @ utf8 [0x306F, 0x7D42,
      0x4E86, 0x3057, 0x3066, 0x3044, 0x307E, 0x3059]) (rm_state r))))
      else case rm_state r of
        None \<Rightarrow> Some (r, Inr (Some (room_rejected CodeInvalidState
                   (utf8 [0x76F8, 0x624B, 0x306E, 0x53C2, 0x52A0, 0x3092, 0x5F85, 0x3063,
      0x3066, 0x3044, 0x307E, 0x3059]) None)))
      | Some state \<Rightarrow>
      if cm_Player command \<noteq> player then
        Some (r, Inr (Some (room_rejected CodeNotYourTurn
          (utf8 [0x81EA, 0x5206, 0x306E, 0x5E2D, 0x4EE5, 0x5916,
      0x306E] @ ''command'' @ utf8 [0x306F, 0x9001, 0x308C, 0x307E, 0x305B,
      0x3093]) (rm_state r))))
      else case Command_Validate command of
        Some protocolErr \<Rightarrow>
          Some (r, Inr (Some (room_rejected (pe_Code protocolErr) (pe_Message protocolErr) (rm_state r))))
      | None \<Rightarrow>
      (case ApplyCommand runner (State_Clone state) command of
        Inl err \<Rightarrow> Some (r, Inl err)
      | Inr None \<Rightarrow> None
      | Inr (Some response) \<Rightarrow>
          (case (rs_OK response, rs_State response) of
             (True, Some new) \<Rightarrow>
               let s' = State_Clone new;
                   r1 = r\<lparr>rm_state := Some s'\<rparr>;
                   r2 = (if st_Phase s' = PhaseFinished then r1\<lparr>rm_phase := RoomClosed\<rparr> else r1)
               in do {
                 r3 \<leftarrow> broadcast (stateEvent r2 (rs_Event response)) r2;
                 r4 \<leftarrow> (if rm_phase r3 = RoomClosed
                        then broadcast (\<lambda>player. room_event EventClosed (rm_state r3) None
                               (utf8 [0x5BFE, 0x5C40, 0x304C, 0x7D42, 0x4E86, 0x3057, 0x307E,
      0x3057, 0x305F])) r3
                        else Some r3);
                 Some (r4, Inr (room_cloneResponse (Some response)))
               }
           | (_, None) \<Rightarrow>
               Some (r, Inr (room_cloneResponse (Some (response\<lparr>rs_State := Some (State_Clone state)\<rparr>))))
           | (_, Some _) \<Rightarrow> Some (r, Inr (room_cloneResponse (Some response))))))"

subsection \<open>Leaving and closing\<close>

fun release_seats :: "(string, seat) gomap \<Rightarrow> chan list \<Rightarrow> ((string, seat) gomap \<times> chan list) option" where
  "release_seats [] cs = Some ([], cs)"
| "release_seats ((player, s) # seats) cs =
     do {
       cs1 \<leftarrow> (case se_events s of None \<Rightarrow> Some cs | Some i \<Rightarrow> chan_close cs i);
       (seats', cs2) \<leftarrow> release_seats seats cs1;
       Some ((player, s\<lparr>se_events := None, se_connected := False\<rparr>) # seats', cs2)
     }"

definition releaseSeats :: "room \<Rightarrow> room option" where
  "releaseSeats r =
     map_option (\<lambda>(seats, cs). r\<lparr>rm_seats := seats, rm_chans := cs\<rparr>)
       (release_seats (rm_seats r) (rm_chans r))"

definition closeLocked :: "string \<Rightarrow> room \<Rightarrow> room option" where
  "closeLocked reason r =
     (if rm_phase r = RoomClosed then releaseSeats r
      else
        let r1 = r\<lparr>rm_phase := RoomClosed\<rparr>
        in do {
          cs \<leftarrow> each_seat (\<lambda>player s cs.
                 if \<not> se_connected s then Some cs
                 else deliver s ((room_event EventClosed (rm_state r1) None reason)
                                   \<lparr>re_RoomID := rm_id r1, re_Seat := player\<rparr>) cs)
                 (rm_seats r1) (rm_chans r1);
          releaseSeats (r1\<lparr>rm_chans := cs\<rparr>)
        })"

definition room_close :: "string \<Rightarrow> room \<Rightarrow> room option" where
  "room_close reason r = closeLocked reason r"

definition room_leave :: "room \<Rightarrow> string \<Rightarrow> (room \<times> (leave_error + bool)) option" where
  "room_leave r playerID =
     (case seatOf r playerID of
        None \<Rightarrow> Some (r, Inl (LeaveError playerID (utf8 [0x3053,
      0x306E] @ ''room'' @ utf8 [0x306B, 0x53C2, 0x52A0, 0x3057, 0x3066, 0x3044, 0x307E,
      0x305B, 0x3093])))
      | Some (player, s) \<Rightarrow>
          do {
            r1 \<leftarrow> (if se_connected s then
                     do {
                       cs \<leftarrow> (case se_events s of None \<Rightarrow> Some (rm_chans r) | Some i \<Rightarrow> chan_close (rm_chans r) i);
                       Some (r\<lparr>rm_seats := AList.update player
                                  (s\<lparr>se_connected := False, se_events := None\<rparr>) (rm_seats r),
                               rm_chans := cs\<rparr>)
                     }
                   else Some r);
            if \<not> list_ex (\<lambda>(player, other). se_connected other) (rm_seats r1) then
              do {
                r2 \<leftarrow> closeLocked (utf8 [0x5168, 0x54E1, 0x304C, 0x5207, 0x65AD,
      0x3057, 0x307E, 0x3057, 0x305F]) r1;
                Some (r2, Inr True)
              }
            else
              do {
                r3 \<leftarrow> notifyOthers playerID EventOpponentLeft (utf8 [0x76F8, 0x624B,
      0x304C, 0x5207, 0x65AD, 0x3057, 0x307E, 0x3057, 0x305F])
                        (if rm_phase r1 = RoomPlaying then r1\<lparr>rm_phase := RoomSuspended\<rparr> else r1);
                Some (r3, Inr False)
              }
          })"

end
