(* ===== verification/RoomLemmas.thy ===== *)
theory RoomLemmas
  imports Room
begin

text \<open>
  What a room keeps: distributing events never panics and does not depend on the order in which the
  seats are visited, every operation preserves the room's invariant, and the state of a room is a
  game played by the rules from the room's seed.
\<close>

section \<open>Sending on channels\<close>

text \<open>
  The specification of a distribution: \<open>outbox\<close> lists the channels that a loop over the seats sends
  to, each with its event, and \<open>sent\<close> is what all those sends do at once. A channel that is full
  drops the event.
\<close>

definition push_event :: "room_event \<Rightarrow> chan \<Rightarrow> chan" where
  "push_event e c = (if length (cn_buf c) < eventBuffer then c\<lparr>cn_buf := cn_buf c @ [e]\<rparr> else c)"

definition sent :: "(nat \<rightharpoonup> room_event) \<Rightarrow> chan list \<Rightarrow> chan list" where
  "sent out cs = map (\<lambda>i. case out i of None \<Rightarrow> cs ! i | Some e \<Rightarrow> push_event e (cs ! i)) [0..<length cs]"

definition outbox ::
  "(string \<Rightarrow> seat \<Rightarrow> room_event option) \<Rightarrow> (string, seat) gomap \<Rightarrow> (nat \<times> room_event) list" where
  "outbox g seats =
     concat (map (\<lambda>(player, s). case (g player s, se_connected s, se_events s) of
       (Some e, True, Some i) \<Rightarrow> [(i, room_event_clone e)] | _ \<Rightarrow> []) seats)"

text \<open>The channels that the seats hold.\<close>

definition held :: "(string, seat) gomap \<Rightarrow> nat list" where
  "held seats = List.map_filter (\<lambda>(player, s). se_events s) seats"

definition open_in :: "chan list \<Rightarrow> nat \<Rightarrow> bool" where
  "open_in cs i \<longleftrightarrow> i < length cs \<and> \<not> cn_closed (cs ! i)"

lemma held_simps [simp]:
  "held [] = []"
  "held ((player, s) # seats) = (case se_events s of None \<Rightarrow> held seats | Some i \<Rightarrow> i # held seats)"
  by (simp_all add: held_def List.map_filter_simps split: option.split)

lemma set_held: "set (held seats) = {i. \<exists>player s. (player, s) \<in> set seats \<and> se_events s = Some i}"
  unfolding held_def map_filter_def by force

lemma outbox_Nil [simp]: "outbox g [] = []"
  by (simp add: outbox_def)

lemma outbox_Cons [simp]:
  "outbox g ((player, s) # seats) =
     (case (g player s, se_connected s, se_events s) of
       (Some e, True, Some i) \<Rightarrow> (i, room_event_clone e) # outbox g seats | _ \<Rightarrow> outbox g seats)"
  by (simp add: outbox_def split: option.split bool.split)


lemma outbox_mem:
  "(i, e) \<in> set (outbox g seats) \<longleftrightarrow>
     (\<exists>player s e'. (player, s) \<in> set seats \<and> g player s = Some e' \<and> se_connected s \<and>
        se_events s = Some i \<and> e = room_event_clone e')"
  proof -
  have a: "(i, e) \<in> set (case (x, c, ev) of (Some e, True, Some i) \<Rightarrow> [(i, room_event_clone e)] | _ \<Rightarrow> []) \<longleftrightarrow>
      (\<exists>e'. x = Some e' \<and> c \<and> ev = Some i \<and> e = room_event_clone e')" for x c ev
    by (auto split: option.split bool.split)
  show ?thesis unfolding outbox_def by (force simp: a)
qed

lemma outbox_held: "set (map fst (outbox g seats)) \<subseteq> set (held seats)"
  by (fastforce simp: outbox_mem set_held)

lemma distinct_outbox: "distinct (held seats) \<Longrightarrow> distinct (map fst (outbox g seats))"
proof (induction seats)
  case (Cons a seats)
  obtain player s where "a = (player, s)" by fastforce
  with Cons outbox_held[of g seats] show ?case by (auto split: option.splits bool.splits)
qed simp

lemma length_sent [simp]: "length (sent out cs) = length cs"
  by (simp add: sent_def)

lemma nth_sent: "i < length cs \<Longrightarrow>
  sent out cs ! i = (case out i of None \<Rightarrow> cs ! i | Some e \<Rightarrow> push_event e (cs ! i))"
  by (simp add: sent_def split: option.split)

lemma sent_empty [simp]: "sent (\<lambda>i. None) cs = cs"
  by (rule nth_equalityI) (simp_all add: nth_sent)

lemma sent_upd:
  "i < length cs \<Longrightarrow> out i = None \<Longrightarrow>
     sent out (cs[i := push_event e (cs ! i)]) = sent (out(i \<mapsto> e)) cs"
  by (rule nth_equalityI) (auto simp: nth_sent nth_list_update split: option.split)

lemma push_event_closed [simp]: "cn_closed (push_event e c) = cn_closed c"
  by (simp add: push_event_def)

lemma open_in_sent [simp]: "open_in (sent out cs) i = open_in cs i"
  by (cases "out i") (auto simp: open_in_def nth_sent)

lemma chan_send_open:
  "open_in cs i \<Longrightarrow> chan_send cs i e = Some (cs[i := push_event e (cs ! i)])"
  by (auto simp: chan_send_def open_in_def push_event_def Let_def)

lemma open_in_upd [simp]: "open_in (cs[j := push_event e (cs ! j)]) i = open_in cs i"
  by (cases "j = i") (auto simp: open_in_def)

lemma deliver_open:
  assumes "\<And>i. se_events s = Some i \<Longrightarrow> open_in cs i"
  shows "deliver s e cs = Some (sent (map_of (outbox (\<lambda>_ _. Some e) [(player, s)])) cs)"
proof (cases "se_events s")
  case None
  then show ?thesis by (simp add: deliver_def)
next
  case (Some i)
  then have "open_in cs i" using assms by blast
  then show ?thesis
    using Some sent_upd[of i cs "\<lambda>_. None" "room_event_clone e"]
    by (auto simp: deliver_def chan_send_open open_in_def fun_upd_def)
qed

text \<open>A loop over the seats never panics and does all its sends, whatever the order.\<close>

lemma each_seat_sent:
  assumes f: "\<And>player s cs. f player s cs =
      (case g player s of None \<Rightarrow> Some cs | Some e \<Rightarrow> deliver s e cs)"
  shows "distinct (held seats) \<Longrightarrow> \<forall>i \<in> set (held seats). open_in cs i \<Longrightarrow>
    each_seat f seats cs = Some (sent (map_of (outbox g seats)) cs)"
proof (induction seats arbitrary: cs)
  case (Cons a seats)
  obtain player s where a: "a = (player, s)" by fastforce
  show ?case
  proof (cases "\<exists>e i. g player s = Some e \<and> se_connected s \<and> se_events s = Some i")
    case True
    then obtain e i where e: "g player s = Some e" "se_connected s" "se_events s = Some i" by blast
    then have o: "open_in cs i" and d: "i \<notin> set (held seats)" "distinct (held seats)"
      using Cons.prems a by auto
    let ?cs = "cs[i := push_event (room_event_clone e) (cs ! i)]"
    have "map_of (outbox g seats) i = None"
      using d outbox_held[of g seats] by (auto simp: map_of_eq_None_iff)
    moreover have "each_seat f seats ?cs = Some (sent (map_of (outbox g seats)) ?cs)"
      using Cons.prems a e by (intro Cons.IH) auto
    ultimately show ?thesis
      using e o f[of player s cs] by (simp add: a deliver_def chan_send_open sent_upd open_in_def fun_upd_def)
  next
    case False
    then have "f player s cs = Some cs" "outbox g (a # seats) = outbox g seats"
      using f[of player s cs] by (auto simp: a deliver_def split: option.split bool.split)
    with Cons show ?thesis by (auto simp: a split: option.splits)
  qed
qed simp

lemma outbox_perm:
  assumes "mset seats = mset seats'" "distinct (held seats)" "distinct (held seats')"
  shows "map_of (outbox g seats) = map_of (outbox g seats')"
proof -
  have "set (outbox g seats) = set (outbox g seats')"
    using outbox_mem mset_eq_setD[OF assms(1)] by (auto simp: set_eq_iff) 
  then show ?thesis using distinct_outbox assms(2,3) by (metis map_of_inject_set)
qed

text \<open>Closing the channels of the seats.\<close>

definition shut :: "nat set \<Rightarrow> chan list \<Rightarrow> chan list" where
  "shut is cs = map (\<lambda>i. if i \<in> is then (cs ! i)\<lparr>cn_closed := True\<rparr> else cs ! i) [0..<length cs]"

lemma length_shut [simp]: "length (shut is cs) = length cs"
  by (simp add: shut_def)

lemma nth_shut: "i < length cs \<Longrightarrow>
  shut is cs ! i = (if i \<in> is then (cs ! i)\<lparr>cn_closed := True\<rparr> else cs ! i)"
  by (simp add: shut_def)

lemma shut_empty [simp]: "shut {} cs = cs"
  by (rule nth_equalityI) (simp_all add: nth_shut)

lemma shut_upd:
  "i < length cs \<Longrightarrow> shut is (cs[i := (cs ! i)\<lparr>cn_closed := True\<rparr>]) = shut (insert i is) cs"
  by (rule nth_equalityI) (auto simp: nth_shut nth_list_update)

lemma open_in_shut [simp]: "open_in (shut is cs) i \<longleftrightarrow> open_in cs i \<and> i \<notin> is"
  by (cases "i \<in> is") (auto simp: open_in_def nth_shut)

lemma chan_close_open: "open_in cs i \<Longrightarrow> chan_close cs i = Some (shut {i} cs)"
  using shut_upd[of i cs "{}"] by (simp add: chan_close_def open_in_def)

definition vacated :: "seat \<Rightarrow> seat" where
  "vacated s = s\<lparr>se_events := None, se_connected := False\<rparr>"

lemma release_seats_shut:
  "distinct (held seats) \<Longrightarrow> \<forall>i \<in> set (held seats). open_in cs i \<Longrightarrow>
   release_seats seats cs =
     Some (map (\<lambda>(player, s). (player, vacated s)) seats, shut (set (held seats)) cs)"
proof (induction seats arbitrary: cs)
  case (Cons a seats)
  obtain player s where a: "a = (player, s)" by fastforce
  show ?case
  proof (cases "se_events s")
    case None
    with Cons a show ?thesis by (simp add: vacated_def)
  next
    case (Some i)
    then have "open_in cs i" using Cons.prems a by simp
    moreover from this have "shut is (shut {i} cs) = shut (insert i is) cs" for "is"
      by (auto simp: nth_shut intro!: nth_equalityI)
    moreover have "release_seats seats (shut {i} cs) =
        Some (map (\<lambda>(player, s). (player, vacated s)) seats, shut (set (held seats)) (shut {i} cs))"
      using Cons.prems a Some by (intro Cons.IH) auto
    ultimately show ?thesis using Some by (simp add: a chan_close_open vacated_def)
  qed
qed simp


section \<open>Well-formed rooms\<close>

definition room_wf :: "room \<Rightarrow> bool" where
  "room_wf r \<longleftrightarrow>
     gomap_wf (rm_seats r) \<and> list_all (\<lambda>(player, s). Player_Valid player) (rm_seats r) \<and>
     distinct (map (\<lambda>(player, s). se_playerID s) (rm_seats r)) \<and>
     list_all (\<lambda>(player, s). se_connected s = (se_events s \<noteq> None)) (rm_seats r) \<and>
     distinct (held (rm_seats r)) \<and> list_all (open_in (rm_chans r)) (held (rm_seats r)) \<and>
     list_all (\<lambda>c. length (cn_buf c) \<le> eventBuffer) (rm_chans r)"

text \<open>The seats of a well-formed room, listed.\<close>

lemma room_wf_cases:
  assumes "room_wf r"
  obtains (none) "rm_seats r = []"
  | (one) p s where "rm_seats r = [(p, s)]" "Player_Valid p"
  | (two) p s q t where "rm_seats r = [(p, s), (q, t)]" "Player_Valid p" "Player_Valid q" "p \<noteq> q"
      "se_playerID s \<noteq> se_playerID t"
proof -
  let ?ps = "map fst (rm_seats r)"
  have d: "distinct ?ps" "set ?ps \<subseteq> {PlayerDark, PlayerLight}"
    using assms by (auto simp: room_wf_def gomap_wf_def list_all_iff Player_Valid_def)
  have "length (rm_seats r) = card (set ?ps)" using distinct_card[OF d(1)] by simp
  also have "\<dots> \<le> card {PlayerDark, PlayerLight}" by (rule card_mono) (use d in auto)
  finally have "length (rm_seats r) \<le> 2" by simp
  then consider "length (rm_seats r) = 0" | "length (rm_seats r) = Suc 0" | "length (rm_seats r) = Suc (Suc 0)"
    by linarith
  then show ?thesis
  proof cases
    case 1
    then show ?thesis using none by simp
  next
    case 2
    then obtain p s where "rm_seats r = [(p, s)]" by (auto simp: length_Suc_conv)
    then show ?thesis using one assms by (simp add: room_wf_def)
  next
    case 3
    then obtain p s q t where "rm_seats r = [(p, s), (q, t)]" by (auto simp: length_Suc_conv)
    then show ?thesis using two assms by (simp add: room_wf_def gomap_wf_def)
  qed
qed

text \<open>Distributing events and closing channels, on rooms.\<close>

definition addressed :: "room \<Rightarrow> room_event \<Rightarrow> string \<Rightarrow> room_event" where
  "addressed r e player = e\<lparr>re_RoomID := rm_id r, re_Seat := player\<rparr>"

definition posted :: "(string \<Rightarrow> seat \<Rightarrow> room_event option) \<Rightarrow> room \<Rightarrow> room" where
  "posted g r = r\<lparr>rm_chans := sent (map_of (outbox g (rm_seats r))) (rm_chans r)\<rparr>"

definition vacate :: "room \<Rightarrow> room" where
  "vacate r = r\<lparr>rm_seats := map (\<lambda>(player, s). (player, vacated s)) (rm_seats r),
               rm_chans := shut (set (held (rm_seats r))) (rm_chans r)\<rparr>"

lemma posted_fields [simp]:
  "rm_id (posted g r) = rm_id r" "rm_seed (posted g r) = rm_seed r" "rm_seats (posted g r) = rm_seats r"
  "rm_state (posted g r) = rm_state r" "rm_phase (posted g r) = rm_phase r"
  "length (rm_chans (posted g r)) = length (rm_chans r)"
  "open_in (rm_chans (posted g r)) i = open_in (rm_chans r) i"
  by (simp_all add: posted_def)

lemma vacate_fields [simp]:
  "rm_id (vacate r) = rm_id r" "rm_seed (vacate r) = rm_seed r" "rm_state (vacate r) = rm_state r"
  "rm_phase (vacate r) = rm_phase r"
  "rm_seats (vacate r) = map (\<lambda>(player, s). (player, vacated s)) (rm_seats r)"
  by (simp_all add: vacate_def)

lemma vacated_fields [simp]:
  "se_playerID (vacated s) = se_playerID s" "se_events (vacated s) = None" "\<not> se_connected (vacated s)"
  by (simp_all add: vacated_def)

lemma held_vacated [simp]: "held (map (\<lambda>(player, s). (player, vacated s)) seats) = []"
  by (induction seats) auto

lemma length_push: "length (cn_buf c) \<le> eventBuffer \<Longrightarrow> length (cn_buf (push_event e c)) \<le> eventBuffer"
  by (simp add: push_event_def)

lemma posted_wf [wf_intros]: "room_wf r \<Longrightarrow> room_wf (posted g r)"
  by (auto simp: room_wf_def list_all_length posted_def nth_sent length_push split: option.split)

lemma vacate_wf [wf_intros]: "room_wf r \<Longrightarrow> room_wf (vacate r)"
proof -
  assume wf: "room_wf r"
  have m: "map (\<lambda>(player, s). se_playerID s) (map (\<lambda>(player, s). (player, vacated s)) seats) =
      map (\<lambda>(player, s). se_playerID s) seats"
    "map fst (map (\<lambda>(player, s). (player, vacated s)) seats) = map fst seats"
    for seats :: "(string, seat) gomap"
    by auto
  have "list_all (\<lambda>c. length (cn_buf c) \<le> eventBuffer) (shut is (rm_chans r))" for "is"
    using wf by (simp add: room_wf_def list_all_length nth_shut)
  then show ?thesis
    using wf by (simp add: room_wf_def vacate_def gomap_wf_def m del: map_map)
      (auto simp: list_all_iff)
qed

lemma room_wf_update [wf_intros]:
  "room_wf r \<Longrightarrow> room_wf (r\<lparr>rm_phase := ph\<rparr>)" "room_wf r \<Longrightarrow> room_wf (r\<lparr>rm_state := st\<rparr>)"
  by (simp_all add: room_wf_def)

lemma room_wf_held:
  "room_wf r \<Longrightarrow> distinct (held (rm_seats r)) \<and> (\<forall>i \<in> set (held (rm_seats r)). open_in (rm_chans r) i)"
  by (simp add: room_wf_def list_all_iff)

lemma broadcast_posted:
  "room_wf r \<Longrightarrow> broadcast build r = Some (posted (\<lambda>player s. Some (addressed r (build player) player)) r)"
  unfolding broadcast_def
  by (subst each_seat_sent[where g = "\<lambda>player s. Some (addressed r (build player) player)"])
    (auto simp: posted_def addressed_def deliver_def dest: room_wf_held)

lemma notifyOthers_posted:
  "room_wf r \<Longrightarrow> notifyOthers playerID eventType reason r =
     Some (posted (\<lambda>player s. if se_playerID s = playerID then None
             else Some (addressed r (room_event eventType (rm_state r) None reason) player)) r)"
  unfolding notifyOthers_def
  by (subst each_seat_sent[where g = "\<lambda>player s. if se_playerID s = playerID then None
             else Some (addressed r (room_event eventType (rm_state r) None reason) player)"])
    (auto simp: posted_def addressed_def deliver_def dest: room_wf_held)

lemma releaseSeats_vacate: "room_wf r \<Longrightarrow> releaseSeats r = Some (vacate r)"
  by (simp add: releaseSeats_def release_seats_shut room_wf_held vacate_def)

definition closed_event :: "room \<Rightarrow> string \<Rightarrow> room_event" where
  "closed_event r reason = room_event EventClosed (rm_state r) None reason"

lemma closeLocked_vacate:
  assumes "room_wf r"
  shows "closeLocked reason r =
    Some (vacate (if rm_phase r = RoomClosed then r
                  else posted (\<lambda>player s. Some (addressed r (closed_event r reason) player))
                         (r\<lparr>rm_phase := RoomClosed\<rparr>)))"
proof (cases "rm_phase r = RoomClosed")
  case True
  then show ?thesis by (simp add: closeLocked_def releaseSeats_vacate assms)
next
  case False
  let ?r = "r\<lparr>rm_phase := RoomClosed\<rparr>"
  let ?g = "\<lambda>player s. Some (addressed r (closed_event r reason) player)"
  have "each_seat (\<lambda>player s cs.
                 if \<not> se_connected s then Some cs
                 else deliver s ((room_event EventClosed (rm_state r) None reason)
                                   \<lparr>re_RoomID := rm_id r, re_Seat := player\<rparr>) cs)
                 (rm_seats r) (rm_chans r) = Some (rm_chans (posted ?g ?r))"
    by (subst each_seat_sent[where g = ?g])
      (use room_wf_held[OF assms] in \<open>auto simp: posted_def addressed_def deliver_def closed_event_def\<close>)
  moreover have "releaseSeats (?r\<lparr>rm_chans := rm_chans (posted ?g ?r)\<rparr>) = Some (vacate (posted ?g ?r))"
  proof -
    have "?r\<lparr>rm_chans := rm_chans (posted ?g ?r)\<rparr> = posted ?g ?r" by (simp add: posted_def)
    moreover have "room_wf (posted ?g ?r)" using assms by (intro wf_intros)
    ultimately show ?thesis using releaseSeats_vacate by metis
  qed
  ultimately show ?thesis using False by (simp add: closeLocked_def Let_def cong: if_cong)
qed

section \<open>The invariant of a room\<close>

text \<open>The room's game: the commands that were accepted so far lead from its first state to \<open>s\<close>.\<close>

definition room_game :: "room \<Rightarrow> state \<Rightarrow> bool" where
  "room_game r s \<longleftrightarrow> (\<exists>cs. play (new_game (rm_id r) (rm_seed r)) cs = Some (wire_state s))"

definition all_connected :: "room \<Rightarrow> bool" where
  "all_connected r \<longleftrightarrow> list_all (\<lambda>(player, s). se_connected s) (rm_seats r)"

definition some_connected :: "room \<Rightarrow> bool" where
  "some_connected r \<longleftrightarrow> list_ex (\<lambda>(player, s). se_connected s) (rm_seats r)"

definition phase_inv :: "room \<Rightarrow> bool" where
  "phase_inv r \<longleftrightarrow>
     (case rm_phase r of
        RoomWaiting \<Rightarrow> length (rm_seats r) \<le> 1 \<and> all_connected r \<and> rm_state r = None \<and>
          list_all (\<lambda>(player, s). player = PlayerDark) (rm_seats r)
      | RoomPlaying \<Rightarrow> length (rm_seats r) = 2 \<and> all_connected r \<and>
          pred_option (\<lambda>s. st_Phase s = PhasePlaying) (rm_state r) \<and> rm_state r \<noteq> None
      | RoomSuspended \<Rightarrow> length (rm_seats r) = 2 \<and> \<not> all_connected r \<and> some_connected r \<and>
          pred_option (\<lambda>s. st_Phase s = PhasePlaying) (rm_state r) \<and> rm_state r \<noteq> None
      | RoomClosed \<Rightarrow>
          \<not> some_connected r \<or>
          rm_state r \<noteq> None \<and> pred_option (\<lambda>s. st_Phase s = PhaseFinished) (rm_state r))"

definition room_inv :: "room \<Rightarrow> bool" where
  "room_inv r \<longleftrightarrow>
     room_wf r \<and> rm_id r \<noteq> '''' \<and> pred_option (room_game r) (rm_state r) \<and> phase_inv r"

lemma newRoom_inv [wf_intros]: "roomID \<noteq> '''' \<Longrightarrow> room_inv (newRoom roomID seed)"
  by (simp add: room_inv_def newRoom_def room_wf_def phase_inv_def all_connected_def)

lemma room_inv_wf: "room_inv r \<Longrightarrow> room_wf r"
  by (simp add: room_inv_def)

lemma room_game_server:
  "rm_id r \<noteq> '''' \<Longrightarrow> room_game r s \<Longrightarrow> server_state s"
  using play_inv new_game_inv unfolding room_game_def server_state_def by blast

lemma room_inv_state: "room_inv r \<Longrightarrow> rm_state r = Some s \<Longrightarrow> server_state s"
  using room_game_server by (auto simp: room_inv_def)

lemma room_game_Clone [simp]: "room_game r (State_Clone s) = room_game r s"
  by (simp add: room_game_def)

lemma room_game_start: "rm_id r \<noteq> '''' \<Longrightarrow> room_game r (new_game (rm_id r) (rm_seed r))"
proof -
  assume "rm_id r \<noteq> ''''"
  then have "play (new_game (rm_id r) (rm_seed r)) [] = Some (wire_state (new_game (rm_id r) (rm_seed r)))"
    using wire_game_inv[OF new_game_inv] by simp
  then show ?thesis unfolding room_game_def by blast
qed

lemma room_game_move:
  assumes "rm_id r \<noteq> ''''" "room_game r s" "accepts (wire_state s) c = Some s'"
  shows "room_game r s'" "wire_state s' = s'" "game_inv s'"
proof -
  obtain cs where cs: "play (new_game (rm_id r) (rm_seed r)) cs = Some (wire_state s)"
    using assms(2) by (auto simp: room_game_def)
  have "game_inv (wire_state s)" using room_game_server[OF assms(1,2)] by (simp add: server_state_def)
  then show inv: "game_inv s'" using accepts_inv assms(3) by blast
  then show w: "wire_state s' = s'" by (rule wire_game_inv)
  have "play (new_game (rm_id r) (rm_seed r)) (cs @ [c]) = Some (wire_state s')"
    using cs assms(3) by (simp add: play_append w)
  then show "room_game r s'" unfolding room_game_def by blast
qed

lemma room_game_update [simp]:
  "room_game (r\<lparr>rm_seats := x\<rparr>) = room_game r" "room_game (r\<lparr>rm_state := y\<rparr>) = room_game r"
  "room_game (r\<lparr>rm_phase := z\<rparr>) = room_game r" "room_game (r\<lparr>rm_chans := w\<rparr>) = room_game r"
  "room_game (posted g r) = room_game r" "room_game (vacate r) = room_game r"
  by (simp_all add: room_game_def fun_eq_iff)

lemma connected_update [simp]:
  "all_connected (r\<lparr>rm_state := y\<rparr>) = all_connected r" "all_connected (r\<lparr>rm_phase := z\<rparr>) = all_connected r"
  "all_connected (r\<lparr>rm_chans := w\<rparr>) = all_connected r" "all_connected (posted g r) = all_connected r"
  "some_connected (r\<lparr>rm_state := y\<rparr>) = some_connected r" "some_connected (r\<lparr>rm_phase := z\<rparr>) = some_connected r"
  "some_connected (r\<lparr>rm_chans := w\<rparr>) = some_connected r" "some_connected (posted g r) = some_connected r"
  by (simp_all add: all_connected_def some_connected_def)

lemma posted_phase_inv [simp]: "phase_inv (posted g r) = phase_inv r"
  by (simp add: phase_inv_def split: room_phase.split)

lemma posted_inv [wf_intros]: "room_inv r \<Longrightarrow> room_inv (posted g r)"
  by (simp add: room_inv_def posted_wf)

section \<open>Closing a room\<close>

lemma not_some_connected_vacate [simp]: "\<not> some_connected (vacate r)"
  by (auto simp: some_connected_def list_ex_iff)

lemma closeLocked_inv:
  assumes "room_wf r" "rm_id r \<noteq> ''''" "pred_option (room_game r) (rm_state r)"
  shows "\<exists>r'. closeLocked reason r = Some r' \<and> room_inv r' \<and> rm_phase r' = RoomClosed \<and>
    \<not> some_connected r' \<and> held (rm_seats r') = [] \<and> rm_id r' = rm_id r \<and> rm_seed r' = rm_seed r \<and> rm_state r' = rm_state r \<and>
    Room_Seats r' = Room_Seats r"
proof -
  let ?p = "if rm_phase r = RoomClosed then r
                  else posted (\<lambda>player s. Some (addressed r (closed_event r reason) player))
                         (r\<lparr>rm_phase := RoomClosed\<rparr>)"
  have r: "closeLocked reason r = Some (vacate ?p)"
    using assms by (simp add: closeLocked_vacate)
  have "room_wf (vacate ?p)" using assms(1) by (auto intro!: wf_intros)
  moreover have "rm_phase (vacate ?p) = RoomClosed" "rm_id (vacate ?p) = rm_id r" "rm_seed (vacate ?p) = rm_seed r"
    "rm_state (vacate ?p) = rm_state r" "Room_Seats (vacate ?p) = Room_Seats r"
    by (auto simp: Room_Seats_def case_prod_beta)
  moreover have "room_game (vacate ?p) = room_game r" by simp
  ultimately show ?thesis using assms r by (auto simp: room_inv_def phase_inv_def)
qed

lemma room_close_inv:
  assumes "room_inv r"
  shows "\<exists>r'. room_close reason r = Some r' \<and> room_inv r' \<and> rm_phase r' = RoomClosed \<and>
    \<not> some_connected r' \<and> held (rm_seats r') = [] \<and> rm_id r' = rm_id r \<and> rm_seed r' = rm_seed r \<and> rm_state r' = rm_state r \<and>
    Room_Seats r' = Room_Seats r"
  unfolding room_close_def using assms by (intro closeLocked_inv) (simp_all add: room_inv_def)

section \<open>Leaving\<close>

lemma seatOf_Some:
  "seatOf r playerID = Some (player, s) \<Longrightarrow> (player, s) \<in> set (rm_seats r) \<and> se_playerID s = playerID"
  by (auto simp: seatOf_def find_Some_iff) (metis nth_mem)

lemma seatOf_None:
  "seatOf r playerID = None \<longleftrightarrow> (\<forall>(player, s) \<in> set (rm_seats r). se_playerID s \<noteq> playerID)"
  by (auto simp: seatOf_def find_None_iff)

lemma buffers_shut [simp]:
  "list_all (\<lambda>c. length (cn_buf c) \<le> n) (shut is cs) = list_all (\<lambda>c. length (cn_buf c) \<le> n) cs"
  by (auto simp: list_all_length nth_shut)

lemma vacated_alt: "s\<lparr>se_connected := False, se_events := None\<rparr> = vacated s"
  by (cases s) (simp add: vacated_def)

definition unseat :: "string \<Rightarrow> seat \<Rightarrow> room \<Rightarrow> room" where
  "unseat player s r =
     r\<lparr>rm_seats := AList.update player (vacated s) (rm_seats r),
       rm_chans := shut (set_option (se_events s)) (rm_chans r)\<rparr>"

lemma unseat_fields [simp]:
  "rm_id (unseat player s r) = rm_id r" "rm_seed (unseat player s r) = rm_seed r"
  "rm_state (unseat player s r) = rm_state r" "rm_phase (unseat player s r) = rm_phase r"
  "rm_seats (unseat player s r) = AList.update player (vacated s) (rm_seats r)"
  "room_game (unseat player s r) = room_game r"
  by (simp_all add: unseat_def room_game_def fun_eq_iff)

lemma unseat_wf [wf_intros]:
  assumes "room_wf r" "(player, s) \<in> set (rm_seats r)"
  shows "room_wf (unseat player s r)"
  using assms(1)
proof (cases r rule: room_wf_cases)
  case none
  then show ?thesis using assms by simp
next
  case (one p x)
  then show ?thesis using assms by (auto simp: room_wf_def unseat_def gomap_wf_def)
next
  case (two p x q y)
  then show ?thesis using assms
    by (auto simp: room_wf_def unseat_def gomap_wf_def split: option.splits)
qed

lemma room_leave_eq:
  assumes wf: "room_wf r" and s: "seatOf r playerID = Some (player, s)"
  shows "room_leave r playerID =
    (let r1 = unseat player s r
     in if \<not> some_connected r1 then map_option (\<lambda>r2. (r2,
      Inr True)) (closeLocked (utf8 [0x5168, 0x54E1, 0x304C, 0x5207, 0x65AD, 0x3057, 0x307E,
      0x3057, 0x305F]) r1)
        else map_option (\<lambda>r3. (r3, Inr False))
          (notifyOthers playerID EventOpponentLeft (utf8 [0x76F8, 0x624B, 0x304C, 0x5207,
      0x65AD, 0x3057, 0x307E, 0x3057, 0x305F])
             (if rm_phase r1 = RoomPlaying then r1\<lparr>rm_phase := RoomSuspended\<rparr> else r1)))"
proof -
  note m = seatOf_Some[OF s]
  have ev: "se_connected s = (se_events s \<noteq> None)"
    using wf m by (auto simp: room_wf_def list_all_iff)
  have wfm: "gomap_wf (rm_seats r)" using wf by (simp add: room_wf_def)
  have same: "unseat player s r = r" if "\<not> se_connected s"
  proof -
    have "vacated s = s" using that ev by (simp add: vacated_def)
    moreover have "AList.update player s (rm_seats r) = rm_seats r"
      using wf m by (cases r rule: room_wf_cases) auto
    ultimately have "AList.update player (vacated s) (rm_seats r) = rm_seats r" by metis
    then show ?thesis using that ev by (simp add: unseat_def)
  qed
  have shut: "chan_close (rm_chans r) i = Some (shut {i} (rm_chans r))" if "se_events s = Some i" for i
  proof (rule chan_close_open)
    have "i \<in> set (held (rm_seats r))" using that m by (auto simp: set_held)
    then show "open_in (rm_chans r) i" using room_wf_held[OF wf] by blast
  qed
  have first: "(if se_connected s then
                     do {
                       cs \<leftarrow> (case se_events s of None \<Rightarrow> Some (rm_chans r) | Some i \<Rightarrow> chan_close (rm_chans r) i);
                       Some (r\<lparr>rm_seats := AList.update player
                                  (s\<lparr>se_connected := False, se_events := None\<rparr>) (rm_seats r),
                               rm_chans := cs\<rparr>)
                     }
                   else Some r) = Some (unseat player s r)"
    using ev same shut by (auto simp: unseat_def vacated_alt)
  show ?thesis
    unfolding room_leave_def s option.case prod.case first some_connected_def
    by (auto simp: Let_def map_option_case case_prod_beta split: option.split)
qed

lemma unseat_connected:
  assumes "room_wf r" "(player, s) \<in> set (rm_seats r)"
  shows "\<not> all_connected (unseat player s r)" "some_connected (unseat player s r) \<Longrightarrow> some_connected r"
    "length (rm_seats (unseat player s r)) = length (rm_seats r)"
    "Room_Seats (unseat player s r) = Room_Seats r"
  by (insert assms(2), (rule room_wf_cases[OF assms(1)],
      auto simp: all_connected_def some_connected_def Room_Seats_def)+)

lemma posted_Seats [simp]: "Room_Seats (posted g r) = Room_Seats r"
  by (simp add: Room_Seats_def)

lemma unseat_phase:
  assumes inv: "room_inv r" and m: "(player, s) \<in> set (rm_seats r)"
    and some: "some_connected (unseat player s r)"
  shows "phase_inv (if rm_phase r = RoomPlaying then (unseat player s r)\<lparr>rm_phase := RoomSuspended\<rparr>
                    else unseat player s r)"
proof -
  note wf = room_inv_wf[OF inv]
  have p: "phase_inv r" using inv by (simp add: room_inv_def)
  show ?thesis
  proof (cases "rm_phase r")
    case RoomWaiting
    then have "length (rm_seats r) \<le> 1" using p by (simp add: phase_inv_def)
    have "\<not> some_connected (unseat player s r)"
      by (insert m \<open>length (rm_seats r) \<le> 1\<close>, rule room_wf_cases[OF wf]) (auto simp: some_connected_def)
    then show ?thesis using some by simp
  next
    case RoomPlaying
    then show ?thesis
      using p some unseat_connected[OF wf m] by (simp add: phase_inv_def)
  next
    case RoomSuspended
    then show ?thesis
      using p some unseat_connected[OF wf m] by (simp add: phase_inv_def)
  next
    case RoomClosed
    then show ?thesis
      using p some unseat_connected[OF wf m] by (simp add: phase_inv_def)
  qed
qed

text \<open>What leaving does, on each of its branches.\<close>

lemma room_leave_cases:
  assumes inv: "room_inv r"
  obtains (stranger) message where "seatOf r playerID = None"
      "room_leave r playerID = Some (r, Inl (LeaveError playerID message))"
  | (empty) r' where "seatOf r playerID \<noteq> None" "room_leave r playerID = Some (r', Inr True)" "room_inv r'"
      "rm_phase r' = RoomClosed" "\<not> some_connected r'" "held (rm_seats r') = []"
      "rm_id r' = rm_id r" "rm_seed r' = rm_seed r" "rm_state r' = rm_state r" "Room_Seats r' = Room_Seats r"
  | (remains) r' player s where "seatOf r playerID = Some (player, s)"
      "room_leave r playerID = Some (r', Inr False)" "room_inv r'"
      "some_connected r'" "seatOf r' playerID = Some (player, vacated s)"
      "rm_phase r' = (if rm_phase r = RoomPlaying then RoomSuspended else rm_phase r)"
      "rm_id r' = rm_id r" "rm_seed r' = rm_seed r" "rm_state r' = rm_state r" "Room_Seats r' = Room_Seats r"
proof (cases "seatOf r playerID")
  case None
  then show ?thesis using stranger by (simp add: room_leave_def)
next
  case (Some ps)
  obtain player s where s: "seatOf r playerID = Some (player, s)" using Some by fastforce
  note m = seatOf_Some[OF s]
  note wf = room_inv_wf[OF inv]
  let ?r = "unseat player s r"
  have wfu: "room_wf ?r" using wf m by (intro wf_intros) simp_all
  note eq = room_leave_eq[OF wf s]
  show ?thesis
  proof (cases "some_connected ?r")
    case False
    obtain r' where "closeLocked (utf8 [0x5168, 0x54E1, 0x304C, 0x5207, 0x65AD, 0x3057, 0x307E,
      0x3057, 0x305F]) ?r = Some r'" "room_inv r'"
      "rm_phase r' = RoomClosed" "\<not> some_connected r'" "held (rm_seats r') = []"
      "rm_id r' = rm_id r" "rm_seed r' = rm_seed r" "rm_state r' = rm_state r" "Room_Seats r' = Room_Seats r"
      using closeLocked_inv[OF wfu, of "(utf8 [0x5168, 0x54E1, 0x304C, 0x5207, 0x65AD, 0x3057,
      0x307E, 0x3057, 0x305F])"] inv m unseat_connected(4)[OF wf]
      by (auto simp: room_inv_def)
    then show ?thesis
      using empty[of r'] s eq False by (simp add: Let_def)
  next
    case True
    let ?q = "if rm_phase r = RoomPlaying then ?r\<lparr>rm_phase := RoomSuspended\<rparr> else ?r"
    let ?n = "posted (\<lambda>player s. if se_playerID s = playerID then None
        else Some (addressed ?q (room_event EventOpponentLeft (rm_state ?q) None (utf8 [0x76F8,
      0x624B, 0x304C, 0x5207, 0x65AD, 0x3057, 0x307E, 0x3057, 0x305F])) player)) ?q"
    have wfq: "room_wf ?q" using wfu by (auto intro: wf_intros)
    have "room_inv ?q"
      using wfq unseat_phase[OF inv _ True] m inv by (auto simp: room_inv_def)
    then have "room_inv ?n" by (rule posted_inv)
    moreover have "room_leave r playerID = Some (?n, Inr False)"
      using eq True notifyOthers_posted[OF wfq] by (simp add: Let_def cong: if_cong)
    moreover have "seatOf ?n playerID = Some (player, vacated s)"
    proof -
      have "seatOf (unseat player s r) playerID = Some (player, vacated s)"
        by (insert m, rule room_wf_cases[OF wf]) (auto simp: seatOf_def)
      then show ?thesis by (simp add: seatOf_def)
    qed
    moreover have "some_connected ?n" using True by simp
    moreover have "Room_Seats ?n = Room_Seats r"
      using unseat_connected(4)[OF wf] m by (simp add: Room_Seats_def)
    ultimately show ?thesis using remains[OF s, of ?n] by simp
  qed
qed

section \<open>Submitting\<close>

text \<open>The room after an accepted command that leads to state \<open>s'\<close>.\<close>

definition room_moved :: "room \<Rightarrow> state \<Rightarrow> event option \<Rightarrow> room" where
  "room_moved r s' e =
     (let r2 = r\<lparr>rm_state := Some (State_Clone s'),
                 rm_phase := (if st_Phase s' = PhaseFinished then RoomClosed else rm_phase r)\<rparr>;
          r3 = posted (\<lambda>player s. Some (addressed r2 (stateEvent r2 e player) player)) r2
      in if st_Phase s' = PhaseFinished
         then posted (\<lambda>player s. Some (addressed r3 (closed_event r3 (utf8 [0x5BFE,
      0x5C40, 0x304C, 0x7D42, 0x4E86, 0x3057, 0x307E, 0x3057, 0x305F])) player)) r3
         else r3)"

lemma room_moved_fields [simp]:
  "rm_id (room_moved r s' e) = rm_id r" "rm_seed (room_moved r s' e) = rm_seed r"
  "rm_seats (room_moved r s' e) = rm_seats r" "rm_state (room_moved r s' e) = Some (State_Clone s')"
  "rm_phase (room_moved r s' e) = (if st_Phase s' = PhaseFinished then RoomClosed else rm_phase r)"
  by (simp_all add: room_moved_def Let_def)

lemma room_moved_wf [wf_intros]: "room_wf r \<Longrightarrow> room_wf (room_moved r s' e)"
  unfolding room_moved_def Let_def by (auto intro!: wf_intros)

lemma game_inv_phases: "game_inv s \<Longrightarrow> st_Phase s = PhasePlaying \<or> st_Phase s = PhaseFinished"
  by (auto simp: game_inv_def)

lemma room_moved_inv:
  assumes inv: "room_inv r" and st: "rm_state r = Some s" and ph: "rm_phase r \<noteq> RoomClosed"
    and acc: "accepts (wire_state s) c = Some s'"
  shows "room_inv (room_moved r s' e)"
proof -
  have g: "room_game r s" "rm_id r \<noteq> ''''" "phase_inv r" using inv st by (auto simp: room_inv_def)
  note m = room_game_move[OF g(2,1) acc]
  have "room_game (room_moved r s' e) s'" using m(1) by (simp add: room_game_def)
  moreover have "phase_inv (room_moved r s' e)"
    using g(3) st ph game_inv_phases[OF m(3)]
    by (cases "rm_phase r") (auto simp: phase_inv_def all_connected_def some_connected_def)
  ultimately show ?thesis using inv by (simp add: room_inv_def room_moved_wf)
qed

text \<open>A refusal: the room is as it was, and the sender gets an error with the room's state.\<close>

lemma wire_idem [simp]: "wire_state (wire_state s) = wire_state s"
  by (simp add: wire_state_def)

definition refusal :: "room \<Rightarrow> response \<Rightarrow> bool" where
  "refusal r response \<longleftrightarrow>
     \<not> rs_OK response \<and> rs_Event response = None \<and>
     map_option wire_state (rs_State response) = map_option wire_state (rm_state r) \<and>
     (\<exists>e. rs_Error response = Some e \<and> ErrorCode_Valid (pe_Code e) \<and> pe_Message e \<noteq> '''')"

lemma room_rejected_refusal:
  "ErrorCode_Valid code \<Longrightarrow> message \<noteq> '''' \<Longrightarrow> refusal r (room_rejected code message (rm_state r))"
  by (cases "rm_state r") (auto simp: refusal_def room_rejected_def NewError_def Let_def)

lemma refusal_clone: "refusal r resp \<Longrightarrow> refusal r (the (room_cloneResponse (Some resp)))"
  by (cases "rs_State resp") (auto simp: refusal_def room_cloneResponse_def)

lemma room_submit_eval:
  assumes wf: "room_wf r" and seated: "seatOf r playerID = Some (player, st)"
    and ph: "rm_phase r \<noteq> RoomClosed" and s: "rm_state r = Some s" and p: "cm_Player c = player"
    and v: "Command_Validate c = None"
  shows "room_submit runner r playerID c =
          (case ApplyCommand runner (State_Clone s) c of
            Inl err \<Rightarrow> Some (r, Inl err)
          | Inr None \<Rightarrow> None
          | Inr (Some response) \<Rightarrow>
              (case (rs_OK response, rs_State response) of
                 (True, Some new) \<Rightarrow> Some (room_moved r new (rs_Event response), Inr (room_cloneResponse (Some response)))
               | (_, None) \<Rightarrow>
                   Some (r, Inr (room_cloneResponse (Some (response\<lparr>rs_State := Some (State_Clone s)\<rparr>))))
               | (_, Some _) \<Rightarrow> Some (r, Inr (room_cloneResponse (Some response)))))"
proof -
  have b: "(let s' = State_Clone new;
                   r1 = r\<lparr>rm_state := Some s'\<rparr>;
                   r2 = (if st_Phase s' = PhaseFinished then r1\<lparr>rm_phase := RoomClosed\<rparr> else r1)
               in do {
                 r3 \<leftarrow> broadcast (stateEvent r2 ev) r2;
                 r4 \<leftarrow> (if rm_phase r3 = RoomClosed
                        then broadcast (\<lambda>player. room_event EventClosed (rm_state r3) None
                               (utf8 [0x5BFE, 0x5C40, 0x304C, 0x7D42, 0x4E86, 0x3057, 0x307E,
      0x3057, 0x305F])) r3
                        else Some r3);
                 Some (r4, x)
               }) = Some (room_moved r new ev, x)" for new ev and x :: "rt_error + response option"
  proof (cases "st_Phase new = PhaseFinished")
    case True
    let ?r2 = "r\<lparr>rm_state := Some (State_Clone new), rm_phase := RoomClosed\<rparr>"
    have "room_wf ?r2" using wf by (intro wf_intros)
    then show ?thesis
      using True by (simp add: Let_def broadcast_posted posted_wf room_moved_def closed_event_def)
  next
    case False
    let ?r2 = "r\<lparr>rm_state := Some (State_Clone new)\<rparr>"
    have "room_wf ?r2" using wf by (intro wf_intros)
    then show ?thesis
      using False ph by (simp add: Let_def broadcast_posted posted_wf room_moved_def closed_event_def)
  qed
  show ?thesis
    unfolding room_submit_def seated s option.case prod.case v b
    using ph p by simp
qed

context rules_runner
begin

lemma room_submit_cases:
  assumes inv: "room_inv r"
  obtains (failed) err where "room_submit eval r playerID c = Some (r, Inl err)"
  | (refused) resp where "room_submit eval r playerID c = Some (r, Inr (Some resp))" "refusal r resp"
  | (accepted) player st s s' e where "seatOf r playerID = Some (player, st)" "rm_phase r \<noteq> RoomClosed"
      "rm_state r = Some s" "cm_Player c = player" "Command_Validate c = None"
      "accepts (wire_state s) c = Some s'" "apply_command (wire_state s) c = ok_response s' (Some e)"
      "room_submit eval r playerID c =
         Some (room_moved r s' (Some e), Inr (room_cloneResponse (Some (ok_response s' (Some e)))))"
proof -
  note wf = room_inv_wf[OF inv]
  consider (stranger) "seatOf r playerID = None" | (seated) player st where "seatOf r playerID = Some (player, st)"
    by (cases "seatOf r playerID") auto
  then show ?thesis
  proof cases
    case stranger
    then show ?thesis
      by (intro refused) (auto simp: room_submit_def intro!: room_rejected_refusal)
  next
    case seated
    show ?thesis
    proof (cases "rm_phase r = RoomClosed \<or> rm_state r = None \<or> cm_Player c \<noteq> player \<or> Command_Validate c \<noteq> None")
      case True
      have "\<exists>resp. room_submit eval r playerID c = Some (r, Inr (Some resp)) \<and> refusal r resp"
        using True seated room_rejected_refusal[of CodeGameFinished _ r] Command_Validate_code[of c]
          room_rejected_refusal[of CodeInvalidState _ r]
          room_rejected_refusal[of CodeNotYourTurn _ r] room_rejected_refusal[of _ _ r]
        by (auto simp: room_submit_def split: option.splits)
      then show ?thesis using refused by blast
    next
      case False
      then obtain s where s: "rm_state r = Some s" by auto
      have v: "State_Validate (State_Clone s) = None"
        using room_inv_state[OF inv s] server_state_valid by simp
      have f: "rm_phase r \<noteq> RoomClosed" "cm_Player c = player" "Command_Validate c = None"
        using False by auto
      note sub = room_submit_eval[OF wf seated f(1) s f(2,3), of eval, unfolded ApplyCommand_def]
      show ?thesis
      proof (cases "eval (ApplyCommandRequest (State_Clone s) c)")
        case (Inl err)
        then show ?thesis using failed sub by simp
      next
        case (Inr q)
        then obtain resp where q: "eval (ApplyCommandRequest (State_Clone s) c) = Inr (Some resp)"
          using eval_not_nil by (cases q) auto
        have resp: "resp = apply_command (wire_state s) c"
          using eval_apply[OF q v] False by simp
        show ?thesis
        proof (cases "accepts (wire_state s) c")
          case None
          then have rej: "rejection_of (wire_state s) resp"
            using resp rejection_iff accepts_None_iff by blast
          then have "refusal r resp"
            using rejection_of_fields[OF rej] s by (auto simp: refusal_def)
          moreover have "room_submit eval r playerID c = Some (r, Inr (room_cloneResponse (Some resp)))"
            using sub q rejection_of_fields[OF rej] by simp
          ultimately show ?thesis
            using refused[of "the (room_cloneResponse (Some resp))"] refusal_clone
            by (simp add: room_cloneResponse_def)
        next
          case (Some s')
          obtain e where e: "apply_command (wire_state s) c = ok_response s' (Some e)"
            using accepts_Some[OF Some] by blast
          then show ?thesis
            using accepted[OF seated _ s _ _ Some e] False sub q resp by simp
        qed
      qed
    qed
  qed
qed

end

section \<open>Joining\<close>

text \<open>A seat taken with a new channel that already holds the events \<open>evs\<close>.\<close>

definition seat_taken :: "string \<Rightarrow> string \<Rightarrow> room_event list \<Rightarrow> room \<Rightarrow> room" where
  "seat_taken player playerID evs r =
     r\<lparr>rm_seats := AList.update player
         \<lparr>se_playerID = playerID, se_events = Some (length (rm_chans r)), se_connected = True\<rparr> (rm_seats r),
       rm_chans := rm_chans r @ [\<lparr>cn_buf = evs, cn_closed = False\<rparr>]\<rparr>"

lemma seat_taken_fields [simp]:
  "rm_id (seat_taken player pid evs r) = rm_id r" "rm_seed (seat_taken player pid evs r) = rm_seed r"
  "rm_state (seat_taken player pid evs r) = rm_state r" "rm_phase (seat_taken player pid evs r) = rm_phase r"
  "rm_seats (seat_taken player pid evs r) = AList.update player
         \<lparr>se_playerID = pid, se_events = Some (length (rm_chans r)), se_connected = True\<rparr> (rm_seats r)"
  "room_game (seat_taken player pid evs r) = room_game r"
  by (simp_all add: seat_taken_def)

lemma open_in_append [simp]:
  "open_in (cs @ [c]) i \<longleftrightarrow> open_in cs i \<or> i = length cs \<and> \<not> cn_closed c"
  by (auto simp: open_in_def nth_append)

lemma open_in_less: "open_in cs i \<Longrightarrow> i < length cs"
  by (simp add: open_in_def)

text \<open>Adding a channel that no seat holds yet.\<close>

lemma room_wf_chan [wf_intros]:
  assumes "room_wf r" "length (cn_buf c) \<le> eventBuffer"
  shows "room_wf (r\<lparr>rm_chans := rm_chans r @ [c]\<rparr>)"
  using assms by (auto simp: room_wf_def list_all_iff)

lemma seat_taken_wf [wf_intros]:
  assumes wf: "room_wf r" and "Player_Valid player" and "length evs \<le> eventBuffer"
    and "\<forall>(q, t) \<in> set (rm_seats r). q \<noteq> player \<longrightarrow> se_playerID t \<noteq> pid"
  shows "room_wf (seat_taken player pid evs r)"
proof -
  have lt: "\<not> open_in (rm_chans r) (length (rm_chans r))" by (simp add: open_in_def)
  have third: "player = p \<or> player = q" if "Player_Valid p" "Player_Valid q" "p \<noteq> q" for p q
    using that assms(2) by (auto simp: Player_Valid_def)
  show ?thesis
    using wf
  proof (cases r rule: room_wf_cases)
    case none
    then show ?thesis using assms by (simp add: room_wf_def seat_taken_def gomap_wf_def)
  next
    case (one p s)
    show ?thesis
    proof (cases "player = p")
      case True
      then show ?thesis using assms one by (simp add: room_wf_def seat_taken_def gomap_wf_def)
    next
      case False
      then show ?thesis
        using assms one lt by (cases "se_events s") (auto simp: room_wf_def seat_taken_def gomap_wf_def)
    qed
  next
    case (two p s q t)
    from third[OF two(2-4)] show ?thesis
    proof
      assume "player = p"
      then show ?thesis
        using assms two lt by (cases "se_events t") (auto simp: room_wf_def seat_taken_def gomap_wf_def)
    next
      assume "player = q"
      then show ?thesis
        using assms two lt by (cases "se_events s") (auto simp: room_wf_def seat_taken_def gomap_wf_def)
    qed
  qed
qed

lemma deliver_new:
  assumes "se_connected s" "se_events s = Some (length cs)"
  shows "deliver s e (cs @ [\<lparr>cn_buf = [], cn_closed = False\<rparr>]) =
    Some (cs @ [\<lparr>cn_buf = [room_event_clone e], cn_closed = False\<rparr>])"
  using assms by (simp add: deliver_def chan_send_def eventBuffer_def Let_def)

text \<open>The first event of a reconnection, and the room it leads to.\<close>

definition state_note :: "room \<Rightarrow> string \<Rightarrow> room_event" where
  "state_note r player = room_event_clone (addressed r (room_event EventState (rm_state r) None '''') player)"

definition room_returned :: "room \<Rightarrow> string \<Rightarrow> string \<Rightarrow> room" where
  "room_returned r playerID player =
     (let r1 = seat_taken player playerID [state_note r player] r;
          r2 = (if rm_phase r1 = RoomSuspended \<and> bothConnected r1
                then r1\<lparr>rm_phase := RoomPlaying\<rparr> else r1)
      in posted (\<lambda>player s. if se_playerID s = playerID then None
             else Some (addressed r2 (room_event EventOpponentReturned (rm_state r2) None
                                        (utf8 [0x76F8, 0x624B, 0x304C, 0x518D, 0x63A5, 0x7D9A,
      0x3057, 0x307E, 0x3057, 0x305F])) player)) r2)"

lemma seatOf_others:
  assumes "room_wf r" "(player, s) \<in> set (rm_seats r)"
  shows "\<forall>(q, t) \<in> set (rm_seats r). q \<noteq> player \<longrightarrow> se_playerID t \<noteq> se_playerID s"
  by (insert assms(2), rule room_wf_cases[OF assms(1)]) auto

lemma room_wf_player: "room_wf r \<Longrightarrow> (player, s) \<in> set (rm_seats r) \<Longrightarrow> Player_Valid player"
  by (auto simp: room_wf_def list_all_iff)

lemma seat_back_wf:
  assumes "room_wf r" "seatOf r playerID = Some (player, s)" "length evs \<le> eventBuffer"
  shows "room_wf (seat_taken player playerID evs r)"
  using assms seatOf_Some[OF assms(2)] seatOf_others[OF assms(1), of player s] room_wf_player[OF assms(1)]
  by (intro seat_taken_wf) auto

lemma rejoin_eq:
  assumes wf: "room_wf r" and s: "seatOf r playerID = Some (player, s)"
  shows "rejoin r playerID player s =
    Some (room_returned r playerID player, Inr (player, length (rm_chans r), True))"
proof -
  let ?i = "length (rm_chans r)"
  let ?s = "s\<lparr>se_events := Some ?i, se_connected := True\<rparr>"
  have s': "?s = \<lparr>se_playerID = playerID, se_events = Some ?i, se_connected = True\<rparr>"
    using seatOf_Some[OF s] by (cases s) simp
  let ?r1 = "seat_taken player playerID [state_note r player] r"
  let ?r2 = "if rm_phase r = RoomSuspended \<and> bothConnected ?r1 then ?r1\<lparr>rm_phase := RoomPlaying\<rparr> else ?r1"
  have "room_wf ?r1" using wf s by (intro seat_back_wf) (auto simp: eventBuffer_def)
  then have "room_wf ?r2" by (auto intro: wf_intros)
  note n = notifyOthers_posted[OF this, of playerID EventOpponentReturned "(utf8 [0x76F8,
      0x624B, 0x304C, 0x518D, 0x63A5, 0x7D9A, 0x3057, 0x307E, 0x3057, 0x305F])"]
  have d: "deliver ?s ((room_event EventState st None '''')\<lparr>re_RoomID := rm_id r, re_Seat := player\<rparr>)
      (rm_chans r @ [\<lparr>cn_buf = [], cn_closed = False\<rparr>]) =
    Some (rm_chans r @ [\<lparr>cn_buf = [room_event_clone (addressed r (room_event EventState st None '''') player)],
                        cn_closed = False\<rparr>])" for st
    by (subst deliver_new) (simp_all add: addressed_def)
  define r0 where "r0 = r\<lparr>rm_seats := AList.update player ?s (rm_seats r),
                          rm_chans := rm_chans r @ [\<lparr>cn_buf = [], cn_closed = False\<rparr>]\<rparr>"
  define r2 where "r2 = (if rm_phase r0 = RoomSuspended \<and> bothConnected r0 then r0\<lparr>rm_phase := RoomPlaying\<rparr> else r0)"
  have r0: "bothConnected r0 = bothConnected ?r1" "rm_phase r0 = rm_phase r"
    by (simp_all add: r0_def s' bothConnected_def)
  have r2: "rm_id r2 = rm_id r" "rm_state r2 = rm_state r" "rm_seats r2 = rm_seats ?r2"
    "rm_chans r2 = rm_chans r @ [\<lparr>cn_buf = [], cn_closed = False\<rparr>]"
    "r2\<lparr>rm_chans := rm_chans r @ [\<lparr>cn_buf = [state_note r player], cn_closed = False\<rparr>]\<rparr> = ?r2"
    unfolding r2_def r0 by (simp_all add: r0_def s' seat_taken_def)
  have "rejoin r playerID player s =
    do {
        cs \<leftarrow> deliver ?s ((room_event EventState (rm_state r2) None '''')
                            \<lparr>re_RoomID := rm_id r2, re_Seat := player\<rparr>) (rm_chans r2);
        r3 \<leftarrow> notifyOthers playerID EventOpponentReturned (utf8 [0x76F8, 0x624B,
      0x304C, 0x518D, 0x63A5, 0x7D9A, 0x3057, 0x307E, 0x3057, 0x305F])
                (r2\<lparr>rm_chans := cs\<rparr>);
        Some (r3, Inr (player, ?i, True))
      }"
    unfolding rejoin_def chan_make_def Let_def prod.case r2_def r0_def by simp
  then show ?thesis
    using n by (simp add: r2 d room_returned_def Let_def flip: state_note_def cong: if_cong)
qed

lemma seat_back_connected:
  assumes inv: "room_inv r" and s: "seatOf r playerID = Some (player, s)"
    and off: "\<not> se_connected s" and ph: "rm_phase r \<noteq> RoomClosed"
  shows "rm_phase r = RoomSuspended" "bothConnected (seat_taken player playerID evs r)"
proof -
  note m = seatOf_Some[OF s]
  have p: "phase_inv r" using inv by (simp add: room_inv_def)
  have "\<not> all_connected r" using m off by (auto simp: all_connected_def list_all_iff)
  then show sus: "rm_phase r = RoomSuspended"
    using p ph by (cases "rm_phase r") (auto simp: phase_inv_def)
  then have "some_connected r" "length (rm_seats r) = 2" using p by (auto simp: phase_inv_def)
  then show "bothConnected (seat_taken player playerID evs r)"
    by - (insert m off, rule room_wf_cases[OF room_inv_wf[OF inv]],
      auto simp: bothConnected_def some_connected_def)
qed

lemma bothConnected_iff: "bothConnected r \<longleftrightarrow> length (rm_seats r) \<ge> 2 \<and> all_connected r"
  by (simp add: bothConnected_def all_connected_def)

lemma Room_Seats_back:
  assumes "room_wf r" "seatOf r playerID = Some (player, s)"
  shows "Room_Seats (seat_taken player playerID evs r) = Room_Seats r"
    "length (rm_seats (seat_taken player playerID evs r)) = length (rm_seats r)"
  by (insert seatOf_Some[OF assms(2)], (rule room_wf_cases[OF assms(1)], auto simp: Room_Seats_def)+)

lemma room_returned_inv:
  assumes inv: "room_inv r" and s: "seatOf r playerID = Some (player, s)"
    and off: "\<not> se_connected s" and ph: "rm_phase r \<noteq> RoomClosed"
  shows "room_inv (room_returned r playerID player)" "rm_phase (room_returned r playerID player) = RoomPlaying"
    "Room_Seats (room_returned r playerID player) = Room_Seats r"
    "rm_id (room_returned r playerID player) = rm_id r" "rm_state (room_returned r playerID player) = rm_state r"
    "all_connected (room_returned r playerID player)"
proof -
  let ?r1 = "seat_taken player playerID [state_note r player] r"
  note wf = room_inv_wf[OF inv]
  note c = seat_back_connected(1)[OF inv s off ph] seat_back_connected(2)[OF inv s off ph, of "[state_note r player]"]
  have wf1: "room_wf ?r1" using wf s by (intro seat_back_wf) (auto simp: eventBuffer_def)
  have both: "all_connected ?r1" "length (rm_seats ?r1) = 2"
    using c inv Room_Seats_back(2)[OF wf s] by (auto simp: bothConnected_iff room_inv_def phase_inv_def)
  have "phase_inv (?r1\<lparr>rm_phase := RoomPlaying\<rparr>)"
    using c(1) inv both by (auto simp: room_inv_def phase_inv_def)
  then have "room_inv (?r1\<lparr>rm_phase := RoomPlaying\<rparr>)"
    using wf1 inv by (auto simp: room_inv_def intro: wf_intros)
  with c both show "room_inv (room_returned r playerID player)"
    "rm_phase (room_returned r playerID player) = RoomPlaying"
    "Room_Seats (room_returned r playerID player) = Room_Seats r"
    "rm_id (room_returned r playerID player) = rm_id r" "rm_state (room_returned r playerID player) = rm_state r"
    "all_connected (room_returned r playerID player)"
    using Room_Seats_back(1)[OF wf s]
    by (simp_all add: room_returned_def Let_def posted_inv Room_Seats_def)
qed

text \<open>The rooms after a first and after a second player.\<close>

definition room_opened :: "room \<Rightarrow> string \<Rightarrow> room" where
  "room_opened r playerID =
     (seat_taken PlayerDark playerID
        [room_event_clone (addressed r (room_event EventWaiting None None '''') PlayerDark)] r)
       \<lparr>rm_phase := RoomWaiting\<rparr>"

definition room_started :: "room \<Rightarrow> string \<Rightarrow> room" where
  "room_started r playerID =
     (let r1 = (seat_taken PlayerLight playerID [] r)
                 \<lparr>rm_state := Some (State_Clone (new_game (rm_id r) (rm_seed r))), rm_phase := RoomPlaying\<rparr>
      in posted (\<lambda>player s. Some (addressed r1 (room_event EventMatched (rm_state r1) None '''') player)) r1)"

lemma room_opened_inv:
  assumes inv: "room_inv r" and e: "rm_seats r = []" and w: "rm_phase r \<noteq> RoomClosed"
  shows "room_inv (room_opened r playerID)" "rm_phase (room_opened r playerID) = RoomWaiting"
    "Room_Seats (room_opened r playerID) = [(PlayerDark, playerID)]"
    "rm_id (room_opened r playerID) = rm_id r"
    "all_connected (room_opened r playerID)"
proof -
  have "rm_state r = None" using inv e w by (auto simp: room_inv_def phase_inv_def split: room_phase.splits)
  moreover have "room_wf (room_opened r playerID)"
    unfolding room_opened_def using room_inv_wf[OF inv] e
    by (intro wf_intros) (auto simp: eventBuffer_def Player_Valid_def)
  ultimately show "room_inv (room_opened r playerID)" "rm_phase (room_opened r playerID) = RoomWaiting"
    "Room_Seats (room_opened r playerID) = [(PlayerDark, playerID)]"
    "rm_id (room_opened r playerID) = rm_id r" "all_connected (room_opened r playerID)"
    using inv e
    by (simp_all add: room_inv_def phase_inv_def room_opened_def all_connected_def Room_Seats_def)
qed

lemma room_started_inv:
  assumes inv: "room_inv r" and o: "rm_seats r = [(PlayerDark, t)]" and w: "rm_phase r = RoomWaiting"
    and free: "seatOf r playerID = None"
  shows "room_inv (room_started r playerID)" "rm_phase (room_started r playerID) = RoomPlaying"
    "Room_Seats (room_started r playerID) = [(PlayerDark, se_playerID t), (PlayerLight, playerID)]"
    "rm_id (room_started r playerID) = rm_id r" "all_connected (room_started r playerID)"
    "rm_state (room_started r playerID) = Some (State_Clone (new_game (rm_id r) (rm_seed r)))"
proof -
  let ?r1 = "seat_taken PlayerLight playerID [] r"
  have wf1: "room_wf ?r1"
    using room_inv_wf[OF inv] o free by (intro wf_intros) (auto simp: Player_Valid_def seatOf_None)
  have "all_connected r" "rm_id r \<noteq> ''''" using inv w by (auto simp: room_inv_def phase_inv_def)
  then have "phase_inv (?r1\<lparr>rm_state := Some (State_Clone (new_game (rm_id r) (rm_seed r))),
      rm_phase := RoomPlaying\<rparr>)"
    using o by (simp add: phase_inv_def all_connected_def)
  then have "room_inv (?r1\<lparr>rm_state := Some (State_Clone (new_game (rm_id r) (rm_seed r))),
      rm_phase := RoomPlaying\<rparr>)"
    using wf1 inv room_game_start[of r] by (auto simp: room_inv_def intro!: wf_intros)
  then show "room_inv (room_started r playerID)" "rm_phase (room_started r playerID) = RoomPlaying"
    "Room_Seats (room_started r playerID) = [(PlayerDark, se_playerID t), (PlayerLight, playerID)]"
    "rm_id (room_started r playerID) = rm_id r" "all_connected (room_started r playerID)"
    "rm_state (room_started r playerID) = Some (State_Clone (new_game (rm_id r) (rm_seed r)))"
    using \<open>all_connected r\<close> o
    by (simp_all add: room_started_def Let_def posted_inv all_connected_def Room_Seats_def)
qed

definition room_chan_added :: "room \<Rightarrow> room" where
  "room_chan_added r = r\<lparr>rm_chans := rm_chans r @ [\<lparr>cn_buf = [], cn_closed = False\<rparr>]\<rparr>"

lemma room_chan_added_inv:
  "room_inv r \<Longrightarrow> room_inv (room_chan_added r)"
  "Room_Seats (room_chan_added r) = Room_Seats r" "rm_phase (room_chan_added r) = rm_phase r"
  "rm_id (room_chan_added r) = rm_id r" "rm_state (room_chan_added r) = rm_state r"
  "rm_seats (room_chan_added r) = rm_seats r"
  unfolding room_chan_added_def
  by (auto simp: room_inv_def phase_inv_def Room_Seats_def intro!: wf_intros split: room_phase.split)

context rules_runner
begin

lemma room_join_first:
  assumes inv: "room_inv r" and e: "rm_seats r = []" and w: "rm_phase r \<noteq> RoomClosed"
  shows "room_join eval r playerID =
    Some (room_opened r playerID, Inr (PlayerDark, length (rm_chans r), False))"
proof -
  have s: "seatOf r playerID = None" by (simp add: seatOf_None e)
  have o: "openSeat r = Some PlayerDark" by (simp add: openSeat_def e)
  have d: "deliver \<lparr>se_playerID = playerID, se_events = Some (length (rm_chans r)), se_connected = True\<rparr> ev
      (rm_chans r @ [\<lparr>cn_buf = [], cn_closed = False\<rparr>]) =
    Some (rm_chans r @ [\<lparr>cn_buf = [room_event_clone ev], cn_closed = False\<rparr>])" for ev
    by (rule deliver_new) simp_all
  show ?thesis
    unfolding room_join_def s o option.case chan_make_def Let_def prod.case
    using w e by (simp add: d addressed_def room_opened_def seat_taken_def)
qed

lemma room_join_second:
  assumes inv: "room_inv r" and o: "rm_seats r = [(PlayerDark, t)]" and w: "rm_phase r = RoomWaiting"
    and free: "seatOf r playerID = None"
  shows "room_join eval r playerID =
    (case eval (NewGameRequest (rm_id r) (rm_seed r)) of
       Inl err \<Rightarrow> Some (room_chan_added r, Inl (JoinRuntimeError err))
     | Inr _ \<Rightarrow> Some (room_started r playerID, Inr (PlayerLight, length (rm_chans r), False)))"
proof -
  have os: "openSeat r = Some PlayerLight" by (simp add: openSeat_def o)
  have id: "rm_id r \<noteq> ''''" using inv by (simp add: room_inv_def)
  let ?r1 = "seat_taken PlayerLight playerID [] r"
  have wf1: "room_wf ?r1"
    using room_inv_wf[OF inv] o free by (intro wf_intros) (auto simp: Player_Valid_def seatOf_None)
  have j: "room_join eval r playerID = start_match eval ?r1 playerID PlayerLight (length (rm_chans r))"
    unfolding room_join_def free os option.case chan_make_def Let_def prod.case
    using w o by (simp add: seat_taken_def)
  have del: "?r1\<lparr>rm_seats := AList.delete PlayerLight (rm_seats ?r1)\<rparr> = room_chan_added r"
    using o by (simp add: seat_taken_def room_chan_added_def)
  show ?thesis
  proof (cases "eval (NewGameRequest (rm_id r) (rm_seed r))")
    case (Inl err)
    then show ?thesis unfolding j start_match_def NewGame_def using del by simp
  next
    case (Inr q)
    then obtain resp where q: "eval (NewGameRequest (rm_id r) (rm_seed r)) = Inr (Some resp)"
      using eval_not_nil by (cases q) auto
    then have resp: "resp = ok_response (new_game (rm_id r) (rm_seed r)) None"
      using eval_new id by blast
    let ?r2 = "?r1\<lparr>rm_state := Some (State_Clone (new_game (rm_id r) (rm_seed r))), rm_phase := RoomPlaying\<rparr>"
    have "room_wf ?r2" by (rule room_wf_update(1)[OF room_wf_update(2)[OF wf1]])
    then have "broadcast (\<lambda>player. room_event EventMatched (rm_state ?r2) None '''') ?r2 =
        Some (room_started r playerID)"
      by (simp add: broadcast_posted room_started_def Let_def)
    then show ?thesis
      unfolding j start_match_def NewGame_def using q resp by (simp add: Let_def)
  qed
qed

text \<open>What joining does, on each of its branches.\<close>

lemma room_join_cases:
  assumes inv: "room_inv r"
  obtains (refused) message where "room_join eval r playerID = Some (r, Inl (JoinError playerID message))"
      "rm_phase r = RoomClosed \<or> (\<exists>player s. seatOf r playerID = Some (player, s) \<and> se_connected s) \<or>
       seatOf r playerID = None \<and> length (rm_seats r) = 2"
  | (returned) player s where "seatOf r playerID = Some (player, s)" "\<not> se_connected s" "rm_phase r = RoomSuspended"
      "room_join eval r playerID =
         Some (room_returned r playerID player, Inr (player, length (rm_chans r), True))"
  | (opened) "rm_phase r = RoomWaiting" "rm_seats r = []"
      "room_join eval r playerID =
         Some (room_opened r playerID, Inr (PlayerDark, length (rm_chans r), False))"
  | (failed) t err where "rm_phase r = RoomWaiting" "rm_seats r = [(PlayerDark, t)]" "seatOf r playerID = None"
      "room_join eval r playerID = Some (room_chan_added r, Inl (JoinRuntimeError err))"
      "eval (NewGameRequest (rm_id r) (rm_seed r)) = Inl err"
  | (started) t where "rm_phase r = RoomWaiting" "rm_seats r = [(PlayerDark, t)]" "seatOf r playerID = None"
      "room_join eval r playerID =
         Some (room_started r playerID, Inr (PlayerLight, length (rm_chans r), False))"
proof (cases "rm_phase r = RoomClosed")
  case True
  then show ?thesis using refused by (simp add: room_join_def)
next
  case open_room: False
  note wf = room_inv_wf[OF inv]
  have p: "phase_inv r" using inv by (simp add: room_inv_def)
  show ?thesis
  proof (cases "seatOf r playerID")
    case (Some ps)
    then obtain player s where s: "seatOf r playerID = Some (player, s)" by fastforce
    show ?thesis
    proof (cases "se_connected s")
      case True
      then show ?thesis using refused s open_room by (simp add: room_join_def)
    next
      case False
      then show ?thesis
        using returned[OF s False seat_back_connected(1)[OF inv s False open_room]] open_room
        by (simp add: room_join_def s rejoin_eq[OF wf s])
    qed
  next
    case None
    show ?thesis
      using wf
    proof (cases r rule: room_wf_cases)
      case none
      then have "rm_phase r = RoomWaiting"
        using p open_room by (cases "rm_phase r") (auto simp: phase_inv_def)
      then show ?thesis using opened[OF _ none room_join_first[OF inv none open_room]] by simp
    next
      case (one q t)
      then have w: "rm_phase r = RoomWaiting"
        using p open_room by (cases "rm_phase r") (auto simp: phase_inv_def)
      then have d: "rm_seats r = [(PlayerDark, t)]" using p one by (simp add: phase_inv_def)
      note j = room_join_second[OF inv d w None]
      show ?thesis
      proof (cases "eval (NewGameRequest (rm_id r) (rm_seed r))")
        case (Inl err)
        then show ?thesis using failed[OF w d None _ Inl] j by simp
      next
        case (Inr x)
        then show ?thesis using started[OF w d None] j by simp
      qed
    next
      case (two q s q' t)
      have "openSeat r = None"
        using two by (auto simp: openSeat_def Player_Valid_def)
      then show ?thesis
        using refused None open_room two by (simp add: room_join_def)
    qed
  qed
qed

end

section \<open>Runs of a room\<close>

text \<open>
  The calls that reach a room, in the order in which the mutex admits them, and the receives of the
  players. Each call comes with the failures of the platform at that time.
\<close>

datatype room_op =
    DoJoin string
  | DoSubmit string command
  | DoLeave string
  | DoClose string
  | DoReceive nat

fun room_exec :: "runner \<Rightarrow> room \<Rightarrow> room_op \<Rightarrow> room option" where
  "room_exec runner r (DoJoin playerID) = map_option fst (room_join runner r playerID)"
| "room_exec runner r (DoSubmit playerID c) = map_option fst (room_submit runner r playerID c)"
| "room_exec runner r (DoLeave playerID) = map_option fst (room_leave r playerID)"
| "room_exec runner r (DoClose reason) = room_close reason r"
| "room_exec runner r (DoReceive i) = Some (r\<lparr>rm_chans := chan_recv (rm_chans r) i\<rparr>)"

fun room_run :: "room \<Rightarrow> ((request \<Rightarrow> rt_error option) \<times> room_op) list \<Rightarrow> room option" where
  "room_run r [] = Some r"
| "room_run r ((fails, x) # xs) =
     (case room_exec (engine_runner fails) r x of None \<Rightarrow> None | Some r' \<Rightarrow> room_run r' xs)"

lemma open_in_recv [simp]: "open_in (chan_recv cs j) i = open_in cs i"
  by (cases "i = j") (auto simp: open_in_def chan_recv_def)

lemma room_recv_inv: "room_inv r \<Longrightarrow> room_inv (r\<lparr>rm_chans := chan_recv (rm_chans r) i\<rparr>)"
proof -
  assume inv: "room_inv r"
  have b: "list_all (\<lambda>c. length (cn_buf c) \<le> eventBuffer) (chan_recv (rm_chans r) i)"
    using room_inv_wf[OF inv]
    by (cases "i < length (rm_chans r)")
      (auto simp: room_wf_def chan_recv_def list_all_length nth_list_update intro: diff_le_mono le_trans)
  then have "room_wf (r\<lparr>rm_chans := chan_recv (rm_chans r) i\<rparr>)"
    using room_inv_wf[OF inv] by (auto simp: room_wf_def list_all_iff)
  then show ?thesis
    using inv by (auto simp: room_inv_def phase_inv_def split: room_phase.splits)
qed

text \<open>What every call keeps: the room's identity, and a game that only moves forward.\<close>

definition room_step_ok :: "room \<Rightarrow> room \<Rightarrow> bool" where
  "room_step_ok r r' \<longleftrightarrow>
     room_inv r' \<and> rm_id r' = rm_id r \<and> rm_seed r' = rm_seed r \<and>
     (rm_phase r = RoomClosed \<longrightarrow> rm_phase r' = RoomClosed) \<and>
     (rm_state r' = rm_state r \<or>
      rm_state r = None \<and> rm_state r' = Some (State_Clone (new_game (rm_id r) (rm_seed r))) \<or>
      (\<exists>s c s'. rm_state r = Some s \<and> accepts (wire_state s) c = Some s' \<and>
         rm_state r' = Some (State_Clone s') \<and>
         map_of (Room_Seats r) (cm_Player c) \<noteq> None))"

context rules_runner
begin

lemma room_exec_ok:
  assumes inv: "room_inv r"
  shows "\<exists>r'. room_exec eval r x = Some r' \<and> room_step_ok r r'"
proof (cases x)
  case (DoJoin playerID)
  show ?thesis
    using inv
  proof (cases rule: room_join_cases[where playerID = playerID])
    case (refused message)
    then show ?thesis using DoJoin inv by (simp add: room_step_ok_def)
  next
    case (returned player s)
    note r = room_returned_inv[OF inv returned(1,2)]
    show ?thesis
      using DoJoin returned r by (simp add: room_step_ok_def) (simp add: room_returned_def Let_def)
  next
    case opened
    show ?thesis
      using DoJoin opened room_opened_inv[OF inv opened(2)] inv
      by (simp add: room_step_ok_def) (simp add: room_opened_def)
  next
    case (failed t err)
    then show ?thesis
      using DoJoin room_chan_added_inv[of r] inv
      by (simp add: room_step_ok_def) (simp add: room_chan_added_def)
  next
    case (started t)
    have "rm_state r = None" using inv started(1) by (simp add: room_inv_def phase_inv_def)
    then show ?thesis
      using DoJoin started room_started_inv[OF inv started(2,1,3)]
      by (simp add: room_step_ok_def) (simp add: room_started_def Let_def)
  qed
next
  case (DoSubmit playerID c)
  show ?thesis
    using inv
  proof (cases rule: room_submit_cases[where playerID = playerID and c = c])
    case (accepted player st s s' e)
    have "map_of (Room_Seats r) (cm_Player c) \<noteq> None"
      using seatOf_Some[OF accepted(1)] accepted(4)
      by (auto simp: Room_Seats_def map_of_eq_None_iff image_iff case_prod_beta)
        (metis fst_conv)
    then show ?thesis
      using DoSubmit accepted room_moved_inv[OF inv accepted(3,2,6)] by (auto simp: room_step_ok_def)
  qed (use DoSubmit inv in \<open>simp_all add: room_step_ok_def\<close>)
next
  case (DoLeave playerID)
  show ?thesis
    using inv
  proof (cases rule: room_leave_cases[where playerID = playerID])
    case (empty r')
    then show ?thesis using DoLeave by (simp add: room_step_ok_def)
  next
    case (remains r' player s)
    then show ?thesis using DoLeave by (simp add: room_step_ok_def)
  qed (use DoLeave inv in \<open>simp add: room_step_ok_def\<close>)
next
  case (DoClose reason)
  then show ?thesis using room_close_inv[OF inv, of reason] by (auto simp: room_step_ok_def)
next
  case (DoReceive i)
  then show ?thesis using room_recv_inv[OF inv] by (simp add: room_step_ok_def)
qed

end

lemma room_run_ok:
  "room_inv r \<Longrightarrow> \<exists>r'. room_run r xs = Some r' \<and> room_inv r' \<and> rm_id r' = rm_id r \<and> rm_seed r' = rm_seed r"
proof (induction xs arbitrary: r)
  case (Cons x xs)
  obtain fails op where x: "x = (fails, op)" by fastforce
  obtain r1 where r1: "room_exec (engine_runner fails) r op = Some r1" "room_step_ok r r1"
    using engine.room_exec_ok[OF Cons.prems] by blast
  with Cons.IH[of r1] show ?case by (auto simp: x room_step_ok_def)
qed simp

end
