(* ===== verification/Manager.thy ===== *)
theory Manager
  imports RoomLemmas
begin

text \<open>
  The assignment of players to rooms: \<open>server/internal/match/manager.go\<close>.

  The room objects that were ever made are kept in \<open>mg_objs\<close>; a \<open>*Room\<close> is an index into it, so
  that a call that still holds a pointer goes on working on a room that the map has dropped. The
  calls take the manager's mutex several times: every critical section is a function of its own
  (\<open>roomForJoin\<close>, \<open>join_record\<close>, \<open>releaseOnJoinFailure\<close>, \<open>leave_lookup\<close>, \<open>leave_cleanup\<close>), and the
  operations compose them. \<open>seedFor\<close> is the function that the manager draws seeds from.
\<close>

section \<open>Definitions (manager.go)\<close>

record membership =
  ms_RoomID :: string
  ms_PlayerID :: string
  ms_Seat :: string
  ms_Events :: nat
  ms_Reconnected :: bool

record manager =
  mg_objs :: "room list"
  mg_rooms :: "(string, nat) gomap"
  mg_players :: "(string, string) gomap"
  mg_waiting :: string
  mg_nextID :: nat

definition NewManager :: manager where
  "NewManager =
     \<lparr>mg_objs = [], mg_rooms = [], mg_players = [], mg_waiting = '''', mg_nextID = 0\<rparr>"

definition obj :: "manager \<Rightarrow> nat \<Rightarrow> room" where
  "obj m i = mg_objs m ! i"

definition set_obj :: "nat \<Rightarrow> room \<Rightarrow> manager \<Rightarrow> manager" where
  "set_obj i r m = m\<lparr>mg_objs := (mg_objs m)[i := r]\<rparr>"

definition room_name :: "nat \<Rightarrow> string" where
  "room_name n = ''room-'' @ itoa (int n)"

subsection \<open>Joining\<close>

text \<open>The last part of \<open>roomForJoin\<close>: a new room.\<close>

definition make_room :: "(string \<Rightarrow> 32 word) \<Rightarrow> manager \<Rightarrow> manager \<times> nat" where
  "make_room seedFor m =
     (let n = mg_nextID m + 1;
          roomID = room_name n;
          i = length (mg_objs m)
      in (m\<lparr>mg_nextID := n, mg_objs := mg_objs m @ [newRoom roomID (seedFor roomID)],
            mg_rooms := AList.update roomID i (mg_rooms m), mg_waiting := roomID\<rparr>, i))"

text \<open>Its middle part: the waiting room, unless it is gone or closed.\<close>

definition waiting_or_new :: "(string \<Rightarrow> 32 word) \<Rightarrow> manager \<Rightarrow> manager \<times> nat" where
  "waiting_or_new seedFor m =
     (if mg_waiting m \<noteq> '''' then
        (case map_of (mg_rooms m) (mg_waiting m) of
           Some i \<Rightarrow>
             if Room_Phase (obj m i) \<noteq> RoomClosed then (m, i)
             else make_room seedFor (m\<lparr>mg_waiting := ''''\<rparr>)
         | None \<Rightarrow> make_room seedFor (m\<lparr>mg_waiting := ''''\<rparr>))
      else make_room seedFor m)"

definition roomForJoin :: "(string \<Rightarrow> 32 word) \<Rightarrow> manager \<Rightarrow> string \<Rightarrow> manager \<times> nat" where
  "roomForJoin seedFor m playerID =
     (case map_of (mg_players m) playerID of
        Some roomID \<Rightarrow>
          (case map_of (mg_rooms m) roomID of
             Some i \<Rightarrow> (m, i)
           | None \<Rightarrow> waiting_or_new seedFor (m\<lparr>mg_players := AList.delete playerID (mg_players m)\<rparr>))
      | None \<Rightarrow> waiting_or_new seedFor m)"

definition join_record :: "manager \<Rightarrow> nat \<Rightarrow> string \<Rightarrow> manager" where
  "join_record m i playerID =
     (let id = rm_id (obj m i);
          m1 = m\<lparr>mg_players := AList.update playerID id (mg_players m)\<rparr>
      in if length (Room_Seats (obj m i)) \<ge> 2 \<and> mg_waiting m1 = id
         then m1\<lparr>mg_waiting := ''''\<rparr> else m1)"

definition releaseOnJoinFailure :: "manager \<Rightarrow> nat \<Rightarrow> manager" where
  "releaseOnJoinFailure m i =
     (let r = obj m i in
      if length (Room_Seats r) > 0 then m
      else
        let m1 = m\<lparr>mg_rooms := AList.delete (rm_id r) (mg_rooms m)\<rparr>
        in if mg_waiting m1 = rm_id r then m1\<lparr>mg_waiting := ''''\<rparr> else m1)"

definition Manager_Join ::
  "runner \<Rightarrow> (string \<Rightarrow> 32 word) \<Rightarrow> manager \<Rightarrow> string \<Rightarrow> (manager \<times> (join_error + membership)) option" where
  "Manager_Join runner seedFor m playerID =
     (if playerID = '''' then Some (m, Inl (JoinError '''' (''playerID'' @ utf8 [0x304C,
      0x5FC5, 0x8981, 0x3067, 0x3059])))
      else
        let (m1, i) = roomForJoin seedFor m playerID
        in case room_join runner (obj m1 i) playerID of
             None \<Rightarrow> None
           | Some (r, Inl err) \<Rightarrow> Some (releaseOnJoinFailure (set_obj i r m1) i, Inl err)
           | Some (r, Inr (seat, events, reconnected)) \<Rightarrow>
               Some (join_record (set_obj i r m1) i playerID,
                 Inr \<lparr>ms_RoomID = rm_id r, ms_PlayerID = playerID, ms_Seat = seat,
                      ms_Events = events, ms_Reconnected = reconnected\<rparr>))"

subsection \<open>Submitting and leaving\<close>

definition Manager_Submit ::
  "runner \<Rightarrow> manager \<Rightarrow> string \<Rightarrow> string \<Rightarrow> command \<Rightarrow> (manager \<times> (rt_error + response option)) option" where
  "Manager_Submit runner m roomID playerID command =
     (case map_of (mg_players m) playerID of
        None \<Rightarrow> Some (m,
      Inr (Some (room_rejected CodeInvalidRequest (''room'' @ utf8 [0x306B, 0x53C2, 0x52A0,
      0x3057, 0x3066, 0x3044, 0x307E, 0x305B, 0x3093]) None)))
      | Some joined \<Rightarrow>
      if joined \<noteq> roomID then
        Some (m, Inr (Some (room_rejected CodeInvalidRequest
          (utf8 [0x53C2, 0x52A0, 0x3057, 0x3066, 0x3044, 0x306A,
      0x3044] @ ''room'' @ utf8 [0x3078, 0x306E] @ ''command'' @ utf8 [0x3067, 0x3059]) None)))
      else case map_of (mg_rooms m) roomID of
        None \<Rightarrow> Some (m,
      Inr (Some (room_rejected CodeInvalidRequest (''room'' @ utf8 [0x304C, 0x5B58, 0x5728,
      0x3057, 0x307E, 0x305B, 0x3093]) None)))
      | Some i \<Rightarrow>
          (case room_submit runner (obj m i) playerID command of
             None \<Rightarrow> None
           | Some (r, result) \<Rightarrow> Some (set_obj i r m, result)))"

definition leave_lookup :: "manager \<Rightarrow> string \<Rightarrow> (string \<times> nat) option" where
  "leave_lookup m playerID =
     (case map_of (mg_players m) playerID of
        None \<Rightarrow> None
      | Some roomID \<Rightarrow>
          (case map_of (mg_rooms m) roomID of None \<Rightarrow> None | Some i \<Rightarrow> Some (roomID, i)))"

definition leave_cleanup :: "manager \<Rightarrow> string \<Rightarrow> nat \<Rightarrow> string \<Rightarrow> manager" where
  "leave_cleanup m roomID i playerID =
     (let players = fold (\<lambda>(player, seated) ps. AList.delete seated ps) (Room_Seats (obj m i)) (mg_players m);
          m1 = m\<lparr>mg_players := AList.delete playerID players, mg_rooms := AList.delete roomID (mg_rooms m)\<rparr>
      in if mg_waiting m1 = roomID then m1\<lparr>mg_waiting := ''''\<rparr> else m1)"

definition Manager_Leave :: "manager \<Rightarrow> string \<Rightarrow> (manager \<times> leave_error option) option" where
  "Manager_Leave m playerID =
     (case leave_lookup m playerID of
        None \<Rightarrow> Some (m, Some (LeaveError playerID (''room'' @ utf8 [0x306B, 0x53C2,
      0x52A0, 0x3057, 0x3066, 0x3044, 0x307E, 0x305B, 0x3093])))
      | Some (roomID, i) \<Rightarrow>
          (case room_leave (obj m i) playerID of
             None \<Rightarrow> None
           | Some (r, Inl err) \<Rightarrow> Some (set_obj i r m, Some err)
           | Some (r, Inr is_empty) \<Rightarrow>
               let m1 = set_obj i r m
               in if \<not> is_empty then Some (m1, None)
                  else Some (leave_cleanup m1 roomID i playerID, None)))"

subsection \<open>Inspection and closing\<close>

definition Manager_Room :: "manager \<Rightarrow> string \<Rightarrow> room option" where
  "Manager_Room m roomID = map_option (obj m) (map_of (mg_rooms m) roomID)"

definition RoomCount :: "manager \<Rightarrow> nat" where
  "RoomCount m = length (mg_rooms m)"

definition PlayerCount :: "manager \<Rightarrow> nat" where
  "PlayerCount m = length (mg_players m)"

fun close_rooms :: "string \<Rightarrow> nat list \<Rightarrow> manager \<Rightarrow> manager option" where
  "close_rooms reason [] m = Some m"
| "close_rooms reason (i # is) m =
     (case room_close reason (obj m i) of
        None \<Rightarrow> None
      | Some r \<Rightarrow> close_rooms reason is (set_obj i r m))"

definition close_reset :: "manager \<Rightarrow> manager \<times> nat list" where
  "close_reset m =
     (m\<lparr>mg_rooms := [], mg_players := [], mg_waiting := ''''\<rparr>, map snd (mg_rooms m))"

definition Manager_Close :: "string \<Rightarrow> manager \<Rightarrow> manager option" where
  "Manager_Close reason m =
     (let (m1, rooms) = close_reset m in close_rooms reason rooms m1)"

subsection \<open>Construction\<close>

text \<open>
  An option replaces how the seed of a room is chosen. The random numbers of \<open>rand.Uint32\<close> are a
  parameter; no two rooms have the same name, so a function of the name stands for any sequence.
\<close>

type_synonym seeding = "string \<Rightarrow> 32 word"

definition WithSeed :: "32 word \<Rightarrow> seeding \<Rightarrow> seeding" where
  "WithSeed seed seedFor = (\<lambda>roomID. seed)"

definition WithSeedFunc :: "seeding option \<Rightarrow> seeding \<Rightarrow> seeding" where
  "WithSeedFunc f seedFor = (case f of None \<Rightarrow> seedFor | Some g \<Rightarrow> g)"

definition make_manager ::
  "runner option \<Rightarrow> seeding \<Rightarrow> (seeding \<Rightarrow> seeding) list \<Rightarrow> string + (manager \<times> runner \<times> seeding)" where
  "make_manager runner random options =
     (case runner of
        None \<Rightarrow> Inl (''runner'' @ utf8 [0x304C, 0x5FC5, 0x8981, 0x3067, 0x3059])
      | Some r \<Rightarrow> Inr (NewManager, r, fold (\<lambda>option seedFor. option seedFor) options random))"

end
