(* ===== verification/GameRecord.thy ===== *)
theory GameRecord
  imports Lines Protocol
begin

text \<open>
  Game records: the data of \<open>server/internal/replay\<close> (\<open>record.go\<close>, \<open>errors.go\<close>, and the result
  types of \<open>decode.go\<close> and \<open>replay.go\<close>) and the writer of records (\<open>encode.go\<close>). A record is a text
  in the vocabulary of \<open>rules/replay/harness.nako3\<close>: it is both the stored form of a finished match
  and a program that replays it.

  A Go slice that is only ranged over (\<open>Moves\<close>, \<open>Frames\<close>, \<open>Commands\<close>) is a list; pointers are
  options; an error with a plain text (\<open>fmt.Errorf\<close>) is its text.
\<close>

section \<open>Moves (record.go)\<close>

abbreviation "RulesVersion \<equiv> ''1''"

record move =
  mv_Player :: string
  mv_Type :: string
  mv_Row :: "int option"
  mv_Col :: "int option"

definition PlaceMove :: "string \<Rightarrow> int \<Rightarrow> int \<Rightarrow> move" where
  "PlaceMove player row col =
     \<lparr>mv_Player = player, mv_Type = CommandPlace, mv_Row = Some row, mv_Col = Some col\<rparr>"

definition PassMove :: "string \<Rightarrow> move" where
  "PassMove player =
     \<lparr>mv_Player = player, mv_Type = CommandPass, mv_Row = None, mv_Col = None\<rparr>"

definition Move_Validate :: "move \<Rightarrow> perror option" where
  "Move_Validate m =
     (if \<not> Player_Valid (mv_Player m) then
        Some (NewError CodeInvalidCommand (''player'' @ utf8 [0x304C, 0x4E0D, 0x6B63, 0x3067,
      0x3059]))
      else if mv_Type m = CommandPlace then
        (case (mv_Row m, mv_Col m) of
           (Some row, Some col) \<Rightarrow>
             if \<not> InBounds row col then
               Some (NewError CodeInvalidCoordinate (utf8 [0x5EA7, 0x6A19, 0x304C, 0x76E4,
      0x5916, 0x3067, 0x3059]))
             else None
         | _ \<Rightarrow> Some (NewError CodeInvalidCommand (utf8 [0x7740, 0x624B, 0x306B,
      0x306F] @ ''row'' @ utf8 [0x3068] @ ''col'' @ utf8 [0x304C, 0x5FC5, 0x8981, 0x3067,
      0x3059])))
      else if mv_Type m = CommandPass then
        (if mv_Row m \<noteq> None \<or> mv_Col m \<noteq> None then
           Some (NewError CodeInvalidCommand (utf8 [0x30D1, 0x30B9,
      0x306F] @ ''row'' @ utf8 [0x3068] @ ''col'' @ utf8 [0x3092, 0x6301, 0x3066, 0x307E,
      0x305B, 0x3093]))
         else None)
      else Some (NewError CodeInvalidCommand ((utf8 [0x672A, 0x5BFE, 0x5FDC, 0x306E, 0x6307,
      0x3057, 0x624B, 0x3067, 0x3059] @ '': '') @ quote (mv_Type m))))"

definition Move_Command :: "move \<Rightarrow> int \<Rightarrow> command" where
  "Move_Command m turnNumber =
     (let placed = (mv_Type m = CommandPlace \<and> mv_Row m \<noteq> None \<and> mv_Col m \<noteq> None)
      in \<lparr>cm_CommandID = ''replay-'' @ itoa (turnNumber + 1), cm_Type = mv_Type m,
          cm_Player = mv_Player m, cm_ExpectedTurn = turnNumber,
          cm_Row = (if placed then mv_Row m else None),
          cm_Col = (if placed then mv_Col m else None)\<rparr>)"

definition MoveFromCommand :: "command \<Rightarrow> move" where
  "MoveFromCommand c =
     (let placed = (cm_Type c = CommandPlace \<and> cm_Row c \<noteq> None \<and> cm_Col c \<noteq> None)
      in \<lparr>mv_Player = cm_Player c, mv_Type = cm_Type c,
          mv_Row = (if placed then cm_Row c else None),
          mv_Col = (if placed then cm_Col c else None)\<rparr>)"

section \<open>Scripts and records (record.go)\<close>

record script_frame =
  sf_TurnNumber :: int
  sf_MoveNumber :: int
  sf_State :: state
  sf_Event :: "event option"

record script_failure =
  sl_MoveNumber :: int
  sl_Code :: string
  sl_Message :: string

record script =
  sc_Version :: string
  sc_GameID :: string
  sc_Seed :: "32 word"
  sc_Winner :: string
  sc_Moves :: "move list"
  sc_HeaderCount :: int
  sc_FooterCount :: int
  sc_RulesVersion :: string
  sc_VersionCount :: int
  sc_OK :: bool
  sc_Failure :: "script_failure option"
  sc_Frames :: "script_frame list"
  sc_StartedAt :: string
  sc_EndedAt :: string

definition Script_Finished :: "script \<Rightarrow> bool" where
  "Script_Finished s \<longleftrightarrow> sc_FooterCount s = 1"

record game_record =
  gr_Version :: string
  gr_RulesVersion :: string
  gr_GameID :: string
  gr_Seed :: "32 word"
  gr_StartedAt :: string
  gr_EndedAt :: string
  gr_Winner :: string
  gr_Commands :: "command list"
  gr_FinalState :: state

definition Record_Script :: "game_record \<Rightarrow> script" where
  "Record_Script r =
     \<lparr>sc_Version = Version, sc_GameID = gr_GameID r, sc_Seed = gr_Seed r, sc_Winner = gr_Winner r,
      sc_Moves = map MoveFromCommand (gr_Commands r), sc_HeaderCount = 0, sc_FooterCount = 0,
      sc_RulesVersion = RulesVersion, sc_VersionCount = 0, sc_OK = False, sc_Failure = None,
      sc_Frames = [], sc_StartedAt = gr_StartedAt r, sc_EndedAt = gr_EndedAt r\<rparr>"

record summary =
  sm_GameID :: string
  sm_Seed :: "32 word"
  sm_Winner :: string
  sm_MoveCount :: int
  sm_StartedAt :: string
  sm_EndedAt :: string

definition Record_Summary :: "game_record \<Rightarrow> summary" where
  "Record_Summary r =
     \<lparr>sm_GameID = gr_GameID r, sm_Seed = gr_Seed r, sm_Winner = gr_Winner r,
      sm_MoveCount = int (length (gr_Commands r)), sm_StartedAt = gr_StartedAt r,
      sm_EndedAt = gr_EndedAt r\<rparr>"

definition Record_Clone :: "game_record \<Rightarrow> game_record" where
  "Record_Clone r =
     r\<lparr>gr_Commands := map (\<lambda>c. c\<lparr>cm_Row := (case cm_Row c of None \<Rightarrow> None | Some row \<Rightarrow> Some row),
                                cm_Col := (case cm_Col c of None \<Rightarrow> None | Some col \<Rightarrow> Some col)\<rparr>)
                        (gr_Commands r),
       gr_FinalState := State_Clone (gr_FinalState r)\<rparr>"

section \<open>Errors (errors.go, and the errors of the script runner)\<close>

abbreviation "CodeRecordSyntaxError \<equiv> ''record_syntax_error''"
abbreviation "CodeRecordMissingHeader \<equiv> ''record_missing_header''"
abbreviation "CodeRecordIllegalMove \<equiv> ''record_illegal_move''"
abbreviation "CodeRecordMismatch \<equiv> ''record_mismatch''"
abbreviation "CodeRecordUnfinished \<equiv> ''record_unfinished''"
abbreviation "CodeRecordUnsupportedRulesVersion \<equiv> ''record_unsupported_rules_version''"

definition recordErrorCodes :: "string list" where
  "recordErrorCodes =
     [CodeRecordSyntaxError, CodeRecordMissingHeader, CodeRecordIllegalMove, CodeRecordMismatch,
      CodeRecordUnfinished, CodeRecordUnsupportedRulesVersion]"

definition RecordErrorCodes :: "string list" where
  "RecordErrorCodes = recordErrorCodes"

definition RecordErrorCode_Valid :: "string \<Rightarrow> bool" where
  "RecordErrorCode_Valid c \<longleftrightarrow> list_ex (\<lambda>known. c = known) recordErrorCodes"

datatype script_error =
    ScriptExecError int string string \<comment> \<open>ExitCode, Stderr, Stdout\<close>
  | ScriptTimeoutError int \<comment> \<open>Timeout in nanoseconds\<close>
  | ScriptCanceled
  | ScriptFileError string

text \<open>What a \<open>SourceError\<close> wraps.\<close>

datatype source_cause =
    NoCause
  | ExecCause script_error
  | JSONCause string

record source_error =
  sx_Code :: string
  sx_Line :: int
  sx_Source :: string
  sx_MoveNumber :: int
  sx_RuleCode :: string
  sx_Message :: string
  sx_Err :: source_cause

text \<open>The zero value of a \<open>SourceError\<close> literal with a code and a message.\<close>

definition source_error :: "string \<Rightarrow> string \<Rightarrow> source_error" where
  "source_error code message =
     \<lparr>sx_Code = code, sx_Line = 0, sx_Source = '''', sx_MoveNumber = 0, sx_RuleCode = '''',
      sx_Message = message, sx_Err = NoCause\<rparr>"

definition SourceError_Error :: "source_error \<Rightarrow> string" where
  "SourceError_Error e =
     (let location =
        (if sx_Line e > 0 \<and> sx_MoveNumber e > 0 then
           (utf8 [0x68CB, 0x8B5C]) @ itoa (sx_Line e) @ (utf8 [0x884C,
      0x76EE] @ ''('') @ itoa (sx_MoveNumber e) @ (utf8 [0x624B, 0x76EE] @ '')'')
         else if sx_Line e > 0 then (utf8 [0x68CB, 0x8B5C]) @ itoa (sx_Line e) @ (utf8 [0x884C,
      0x76EE])
         else if sx_MoveNumber e > 0 then (utf8 [0x68CB,
      0x8B5C]) @ itoa (sx_MoveNumber e) @ (utf8 [0x624B, 0x76EE])
         else (utf8 [0x68CB, 0x8B5C]));
          detail = (if sx_RuleCode e \<noteq> '''' then sx_Message e @ '' ('' @ sx_RuleCode e @ '')''
                    else sx_Message e)
      in if sx_Source e \<noteq> '''' then
           location @ '': '' @ detail @ '' ['' @ sx_Code e @ ''] | '' @ sx_Source e
         else location @ '': '' @ detail @ '' ['' @ sx_Code e @ '']'')"

datatype replay_error =
    SourceErr source_error
  | RunErr script_error
  | NotFound string
  | PlainErr string

definition NotFoundError_Error :: "string \<Rightarrow> string" where
  "NotFoundError_Error gameID =
     (if gameID = '''' then (utf8 [0x68CB, 0x8B5C, 0x304C] @ ''1'' @ utf8 [0x4EF6, 0x3082,
      0x4FDD, 0x5B58, 0x3055, 0x308C, 0x3066, 0x3044, 0x307E, 0x305B, 0x3093])
      else (utf8 [0x68CB, 0x8B5C, 0x304C, 0x898B, 0x3064, 0x304B, 0x308A, 0x307E, 0x305B,
      0x3093] @ '': '') @ gameID)"

section \<open>What a record was read to (decode.go, replay.go)\<close>

record move_line =
  ml_Number :: int
  ml_Line :: int
  ml_Text :: string
  ml_Annotated :: bool
  ml_Color :: int
  ml_Changed :: int

record outline =
  ol_MoveLines :: "move_line list"
  ol_StartedAt :: string
  ol_EndedAt :: string
  ol_RulesVersion :: string
  ol_RulesVersionLine :: int
  ol_RulesVersionLines :: int
  ol_HeaderLines :: int
  ol_FooterLines :: int

record frame =
  fr_TurnNumber :: int
  fr_MoveNumber :: int
  fr_Line :: int
  fr_Move :: "move option"
  fr_State :: state
  fr_Event :: "event option"

record replay_result =
  rr_Script :: script
  rr_Outline :: outline
  rr_Frames :: "frame list"

text \<open>Indexing an empty \<open>Frames\<close> would panic; \<open>ReplayWith\<close> never returns a result without frames.\<close>

definition FinalState :: "replay_result \<Rightarrow> state" where
  "FinalState r = fr_State (rr_Frames r ! (length (rr_Frames r) - 1))"

definition FrameAt :: "replay_result \<Rightarrow> int \<Rightarrow> frame option" where
  "FrameAt r moveNumber =
     (if moveNumber < 0 \<or> moveNumber \<ge> int (length (rr_Frames r)) then None
      else Some (rr_Frames r ! nat moveNumber))"

definition Result_Record :: "replay_result \<Rightarrow> game_record" where
  "Result_Record r =
     \<lparr>gr_Version = Version, gr_RulesVersion = RulesVersion, gr_GameID = sc_GameID (rr_Script r),
      gr_Seed = sc_Seed (rr_Script r), gr_StartedAt = sc_StartedAt (rr_Script r),
      gr_EndedAt = sc_EndedAt (rr_Script r), gr_Winner = sc_Winner (rr_Script r),
      gr_Commands =
        concat (map (\<lambda>f. case fr_Move f of
                           None \<Rightarrow> []
                         | Some m \<Rightarrow> [Move_Command m (fr_TurnNumber f - 1)])
                 (tl (rr_Frames r))),
      gr_FinalState = FinalState r\<rparr>"

section \<open>Writing a record (encode.go)\<close>

abbreviation "darkWord \<equiv> (utf8 [0x9ED2])"
abbreviation "lightWord \<equiv> (utf8 [0x767D])"

definition gameid_char :: "char \<Rightarrow> bool" where
  "gameid_char c \<longleftrightarrow>
     (let n = (of_char c :: nat) in
      65 \<le> n \<and> n \<le> 90 \<or> 97 \<le> n \<and> n \<le> 122 \<or> is_digit c \<or> c = CHR ''_'' \<or> c = CHR ''-'')"

text \<open>The pattern \<open>^[A-Za-z0-9_-]{1,64}$\<close>.\<close>

definition gameIDPattern :: "string \<Rightarrow> bool" where
  "gameIDPattern s \<longleftrightarrow> 1 \<le> length s \<and> length s \<le> 64 \<and> list_all gameid_char s"

definition ValidateGameID :: "string \<Rightarrow> string option" where
  "ValidateGameID gameID =
     (if \<not> gameIDPattern gameID
      then Some ((utf8 [0x5BFE, 0x5C40] @ ''ID'' @ utf8 [0x306F, 0x534A, 0x89D2, 0x82F1,
      0x6570, 0x5B57,
      0x3068] @ ''_-'' @ utf8 [0x306E] @ ''1'' @ utf8 [0x301C] @ ''64'' @ utf8 [0x6587, 0x5B57,
      0x3067, 0x3059] @ '': '') @ quote gameID) else None)"

definition RecordFileName :: "string \<Rightarrow> string + string" where
  "RecordFileName gameID =
     (case ValidateGameID gameID of Some err \<Rightarrow> Inl err | None \<Rightarrow> Inr (gameID @ ''.nako3''))"

definition playerWord :: "string \<Rightarrow> string" where
  "playerWord player = (if player = PlayerLight then lightWord else darkWord)"

definition wordPlayer :: "string \<Rightarrow> string option" where
  "wordPlayer word =
     (if word = darkWord then Some PlayerDark else if word = lightWord then Some PlayerLight
      else None)"

definition HeaderLines :: "string \<Rightarrow> string \<Rightarrow> string list" where
  "HeaderLines startedAt endedAt =
     [(''# '' @ utf8 [0x30B0, 0x30E9, 0x30C7, 0x30FC, 0x30B7, 0x30E7, 0x30F3, 0x30EA, 0x30D0,
      0x30FC, 0x30B7] @ '' '' @ utf8 [0x5BFE, 0x5C40, 0x8A18, 0x9332] @ '' v1'')] @
     (if startedAt \<noteq> '''' then [(''# '' @ utf8 [0x958B,
      0x59CB] @ '' '') @ startedAt] else []) @
     (if endedAt \<noteq> '''' then [(''# '' @ utf8 [0x7D42, 0x4E86] @ '' '') @ endedAt] else [])"

definition RulesVersionLine :: string where
  "RulesVersionLine = (utf8 [0x300C]) @ RulesVersion @ (utf8 [0x300D, 0x3067, 0x30EB, 0x30FC,
      0x30EB, 0x7248, 0x5BA3, 0x8A00])"

definition StartLine :: "string \<Rightarrow> 32 word \<Rightarrow> string + string" where
  "StartLine gameID seed =
     (case ValidateGameID gameID of
        Some err \<Rightarrow> Inl err
      | None \<Rightarrow> Inr ((utf8 [0x300C]) @ gameID @ (utf8 [0x300D,
      0x3068]) @ dec (unat seed) @ (utf8 [0x3067, 0x5BFE, 0x5C40, 0x958B, 0x59CB])))"

definition PlaceLine :: "string \<Rightarrow> int \<Rightarrow> int \<Rightarrow> 8 word \<Rightarrow> int \<Rightarrow> string + string" where
  "PlaceLine player row col placedColor changed =
     (if \<not> InBounds row col then
        Inl ((utf8 [0x5EA7, 0x6A19, 0x304C, 0x76E4, 0x5916, 0x3067,
      0x3059] @ '': ('') @ itoa row @ '','' @ itoa col @ '')'')
      else if \<not> Player_Valid player then Inl ((''player'' @ utf8 [0x304C, 0x4E0D, 0x6B63,
      0x3067, 0x3059] @ '': '') @ quote player)
      else Inr (itoa row @ (utf8 [0x3068]) @ itoa col @ (utf8 [0x3067]) @ playerWord player
                @ (utf8 [0x7740,
      0x624B] @ ''    # '' @ utf8 [0x8272]) @ dec (unat placedColor) @ (utf8 [0x3001]) @ itoa changed
                @ (utf8 [0x500B, 0x5909, 0x63DB])))"

definition PassLine :: "string \<Rightarrow> string + string" where
  "PassLine player =
     (if \<not> Player_Valid player then Inl ((''player'' @ utf8 [0x304C, 0x4E0D, 0x6B63,
      0x3067, 0x3059] @ '': '') @ quote player)
      else Inr (playerWord player @ (utf8 [0x30D1, 0x30B9])))"

definition EndLine :: "string \<Rightarrow> int \<Rightarrow> int \<Rightarrow> int \<Rightarrow> string + string" where
  "EndLine winner moveCount colorSum pieceCount =
     (if \<not> Player_Valid winner then Inl ((utf8 [0x52DD, 0x8005, 0x304C, 0x4E0D, 0x6B63,
      0x3067, 0x3059] @ '': '') @ quote winner)
      else Inr ((utf8 [0x300C]) @ playerWord winner @ (utf8 [0x300D, 0x3067, 0x5BFE, 0x5C40,
      0x7D42, 0x4E86] @ ''   # '') @ itoa moveCount
                @ (utf8 [0x624B, 0x3001, 0x8272, 0x5408,
      0x8A08]) @ itoa colorSum @ (utf8 [0x3001, 0x99D2]) @ itoa pieceCount))"

definition boardTotals :: "board \<Rightarrow> int \<times> int" where
  "boardTotals b =
     foldl (\<lambda>(colorSum, pieceCount) cell.
        case cell of
          None \<Rightarrow> (colorSum, pieceCount)
        | Some c \<Rightarrow> (colorSum + int (unat c), pieceCount + 1)) (0, 0) (elems b)"

definition encodeFrame :: "frame \<Rightarrow> move \<Rightarrow> string + string" where
  "encodeFrame f m =
     (if mv_Type m = CommandPass then PassLine (mv_Player m)
      else if mv_Type m = CommandPlace then
        (case (mv_Row m, mv_Col m) of
           (Some row, Some col) \<Rightarrow>
             let (placedColor, changed) =
               (case fr_Event f of
                  None \<Rightarrow> (0, 0)
                | Some e \<Rightarrow>
                    (case ev_PlacedColor e of None \<Rightarrow> 0 | Some c \<Rightarrow> c,
                     int (length (elems (ev_Changes e)))))
             in PlaceLine (mv_Player m) row col placedColor changed
         | _ \<Rightarrow> Inl (utf8 [0x7740, 0x624B, 0x306B, 0x5EA7, 0x6A19, 0x304C, 0x3042,
      0x308A, 0x307E, 0x305B, 0x3093]))
      else Inl ((utf8 [0x672A, 0x5BFE, 0x5FDC, 0x306E, 0x6307, 0x3057, 0x624B, 0x3067,
      0x3059] @ '': '') @ quote (mv_Type m)))"

text \<open>The loop over the frames after the first, on the text written so far.\<close>

fun encode_frames :: "frame list \<Rightarrow> string \<Rightarrow> string + string" where
  "encode_frames [] out = Inr out"
| "encode_frames (f # fs) out =
     (case fr_Move f of
        None \<Rightarrow> encode_frames fs out
      | Some m \<Rightarrow>
          (case encodeFrame f m of
             Inl err \<Rightarrow>
               Inl (itoa (fr_MoveNumber f) @ (utf8 [0x624B, 0x76EE, 0x3092, 0x66F8, 0x304D,
      0x51FA, 0x305B, 0x307E, 0x305B, 0x3093] @ '': '') @ err)
           | Inr line \<Rightarrow> encode_frames fs (out @ line @ [nl])))"

definition EncodeResult :: "replay_result option \<Rightarrow> string + string" where
  "EncodeResult r =
     (case r of
        None \<Rightarrow> Inl (utf8 [0x518D, 0x751F, 0x7D50, 0x679C, 0x304C, 0x3042, 0x308A,
      0x307E, 0x305B, 0x3093])
      | Some result \<Rightarrow>
      if length (rr_Frames result) = 0 then Inl (utf8 [0x518D, 0x751F, 0x7D50, 0x679C, 0x304C,
      0x3042, 0x308A, 0x307E, 0x305B, 0x3093])
      else
      let script = rr_Script result in
      (case ValidateGameID (sc_GameID script) of
        Some err \<Rightarrow> Inl err
      | None \<Rightarrow>
      let out = unlines (HeaderLines (sc_StartedAt script) (sc_EndedAt script)) @ [nl]
                  @ RulesVersionLine @ [nl]
      in
      (case StartLine (sc_GameID script) (sc_Seed script) of
        Inl err \<Rightarrow> Inl err
      | Inr startLine \<Rightarrow>
      (case encode_frames (tl (rr_Frames result)) (out @ startLine @ [nl, nl]) of
        Inl err \<Rightarrow> Inl err
      | Inr out \<Rightarrow>
          let final = FinalState result in
          if st_Phase final \<noteq> PhaseFinished then Inr out
          else
          (case st_Winner final of
            None \<Rightarrow> Inl (utf8 [0x7D42, 0x5C40, 0x3057, 0x3066, 0x3044, 0x308B,
      0x306E, 0x306B, 0x52DD, 0x8005, 0x304C, 0x3042, 0x308A, 0x307E, 0x305B, 0x3093])
          | Some winner \<Rightarrow>
              let (colorSum, pieceCount) = boardTotals (st_Board final) in
              (case EndLine winner (int (length (rr_Frames result)) - 1) colorSum pieceCount of
                Inl err \<Rightarrow> Inl err
              | Inr endLine \<Rightarrow> Inr (out @ [nl] @ endLine @ [nl])))))))"

end
