(* ===== verification/Scan.thy ===== *)
theory Scan
  imports GameRecord Runtime
begin

text \<open>
  Reading a record: \<open>server/internal/replay/decode.go\<close> and \<open>script_runner.go\<close>. A record is not
  parsed but run: \<open>Scan\<close> first admits only lines of the vocabulary, then the harness, the record and
  one call are run together by gonako and the JSON it prints is decoded. The process, the file
  system and \<open>json.Unmarshal\<close> are parameters.
\<close>

section \<open>The line patterns\<close>

text \<open>Each returns the groups that the code uses.\<close>

definition colourWord :: "string \<Rightarrow> (string \<times> string) option" where
  "colourWord s =
     (case lit darkWord s of
        Some r \<Rightarrow> Some (darkWord, r)
      | None \<Rightarrow> map_option (\<lambda>r. (lightWord, r)) (lit lightWord s))"

definition rulesVersionLinePattern :: "string \<Rightarrow> string option" where
  "rulesVersionLinePattern s =
     do {
       s \<leftarrow> lit (utf8 [0x300C]) s;
       let (version, s) = break_at (utf8 [0x300D]) s;
       s \<leftarrow> lit (utf8 [0x300D, 0x3067, 0x30EB, 0x30FC, 0x30EB, 0x7248, 0x5BA3,
      0x8A00]) s;
       _ \<leftarrow> comment_tail s;
       Some version
     }"

definition startLinePattern :: "string \<Rightarrow> (string \<times> string) option" where
  "startLinePattern s =
     do {
       s \<leftarrow> lit (utf8 [0x300C]) s;
       let (gameID, s) = break_at (utf8 [0x300D]) s;
       s \<leftarrow> lit (utf8 [0x300D, 0x3068]) s;
       (seed, s) \<leftarrow> digits s;
       s \<leftarrow> lit (utf8 [0x3067, 0x5BFE, 0x5C40, 0x958B, 0x59CB]) s;
       _ \<leftarrow> comment_tail s;
       Some (gameID, seed)
     }"

definition coordinate :: "string \<Rightarrow> (char \<times> string) option" where
  "coordinate s =
     (case s of
        [] \<Rightarrow> None
      | c # r \<Rightarrow> if 48 \<le> (of_char c :: nat) \<and> (of_char c :: nat) \<le> 55 then Some (c, r) else None)"

definition placeLinePattern :: "string \<Rightarrow> (char \<times> char \<times> string \<times> string) option" where
  "placeLinePattern s =
     do {
       (row, s) \<leftarrow> coordinate s;
       s \<leftarrow> lit (utf8 [0x3068]) s;
       (col, s) \<leftarrow> coordinate s;
       s \<leftarrow> lit (utf8 [0x3067]) s;
       (word, s) \<leftarrow> colourWord s;
       s \<leftarrow> lit (utf8 [0x7740, 0x624B]) s;
       comment \<leftarrow> comment_tail s;
       Some (row, col, word, comment)
     }"

definition passLinePattern :: "string \<Rightarrow> string option" where
  "passLinePattern s =
     do {
       (word, s) \<leftarrow> colourWord s;
       s \<leftarrow> lit (utf8 [0x30D1, 0x30B9]) s;
       _ \<leftarrow> comment_tail s;
       Some word
     }"

definition endLinePattern :: "string \<Rightarrow> string option" where
  "endLinePattern s =
     do {
       s \<leftarrow> lit (utf8 [0x300C]) s;
       (word, s) \<leftarrow> colourWord s;
       s \<leftarrow> lit (utf8 [0x300D, 0x3067, 0x5BFE, 0x5C40, 0x7D42, 0x4E86]) s;
       _ \<leftarrow> comment_tail s;
       Some word
     }"

definition commentPattern :: "string \<Rightarrow> string option" where
  "commentPattern s =
     (case lit ''#'' s of None \<Rightarrow> None | Some r \<Rightarrow> if nl \<in> set r then None else Some r)"

text \<open>Unanchored: the leftmost position at which the rest of the pattern matches.\<close>

fun leftmost :: "(string \<Rightarrow> 'a option) \<Rightarrow> string \<Rightarrow> 'a option" where
  "leftmost f [] = f []"
| "leftmost f (c # cs) = (case f (c # cs) of Some x \<Rightarrow> Some x | None \<Rightarrow> leftmost f cs)"

definition placeAnnotationHere :: "string \<Rightarrow> (string \<times> string) option" where
  "placeAnnotationHere s =
     do {
       s \<leftarrow> lit (utf8 [0x8272]) s;
       (color, s) \<leftarrow> digits s;
       s \<leftarrow> lit (utf8 [0x3001]) s;
       (changed, s) \<leftarrow> digits s;
       _ \<leftarrow> lit (utf8 [0x500B, 0x5909, 0x63DB]) s;
       Some (color, changed)
     }"

definition placeAnnotationPattern :: "string \<Rightarrow> (string \<times> string) option" where
  "placeAnnotationPattern s = leftmost placeAnnotationHere s"

definition stampPattern :: "string \<Rightarrow> string \<Rightarrow> string option" where
  "stampPattern word s =
     do {
       s \<leftarrow> lit word (dropWhile is_ws s);
       let s' = dropWhile is_ws s;
       let stamp = takeWhile (\<lambda>c. \<not> is_ws c) s';
       if s' = s \<or> stamp = '''' then None else Some stamp
     }"

definition startedAtPattern :: "string \<Rightarrow> string option" where
  "startedAtPattern s = stampPattern (utf8 [0x958B, 0x59CB]) s"

definition endedAtPattern :: "string \<Rightarrow> string option" where
  "endedAtPattern s = stampPattern (utf8 [0x7D42, 0x4E86]) s"

text \<open>\<open>strconv.Atoi\<close> on a string of digits: out of the range of a 64-bit integer it fails.\<close>

definition atoi_digits :: "string \<Rightarrow> int option" where
  "atoi_digits s = (if num s < 2 ^ 63 then Some (int (num s)) else None)"

section \<open>Scan\<close>

definition empty_outline :: outline where
  "empty_outline =
     \<lparr>ol_MoveLines = [], ol_StartedAt = '''', ol_EndedAt = '''', ol_RulesVersion = '''',
      ol_RulesVersionLine = 0, ol_RulesVersionLines = 0, ol_HeaderLines = 0, ol_FooterLines = 0\<rparr>"

definition read_comment :: "string \<Rightarrow> outline \<Rightarrow> outline" where
  "read_comment text ol =
     (let ol1 = (case startedAtPattern text of
                   Some found \<Rightarrow>
                     if ol_StartedAt ol = '''' then ol\<lparr>ol_StartedAt := found\<rparr> else ol
                 | None \<Rightarrow> ol)
      in (case endedAtPattern text of
            Some found \<Rightarrow>
              if ol_EndedAt ol1 = '''' then ol1\<lparr>ol_EndedAt := found\<rparr> else ol1
          | None \<Rightarrow> ol1))"

definition annotate :: "string \<Rightarrow> move_line \<Rightarrow> move_line" where
  "annotate comment ml =
     (case placeAnnotationPattern comment of
        None \<Rightarrow> ml
      | Some (color, changed) \<Rightarrow>
          (case (atoi_digits color, atoi_digits changed) of
             (Some color, Some changed) \<Rightarrow>
               ml\<lparr>ml_Annotated := True, ml_Color := color, ml_Changed := changed\<rparr>
           | _ \<Rightarrow> ml))"

definition scan_line :: "int \<Rightarrow> string \<Rightarrow> outline \<Rightarrow> source_error + outline" where
  "scan_line lineNumber raw ol =
     (let text = TrimSpace raw;
          moveLine = \<lparr>ml_Number = int (length (ol_MoveLines ol)) + 1, ml_Line = lineNumber,
                      ml_Text = text, ml_Annotated = False, ml_Color = 0, ml_Changed = 0\<rparr>
      in
      if text = '''' then Inr ol
      else case commentPattern text of
        Some comment \<Rightarrow> Inr (read_comment comment ol)
      | None \<Rightarrow>
      (case rulesVersionLinePattern text of
        Some version \<Rightarrow>
          let ol1 = ol\<lparr>ol_RulesVersionLines := ol_RulesVersionLines ol + 1\<rparr>
          in Inr (if ol_RulesVersionLine ol1 = 0
                  then ol1\<lparr>ol_RulesVersionLine := lineNumber, ol_RulesVersion := version\<rparr>
                  else ol1)
      | None \<Rightarrow>
      if startLinePattern text \<noteq> None then
        Inr (ol\<lparr>ol_HeaderLines := ol_HeaderLines ol + 1\<rparr>)
      else if endLinePattern text \<noteq> None then
        Inr (ol\<lparr>ol_FooterLines := ol_FooterLines ol + 1\<rparr>)
      else if passLinePattern text \<noteq> None then
        Inr (ol\<lparr>ol_MoveLines := ol_MoveLines ol @ [moveLine]\<rparr>)
      else case placeLinePattern text of
        None \<Rightarrow>
          Inl ((source_error CodeRecordSyntaxError (utf8 [0x68CB, 0x8B5C, 0x306E, 0x6587,
      0x6CD5, 0x306B, 0x5408, 0x308F, 0x306A, 0x3044, 0x884C, 0x3067, 0x3059]))
                 \<lparr>sx_Line := lineNumber, sx_Source := text\<rparr>)
      | Some (row, col, word, comment) \<Rightarrow>
          Inr (ol\<lparr>ol_MoveLines := ol_MoveLines ol @ [annotate comment moveLine]\<rparr>)))"

fun scan_lines :: "int \<Rightarrow> string list \<Rightarrow> outline \<Rightarrow> source_error + outline" where
  "scan_lines n [] ol = Inr ol"
| "scan_lines n (raw # raws) ol =
     (case scan_line n raw ol of Inl err \<Rightarrow> Inl err | Inr ol' \<Rightarrow> scan_lines (n + 1) raws ol')"

definition Scan :: "string \<Rightarrow> source_error + outline" where
  "Scan source = scan_lines 1 (split_on nl source) empty_outline"

section \<open>The script runner (script\<open>_\<close>runner.go)\<close>

definition DefaultScriptTimeout :: int where "DefaultScriptTimeout = 10 * 1000000000"

definition scriptStderrLimit :: nat where "scriptStderrLimit = 8 * 1024"

definition truncate_script :: "string \<Rightarrow> nat \<Rightarrow> string" where
  "truncate_script value limit =
     (let value = TrimSpace value in
      if length value \<le> limit then value else take limit value @ utf8 [0x2026])"

record script_runner =
  sr_gonakoPath :: string
  sr_timeout :: int

definition NewGonakoScriptRunner ::
  "(string \<Rightarrow> bool option) \<Rightarrow> (int \<Rightarrow> string) \<Rightarrow> string \<Rightarrow> int \<Rightarrow> string + script_runner" where
  "NewGonakoScriptRunner stat show_duration gonakoPath timeout =
     (if gonakoPath = '''' then Inl (''gonako'' @ utf8 [0x5B9F, 0x884C, 0x30D5, 0x30A1, 0x30A4,
      0x30EB, 0x306E, 0x30D1, 0x30B9, 0x304C, 0x5FC5, 0x8981, 0x3067, 0x3059])
      else if timeout < 0 then
        Inl ((''timeout'' @ utf8 [0x306F] @ ''0'' @ utf8 [0x4EE5, 0x4E0A, 0x3067, 0x3042,
      0x308B, 0x5FC5, 0x8981, 0x304C, 0x3042, 0x308A, 0x307E,
      0x3059] @ '': '') @ show_duration timeout)
      else case stat gonakoPath of
        None \<Rightarrow> Inl ((''gonako'' @ utf8 [0x5B9F, 0x884C, 0x30D5, 0x30A1, 0x30A4,
      0x30EB, 0x304C, 0x898B, 0x3064, 0x304B, 0x308A, 0x307E, 0x305B,
      0x3093] @ '': '') @ gonakoPath)
      | Some True \<Rightarrow> Inl ((''gonako'' @ utf8 [0x5B9F, 0x884C, 0x30D5, 0x30A1,
      0x30A4, 0x30EB, 0x304C, 0x30C7, 0x30A3, 0x30EC, 0x30AF, 0x30C8, 0x30EA, 0x3067,
      0x3059] @ '': '') @ gonakoPath)
      | Some False \<Rightarrow>
          Inr \<lparr>sr_gonakoPath = gonakoPath,
               sr_timeout = (if timeout = 0 then DefaultScriptTimeout else timeout)\<rparr>)"

text \<open>
  One run: \<open>prepare\<close> is the temporary file (an error of the file system, or nothing), \<open>cmd\<close> what
  the process and the context leave behind for the source in it. The directory is removed on every
  path, so it leaves no trace in the model.
\<close>

definition script_Run ::
  "script_runner \<Rightarrow> (string \<Rightarrow> string option) \<Rightarrow> (string \<Rightarrow> process_result) \<Rightarrow> string \<Rightarrow>
   script_error + string" where
  "script_Run g prepare cmd source =
     (case prepare source of
        Some err \<Rightarrow> Inl (ScriptFileError err)
      | None \<Rightarrow>
      let r = cmd source; stderrText = truncate_script (pr_Stderr r) scriptStderrLimit in
      if pr_CtxErr r = Some DeadlineExceeded then Inl (ScriptTimeoutError (sr_timeout g))
      else if pr_CtxErr r = Some Canceled then Inl ScriptCanceled
      else case pr_RunErr r of
        Some err \<Rightarrow>
          Inl (ScriptExecError (case err of ExitError code \<Rightarrow> code | StartError _ \<Rightarrow> -1)
                 stderrText (truncate_script (pr_Stdout r) scriptStderrLimit))
      | None \<Rightarrow> Inr (pr_Stdout r))"

section \<open>Loading the harness\<close>

definition outputCall :: string where "outputCall = (utf8 [0x5BFE, 0x5C40, 0x30C7, 0x30FC,
      0x30BF, 0x51FA, 0x529B])"

text \<open>
  \<open>harnessImportPattern\<close>: \<open>^\<close> and \<open>$\<close> are the ends of a line. \<open>import_here\<close> is a match at the
  start of a line: the path and the rest of the text. \<open>import_split\<close> cuts the text into the pieces
  between the matches and the paths.
\<close>

definition import_here :: "string \<Rightarrow> (string \<times> string) option" where
  "import_here s =
     do {
       s \<leftarrow> lit (''!'' @ utf8 [0x300C]) s;
       let (path, s) = break_at (utf8 [0x300D]) s;
       s \<leftarrow> lit (utf8 [0x300D, 0x3092, 0x53D6, 0x308A, 0x8FBC, 0x3080]) s;
       let s = dropWhile (\<lambda>c. c = CHR 0x20 \<or> c = CHR 0x09) s;
       if path = '''' \<or> \<not> (s = [] \<or> hd s = nl) then None else Some (path, s)
     }"

lemma break_at_parts: "break_at p s = (a, b) \<Longrightarrow> s = a @ b"
  by (induction p s arbitrary: a rule: break_at.induct) (auto split: if_splits prod.splits)

lemma import_here_shorter: "import_here s = Some (path, r) \<Longrightarrow> length r < length s"
proof -
  assume "import_here s = Some (path, r)"
  then obtain s1 p s2 s3 where
    "s = (''!'' @ utf8 [0x300C]) @ s1" "break_at (utf8 [0x300D]) s1 = (p,
      s2)" "s2 = (utf8 [0x300D, 0x3092, 0x53D6, 0x308A, 0x8FBC, 0x3080]) @ s3"
    "r = dropWhile (\<lambda>c. c = CHR 0x20 \<or> c = CHR 0x09) s3"
    by (auto simp: import_here_def Let_def lit_Some split: bind_splits prod.splits if_splits)
  moreover from this have "s1 = p @ s2" by (simp add: break_at_parts)
  moreover have "length (dropWhile (\<lambda>c. c = CHR 0x20 \<or> c = CHR 0x09) s3) \<le> length s3"
    by (rule length_dropWhile_le)
  ultimately show ?thesis by simp
qed

function import_split :: "bool \<Rightarrow> string \<Rightarrow> string \<times> (string \<times> string) list" where
  "import_split bol s =
     (case (if bol then import_here s else None) of
        Some (path, r) \<Rightarrow> let (t, ms) = import_split False r in ([], (path, t) # ms)
      | None \<Rightarrow>
          (case s of
             [] \<Rightarrow> ([], [])
           | c # cs \<Rightarrow> let (t, ms) = import_split (c = nl) cs in (c # t, ms)))"
  by pat_completeness auto
termination
  by (relation "measure (\<lambda>(bol, s). length s)") (auto dest: import_here_shorter split: if_splits)

declare import_split.simps [simp del]

text \<open>
  \<open>ReplaceAllString\<close> expands \<open>$name\<close>, \<open>${name}\<close> and \<open>$$\<close> in its replacement (\<open>regexp.Expand\<close>);
  group 0 is the whole match, group 1 the path, any other name is empty. Exact for names of ASCII
  letters, digits and underscores.
\<close>

definition word_char :: "char \<Rightarrow> bool" where
  "word_char c \<longleftrightarrow> gameid_char c \<and> c \<noteq> CHR ''-''"

definition group_text :: "string \<Rightarrow> string \<Rightarrow> string \<Rightarrow> string" where
  "group_text name whole path =
     (if name = ''0'' then whole else if name = ''1'' then path else '''')"

function expand :: "string \<Rightarrow> string \<Rightarrow> string \<Rightarrow> string" where
  "expand whole path [] = []"
| "expand whole path (c # cs) =
     (if c \<noteq> CHR ''$'' then c # expand whole path cs
      else if cs \<noteq> [] \<and> hd cs = CHR ''$'' then CHR ''$'' # expand whole path (tl cs)
      else if cs \<noteq> [] \<and> hd cs = CHR ''{'' then
        (let name = takeWhile word_char (tl cs); rest = drop (length name) (tl cs) in
         if name \<noteq> [] \<and> rest \<noteq> [] \<and> hd rest = CHR ''}''
         then group_text name whole path @ expand whole path (tl rest)
         else CHR ''$'' # expand whole path cs)
      else
        (let name = takeWhile word_char cs in
         if name \<noteq> [] then group_text name whole path @ expand whole path (drop (length name) cs)
         else CHR ''$'' # expand whole path cs))"
  by pat_completeness auto
termination
  by (relation "measure (\<lambda>(w, p, s). length s)") (auto simp: Let_def)

definition contains :: "string \<Rightarrow> string \<Rightarrow> bool" where
  "contains p s \<longleftrightarrow> leftmost (\<lambda>r. if starts_with p r then Some () else None) s \<noteq> None"

text \<open>
  The file system: \<open>readFile\<close> (an error text or the contents), \<open>absDir\<close> for
  \<open>filepath.Abs(filepath.Dir path)\<close>, \<open>isAbs\<close>, \<open>join\<close> and \<open>exists\<close> (\<open>os.Stat\<close> without error).
\<close>

definition LoadHarness ::
  "(string \<Rightarrow> string + string) \<Rightarrow> (string \<Rightarrow> string + string) \<Rightarrow> (string \<Rightarrow> bool) \<Rightarrow>
   (string \<Rightarrow> string \<Rightarrow> string) \<Rightarrow> (string \<Rightarrow> bool) \<Rightarrow> string \<Rightarrow> string + string" where
  "LoadHarness readFile absDir isAbs join exists path =
     (case readFile path of
        Inl err \<Rightarrow> Inl ((utf8 [0x518D, 0x751F, 0x30CF, 0x30FC, 0x30CD, 0x30B9,
      0x3092, 0x8AAD, 0x3081, 0x307E, 0x305B, 0x3093] @ '': '') @ err)
      | Inr source \<Rightarrow>
      if \<not> contains ((utf8 [0x25CF]) @ outputCall @ (utf8 [0x3068, 0x306F])) source then
        Inl ((utf8 [0x518D, 0x751F, 0x30CF, 0x30FC, 0x30CD, 0x30B9,
      0x306B]) @ outputCall @ (utf8 [0x304C, 0x3042, 0x308A, 0x307E, 0x305B,
      0x3093] @ '': '') @ path)
      else case absDir path of
        Inl err \<Rightarrow> Inl ((utf8 [0x518D, 0x751F, 0x30CF, 0x30FC, 0x30CD, 0x30B9,
      0x306E, 0x4F4D, 0x7F6E, 0x3092, 0x89E3, 0x6C7A, 0x3067, 0x304D, 0x307E, 0x305B,
      0x3093] @ '': '') @ err)
      | Inr baseDir \<Rightarrow>
      (case import_split True source of
        (before, [(found, after)]) \<Rightarrow>
          let target = (if isAbs found then found else join baseDir found) in
          if \<not> exists target then Inl ((utf8 [0x30EB, 0x30FC, 0x30EB, 0x672C, 0x4F53,
      0x304C, 0x898B, 0x3064, 0x304B, 0x308A, 0x307E, 0x305B, 0x3093] @ '': '') @ target)
          else if contains (utf8 [0x300C]) target \<or> contains (utf8 [0x300D]) target \<or> nl \<in> set target then
            Inl ((utf8 [0x30EB, 0x30FC, 0x30EB, 0x672C, 0x4F53, 0x306E, 0x30D1, 0x30B9, 0x306B,
      0x4F7F, 0x3048, 0x306A, 0x3044, 0x6587, 0x5B57, 0x304C, 0x3042, 0x308A, 0x307E,
      0x3059] @ '': '') @ target)
          else
            let rest = length source - length before - length after;
                whole = take rest (drop (length before) source)
            in Inr (before @ expand whole found ((''!'' @ utf8 [0x300C]) @ target @ (utf8 [0x300D, 0x3092, 0x53D6, 0x308A, 0x8FBC, 0x3080])) @ after)
      | (_, matches) \<Rightarrow>
          Inl ((utf8 [0x518D, 0x751F, 0x30CF, 0x30FC, 0x30CD, 0x30B9, 0x306E, 0x53D6, 0x308A,
      0x8FBC, 0x307F, 0x884C, 0x306F, 0x3061, 0x3087, 0x3046, 0x3069] @ ''1'' @ utf8 [0x884C,
      0x5FC5, 0x8981, 0x3067, 0x3059] @ '': '')
               @ itoa (int (length matches)) @ (utf8 [0x884C]))))"

section \<open>Decoding\<close>

text \<open>\<open>NewDecoder\<close>: the runner is given or nil.\<close>

type_synonym script_run = "string \<Rightarrow> script_error + string"

definition NewDecoder :: "string \<Rightarrow> script_run option \<Rightarrow> string + string \<times> script_run" where
  "NewDecoder harness runner =
     (if TrimSpace harness = '''' then Inl (utf8 [0x518D, 0x751F, 0x30CF, 0x30FC, 0x30CD,
      0x30B9, 0x306E, 0x30BD, 0x30FC, 0x30B9, 0x304C, 0x5FC5, 0x8981, 0x3067, 0x3059])
      else case runner of
        None \<Rightarrow> Inl (''script runner'' @ utf8 [0x304C, 0x5FC5, 0x8981, 0x3067, 0x3059])
      | Some r \<Rightarrow> Inr (harness, r))"

definition lineAt :: "string \<Rightarrow> int \<Rightarrow> string" where
  "lineAt source line =
     (if line < 1 then ''''
      else
        let lines = split_on nl source in
        if line > int (length lines) then '''' else TrimSpace (lines ! nat (line - 1)))"

definition startLineNumber :: "string \<Rightarrow> int" where
  "startLineNumber source =
     (case find (\<lambda>(index, raw). startLinePattern (TrimSpace raw) \<noteq> None)
             (enumerate 0 (split_on nl source)) of
        None \<Rightarrow> 0
      | Some (index, raw) \<Rightarrow> int index + 1)"

text \<open>The pattern of a diagnostic: the bracketed word, the line number and the message.\<close>

definition gonakoErrorHere :: "string \<Rightarrow> (string \<times> string \<times> string) option" where
  "gonakoErrorHere s =
     do {
       s \<leftarrow> lit ''['' s;
       let word = takeWhile (\<lambda>c. c \<noteq> CHR '']'') s;
       s \<leftarrow> lit '']'' (drop (length word) s);
       s \<leftarrow> lit ''('' (dropWhile (\<lambda>c. c \<noteq> CHR ''('') s);
       (line, s) \<leftarrow> digits s;
       s \<leftarrow> lit (utf8 [0x884C, 0x76EE] @ '')'') s;
       let s = dropWhile is_ws s;
       s \<leftarrow> (case lit '':'' s of Some r \<Rightarrow> Some r | None \<Rightarrow> lit (utf8 [0xFF1A]) s);
       let s = dropWhile is_ws s;
       if word = '''' then None else Some (word, line, takeWhile (\<lambda>c. c \<noteq> nl) s)
     }"

definition gonakoErrorPattern :: "string \<Rightarrow> (string \<times> string \<times> string) option" where
  "gonakoErrorPattern s = leftmost gonakoErrorHere s"

definition newlines :: "string \<Rightarrow> int" where
  "newlines s = int (length (filter (\<lambda>c. c = nl) s))"

definition locateFailure :: "string \<Rightarrow> string \<Rightarrow> string \<Rightarrow> int \<times> string" where
  "locateFailure harness diagnostic source =
     (case gonakoErrorPattern diagnostic of
        None \<Rightarrow> (0, (utf8 [0x68CB, 0x8B5C, 0x3092, 0x5B9F, 0x884C, 0x3067, 0x304D,
      0x307E, 0x305B, 0x3093]))
      | Some (word, line, text) \<Rightarrow>
      (case atoi_digits line of
        None \<Rightarrow> (0, (utf8 [0x68CB, 0x8B5C, 0x3092, 0x5B9F, 0x884C, 0x3067, 0x304D,
      0x307E, 0x305B, 0x3093]))
      | Some combinedLine \<Rightarrow>
          let message = (if TrimSpace text = '''' then TrimSpace word else TrimSpace text);
              offset = newlines harness + 1;
              recordLine = combinedLine - offset
          in if recordLine < 1 \<or> recordLine > newlines source + 1 then (0, message)
             else (recordLine, message)))"

definition combine :: "string \<Rightarrow> string \<Rightarrow> string" where
  "combine harness source = harness @ [nl] @ source @ [nl] @ outputCall @ [nl]"

text \<open>The last check: every move has the shape of a command, the first that has not is located.\<close>

definition check_moves :: "string \<Rightarrow> outline \<Rightarrow> move list \<Rightarrow> source_error option" where
  "check_moves source ol moves =
     (case find (\<lambda>(index, m). Move_Validate m \<noteq> None) (enumerate 0 moves) of
        None \<Rightarrow> None
      | Some (index, m) \<Rightarrow>
          (case Move_Validate m of
             None \<Rightarrow> None
           | Some protocolErr \<Rightarrow>
               let line = (if index < length (ol_MoveLines ol)
                           then ml_Line (ol_MoveLines ol ! index) else 0)
               in Some ((source_error CodeRecordSyntaxError (pe_Message protocolErr))
                    \<lparr>sx_Line := line, sx_Source := lineAt source line,
                     sx_MoveNumber := int index + 1, sx_RuleCode := pe_Code protocolErr\<rparr>)))"

definition Decode ::
  "string \<Rightarrow> script_run \<Rightarrow> (string \<Rightarrow> string + script) \<Rightarrow> string \<Rightarrow>
   replay_error + script \<times> outline" where
  "Decode harness runner unmarshal source =
     (case Scan source of
        Inl err \<Rightarrow> Inl (SourceErr err)
      | Inr ol \<Rightarrow>
      if ol_HeaderLines ol \<noteq> 1 then
        Inl (SourceErr (source_error CodeRecordMissingHeader
          ((utf8 [0x958B, 0x59CB, 0x884C, 0x306F, 0x3061, 0x3087, 0x3046,
      0x3069] @ ''1'' @ utf8 [0x56DE, 0x5FC5, 0x8981, 0x3067,
      0x3059] @ '': '') @ itoa (ol_HeaderLines ol) @ (utf8 [0x56DE]))))
      else if ol_FooterLines ol > 1 then
        Inl (SourceErr (source_error CodeRecordSyntaxError
          ((utf8 [0x7D42, 0x4E86, 0x884C, 0x304C] @ ''2'' @ utf8 [0x56DE, 0x4EE5, 0x4E0A,
      0x3042, 0x308A, 0x307E, 0x3059] @ '': '') @ itoa (ol_FooterLines ol) @ (utf8 [0x56DE]))))
      else if ol_RulesVersionLines ol \<noteq> 1 then
        Inl (SourceErr ((source_error CodeRecordMissingHeader
          ((utf8 [0x30EB, 0x30FC, 0x30EB, 0x7248, 0x5BA3, 0x8A00, 0x884C, 0x306F, 0x3061,
      0x3087, 0x3046, 0x3069] @ ''1'' @ utf8 [0x56DE, 0x5FC5, 0x8981, 0x3067, 0x3059] @ '': '')
             @ itoa (ol_RulesVersionLines ol) @ (utf8 [0x56DE])))
          \<lparr>sx_Line := ol_RulesVersionLine ol, sx_Source := lineAt source (ol_RulesVersionLine ol)\<rparr>))
      else if ol_RulesVersion ol \<noteq> RulesVersion then
        Inl (SourceErr ((source_error CodeRecordUnsupportedRulesVersion
          ((utf8 [0x5BFE, 0x5FDC, 0x3057, 0x3066, 0x3044, 0x306A, 0x3044, 0x30EB, 0x30FC,
      0x30EB, 0x7248, 0x3067, 0x3059] @ '': '') @ quote (ol_RulesVersion ol)
             @ ('' ('' @ utf8 [0x3053, 0x306E, 0x30B5, 0x30FC, 0x30D0, 0x30FC,
      0x306F]) @ quote RulesVersion @ (utf8 [0x3092, 0x518D, 0x751F, 0x3067, 0x304D, 0x307E,
      0x3059] @ '')'')))
          \<lparr>sx_Line := ol_RulesVersionLine ol, sx_Source := lineAt source (ol_RulesVersionLine ol)\<rparr>))
      else case runner (combine harness source) of
        Inl err \<Rightarrow>
          (case err of
             ScriptExecError code stderr stdout \<Rightarrow>
               let (line, message) = locateFailure harness stderr source in
               Inl (SourceErr ((source_error CodeRecordSyntaxError message)
                 \<lparr>sx_Line := line, sx_Source := lineAt source line, sx_Err := ExecCause err\<rparr>))
           | _ \<Rightarrow> Inl (RunErr err))
      | Inr stdout \<Rightarrow>
      (case unmarshal stdout of
        Inl err \<Rightarrow>
          Inl (SourceErr ((source_error CodeRecordSyntaxError
            (utf8 [0x68CB, 0x8B5C, 0x306E, 0x8AAD, 0x307F, 0x53D6, 0x308A, 0x7D50, 0x679C,
      0x3092, 0x89E3, 0x91C8, 0x3067, 0x304D, 0x307E, 0x305B,
      0x3093]))\<lparr>sx_Err := JSONCause err\<rparr>))
      | Inr decoded \<Rightarrow>
      let script = decoded\<lparr>sc_StartedAt := ol_StartedAt ol, sc_EndedAt := ol_EndedAt ol\<rparr> in
      if sc_Version script \<noteq> Version then
        Inl (SourceErr (source_error CodeRecordSyntaxError
          ((utf8 [0x5BFE, 0x5FDC, 0x3057, 0x3066, 0x3044, 0x306A, 0x3044, 0x68CB, 0x8B5C,
      0x30D0, 0x30FC, 0x30B8, 0x30E7, 0x30F3, 0x3067,
      0x3059] @ '': '') @ quote (sc_Version script))))
      else if sc_RulesVersion script \<noteq> ol_RulesVersion ol then
        Inl (SourceErr ((source_error CodeRecordUnsupportedRulesVersion
          ((utf8 [0x30EB, 0x30FC, 0x30EB, 0x7248, 0x306E, 0x8AAD, 0x307F, 0x53D6, 0x308A,
      0x304C, 0x4E00, 0x81F4, 0x3057, 0x307E, 0x305B,
      0x3093] @ '': '' @ utf8 [0x884C] @ ''='') @ quote (ol_RulesVersion ol)
             @ ('' '' @ utf8 [0x5B9F, 0x884C] @ ''='') @ quote (sc_RulesVersion script)))
          \<lparr>sx_Line := ol_RulesVersionLine ol, sx_Source := lineAt source (ol_RulesVersionLine ol)\<rparr>))
      else case ValidateGameID (sc_GameID script) of
        Some err \<Rightarrow>
          Inl (SourceErr ((source_error CodeRecordMissingHeader err)
            \<lparr>sx_Line := startLineNumber source, sx_Source := lineAt source (startLineNumber source)\<rparr>))
      | None \<Rightarrow>
      (case check_moves source ol (sc_Moves script) of
        Some err \<Rightarrow> Inl (SourceErr err)
      | None \<Rightarrow> Inr (script, ol))))"

end
