(* ===== verification/Replay.thy ===== *)
theory Replay
  imports Scan
begin

text \<open>
  Replaying a record: the harness \<open>rules/replay/harness.nako3\<close>, which the record's lines call and
  which applies the moves by the rules, and \<open>server/internal/replay/replay.go\<close>, which turns what the
  harness printed into frames and compares it with what the record claims.
\<close>

section \<open>The harness (harness.nako3)\<close>

text \<open>The words of the vocabulary, called with the values of a line.\<close>

datatype word_call =
    DeclareVersion string
  | StartGame string nat
  | PlaceWord string int int \<comment> \<open>the colour word, row and column\<close>
  | PassWord string
  | EndGame string

record harness =
  hs_rulesVersion :: string
  hs_gameId :: string
  hs_seed :: nat
  hs_winner :: string
  hs_moves :: "move list"
  hs_versionCount :: int
  hs_headerCount :: int
  hs_footerCount :: int

definition harness_start :: harness where
  "harness_start =
     \<lparr>hs_rulesVersion = '''', hs_gameId = '''', hs_seed = 0, hs_winner = '''', hs_moves = [],
      hs_versionCount = 0, hs_headerCount = 0, hs_footerCount = 0\<rparr>"

definition turn_word :: "string \<Rightarrow> string" where
  "turn_word w = (if w = darkWord then ''dark'' else ''light'')"

definition add_move :: "string \<Rightarrow> string \<Rightarrow> harness \<Rightarrow> harness" where
  "add_move w kind h =
     h\<lparr>hs_moves := hs_moves h @
        [\<lparr>mv_Player = turn_word w, mv_Type = kind, mv_Row = None, mv_Col = None\<rparr>]\<rparr>"

definition add_place :: "string \<Rightarrow> int \<Rightarrow> int \<Rightarrow> harness \<Rightarrow> harness" where
  "add_place w row col h =
     (let h1 = add_move w ''place'' h; i = length (hs_moves h1) - 1
      in h1\<lparr>hs_moves := (hs_moves h1)[i := (hs_moves h1 ! i)\<lparr>mv_Row := Some row, mv_Col := Some col\<rparr>]\<rparr>)"

fun harness_call :: "word_call \<Rightarrow> harness \<Rightarrow> harness" where
  "harness_call (DeclareVersion v) h =
     h\<lparr>hs_rulesVersion := v, hs_versionCount := hs_versionCount h + 1\<rparr>"
| "harness_call (StartGame gameId seed) h =
     h\<lparr>hs_gameId := gameId, hs_seed := seed, hs_headerCount := hs_headerCount h + 1\<rparr>"
| "harness_call (PlaceWord w row col) h = add_place w row col h"
| "harness_call (PassWord w) h = add_move w ''pass'' h"
| "harness_call (EndGame w) h =
     h\<lparr>hs_winner := turn_word w, hs_footerCount := hs_footerCount h + 1\<rparr>"

text \<open>
  The command that a move becomes, and one step of the replay: the harness calls the placing and the
  passing of the rules directly.
\<close>

definition harness_command :: "move \<Rightarrow> state \<Rightarrow> command" where
  "harness_command m s =
     \<lparr>cm_CommandID = ''replay-'' @ itoa (st_TurnNumber s + 1), cm_Type = mv_Type m,
      cm_Player = mv_Player m, cm_ExpectedTurn = st_TurnNumber s,
      cm_Row = (if mv_Type m = ''place'' then mv_Row m else None),
      cm_Col = (if mv_Type m = ''place'' then mv_Col m else None)\<rparr>"

definition harness_apply :: "state \<Rightarrow> move \<Rightarrow> response" where
  "harness_apply s m =
     (let c = harness_command m s in
      if mv_Type m = ''place'' then
        apply_place s (cm_CommandID c) (the (cm_Row c)) (the (cm_Col c))
      else apply_pass s (cm_CommandID c))"

text \<open>
  The loop: the frames added and the failure that stopped it, from the number of the next move and
  the state so far. A seed beyond 32 bits does not occur here (see \<open>script_json\<close>).
\<close>

fun harness_play :: "int \<Rightarrow> state \<Rightarrow> move list \<Rightarrow> script_frame list \<times> script_failure option" where
  "harness_play n s [] = ([], None)"
| "harness_play n s (m # ms) =
     (let response = harness_apply s m in
      case (rs_OK response, rs_State response) of
        (True, Some s') \<Rightarrow>
          let (frames, failure) = harness_play (n + 1) s' ms
          in (\<lparr>sf_TurnNumber = st_TurnNumber s', sf_MoveNumber = n + 1, sf_State = s',
               sf_Event = rs_Event response\<rparr> # frames, failure)
      | _ \<Rightarrow>
          ([], Some \<lparr>sl_MoveNumber = n + 1,
                     sl_Code = (case rs_Error response of None \<Rightarrow> '''' | Some e \<Rightarrow> pe_Code e),
                     sl_Message = (case rs_Error response of None \<Rightarrow> '''' | Some e \<Rightarrow> pe_Message e)\<rparr>))"

definition harness_output :: "harness \<Rightarrow> script" where
  "harness_output h =
     (let s0 = new_game (hs_gameId h) (of_nat (hs_seed h));
          (frames, failure) = harness_play 0 s0 (hs_moves h)
      in \<lparr>sc_Version = ''1'', sc_GameID = hs_gameId h, sc_Seed = of_nat (hs_seed h),
          sc_Winner = hs_winner h, sc_Moves = hs_moves h, sc_HeaderCount = hs_headerCount h,
          sc_FooterCount = hs_footerCount h, sc_RulesVersion = hs_rulesVersion h,
          sc_VersionCount = hs_versionCount h, sc_OK = (failure = None), sc_Failure = failure,
          sc_Frames = \<lparr>sf_TurnNumber = 0, sf_MoveNumber = 0, sf_State = s0, sf_Event = None\<rparr> # frames,
          sc_StartedAt = '''', sc_EndedAt = ''''\<rparr>)"

subsection \<open>A record as a program\<close>

text \<open>
  What a line of the vocabulary calls. A number in a line is its decimal value; a text between the
  brackets is taken as it stands (a text with a brace in it is not: the interpreter would expand it).
\<close>

definition line_call :: "string \<Rightarrow> word_call option" where
  "line_call text =
     (case rulesVersionLinePattern text of
        Some version \<Rightarrow> Some (DeclareVersion version)
      | None \<Rightarrow>
      (case startLinePattern text of
        Some (gameID, seed) \<Rightarrow> Some (StartGame gameID (num seed))
      | None \<Rightarrow>
      (case endLinePattern text of
        Some w \<Rightarrow> Some (EndGame w)
      | None \<Rightarrow>
      (case passLinePattern text of
        Some w \<Rightarrow> Some (PassWord w)
      | None \<Rightarrow>
      (case placeLinePattern text of
        Some (row, col, w, comment) \<Rightarrow> Some (PlaceWord w (int (num [row])) (int (num [col])))
      | None \<Rightarrow> None)))))"

definition record_calls :: "string list \<Rightarrow> word_call list" where
  "record_calls raws = List.map_filter (\<lambda>raw. line_call (TrimSpace raw)) raws"

definition run_calls :: "word_call list \<Rightarrow> harness \<Rightarrow> harness" where
  "run_calls cs h = fold harness_call cs h"

definition harness_result :: "string \<Rightarrow> harness" where
  "harness_result source = run_calls (record_calls (split_on nl source)) harness_start"

text \<open>
  The printed JSON read back: a seed that is no 32-bit number does not fit the field of the Go
  structure and \<open>json.Unmarshal\<close> fails on it.
\<close>

definition script_json :: "string \<Rightarrow> string + script" where
  "script_json source =
     (let h = harness_result source in
      if hs_seed h < 2 ^ 32 then Inr (harness_output h)
      else Inl ''json: cannot unmarshal number into Go struct field Script.seed of type uint32'')"

text \<open>A record in which no text between brackets is expanded by the interpreter.\<close>

definition plain_record :: "string \<Rightarrow> bool" where
  "plain_record source \<longleftrightarrow>
     list_all (\<lambda>c. case c of
          DeclareVersion v \<Rightarrow> CHR ''{'' \<notin> set v \<and> \<not> contains (utf8 [0xFF5B]) v
        | StartGame gameID seed \<Rightarrow> CHR ''{'' \<notin> set gameID \<and> \<not> contains (utf8 [0xFF5B]) gameID
        | _ \<Rightarrow> True) (record_calls (split_on nl source))"

section \<open>Replaying (replay.go)\<close>

definition locate :: "outline \<Rightarrow> nat \<Rightarrow> int \<times> string" where
  "locate ol index =
     (if index < length (ol_MoveLines ol)
      then (ml_Line (ol_MoveLines ol ! index), ml_Text (ol_MoveLines ol ! index)) else (0, ''''))"

definition illegalMoveError :: "script \<Rightarrow> outline \<Rightarrow> string \<Rightarrow> source_error" where
  "illegalMoveError script ol source =
     (case sc_Failure script of
        None \<Rightarrow> source_error CodeRecordIllegalMove (utf8 [0x68CB, 0x8B5C, 0x3092,
      0x518D, 0x751F, 0x3067, 0x304D, 0x307E, 0x305B, 0x3093])
      | Some failure \<Rightarrow>
          let index = sl_MoveNumber failure - 1;
              line = (if index \<ge> 0 \<and> index < int (length (ol_MoveLines ol))
                      then ml_Line (ol_MoveLines ol ! nat index) else 0)
          in (source_error CodeRecordIllegalMove (sl_Message failure))
               \<lparr>sx_Line := line, sx_Source := lineAt source line,
                sx_MoveNumber := sl_MoveNumber failure, sx_RuleCode := sl_Code failure\<rparr>)"

definition cloneEvent :: "event option \<Rightarrow> event option" where
  "cloneEvent e =
     (case e of
        None \<Rightarrow> None
      | Some e \<Rightarrow>
          Some (case ev_Changes e of None \<Rightarrow> e | Some _ \<Rightarrow> e\<lparr>ev_Changes := slice_copy (ev_Changes e)\<rparr>))"

definition verifyAnnotation :: "outline \<Rightarrow> nat \<Rightarrow> frame \<Rightarrow> source_error option" where
  "verifyAnnotation ol index f =
     (if index \<ge> length (ol_MoveLines ol) then None
      else
      let moveLine = ol_MoveLines ol ! index in
      case fr_Event f of
        None \<Rightarrow> None
      | Some e \<Rightarrow>
          if \<not> ml_Annotated moveLine then None
          else
          let placedColor = (case ev_PlacedColor e of None \<Rightarrow> 0 | Some c \<Rightarrow> int (unat c));
              changed = int (length (elems (ev_Changes e)))
          in if ml_Color moveLine \<noteq> placedColor \<or> ml_Changed moveLine \<noteq> changed then
               Some ((source_error CodeRecordMismatch
                 ((utf8 [0x6CE8, 0x91C8, 0x3068, 0x518D, 0x751F, 0x7D50, 0x679C, 0x304C,
      0x9055, 0x3044, 0x307E, 0x3059] @ '' ('' @ utf8 [0x6CE8,
      0x91C8] @ ''='' @ utf8 [0x8272]) @ itoa (ml_Color moveLine) @ (utf8 [0x30FB])
                    @ itoa (ml_Changed moveLine) @ (utf8 [0x500B, 0x5909, 0x63DB] @ '',
      '' @ utf8 [0x518D, 0x751F] @ ''='' @ utf8 [0x8272]) @ itoa placedColor
                    @ (utf8 [0x30FB]) @ itoa changed @ (utf8 [0x500B, 0x5909, 0x63DB] @ '')'')))
                 \<lparr>sx_Line := ml_Line moveLine, sx_Source := ml_Text moveLine,
                  sx_MoveNumber := int index + 1\<rparr>)
             else None)"

definition verifyFinished :: "replay_result \<Rightarrow> source_error option" where
  "verifyFinished result =
     (let final = FinalState result in
      if \<not> Script_Finished (rr_Script result) then
        Some (source_error CodeRecordUnfinished (utf8 [0x7D42, 0x4E86, 0x884C, 0x304C, 0x3042,
      0x308A, 0x307E, 0x305B, 0x3093]))
      else if st_Phase final \<noteq> PhaseFinished then
        Some ((source_error CodeRecordUnfinished
          ((utf8 [0x7D42, 0x4E86, 0x884C, 0x304C, 0x3042, 0x308B, 0x306E, 0x306B, 0x5BFE,
      0x5C40, 0x304C, 0x7D42, 0x308F, 0x308A, 0x307E, 0x305B,
      0x3093] @ '' (phase='') @ st_Phase final @ '')''))
          \<lparr>sx_MoveNumber := int (length (sc_Moves (rr_Script result)))\<rparr>)
      else if st_Winner final \<noteq> Some (sc_Winner (rr_Script result)) then
        Some (source_error CodeRecordMismatch
          ((utf8 [0x8A18, 0x9332, 0x3055, 0x308C, 0x305F, 0x52DD, 0x8005, 0x3068, 0x518D,
      0x751F, 0x7D50, 0x679C, 0x304C, 0x9055, 0x3044, 0x307E, 0x3059] @ '' ('' @ utf8 [0x8A18,
      0x9332] @ ''='') @ sc_Winner (rr_Script result)
             @ ('', '' @ utf8 [0x518D, 0x751F] @ ''='')
             @ (case st_Winner final of None \<Rightarrow> (utf8 [0x306A,
      0x3057]) | Some w \<Rightarrow> w) @ '')''))
      else None)"

record replay_options =
  op_Until :: int
  op_RequireFinished :: bool
  op_Strict :: bool

definition make_frame :: "outline \<Rightarrow> nat \<Rightarrow> move \<Rightarrow> script_frame \<Rightarrow> frame" where
  "make_frame ol index m sf =
     \<lparr>fr_TurnNumber = sf_TurnNumber sf, fr_MoveNumber = sf_MoveNumber sf,
      fr_Line = fst (locate ol index), fr_Move = Some m, fr_State = State_Clone (sf_State sf),
      fr_Event = cloneEvent (sf_Event sf)\<rparr>"

text \<open>The loop over the moves up to the limit, from \<open>index\<close>, given the remaining moves and frames.\<close>

fun replay_frames ::
  "outline \<Rightarrow> bool \<Rightarrow> nat \<Rightarrow> move list \<Rightarrow> script_frame list \<Rightarrow> source_error + frame list" where
  "replay_frames ol strict index (m # ms) (sf # sfs) =
     (let f = make_frame ol index m sf in
      case (if strict then verifyAnnotation ol index f else None) of
        Some err \<Rightarrow> Inl err
      | None \<Rightarrow>
          (case replay_frames ol strict (Suc index) ms sfs of
             Inl err \<Rightarrow> Inl err
           | Inr fs \<Rightarrow> Inr (f # fs)))"
| "replay_frames ol strict index _ _ = Inr []"

definition first_frame :: "state \<Rightarrow> frame" where
  "first_frame s =
     \<lparr>fr_TurnNumber = 0, fr_MoveNumber = 0, fr_Line = 0, fr_Move = None, fr_State = State_Clone s,
      fr_Event = None\<rparr>"

text \<open>A decoder is the harness, the runner and the JSON decoding; \<open>NewReplayer\<close> wraps it.\<close>

type_synonym decoder = "string \<Rightarrow> replay_error + script \<times> outline"

definition NewReplayer :: "decoder option \<Rightarrow> string + decoder" where
  "NewReplayer d = (case d of None \<Rightarrow> Inl (''decoder'' @ utf8 [0x304C, 0x5FC5,
      0x8981, 0x3067, 0x3059]) | Some d \<Rightarrow> Inr d)"

definition ReplayWith :: "decoder \<Rightarrow> string \<Rightarrow> replay_options \<Rightarrow> replay_error + replay_result" where
  "ReplayWith decode source options =
     (case decode source of
        Inl err \<Rightarrow> Inl err
      | Inr (script, ol) \<Rightarrow>
      if \<not> sc_OK script then Inl (SourceErr (illegalMoveError script ol source))
      else if length (sc_Frames script) \<noteq> length (sc_Moves script) + 1 then
        Inl (SourceErr (source_error CodeRecordSyntaxError
          ((utf8 [0x518D, 0x751F, 0x7D50, 0x679C, 0x306E, 0x76E4, 0x9762, 0x6570, 0x304C,
      0x6307, 0x3057, 0x624B, 0x3068, 0x5408, 0x3044, 0x307E, 0x305B,
      0x3093] @ '': '' @ utf8 [0x6307, 0x3057, 0x624B]) @ itoa (int (length (sc_Moves script)))
             @ (utf8 [0x3001, 0x76E4, 0x9762]) @ itoa (int (length (sc_Frames script))))))
      else
      let limit = (if op_Until options < 0 \<or> op_Until options > int (length (sc_Moves script))
                   then length (sc_Moves script) else nat (op_Until options));
          first = first_frame (sf_State (sc_Frames script ! 0))
      in
      (case replay_frames ol (op_Strict options) 0 (take limit (sc_Moves script))
              (tl (sc_Frames script)) of
        Inl err \<Rightarrow> Inl (SourceErr err)
      | Inr frames \<Rightarrow>
          let result = \<lparr>rr_Script = script, rr_Outline = ol, rr_Frames = first # frames\<rparr> in
          (case (if op_RequireFinished options then verifyFinished result else None) of
             Some err \<Rightarrow> Inl (SourceErr err)
           | None \<Rightarrow> Inr result)))"

definition Replay :: "decoder \<Rightarrow> string \<Rightarrow> replay_error + replay_result" where
  "Replay decode source =
     ReplayWith decode source \<lparr>op_Until = -1, op_RequireFinished = True, op_Strict = True\<rparr>"

definition ReplayUntil :: "decoder \<Rightarrow> string \<Rightarrow> int \<Rightarrow> replay_error + replay_result" where
  "ReplayUntil decode source moveNumber =
     (if moveNumber < 0 then
        Inl (PlainErr ((utf8 [0x624B, 0x6570, 0x306F] @ ''0'' @ utf8 [0x4EE5, 0x4E0A, 0x3067,
      0x3042, 0x308B, 0x5FC5, 0x8981, 0x304C, 0x3042, 0x308A, 0x307E,
      0x3059] @ '': '') @ itoa moveNumber))
      else ReplayWith decode source
             \<lparr>op_Until = moveNumber, op_RequireFinished = False, op_Strict = False\<rparr>)"

end
