(* ===== verification/Store.thy ===== *)
theory Store
  imports Replay
begin

text \<open>
  Keeping records: \<open>server/internal/replay/store.go\<close> and \<open>service.go\<close>. The Go interface \<open>Store\<close> is
  the locale \<open>record_store\<close>; the in-memory store is its interpretation.
\<close>

section \<open>The in-memory store (store.go)\<close>

record entry =
  en_Record :: game_record
  en_Source :: string

definition Entry_Clone :: "entry \<Rightarrow> entry" where
  "Entry_Clone e = \<lparr>en_Record = Record_Clone (en_Record e), en_Source = en_Source e\<rparr>"

record memory_store =
  ms_entries :: "(string, entry) gomap"
  ms_order :: "string list"

definition NewMemoryStore :: memory_store where
  "NewMemoryStore = \<lparr>ms_entries = [], ms_order = []\<rparr>"

text \<open>The error of \<open>Save\<close> is that of the validation of the game id.\<close>

definition store_Save :: "memory_store \<Rightarrow> entry \<Rightarrow> memory_store \<times> string option" where
  "store_Save s e =
     (case ValidateGameID (gr_GameID (en_Record e)) of
        Some err \<Rightarrow> (s, Some err)
      | None \<Rightarrow>
          let gameID = gr_GameID (en_Record e);
              order = (if map_of (ms_entries s) gameID = None then ms_order s @ [gameID]
                       else ms_order s)
          in (s\<lparr>ms_order := order, ms_entries := AList.update gameID (Entry_Clone e) (ms_entries s)\<rparr>,
              None))"

definition store_List :: "memory_store \<Rightarrow> summary list" where
  "store_List s =
     concat (map (\<lambda>gameID. case map_of (ms_entries s) gameID of
                     None \<Rightarrow> []
                   | Some e \<Rightarrow> [Record_Summary (en_Record e)]) (ms_order s))"

definition store_Get :: "memory_store \<Rightarrow> string \<Rightarrow> replay_error + entry" where
  "store_Get s gameID =
     (case map_of (ms_entries s) gameID of
        None \<Rightarrow> Inl (NotFound gameID)
      | Some e \<Rightarrow> Inr (Entry_Clone e))"

text \<open>\<open>intn n\<close> is the random number below \<open>n\<close>; indexing out of range would panic (\<open>None\<close>).\<close>

definition store_Random :: "(nat \<Rightarrow> nat) \<Rightarrow> memory_store \<Rightarrow> (replay_error + entry) option" where
  "store_Random intn s =
     (if length (ms_order s) = 0 then Some (Inl (NotFound ''''))
      else
        let i = intn (length (ms_order s)) in
        if i \<ge> length (ms_order s) then None
        else Some (store_Get s (ms_order s ! i)))"

definition store_Len :: "memory_store \<Rightarrow> nat" where
  "store_Len s = length (ms_order s)"

section \<open>The service (service.go)\<close>

text \<open>
  The service works on any store, given by its operations \<open>save\<close> and \<open>get\<close> on a state \<open>s\<close>; an
  error of \<open>save\<close> is returned as it is.
\<close>

definition SaveSource ::
  "('s \<Rightarrow> entry \<Rightarrow> 's \<times> string option) \<Rightarrow> decoder \<Rightarrow> 's \<Rightarrow> string \<Rightarrow>
   's \<times> (replay_error + game_record)" where
  "SaveSource save decode s source =
     (case Replay decode source of
        Inl err \<Rightarrow> (s, Inl err)
      | Inr result \<Rightarrow>
          let e = \<lparr>en_Record = Result_Record result, en_Source = source\<rparr> in
          (case save s e of
             (s', Some err) \<Rightarrow> (s', Inl (PlainErr err))
           | (s', None) \<Rightarrow> (s', Inr (en_Record e))))"

definition SaveResult ::
  "('s \<Rightarrow> entry \<Rightarrow> 's \<times> string option) \<Rightarrow> 's \<Rightarrow> replay_result \<Rightarrow> 's \<times> (replay_error + string)" where
  "SaveResult save s result =
     (case EncodeResult (Some result) of
        Inl err \<Rightarrow> (s, Inl (PlainErr err))
      | Inr source \<Rightarrow>
          (case save s \<lparr>en_Record = Result_Record result, en_Source = source\<rparr> of
             (s', Some err) \<Rightarrow> (s', Inl (PlainErr err))
           | (s', None) \<Rightarrow> (s', Inr source)))"

definition service_List :: "('s \<Rightarrow> summary list) \<Rightarrow> 's \<Rightarrow> summary list" where
  "service_List list s = list s"

definition service_Get :: "('s \<Rightarrow> string \<Rightarrow> replay_error + entry) \<Rightarrow> 's \<Rightarrow> string \<Rightarrow> replay_error + game_record" where
  "service_Get get s gameID =
     (case get s gameID of Inl err \<Rightarrow> Inl err | Inr e \<Rightarrow> Inr (en_Record e))"

definition service_Random :: "('s \<Rightarrow> (replay_error + entry) option) \<Rightarrow> 's \<Rightarrow> (replay_error + game_record) option" where
  "service_Random random s =
     map_option (\<lambda>r. case r of Inl err \<Rightarrow> Inl err | Inr e \<Rightarrow> Inr (en_Record e)) (random s)"

definition service_Source :: "('s \<Rightarrow> string \<Rightarrow> replay_error + entry) \<Rightarrow> 's \<Rightarrow> string \<Rightarrow> replay_error + string" where
  "service_Source get s gameID =
     (case get s gameID of Inl err \<Rightarrow> Inl err | Inr e \<Rightarrow> Inr (en_Source e))"

definition service_Replay ::
  "('s \<Rightarrow> string \<Rightarrow> replay_error + entry) \<Rightarrow> decoder \<Rightarrow> 's \<Rightarrow> string \<Rightarrow> replay_error + replay_result" where
  "service_Replay get decode s gameID =
     (case service_Source get s gameID of
        Inl err \<Rightarrow> Inl err
      | Inr source \<Rightarrow> Replay decode source)"

definition service_ReplayUntil ::
  "('s \<Rightarrow> string \<Rightarrow> replay_error + entry) \<Rightarrow> decoder \<Rightarrow> 's \<Rightarrow> string \<Rightarrow> int \<Rightarrow>
   replay_error + replay_result" where
  "service_ReplayUntil get decode s gameID moveNumber =
     (case service_Source get s gameID of
        Inl err \<Rightarrow> Inl err
      | Inr source \<Rightarrow> ReplayUntil decode source moveNumber)"

end
