(* ===== verification/Session.thy ===== *)
theory Session
  imports Server Manager Store
begin

text \<open>
  A player's session with the server (\<open>server/main.go\<close>): the records that are kept of the rooms'
  moves, how a finished match becomes a stored game record, what the connection answers to every
  frame and forwards of every event, and the replay that is served afterwards.

  A \<open>*roomRecord\<close> is an index into the objects that were ever made. The time texts and the random
  seeds are arguments. Each definition is what happens under the mutexes it takes, as one step;
  \<open>None\<close> is a panic. The JSON of a command is a parameter; values that are sent as JSON are the
  values.
\<close>

section \<open>The records of the rooms (main.go)\<close>

record accepted_move =
  am_command :: command
  am_event :: event

datatype save_error =
    SaveText string
  | SaveReplay replay_error \<comment> \<open>the replay of the written record failed\<close>
  | SaveStore replay_error

text \<open>\<open>rd_ready\<close>: the channel \<open>ready\<close> is closed.\<close>

record room_record =
  rd_seed :: "32 word"
  rd_startedAt :: string
  rd_moves :: "accepted_move list"
  rd_ready :: bool
  rd_finished :: bool
  rd_saveError :: "save_error option"

record ledger =
  ld_objs :: "room_record list"
  ld_rooms :: "(string, nat) gomap"

definition newRecordLedger :: ledger where
  "newRecordLedger = \<lparr>ld_objs = [], ld_rooms = []\<rparr>"

definition seedFor :: "32 word \<Rightarrow> string \<Rightarrow> string \<Rightarrow> ledger \<Rightarrow> ledger \<times> 32 word" where
  "seedFor seed now roomID l =
     (\<lparr>ld_objs = ld_objs l @ [\<lparr>rd_seed = seed, rd_startedAt = now, rd_moves = [], rd_ready = False,
                               rd_finished = False, rd_saveError = None\<rparr>],
       ld_rooms = AList.update roomID (length (ld_objs l)) (ld_rooms l)\<rparr>, seed)"

definition ledger_get :: "ledger \<Rightarrow> string \<Rightarrow> nat option" where
  "ledger_get l roomID = map_of (ld_rooms l) roomID"

definition discard :: "string \<Rightarrow> ledger \<Rightarrow> ledger" where
  "discard roomID l = l\<lparr>ld_rooms := AList.delete roomID (ld_rooms l)\<rparr>"

text \<open>What the handlers share: the matches, the records and the stored game records.\<close>

record app =
  ap_matches :: manager
  ap_records :: ledger
  ap_replays :: memory_store

section \<open>Saving a finished match (main.go)\<close>

text \<open>\<open>strings.Join\<close>.\<close>

fun join_text :: "string \<Rightarrow> string list \<Rightarrow> string" where
  "join_text sep [] = []"
| "join_text sep [l] = l"
| "join_text sep (l # ls) = l @ sep @ join_text sep ls"

definition move_text :: "accepted_move \<Rightarrow> string + string" where
  "move_text m =
     (let c = am_command m; e = am_event m in
      if cm_Type c = CommandPlace then
        (case (cm_Row c, cm_Col c, ev_PlacedColor e) of
           (Some row, Some col, Some color) \<Rightarrow>
             PlaceLine (cm_Player c) row col color (int (length (elems (ev_Changes e))))
         | _ \<Rightarrow> Inl (utf8 [0x7740, 0x624B, 0x306E, 0x5EA7, 0x6A19, 0x304B, 0x8272,
      0x304C, 0x3042, 0x308A, 0x307E, 0x305B, 0x3093]))
      else if cm_Type c = CommandPass then PassLine (cm_Player c)
      else Inl (utf8 [0x68CB, 0x8B5C, 0x306B, 0x4F7F, 0x3048, 0x306A,
      0x3044] @ ''command'' @ utf8 [0x3067, 0x3059]))"

text \<open>The loop over the moves: the lines, or the first error.\<close>

fun move_texts :: "accepted_move list \<Rightarrow> string + string list" where
  "move_texts [] = Inr []"
| "move_texts (m # ms) =
     (case move_text m of
        Inl err \<Rightarrow> Inl err
      | Inr line \<Rightarrow> (case move_texts ms of Inl err \<Rightarrow> Inl err | Inr lines \<Rightarrow> Inr (line # lines)))"

definition saveFinished ::
  "decoder \<Rightarrow> string \<Rightarrow> string \<Rightarrow> room_record \<Rightarrow> state \<Rightarrow> memory_store \<Rightarrow>
   memory_store \<times> save_error option" where
  "saveFinished decode now roomID rd final store =
     (case st_Winner final of
        None \<Rightarrow> (store, Some (SaveText (utf8 [0x7D42, 0x5C40, 0x7D50, 0x679C,
      0x306B, 0x52DD, 0x8005, 0x304C, 0x3042, 0x308A, 0x307E, 0x305B, 0x3093])))
      | Some winner \<Rightarrow>
      (case StartLine roomID (rd_seed rd) of
        Inl err \<Rightarrow> (store, Some (SaveText err))
      | Inr startLine \<Rightarrow>
      (case move_texts (rd_moves rd) of
        Inl err \<Rightarrow> (store, Some (SaveText err))
      | Inr moveLines \<Rightarrow>
      let (colorSum, pieceCount) = boardTotals (st_Board final) in
      (case EndLine winner (int (length (rd_moves rd))) colorSum pieceCount of
        Inl err \<Rightarrow> (store, Some (SaveText err))
      | Inr endLine \<Rightarrow>
      let lines = HeaderLines (rd_startedAt rd) now @ [''''] @ [RulesVersionLine] @ [startLine, '''']
                    @ moveLines @ ['''', endLine, ''''];
          source = join_text [nl] lines
      in
      (case Replay decode source of
        Inl err \<Rightarrow> (store, Some (SaveReplay err))
      | Inr result \<Rightarrow>
      if FinalState result \<noteq> final then
        (store, Some (SaveText (utf8 [0x518D, 0x751F, 0x3057, 0x305F, 0x6700, 0x7D42, 0x76E4,
      0x9762, 0x304C, 0x5BFE, 0x5C40, 0x7D50, 0x679C, 0x3068, 0x4E00, 0x81F4, 0x3057, 0x307E,
      0x305B, 0x3093])))
      else
        (case SaveResult store_Save store result of
           (store', Inl err) \<Rightarrow> (store', Some (SaveStore err))
         | (store', Inr _) \<Rightarrow> (store', None)))))))"

section \<open>Submitting a command (main.go)\<close>

text \<open>
  What is done with an accepted command while the mutex of the record is still held: the move goes to
  the record, and the move that ends the game has the match saved.
\<close>

definition record_move ::
  "decoder \<Rightarrow> string \<Rightarrow> string \<Rightarrow> nat \<Rightarrow> command \<Rightarrow> event \<Rightarrow> state \<Rightarrow> ledger \<times> memory_store \<Rightarrow> ledger \<times> memory_store" where
  "record_move decode now roomID i command event final = (\<lambda>(l, replays).
     (let rd = ld_objs l ! i;
          rd1 = rd\<lparr>rd_moves := rd_moves rd @ [\<lparr>am_command = command, am_event = event\<rparr>]\<rparr>;
          (rd2, store) =
            (if st_Phase final = PhaseFinished \<and> \<not> rd_finished rd1 then
               (let (store, err) = saveFinished decode now roomID rd1 final replays
                in (rd1\<lparr>rd_finished := True, rd_saveError := err, rd_ready := True\<rparr>, store))
             else (rd1, replays))
      in (l\<lparr>ld_objs := (ld_objs l)[i := rd2]\<rparr>, store)))"

datatype submit_error =
    SubmitText string
  | SubmitRun rt_error

definition submitCommand ::
  "runner \<Rightarrow> decoder \<Rightarrow> string \<Rightarrow> app \<Rightarrow> string \<Rightarrow> string \<Rightarrow> nat option \<Rightarrow> command \<Rightarrow>
   (app \<times> (submit_error + response option)) option" where
  "submitCommand runner decode now a roomID playerID record command =
     (case record of
        None \<Rightarrow> Some (a, Inl (SubmitText (''room'' @ utf8 [0x306E, 0x8A18, 0x9332,
      0x304C, 0x3042, 0x308A, 0x307E, 0x305B, 0x3093])))
      | Some i \<Rightarrow>
      (case Manager_Submit runner (ap_matches a) roomID playerID command of
        None \<Rightarrow> None
      | Some (m, result) \<Rightarrow>
      let a1 = a\<lparr>ap_matches := m\<rparr> in
      (case result of
        Inl err \<Rightarrow> Some (a1, Inl (SubmitRun err))
      | Inr None \<Rightarrow> Some (a1, Inr None)
      | Inr (Some response) \<Rightarrow>
      if \<not> rs_OK response then Some (a1, Inr (Some response))
      else
      (case (rs_Event response, rs_State response) of
        (Some event, Some final) \<Rightarrow>
          let (records, store) = record_move decode now roomID i command event final (ap_records a1, ap_replays a1)
          in Some (a1\<lparr>ap_records := records, ap_replays := store\<rparr>, Inr (Some response))
      | _ \<Rightarrow> Some (a1, Inl (SubmitText (utf8 [0x53D7, 0x7406, 0x7D50, 0x679C,
      0x306E] @ ''event'' @ utf8 [0x307E, 0x305F, 0x306F] @ ''state'' @ utf8 [0x304C, 0x3042,
      0x308A, 0x307E, 0x305B, 0x3093])))))))"

section \<open>Joining and leaving (main.go)\<close>

text \<open>\<open>show_error\<close> is the \<open>Error\<close> text of a runtime error.\<close>

definition JoinError_Error :: "(rt_error \<Rightarrow> string) \<Rightarrow> join_error \<Rightarrow> string" where
  "JoinError_Error show_error err =
     (case err of
        JoinError playerID message \<Rightarrow> (utf8 [0x53C2, 0x52A0, 0x3067, 0x304D, 0x307E,
      0x305B, 0x3093] @ '' ('') @ playerID @ ''): '' @ message
      | JoinRuntimeError e \<Rightarrow> show_error e)"

text \<open>An answer that carries only an error, as \<open>handleMatch\<close> builds them.\<close>

definition refusal_response :: "string \<Rightarrow> string \<Rightarrow> response" where
  "refusal_response code message =
     \<lparr>rs_Version = Version, rs_OK = False, rs_State = None, rs_Event = None,
      rs_Error = Some (NewError code message)\<rparr>"

text \<open>
  \<open>Join\<close> calls \<open>seedFor\<close> exactly when it makes a room, with the room's name: \<open>seeds\<close> is the random
  number that \<open>seedFor\<close> draws then.
\<close>

definition match_join ::
  "runner \<Rightarrow> (string \<Rightarrow> 32 word) \<Rightarrow> string \<Rightarrow> app \<Rightarrow> string \<Rightarrow> (app \<times> (join_error + membership)) option" where
  "match_join runner seeds now a playerID =
     (case Manager_Join runner seeds (ap_matches a) playerID of
        None \<Rightarrow> None
      | Some (m, result) \<Rightarrow>
          let roomID = room_name (mg_nextID m);
              records = (if mg_nextID m = mg_nextID (ap_matches a) then ap_records a
                         else fst (seedFor (seeds roomID) now roomID (ap_records a)))
          in Some (a\<lparr>ap_matches := m, ap_records := records\<rparr>, result))"

text \<open>What the handler runs when it returns.\<close>

definition match_leave :: "app \<Rightarrow> string \<Rightarrow> string \<Rightarrow> app option" where
  "match_leave a roomID playerID =
     (case Manager_Leave (ap_matches a) playerID of
        None \<Rightarrow> None
      | Some (m, _) \<Rightarrow>
          Some (a\<lparr>ap_matches := m,
                  ap_records := (if Manager_Room m roomID = None then discard roomID (ap_records a)
                                 else ap_records a)\<rparr>))"

text \<open>What the server does first when a signal stops it.\<close>

definition stop_matches :: "app \<Rightarrow> app option" where
  "stop_matches a =
     map_option (\<lambda>m. a\<lparr>ap_matches := m\<rparr>)
       (Manager_Close (utf8 [0x30B5, 0x30FC, 0x30D0, 0x30FC, 0x3092, 0x518D, 0x8D77, 0x52D5,
      0x3057, 0x307E, 0x3059, 0x3002, 0x5C11, 0x3057, 0x5F85, 0x3063, 0x3066, 0x304B, 0x3089,
      0x518D, 0x63A5, 0x7D9A, 0x3057, 0x3066, 0x304F, 0x3060, 0x3055, 0x3044]) (ap_matches a))"

text \<open>
  The beginning of \<open>handleMatch\<close>: how far a request gets, given the outcome of its handshake and
  whether it was admitted.
\<close>

datatype match_start =
    MatchBadRequest nat string
  | MatchNotUpgraded upgrade
  | MatchTurnedAway ws_frame
  | MatchJoinRefused response
  | MatchJoined membership "nat option"

definition handleMatch ::
  "(rt_error \<Rightarrow> string) \<Rightarrow> runner \<Rightarrow> (string \<Rightarrow> 32 word) \<Rightarrow> string \<Rightarrow> demo_config \<Rightarrow> upgrade \<Rightarrow> bool \<Rightarrow> app \<Rightarrow> string \<Rightarrow>
   (app \<times> match_start) option" where
  "handleMatch show_error runner seeds now config upgraded admitted a playerID =
     (if ValidateGameID playerID \<noteq> None then
        Some (a, MatchBadRequest 400 (utf8 [0x53C2, 0x52A0, 0x8005] @ ''ID'' @ utf8 [0x306F,
      0x534A, 0x89D2, 0x82F1, 0x6570, 0x5B57,
      0x3068] @ ''_-'' @ utf8 [0x306E] @ ''1'' @ utf8 [0x301C] @ ''64'' @ utf8 [0x6587, 0x5B57,
      0x3067, 0x6307, 0x5B9A, 0x3057, 0x3066, 0x304F, 0x3060, 0x3055, 0x3044]))
      else case upgraded of
        UpgradeRefused _ _ \<Rightarrow> Some (a, MatchNotUpgraded upgraded)
      | UpgradeFailed \<Rightarrow> Some (a, MatchNotUpgraded upgraded)
      | Upgraded _ \<Rightarrow>
      if \<not> admitted then
        Some (a, MatchTurnedAway (wsCloseFrame closeTryLater
          (bytes_of (utf8 [0x63A5, 0x7D9A, 0x304C, 0x6DF7, 0x307F, 0x5408, 0x3063, 0x3066,
      0x3044, 0x307E, 0x3059, 0x3002, 0x3057, 0x3070, 0x3089, 0x304F, 0x3057, 0x3066, 0x304B,
      0x3089, 0x958B, 0x304D, 0x76F4, 0x3057, 0x3066, 0x304F, 0x3060, 0x3055, 0x3044]))))
      else if int (RoomCount (ap_matches a)) \<ge> dc_maxRooms config then
        Some (a, MatchTurnedAway (wsCloseFrame closeTryLater
          (bytes_of (utf8 [0x5BFE, 0x5C40, 0x6570, 0x306E, 0x4E0A, 0x9650, 0x306B, 0x9054,
      0x3057, 0x3066, 0x3044, 0x307E, 0x3059, 0x3002, 0x3057, 0x3070, 0x3089, 0x304F, 0x3057,
      0x3066, 0x304B, 0x3089, 0x958B, 0x304D, 0x76F4, 0x3057, 0x3066, 0x304F, 0x3060, 0x3055,
      0x3044]))))
      else case match_join runner seeds now a playerID of
        None \<Rightarrow> None
      | Some (a', Inl err) \<Rightarrow>
          Some (a', MatchJoinRefused (refusal_response CodeInvalidRequest (JoinError_Error show_error err)))
      | Some (a', Inr member) \<Rightarrow>
          Some (a', MatchJoined member (ledger_get (ap_records a') (ms_RoomID member))))"

section \<open>The frames of a connection (main.go)\<close>

text \<open>What is put in the queue of the connection: \<open>send\<close>, \<open>flush\<close>, and \<open>sendJSON\<close> of the values.\<close>

datatype outgoing =
    OutSend ws_frame
  | OutFlush ws_frame
  | OutResponse response
  | OutEvent room_event
  | OutServerError string

text \<open>One round of the loop over the frames: what is put out, and whether the loop goes on.\<close>

definition read_step ::
  "runner \<Rightarrow> decoder \<Rightarrow> (bytes \<Rightarrow> command option) \<Rightarrow> int \<Rightarrow> string \<Rightarrow> string \<Rightarrow> string \<Rightarrow> nat option \<Rightarrow>
   ws_error + ws_frame \<Rightarrow> app \<times> rate_limiter \<Rightarrow> ((app \<times> rate_limiter) \<times> outgoing list \<times> bool) option" where
  "read_step runner decode parse now clock roomID playerID record frame = (\<lambda>(a, limiter).
     (case frame of
        Inl err \<Rightarrow>
          Some ((a, limiter),
            (if err = WSProtocol then
               [OutFlush (wsCloseFrame closeProtocol (bytes_of (''WebSocket'' @ utf8 [0x306E,
      0x5F62, 0x5F0F, 0x304C, 0x4E0D, 0x6B63, 0x3067, 0x3059])))]
             else if err = WSMessageTooLarge then
               [OutFlush (wsCloseFrame closeTooLarge (bytes_of (utf8 [0x30E1, 0x30C3, 0x30BB,
      0x30FC, 0x30B8, 0x304C, 0x5927, 0x304D, 0x3059, 0x304E, 0x307E, 0x3059])))]
             else []), False)
      | Inr f \<Rightarrow>
      if wf_opcode f = 8 then Some ((a, limiter), [OutFlush \<lparr>wf_opcode = 8, wf_data = wf_data f\<rparr>], False)
      else if wf_opcode f = 9 then Some ((a, limiter), [OutSend \<lparr>wf_opcode = 10, wf_data = wf_data f\<rparr>], True)
      else if wf_opcode f \<noteq> 1 then Some ((a, limiter), [], True)
      else
      let (limiter, allowed) = limiter_allow now limiter in
      if \<not> allowed then
        Some ((a, limiter), [OutResponse (refusal_response CodeInvalidRequest
          (utf8 [0x64CD, 0x4F5C, 0x304C, 0x901F, 0x3059, 0x304E, 0x307E, 0x3059, 0x3002,
      0x5C11, 0x3057, 0x5F85, 0x3063, 0x3066, 0x304B, 0x3089, 0x3082, 0x3046, 0x4E00, 0x5EA6,
      0x304A, 0x8A66, 0x3057, 0x304F, 0x3060, 0x3055, 0x3044]))], True)
      else case parse (wf_data f) of
        None \<Rightarrow> Some ((a, limiter),
      [OutResponse (refusal_response CodeInvalidJSON (''JSON'' @ utf8 [0x3092, 0x89E3, 0x6790,
      0x3067, 0x304D, 0x307E, 0x305B, 0x3093]))], True)
      | Some command \<Rightarrow>
      (case submitCommand runner decode clock a roomID playerID record command of
        None \<Rightarrow> None
      | Some (a', Inl err) \<Rightarrow>
          Some ((a', limiter), [OutResponse (refusal_response CodeInvalidState (utf8 [0x5BFE,
      0x5C40, 0x3092, 0x51E6, 0x7406, 0x3067, 0x304D, 0x307E, 0x305B, 0x3093, 0x3067, 0x3057,
      0x305F]))], True)
      | Some (a', Inr None) \<Rightarrow> None
      | Some (a', Inr (Some response)) \<Rightarrow>
          Some ((a', limiter), (if \<not> rs_OK response then [OutResponse response] else []), True))))"

text \<open>
  One round of \<open>forwardEvents\<close>: an event of the room's channel, or the end of the channel. A finished
  state waits until the record is ready: then there is no output yet (\<open>None\<close>).
\<close>

definition forward_step :: "room_record option \<Rightarrow> room_event option \<Rightarrow> (outgoing list \<times> bool) option" where
  "forward_step record received =
     (case received of
        None \<Rightarrow>
          Some ([OutFlush (wsCloseFrame closeGoingAway
            (bytes_of (utf8 [0x30B5, 0x30FC, 0x30D0, 0x30FC, 0x304C, 0x63A5, 0x7D9A, 0x3092,
      0x7D42, 0x4E86, 0x3057, 0x307E, 0x3057, 0x305F, 0x3002, 0x518D, 0x63A5, 0x7D9A, 0x3057,
      0x3066, 0x304F, 0x3060, 0x3055, 0x3044])))], False)
      | Some event \<Rightarrow>
          (case (record, re_State event) of
             (Some rd, Some s) \<Rightarrow>
               if st_Phase s = PhaseFinished then
                 (if rd_ready rd then
                    Some ((if rd_saveError rd \<noteq> None then [OutServerError (utf8 [0x68CB,
      0x8B5C, 0x3092, 0x4FDD, 0x5B58, 0x3067, 0x304D, 0x307E, 0x305B, 0x3093, 0x3067, 0x3057,
      0x305F])] else [])
                          @ [OutEvent event], True)
                  else None)
               else Some ([OutEvent event], True)
           | _ \<Rightarrow> Some ([OutEvent event], True)))"

section \<open>Serving a replay (main.go)\<close>

record replay_frame =
  rf_MoveNumber :: int
  rf_State :: state

datatype replay_reply =
    ReplayFailed nat string
  | ReplayServed string string "replay_frame list" string \<comment> \<open>gameId, source, frames, winner\<close>

definition handleReplay :: "decoder \<Rightarrow> memory_store \<Rightarrow> string \<Rightarrow> replay_reply" where
  "handleReplay decode store gameID =
     (if ValidateGameID gameID \<noteq> None then ReplayFailed 400 (utf8 [0x5BFE,
      0x5C40] @ ''ID'' @ utf8 [0x304C, 0x4E0D, 0x6B63, 0x3067, 0x3059])
      else case service_Source store_Get store gameID of
        Inl err \<Rightarrow> ReplayFailed 404 (utf8 [0x5B8C, 0x4E86, 0x3057, 0x305F, 0x5BFE,
      0x5C40, 0x306E, 0x68CB, 0x8B5C, 0x304C, 0x3042, 0x308A, 0x307E, 0x305B, 0x3093])
      | Inr source \<Rightarrow>
      (case service_Replay store_Get decode store gameID of
        Inl err \<Rightarrow> ReplayFailed 500 (utf8 [0x68CB, 0x8B5C, 0x3092, 0x518D, 0x751F,
      0x3067, 0x304D, 0x307E, 0x305B, 0x3093, 0x3067, 0x3057, 0x305F])
      | Inr result \<Rightarrow>
          ReplayServed gameID source
            (map (\<lambda>f. \<lparr>rf_MoveNumber = fr_MoveNumber f, rf_State = fr_State f\<rparr>) (rr_Frames result))
            (sc_Winner (rr_Script result))))"

end
