(* ===== verification/ScanLemmas.thy ===== *)
theory ScanLemmas
  imports Replay
begin

text \<open>
  Reading back what the writer of records wrote: white space and the bytes of texts, what the line
  patterns find in each kind of written line, and the round trip of a whole record through \<open>Scan\<close>
  and the harness.
\<close>

section \<open>Bytes and white space\<close>

definition printable :: "char \<Rightarrow> bool" where
  "printable c \<longleftrightarrow> 33 \<le> (of_char c :: nat) \<and> (of_char c :: nat) \<le> 126"

text \<open>A text that begins (ends) in a way that no white space can precede what follows it.\<close>

definition solid_front :: "string \<Rightarrow> bool" where
  "solid_front t \<longleftrightarrow> list_all (\<lambda>n. length (utf8_char n) \<le> length t \<and> \<not> starts_with (utf8_char n) t) space_runes"

definition solid_back :: "string \<Rightarrow> bool" where
  "solid_back t \<longleftrightarrow>
     list_all (\<lambda>n. length (utf8_char n) \<le> length t \<and> \<not> starts_with (rev (utf8_char n)) (rev t)) space_runes"

lemma starts_with_take: "length w \<le> length t \<Longrightarrow> starts_with w (t @ r) = starts_with w t"
  by (simp add: starts_with_def)

lemma solid_front_not: "solid_front t \<Longrightarrow> n \<in> set space_runes \<Longrightarrow> \<not> starts_with (utf8_char n) (t @ r)"
  by (simp add: solid_front_def list_all_iff starts_with_take)

lemma solid_back_not: "solid_back t \<Longrightarrow> n \<in> set space_runes \<Longrightarrow> \<not> starts_with (rev (utf8_char n)) (rev (p @ t))"
  by (simp add: solid_back_def list_all_iff starts_with_take)

lemma space_rune_ends:
  "list_all (\<lambda>n. utf8_char n \<noteq> [] \<and> \<not> printable (hd (utf8_char n)) \<and> \<not> printable (last (utf8_char n))) space_runes"
  by (simp add: space_runes_def utf8_char_def printable_def)

lemma TrimSpace_solid: "solid_front (f @ []) \<Longrightarrow> solid_back b \<Longrightarrow> TrimSpace (f @ m @ b) = f @ m @ b"
  using solid_front_not[of f _ "m @ b"] solid_back_not[of b _ "f @ m"]
  by (intro TrimSpace_keeps) auto

text \<open>A printable ASCII character is solid on both sides.\<close>

lemma front_printable: "printable c \<Longrightarrow> n \<in> set space_runes \<Longrightarrow> \<not> starts_with (utf8_char n) (c # r)"
proof
  assume a: "printable c" "n \<in> set space_runes" "starts_with (utf8_char n) (c # r)"
  then have "hd (utf8_char n) = c" by (metis hd_append2 list.sel(1) starts_with_iff utf8_char_not_Nil)
  then show False using space_rune_ends a(1,2) by (auto simp: list_all_iff)
qed

lemma back_printable:
  assumes "printable c" "n \<in> set space_runes"
  shows "\<not> starts_with (rev (utf8_char n)) (rev (p @ [c]))"
proof
  assume "starts_with (rev (utf8_char n)) (rev (p @ [c]))"
  then obtain r where "rev (p @ [c]) = rev (utf8_char n) @ r" by (auto simp: starts_with_iff)
  then have "p @ [c] = rev r @ utf8_char n" by (metis rev_append rev_rev_ident)
  then have "last (utf8_char n) = c" by (metis last_append last_snoc utf8_char_not_Nil)
  then show False using space_rune_ends assms by (auto simp: list_all_iff)
qed

text \<open>The bytes of a text outside ASCII.\<close>

lemma utf8_char_high:
  "0x80 \<le> n \<Longrightarrow> n < 0x110000 \<Longrightarrow> c \<in> set (utf8_char n) \<Longrightarrow> 128 \<le> (of_char c :: nat)"
  by (auto simp: utf8_char_def split: if_splits)

lemma utf8_high:
  "list_all (\<lambda>n. 0x80 \<le> n \<and> n < 0x110000) ns \<Longrightarrow> c \<in> set (utf8 ns) \<Longrightarrow> 128 \<le> (of_char c :: nat)"
  by (induction ns) (auto simp: utf8_def dest: utf8_char_high)

lemma utf8_no_nl:
  "list_all (\<lambda>n. 0x80 \<le> n \<and> n < 0x110000) ns \<Longrightarrow> nl \<notin> set (utf8 ns)"
  by (auto dest: utf8_high simp: nl_def)

lemma utf8_Cons: "utf8 (n # ns) = utf8_char n @ utf8 ns"
  by (simp add: utf8_def)

lemma digit_no: "is_digit c \<Longrightarrow> of_char c < (128::nat) \<and> c \<noteq> nl \<and> printable c \<and> \<not> is_ws c"
  by (auto simp: is_digit_def nl_def printable_def is_ws_def)

lemma dec_chars: "c \<in> set (dec n) \<Longrightarrow> is_digit c"
  using dec_digits by (simp add: list_all_iff)

lemma itoa_dec: "0 \<le> i \<Longrightarrow> itoa i = dec (nat i)"
  by (simp add: itoa_def)

lemma utf8_solid: "solid_back (utf8 [0x5BA3,
      0x8A00])" "solid_front (utf8 [0x300C])" "solid_back (utf8 [0x63DB])"
  by (simp_all add: solid_back_def solid_front_def space_runes_def utf8_def utf8_char_def starts_with_def)

section \<open>The kinds of written lines\<close>

lemma eq_char_of [simp]: "n < 256 \<Longrightarrow> c = char_of n \<longleftrightarrow> of_char c = (n :: nat)"
  by (metis char_of_char of_char_char_of)

lemma char_of_eq [simp]: "n < 256 \<Longrightarrow> char_of n = c \<longleftrightarrow> of_char c = (n :: nat)"
  by (metis char_of_char of_char_char_of)

lemma lit_hd: "p \<noteq> [] \<Longrightarrow> s \<noteq> [] \<Longrightarrow> hd p \<noteq> hd s \<Longrightarrow> lit p s = None"
  by (cases p; cases s) (auto simp: lit_def starts_with_def)

lemma lit_Nil [simp]: "lit p [] = None \<longleftrightarrow> p \<noteq> []"
  by (auto simp: lit_def starts_with_def)

lemma lit_utf8_digit: "0x80 \<le> n \<Longrightarrow> n < 0x110000 \<Longrightarrow> of_char c < (128::nat) \<Longrightarrow> lit (utf8 (n # ns)) (c # s) = None"
proof (rule lit_hd)
  assume a: "0x80 \<le> n" "n < 0x110000" "of_char c < (128::nat)"
  have "hd (utf8 (n # ns)) \<in> set (utf8_char n)" by (simp add: utf8_Cons)
  then have "128 \<le> (of_char (hd (utf8 (n # ns))) :: nat)" using utf8_char_high a by blast
  then show "hd (utf8 (n # ns)) \<noteq> hd (c # s)" using a by auto
qed simp_all

lemma itoa_digit: "0 \<le> i \<Longrightarrow> i < 10 \<Longrightarrow> itoa i = [digit_char (nat i)]"
  by (simp add: itoa_dec dec.simps)

lemma coordinate_itoa:
  "0 \<le> i \<Longrightarrow> i < 8 \<Longrightarrow> coordinate (itoa i @ s) = Some (digit_char (nat i), s)"
  by (simp add: itoa_digit coordinate_def digit_char_def)

lemma num_digit: "0 \<le> i \<Longrightarrow> i < 10 \<Longrightarrow> int (num [digit_char (nat i)]) = i"
  by (simp add: num_def digit_char_def)

lemma comment_tail_Nil [simp]: "comment_tail [] = Some ''''"
  by (simp add: comment_tail_def)

lemma colourWord_player: "colourWord (playerWord p @ s) = Some (playerWord p, s)"
  by (auto simp: playerWord_def colourWord_def lit_def starts_with_def utf8_def utf8_char_def)

lemma colourWord_ascii: "of_char c < (128::nat) \<Longrightarrow> colourWord (c # s) = None"
  by (simp add: colourWord_def lit_utf8_digit)

lemma turn_word_player: "Player_Valid p \<Longrightarrow> turn_word (playerWord p) = p"
  by (auto simp: Player_Valid_def playerWord_def turn_word_def utf8_def utf8_char_def)

text \<open>What all patterns find in a line, together.\<close>

definition reads :: "string \<Rightarrow> string option \<Rightarrow> string option \<Rightarrow> (string \<times> string) option \<Rightarrow> string option \<Rightarrow>
   string option \<Rightarrow> (char \<times> char \<times> string \<times> string) option \<Rightarrow> bool" where
  "reads l c v s e p m \<longleftrightarrow>
     TrimSpace l = l \<and> l \<noteq> '''' \<and> nl \<notin> set l \<and>
     commentPattern l = c \<and> rulesVersionLinePattern l = v \<and> startLinePattern l = s \<and>
     endLinePattern l = e \<and> passLinePattern l = p \<and> placeLinePattern l = m"

lemma gameid_ascii: "list_all gameid_char g \<Longrightarrow> c \<in> set g \<Longrightarrow> of_char c < (128::nat) \<and> c \<noteq> nl"
  by (auto simp: list_all_iff gameid_char_def Let_def is_digit_def nl_def)

lemma ket_high: "hd (utf8 (0x300D # ns)) = CHR 0xE3"
  by (simp add: utf8_def utf8_char_def)

lemma break_ket:
  "CHR 0xE3 \<notin> set g \<Longrightarrow> break_at (utf8 [0x300D]) (g @ utf8 (0x300D # ns) @ s) = (g, utf8 (0x300D # ns) @ s)"
proof -
  assume g: "CHR 0xE3 \<notin> set g"
  have e: "utf8 (0x300D # ns) = (utf8 [0x300D]) @ utf8 ns" by (simp add: utf8_def)
  show ?thesis
    using break_at_hd[of "(utf8 [0x300D])" g "utf8 ns @ s"] g by (simp add: e ket_high)
qed

lemma gameid_no_ket: "list_all gameid_char g \<Longrightarrow> CHR 0xE3 \<notin> set g"
  using gameid_ascii by fastforce

lemma reads_version: "reads RulesVersionLine None (Some RulesVersion) None None None None"
proof -
  have t: "TrimSpace RulesVersionLine = RulesVersionLine"
    unfolding RulesVersionLine_def append_assoc[symmetric]
    using TrimSpace_solid[of "(utf8 [0x300C])" "(utf8 [0x300D, 0x3067, 0x30EB, 0x30FC, 0x30EB,
      0x7248, 0x5BA3, 0x8A00])" "RulesVersion"] 
    by (simp add: solid_back_def solid_front_def space_runes_def utf8_def utf8_char_def starts_with_def)
  have b: "break_at (utf8 [0x300D]) (RulesVersion @ (utf8 [0x300D, 0x3067, 0x30EB, 0x30FC,
      0x30EB, 0x7248, 0x5BA3, 0x8A00])) = (RulesVersion, (utf8 [0x300D, 0x3067, 0x30EB, 0x30FC,
      0x30EB, 0x7248, 0x5BA3, 0x8A00]))"
    using break_ket[of RulesVersion _ "[]"] by simp
  show ?thesis
    using b unfolding reads_def
    by (simp add: t) (simp add: RulesVersionLine_def commentPattern_def rulesVersionLinePattern_def startLinePattern_def
        endLinePattern_def passLinePattern_def placeLinePattern_def colourWord_def coordinate_def
        lit_def starts_with_def utf8_def utf8_char_def nl_def)
qed

lemmas line_patterns = commentPattern_def rulesVersionLinePattern_def startLinePattern_def
  endLinePattern_def passLinePattern_def placeLinePattern_def

lemmas byte_simps = lit_def starts_with_def utf8_def utf8_char_def

lemma solid_ends:
  "solid_front (utf8 [0x300C])" "solid_back (utf8 [0x300D, 0x3067, 0x30EB, 0x30FC, 0x30EB,
      0x7248, 0x5BA3, 0x8A00])" "solid_back (utf8 [0x3067, 0x5BFE, 0x5C40, 0x958B, 0x59CB])"
  "solid_back (utf8 [0x500B, 0x5909, 0x63DB])" "solid_back (utf8 [0x30D1,
      0x30B9])" "solid_front (playerWord p)"
  by (auto simp: solid_back_def solid_front_def space_runes_def utf8_def utf8_char_def starts_with_def
      playerWord_def)

lemma lit_self [simp]: "lit p p = Some []"
  using lit_append[of p "[]"] by simp

lemma nl_utf8 [simp]: "list_all (\<lambda>n. 0x80 \<le> n \<and> n < 0x110000) ns \<Longrightarrow> (nl \<in> set (utf8 ns)) = False"
  using utf8_no_nl by simp

lemma nl_playerWord [simp]: "nl \<notin> set (playerWord p)"
  by (simp add: playerWord_def)

lemma TrimSpace_printable:
  assumes "printable c" "printable d"
  shows "TrimSpace (c # m @ [d]) = c # m @ [d]"
  using front_printable[OF assms(1), of _ "m @ [d]"] back_printable[OF assms(2), of _ "c # m"]
  by (intro TrimSpace_keeps) auto

lemma TrimSpace_front_printable:
  assumes "printable c" "solid_back b"
  shows "TrimSpace (c # m @ b) = c # m @ b"
  using front_printable[OF assms(1), of _ "m @ b"] solid_back_not[OF assms(2), of _ "c # m"]
  by (intro TrimSpace_keeps) auto

lemma TrimSpace_back_printable:
  assumes "solid_front f" "printable d"
  shows "TrimSpace (f @ m @ [d]) = f @ m @ [d]"
  using solid_front_not[OF assms(1), of _ "m @ [d]"] back_printable[OF assms(2), of _ "f @ m"]
  by (intro TrimSpace_keeps) auto

lemma digits_dec_utf8 [simp]:
  "0x80 \<le> k \<Longrightarrow> k < 0x110000 \<Longrightarrow> digits (dec n @ utf8 (k # ks) @ s) = Some (dec n, utf8 (k # ks) @ s)"
proof -
  assume k: "0x80 \<le> k" "k < 0x110000"
  have "hd (utf8 (k # ks) @ s) \<in> set (utf8_char k)" by (simp add: utf8_Cons)
  then have "\<not> is_digit (hd (utf8 (k # ks) @ s))" using utf8_char_high[OF k] digit_no by fastforce
  then show ?thesis using digits_dec by blast
qed

lemma digits_dec_utf8_end [simp]:
  "0x80 \<le> k \<Longrightarrow> k < 0x110000 \<Longrightarrow> digits (dec n @ utf8 (k # ks)) = Some (dec n, utf8 (k # ks))"
  using digits_dec_utf8[of k n ks "[]"] by simp

lemma dec_no_nl [simp]: "nl \<notin> set (dec n)"
  using dec_chars digit_no by blast

lemma reads_start:
  fixes gid :: string and n :: nat
  assumes g: "ValidateGameID gid = None"
  defines "l \<equiv> (utf8 [0x300C]) @ gid @ (utf8 [0x300D, 0x3068]) @ dec n @ (utf8 [0x3067,
      0x5BFE, 0x5C40, 0x958B, 0x59CB])"
  shows "reads l None None (Some (gid, dec n)) None None None"
proof -
  have ga: "list_all gameid_char gid" and gne: "gid \<noteq> []"
    using g by (auto simp: ValidateGameID_def gameIDPattern_def split: if_splits)
  obtain c cs where gc: "gid = c # cs" using gne by (cases gid) auto
  have c128: "of_char c < (128::nat)" using ga gc gameid_ascii[of gid c] by simp
  have t: "TrimSpace l = l"
    using TrimSpace_solid[of "(utf8 [0x300C])" "(utf8 [0x3067, 0x5BFE, 0x5C40, 0x958B,
      0x59CB])" "gid @ (utf8 [0x300D, 0x3068]) @ dec n"] solid_ends
    by (simp add: l_def)
  have b: "break_at (utf8 [0x300D]) (gid @ (utf8 [0x300D, 0x3068]) @ dec n @ (utf8 [0x3067,
      0x5BFE, 0x5C40, 0x958B, 0x59CB]))
      = (gid, (utf8 [0x300D, 0x3068]) @ dec n @ (utf8 [0x3067, 0x5BFE, 0x5C40, 0x958B, 0x59CB]))"
    using break_ket[OF gameid_no_ket[OF ga]] by blast
  have v: "rulesVersionLinePattern l = None"
    by (simp add: l_def rulesVersionLinePattern_def b) (simp add: byte_simps)
  have s: "startLinePattern l = Some (gid, dec n)"
    by (simp add: l_def startLinePattern_def b lit_Some)
  have e: "endLinePattern l = None"
    by (simp add: l_def endLinePattern_def gc colourWord_ascii c128)
  have o: "commentPattern l = None" "passLinePattern l = None" "placeLinePattern l = None"
    by (simp_all add: l_def line_patterns colourWord_def coordinate_def byte_simps)
  have "nl \<notin> set gid" using gameid_ascii[OF ga] by blast
  then have "nl \<notin> set l" by (simp add: l_def utf8_no_nl)
  with t v s e o show ?thesis by (simp add: reads_def) (simp add: l_def)
qed

lemma reads_pass:
  assumes "Player_Valid p"
  shows "reads (playerWord p @ (utf8 [0x30D1,
      0x30B9])) None None None None (Some (playerWord p)) None"
proof -
  have "TrimSpace (playerWord p @ [] @ (utf8 [0x30D1,
      0x30B9])) = playerWord p @ [] @ (utf8 [0x30D1, 0x30B9])"
    by (rule TrimSpace_solid) (simp_all add: solid_ends)
  moreover have "coordinate (playerWord p @ r) = None" "lit ''#'' (playerWord p @ r) = None"
    "lit (utf8 [0x300C]) (playerWord p @ r) = None" for r
    by (simp_all add: playerWord_def coordinate_def byte_simps)
  ultimately show ?thesis
    by (simp add: reads_def line_patterns colourWord_player lit_Some)
qed

lemma comment_tail_hash: "nl \<notin> set t \<Longrightarrow> comment_tail (''    # '' @ t) = Some ('' '' @ t)"
  "nl \<notin> set t \<Longrightarrow> comment_tail (''   # '' @ t) = Some ('' '' @ t)"
  by (simp_all add: comment_tail_def is_ws_def nl_def)

lemma reads_end:
  fixes p :: string and n k m :: nat
  assumes "Player_Valid p"
  defines "l \<equiv> (utf8 [0x300C]) @ playerWord p @ (utf8 [0x300D, 0x3067, 0x5BFE, 0x5C40,
      0x7D42, 0x4E86] @ ''   # '') @ dec n @ (utf8 [0x624B, 0x3001, 0x8272, 0x5408,
      0x8A08]) @ dec k @ (utf8 [0x3001, 0x99D2]) @ dec m"
  shows "reads l None None None (Some (playerWord p)) None None"
proof -
  have d: "dec m = butlast (dec m) @ [last (dec m)]" "printable (last (dec m))"
    using dec_chars[of "last (dec m)" m] digit_no by simp_all
  have "TrimSpace ((utf8 [0x300C]) @ (playerWord p @ (utf8 [0x300D, 0x3067, 0x5BFE, 0x5C40,
      0x7D42, 0x4E86] @ ''   # '') @ dec n @ (utf8 [0x624B, 0x3001, 0x8272, 0x5408,
      0x8A08]) @ dec k @ (utf8 [0x3001, 0x99D2]) @ butlast (dec m)) @ [last (dec m)])
    = (utf8 [0x300C]) @ (playerWord p @ (utf8 [0x300D, 0x3067, 0x5BFE, 0x5C40, 0x7D42,
      0x4E86] @ ''   # '') @ dec n @ (utf8 [0x624B, 0x3001, 0x8272, 0x5408,
      0x8A08]) @ dec k @ (utf8 [0x3001, 0x99D2]) @ butlast (dec m)) @ [last (dec m)]"
    by (rule TrimSpace_back_printable) (simp_all add: solid_ends d(2))
  then have t: "TrimSpace l = l" using d(1) by (simp add: l_def)
  let ?r = "''   # '' @ dec n @ (utf8 [0x624B, 0x3001, 0x8272, 0x5408,
      0x8A08]) @ dec k @ (utf8 [0x3001, 0x99D2]) @ dec m"
  have k: "CHR 0xE3 \<notin> set (playerWord p)"
    by (auto simp: playerWord_def utf8_def utf8_char_def)
  have b: "break_at (utf8 [0x300D]) (playerWord p @ (utf8 [0x300D, 0x3067, 0x5BFE, 0x5C40,
      0x7D42, 0x4E86]) @ ?r)
    = (playerWord p, (utf8 [0x300D, 0x3067, 0x5BFE, 0x5C40, 0x7D42, 0x4E86]) @ ?r)"
    using break_ket[OF k] by blast
  have v: "rulesVersionLinePattern l = None" "startLinePattern l = None"
    using b by (simp_all add: l_def rulesVersionLinePattern_def startLinePattern_def) (simp_all add: byte_simps)
  have e: "endLinePattern l = Some (playerWord p)"
    using comment_tail_hash(2)[of "dec n @ (utf8 [0x624B, 0x3001, 0x8272, 0x5408,
      0x8A08]) @ dec k @ (utf8 [0x3001, 0x99D2]) @ dec m"]
    by (simp add: l_def endLinePattern_def colourWord_player)
  have o: "commentPattern l = None" "passLinePattern l = None" "placeLinePattern l = None"
    by (simp_all add: l_def line_patterns colourWord_def coordinate_def byte_simps)
  have "nl \<notin> set ''   # ''" by (simp add: nl_def)
  then have "nl \<notin> set l" by (simp add: l_def)
  with t v e o show ?thesis by (simp add: reads_def) (simp add: l_def)
qed

lemma leftmost_here: "f s = Some x \<Longrightarrow> leftmost f s = Some x"
  by (cases s) simp_all

lemma annotation_read:
  "placeAnnotationPattern ('' '' @ (utf8 [0x8272]) @ dec a @ (utf8 [0x3001]) @ dec b @ (utf8 [0x500B, 0x5909, 0x63DB])) = Some (dec a, dec b)"
proof -
  have "placeAnnotationHere (CHR 0x20 # s) = None" for s
    by (simp add: placeAnnotationHere_def lit_utf8_digit)
  moreover have "placeAnnotationHere ((utf8 [0x8272]) @ dec a @ (utf8 [0x3001]) @ dec b @ (utf8 [0x500B, 0x5909, 0x63DB])) = Some (dec a, dec b)"
    by (simp add: placeAnnotationHere_def)
  ultimately show ?thesis
    by (simp add: placeAnnotationPattern_def leftmost_here)
qed

lemma reads_place:
  fixes row col :: int and a b :: nat and p :: string
  assumes "InBounds row col"
  defines "l \<equiv> itoa row @ (utf8 [0x3068]) @ itoa col @ (utf8 [0x3067]) @ playerWord p @ (utf8 [0x7740, 0x624B] @ ''    # '' @ utf8 [0x8272]) @ dec a @ (utf8 [0x3001])
    @ dec b @ (utf8 [0x500B, 0x5909, 0x63DB])"
  shows "reads l None None None None None
    (Some (digit_char (nat row), digit_char (nat col), playerWord p,
       '' '' @ (utf8 [0x8272]) @ dec a @ (utf8 [0x3001]) @ dec b @ (utf8 [0x500B, 0x5909,
      0x63DB])))"
proof -
  have r: "0 \<le> row" "row < 8" "0 \<le> col" "col < 8" using assms(1) by (simp_all add: InBounds_iff)
  have c: "of_char (digit_char (nat row)) = 48 + nat row" using r by (simp add: digit_char_def)
  have i: "itoa row = [digit_char (nat row)]" "itoa col = [digit_char (nat col)]"
    using r by (simp_all add: itoa_digit)
  have d: "is_digit (digit_char (nat row))" "is_digit (digit_char (nat col))" using r by simp_all
  let ?t = "(utf8 [0x8272]) @ dec a @ (utf8 [0x3001]) @ dec b @ (utf8 [0x500B, 0x5909, 0x63DB])"
  have "TrimSpace (digit_char (nat row) # ((utf8 [0x3068]) @ itoa col @ (utf8 [0x3067]) @ playerWord p @ (utf8 [0x7740, 0x624B] @ ''    # '' @ utf8 [0x8272])
      @ dec a @ (utf8 [0x3001]) @ dec b) @ (utf8 [0x500B, 0x5909,
      0x63DB])) = digit_char (nat row) # ((utf8 [0x3068]) @ itoa col @ (utf8 [0x3067])
      @ playerWord p @ (utf8 [0x7740,
      0x624B] @ ''    # '' @ utf8 [0x8272]) @ dec a @ (utf8 [0x3001]) @ dec b) @ (utf8 [0x500B,
      0x5909, 0x63DB])"
    by (rule TrimSpace_front_printable) (simp_all add: solid_ends digit_no d)
  then have t: "TrimSpace l = l" by (simp add: l_def i)
  have "placeLinePattern l = Some (digit_char (nat row), digit_char (nat col), playerWord p, '' '' @ ?t)"
    using coordinate_itoa[OF r(1,2),
      of "(utf8 [0x3068]) @ itoa col @ (utf8 [0x3067]) @ playerWord p @ (utf8 [0x7740,
      0x624B] @ ''    # '' @ utf8 [0x8272]) @ dec a @ (utf8 [0x3001]) @ dec b @ (utf8 [0x500B,
      0x5909, 0x63DB])"]
      coordinate_itoa[OF r(3,4), of "(utf8 [0x3067]) @ playerWord p @ (utf8 [0x7740,
      0x624B] @ ''    # '' @ utf8 [0x8272]) @ dec a @ (utf8 [0x3001]) @ dec b @ (utf8 [0x500B,
      0x5909, 0x63DB])"]
      comment_tail_hash(1)[of ?t]
    by (simp add: l_def placeLinePattern_def colourWord_player)
  moreover have "commentPattern l = None" "passLinePattern l = None" "rulesVersionLinePattern l = None"
    "startLinePattern l = None" "endLinePattern l = None"
    using r c by (simp_all add: l_def i line_patterns colourWord_ascii lit_utf8_digit lit_hd digit_char_def)
  moreover have n: "nl \<noteq> digit_char (nat row)" "nl \<noteq> digit_char (nat col)"
    using digit_no[OF d(1)] digit_no[OF d(2)] by auto
  have "nl \<notin> set ''    # ''" by (simp add: nl_def)
  with n have "nl \<notin> set l" by (simp add: l_def i)
  ultimately show ?thesis using t by (simp add: reads_def) (simp add: l_def i)
qed

section \<open>Header comments\<close>

definition stamp :: "string \<Rightarrow> bool" where
  "stamp t \<longleftrightarrow> list_all printable t"

lemma printable_plain: "printable c \<Longrightarrow> \<not> is_ws c \<and> c \<noteq> nl"
  by (auto simp: printable_def is_ws_def nl_def)

lemma stampPattern_other: "lit w (dropWhile is_ws s) = None \<Longrightarrow> stampPattern w s = None"
  by (simp add: stampPattern_def)

lemma is_ws_space [simp]: "is_ws CHR 0x20"
  by (simp add: is_ws_def)

lemma stampPattern_here:
  assumes "stamp t" "t \<noteq> ''''" "list_all (\<lambda>n. 0x80 \<le> n \<and> n < 0x110000) (k # ks)"
  shows "stampPattern (utf8 (k # ks)) ('' '' @ utf8 (k # ks) @ '' '' @ t) = Some t"
proof -
  have h: "hd (utf8_char k) \<in> set (utf8_char k)" by simp
  have "\<not> is_ws (hd (utf8_char k))"
  proof
    assume "is_ws (hd (utf8_char k))"
    then have "of_char (hd (utf8_char k)) < (128::nat)" by (auto simp: is_ws_def)
    then show False using utf8_char_high[OF _ _ h] assms(3) by simp
  qed
  then have d: "dropWhile is_ws ('' '' @ utf8 (k # ks) @ '' '' @ t) = utf8 (k # ks) @ '' '' @ t"
    by (cases "utf8_char k") (simp_all add: utf8_Cons is_ws_def)
  have t: "list_all (\<lambda>c. \<not> is_ws c) t" using assms(1) by (auto simp: stamp_def list_all_iff printable_plain)
  have "dropWhile is_ws t = t" using t by (cases t) simp_all
  then have e: "dropWhile is_ws ('' '' @ t) = t" by (simp add: is_ws_def)
  have w: "takeWhile (\<lambda>c. \<not> is_ws c) t = t" using t by (simp only: takeWhile_eq_all_conv list_all_iff)
  show ?thesis unfolding stampPattern_def d lit_append Option.bind.bind_lunit e Let_def w using assms(2) by simp
qed

lemma comment_line: "nl \<notin> set r \<Longrightarrow> commentPattern (CHR 0x23 # r) = Some r"
  by (simp add: commentPattern_def lit_def starts_with_def)

abbreviation "title \<equiv> (''# '' @ utf8 [0x30B0, 0x30E9, 0x30C7, 0x30FC, 0x30B7, 0x30E7,
      0x30F3, 0x30EA, 0x30D0, 0x30FC, 0x30B7] @ '' '' @ utf8 [0x5BFE, 0x5C40, 0x8A18,
      0x9332] @ '' v1'')"

lemma dropWhile_ws_utf8:
  "list_all (\<lambda>n. 0x80 \<le> n \<and> n < 0x110000) (k # ks) \<Longrightarrow>
   dropWhile is_ws (CHR 0x20 # utf8 (k # ks) @ r) = utf8 (k # ks) @ r"
proof -
  assume a: "list_all (\<lambda>n. 0x80 \<le> n \<and> n < 0x110000) (k # ks)"
  obtain c cs where c: "utf8_char k = c # cs" by (cases "utf8_char k") auto
  then have "128 \<le> (of_char c :: nat)" using utf8_char_high[of k c] a by simp
  then have "\<not> is_ws c" by (auto simp: is_ws_def)
  then show ?thesis using c by (simp add: utf8_Cons is_ws_def)
qed

lemma title_read:
  "TrimSpace title = title" "title \<noteq> ''''" "nl \<notin> set title"
  "\<exists>r. commentPattern title = Some r \<and> startedAtPattern r = None \<and> endedAtPattern r = None"
proof -
  have "title = CHR 0x23 # ('' '' @ (utf8 [0x30B0, 0x30E9, 0x30C7, 0x30FC, 0x30B7, 0x30E7,
      0x30F3, 0x30EA, 0x30D0, 0x30FC, 0x30B7] @ '' '' @ utf8 [0x5BFE, 0x5C40, 0x8A18,
      0x9332] @ '' v'')) @ ''1''"
    by simp
  then show "TrimSpace title = title"
    using TrimSpace_printable[of "CHR 0x23" "CHR ''1''" "'' '' @ (utf8 [0x30B0, 0x30E9, 0x30C7,
      0x30FC, 0x30B7, 0x30E7, 0x30F3, 0x30EA, 0x30D0, 0x30FC, 0x30B7] @ '' '' @ utf8 [0x5BFE,
      0x5C40, 0x8A18, 0x9332] @ '' v'')"]
    by (simp add: printable_def)
  show "title \<noteq> ''''" by simp
  have n: "nl \<notin> set ('' '' @ (utf8 [0x30B0, 0x30E9, 0x30C7, 0x30FC, 0x30B7, 0x30E7,
      0x30F3, 0x30EA, 0x30D0, 0x30FC, 0x30B7] @ '' '' @ utf8 [0x5BFE, 0x5C40, 0x8A18,
      0x9332] @ '' v1''))" by (simp, simp add: nl_def)
  then show "nl \<notin> set title" by (simp add: nl_def)
  show "\<exists>r. commentPattern title = Some r \<and> startedAtPattern r = None \<and> endedAtPattern r = None"
  proof (intro exI conjI)
    show "commentPattern title = Some ('' '' @ (utf8 [0x30B0, 0x30E9, 0x30C7, 0x30FC, 0x30B7,
      0x30E7, 0x30F3, 0x30EA, 0x30D0, 0x30FC, 0x30B7] @ '' '' @ utf8 [0x5BFE, 0x5C40, 0x8A18,
      0x9332] @ '' v1''))"
      using comment_line[OF n] by simp
    show "startedAtPattern ('' '' @ (utf8 [0x30B0, 0x30E9, 0x30C7, 0x30FC, 0x30B7, 0x30E7,
      0x30F3, 0x30EA, 0x30D0, 0x30FC, 0x30B7] @ '' '' @ utf8 [0x5BFE, 0x5C40, 0x8A18,
      0x9332] @ '' v1'')) = None"
      "endedAtPattern ('' '' @ (utf8 [0x30B0, 0x30E9, 0x30C7, 0x30FC, 0x30B7, 0x30E7, 0x30F3,
      0x30EA, 0x30D0, 0x30FC, 0x30B7] @ '' '' @ utf8 [0x5BFE, 0x5C40, 0x8A18,
      0x9332] @ '' v1'')) = None"
      unfolding startedAtPattern_def endedAtPattern_def
      by (rule stampPattern_other; simp add: dropWhile_ws_utf8; simp add: byte_simps)+
  qed
qed

lemma stamp_line:
  assumes "stamp t" "t \<noteq> ''''" "list_all (\<lambda>n. 0x80 \<le> n \<and> n < 0x110000) ks"
  defines "l \<equiv> ''# '' @ utf8 ks @ '' '' @ t"
  shows "TrimSpace l = l" "l \<noteq> ''''" "nl \<notin> set l"
    "commentPattern l = Some ('' '' @ utf8 ks @ '' '' @ t)"
proof -
  have p: "printable c" if "c \<in> set t" for c using that assms(1) by (simp add: stamp_def list_all_iff)
  have "TrimSpace (CHR 0x23 # ('' '' @ utf8 ks @ '' '' @ butlast t) @ [last t]) = CHR 0x23 # ('' '' @ utf8 ks @ '' '' @ butlast t) @ [last t]"
    by (rule TrimSpace_printable) (simp_all add: p assms(2), simp add: printable_def)
  then show "TrimSpace l = l" using assms(2) by (simp add: l_def)
  show "l \<noteq> ''''" by (simp add: l_def)
  have t: "nl \<notin> set t" using p printable_plain by blast
  have n: "nl \<notin> set ('' '' @ utf8 ks @ '' '' @ t)" using t assms(3) by (simp, simp add: nl_def)
  then show "nl \<notin> set l" by (simp add: l_def) (simp add: nl_def)
  show "commentPattern l = Some ('' '' @ utf8 ks @ '' '' @ t)" using comment_line[OF n] by (simp add: l_def)
qed

lemma stamp_read:
  assumes "stamp t" "t \<noteq> ''''"
  shows "startedAtPattern ('' '' @ (utf8 [0x958B, 0x59CB]) @ '' '' @ t) = Some t"
    "endedAtPattern ('' '' @ (utf8 [0x7D42, 0x4E86]) @ '' '' @ t) = Some t"
  unfolding startedAtPattern_def endedAtPattern_def
  by (rule stampPattern_here; simp add: assms)+

lemma lit_after_space:
  assumes "list_all (\<lambda>n. 0x80 \<le> n \<and> n < 0x110000) (k # ks)" "hd (utf8_char k) \<noteq> hd (utf8_char j)"
  shows "lit (utf8 (j # js)) (dropWhile is_ws ('' '' @ utf8 (k # ks) @ r)) = None"
proof -
  have "dropWhile is_ws ('' '' @ utf8 (k # ks) @ r) = utf8 (k # ks) @ r"
    using dropWhile_ws_utf8[OF assms(1), of r] by simp
  then show ?thesis using assms(2) by (simp only:) (rule lit_hd, simp_all add: utf8_Cons)
qed

lemma stamp_not_read:
  "endedAtPattern ('' '' @ (utf8 [0x958B, 0x59CB]) @ '' '' @ t) = None"
  "startedAtPattern ('' '' @ (utf8 [0x7D42, 0x4E86]) @ '' '' @ t) = None"
  using lit_after_space[of "0x958B" "[0x59CB]" "0x7D42" "[0x4E86]" "'' '' @ t"]
    lit_after_space[of "0x7D42" "[0x4E86]" "0x958B" "[0x59CB]" "'' '' @ t"]
  unfolding startedAtPattern_def endedAtPattern_def
  by (auto intro!: stampPattern_other simp: utf8_char_def)

section \<open>A whole record\<close>

text \<open>A move with what its line notes: the colour placed and the number of pieces converted.\<close>

type_synonym noted = "move \<times> 8 word \<times> nat"

definition noted_ok :: "noted \<Rightarrow> bool" where
  "noted_ok = (\<lambda>(m, c, k). Move_Validate m = None \<and> k < 2 ^ 63)"

definition noted_text :: "noted \<Rightarrow> string" where
  "noted_text = (\<lambda>(m, c, k).
     if mv_Type m = CommandPass then playerWord (mv_Player m) @ (utf8 [0x30D1, 0x30B9])
     else itoa (the (mv_Row m)) @ (utf8 [0x3068]) @ itoa (the (mv_Col m)) @ (utf8 [0x3067]) @ playerWord (mv_Player m)
       @ (utf8 [0x7740,
      0x624B] @ ''    # '' @ utf8 [0x8272]) @ dec (unat c) @ (utf8 [0x3001]) @ dec k @ (utf8 [0x500B, 0x5909, 0x63DB]))"

definition noted_line :: "int \<Rightarrow> int \<Rightarrow> noted \<Rightarrow> move_line" where
  "noted_line i n = (\<lambda>(m, c, k).
     let placed = (mv_Type m \<noteq> CommandPass)
     in \<lparr>ml_Number = i, ml_Line = n, ml_Text = noted_text (m, c, k), ml_Annotated = placed,
         ml_Color = (if placed then int (unat c) else 0), ml_Changed = (if placed then int k else 0)\<rparr>)"

fun noted_lines :: "int \<Rightarrow> int \<Rightarrow> noted list \<Rightarrow> move_line list" where
  "noted_lines i n [] = []"
| "noted_lines i n (x # xs) = noted_line i n x # noted_lines (i + 1) (n + 1) xs"

lemma Move_Validate_None [valid_simps]:
  "Move_Validate m = None \<longleftrightarrow>
     Player_Valid (mv_Player m) \<and>
     (mv_Type m = CommandPlace \<and>
        (\<exists>row col. mv_Row m = Some row \<and> mv_Col m = Some col \<and> InBounds row col) \<or>
      mv_Type m = CommandPass \<and> mv_Row m = None \<and> mv_Col m = None)"
  by (auto simp: Move_Validate_def split: option.splits)

lemma noted_cases:
  assumes "noted_ok x"
  obtains (place) p row col c k where "x = (PlaceMove p row col, c, k)" "Player_Valid p" "InBounds row col" "k < 2 ^ 63"
  | (pass) p c k where "x = (PassMove p, c, k)" "Player_Valid p" "k < 2 ^ 63"
proof -
  obtain m c k where x: "x = (m, c, k)" by (cases x) auto
  then have v: "Move_Validate m = None" "k < 2 ^ 63" using assms by (simp_all add: noted_ok_def)
  then have "\<exists>p row col. m = PlaceMove p row col \<and> Player_Valid p \<and> InBounds row col \<or> m = PassMove p \<and> Player_Valid p"
    by (cases m) (auto simp: Move_Validate_None PlaceMove_def PassMove_def)
  then show ?thesis using place pass x v(2) by blast
qed

lemma reads_fields:
  assumes "reads l c v s e p m"
  shows "TrimSpace l = l" "l \<noteq> ''''" "nl \<notin> set l" "commentPattern l = c"
    "rulesVersionLinePattern l = v" "startLinePattern l = s" "endLinePattern l = e"
    "passLinePattern l = p" "placeLinePattern l = m"
  using assms by (simp_all add: reads_def)

lemma atoi_dec: "n < 2 ^ 63 \<Longrightarrow> atoi_digits (dec n) = Some (int n)"
  by (simp add: atoi_digits_def)

lemma unat_byte: "unat (c :: 8 word) < 2 ^ 63"
  by (rule order_less_trans[OF unsigned_less]) simp

lemma scan_noted:
  assumes "noted_ok x"
  shows "scan_line n (noted_text x) ol =
      Inr (ol\<lparr>ol_MoveLines := ol_MoveLines ol @ [noted_line (int (length (ol_MoveLines ol)) + 1) n x]\<rparr>) \<and>
    nl \<notin> set (noted_text x) \<and>
    line_call (TrimSpace (noted_text x)) =
      Some (if mv_Type (fst x) = CommandPass then PassWord (playerWord (mv_Player (fst x)))
            else PlaceWord (playerWord (mv_Player (fst x))) (the (mv_Row (fst x))) (the (mv_Col (fst x))))"
  using assms
proof (cases x rule: noted_cases[consumes 1])
  case (place p row col c k)
  have t: "noted_text x = itoa row @ (utf8 [0x3068]) @ itoa col @ (utf8 [0x3067]) @ playerWord p @ (utf8 [0x7740, 0x624B] @ ''    # '' @ utf8 [0x8272])
    @ dec (unat c) @ (utf8 [0x3001]) @ dec k @ (utf8 [0x500B, 0x5909, 0x63DB])"
    by (simp add: place noted_text_def PlaceMove_def)
  note r = reads_fields[OF reads_place[OF place(3), of p "unat c" k], folded t]
  have rc: "0 \<le> row" "row < 10" "0 \<le> col" "col < 10" using place(3) by (simp_all add: InBounds_iff)
  have a: "annotate ('' '' @ (utf8 [0x8272]) @ dec (unat c) @ (utf8 [0x3001]) @ dec k @ (utf8 [0x500B, 0x5909, 0x63DB])) ml
    = ml\<lparr>ml_Annotated := True, ml_Color := int (unat c), ml_Changed := int k\<rparr>" for ml
    by (simp only: annotate_def annotation_read atoi_dec[OF unat_byte] atoi_dec[OF place(4)]
        option.case prod.case)
  have l: "noted_line i n x = \<lparr>ml_Number = i, ml_Line = n, ml_Text = noted_text x, ml_Annotated = True,
    ml_Color = int (unat c), ml_Changed = int k\<rparr>" for i
    by (simp add: noted_line_def place PlaceMove_def Let_def)
  show ?thesis
  proof (intro conjI)
    show "scan_line n (noted_text x) ol =
      Inr (ol\<lparr>ol_MoveLines := ol_MoveLines ol @ [noted_line (int (length (ol_MoveLines ol)) + 1) n x]\<rparr>)"
      using r(2) unfolding scan_line_def Let_def r(1,4-9) option.case prod.case a l by simp
    show "line_call (TrimSpace (noted_text x)) =
      Some (if mv_Type (fst x) = CommandPass then PassWord (playerWord (mv_Player (fst x)))
            else PlaceWord (playerWord (mv_Player (fst x))) (the (mv_Row (fst x))) (the (mv_Col (fst x))))"
      unfolding line_call_def r(1,4-9) using rc by (simp add: place(1) PlaceMove_def num_digit)
  qed (rule r(3))
next
  case (pass p c k)
  have t: "noted_text x = playerWord p @ (utf8 [0x30D1,
      0x30B9])" by (simp add: pass noted_text_def PassMove_def)
  note r = reads_fields[OF reads_pass[OF pass(2)], folded t]
  have l: "noted_line i n x = \<lparr>ml_Number = i, ml_Line = n, ml_Text = noted_text x, ml_Annotated = False,
    ml_Color = 0, ml_Changed = 0\<rparr>" for i
    by (simp add: noted_line_def pass PassMove_def Let_def)
  show ?thesis
  proof (intro conjI)
    show "scan_line n (noted_text x) ol =
      Inr (ol\<lparr>ol_MoveLines := ol_MoveLines ol @ [noted_line (int (length (ol_MoveLines ol)) + 1) n x]\<rparr>)"
      using r(2) unfolding scan_line_def Let_def r(1,4-9) option.case l by simp
    show "line_call (TrimSpace (noted_text x)) =
      Some (if mv_Type (fst x) = CommandPass then PassWord (playerWord (mv_Player (fst x)))
            else PlaceWord (playerWord (mv_Player (fst x))) (the (mv_Row (fst x))) (the (mv_Col (fst x))))"
      unfolding line_call_def r(1,4-9) by (simp add: pass(1) PassMove_def)
  qed (rule r(3))
qed

text \<open>The lines of a record: the header, the moves and, for a finished game, the end.\<close>

type_synonym ending = "string \<times> nat \<times> nat \<times> nat"

definition end_text :: "ending \<Rightarrow> string" where
  "end_text = (\<lambda>(w, n, k, m).
     (utf8 [0x300C]) @ playerWord w @ (utf8 [0x300D, 0x3067, 0x5BFE, 0x5C40, 0x7D42,
      0x4E86] @ ''   # '') @ dec n @ (utf8 [0x624B, 0x3001, 0x8272, 0x5408,
      0x8A08]) @ dec k @ (utf8 [0x3001, 0x99D2]) @ dec m)"

definition start_text :: "string \<Rightarrow> 32 word \<Rightarrow> string" where
  "start_text gid seed = (utf8 [0x300C]) @ gid @ (utf8 [0x300D,
      0x3068]) @ dec (unat seed) @ (utf8 [0x3067, 0x5BFE, 0x5C40, 0x958B, 0x59CB])"

definition record_lines :: "string \<Rightarrow> string \<Rightarrow> string \<Rightarrow> 32 word \<Rightarrow> noted list \<Rightarrow> ending option \<Rightarrow> string list" where
  "record_lines startedAt endedAt gid seed xs ending =
     HeaderLines startedAt endedAt @ ['''', RulesVersionLine, start_text gid seed, ''''] @
     map noted_text xs @ (case ending of None \<Rightarrow> [] | Some en \<Rightarrow> ['''', end_text en])"

definition record_ok :: "string \<Rightarrow> string \<Rightarrow> string \<Rightarrow> noted list \<Rightarrow> ending option \<Rightarrow> bool" where
  "record_ok startedAt endedAt gid xs ending \<longleftrightarrow>
     stamp startedAt \<and> stamp endedAt \<and> ValidateGameID gid = None \<and> list_all noted_ok xs \<and>
     pred_option (\<lambda>(w, n, k, m). Player_Valid w) ending"

definition record_outline :: "string \<Rightarrow> string \<Rightarrow> noted list \<Rightarrow> ending option \<Rightarrow> outline" where
  "record_outline startedAt endedAt xs ending =
     (let h = int (length (HeaderLines startedAt endedAt))
      in \<lparr>ol_MoveLines = noted_lines 1 (h + 5) xs, ol_StartedAt = startedAt, ol_EndedAt = endedAt,
          ol_RulesVersion = RulesVersion, ol_RulesVersionLine = h + 2, ol_RulesVersionLines = 1,
          ol_HeaderLines = 1, ol_FooterLines = (if ending = None then 0 else 1)\<rparr>)"

definition record_harness :: "string \<Rightarrow> 32 word \<Rightarrow> noted list \<Rightarrow> ending option \<Rightarrow> harness" where
  "record_harness gid seed xs ending =
     \<lparr>hs_rulesVersion = RulesVersion, hs_gameId = gid, hs_seed = unat seed,
      hs_winner = (case ending of None \<Rightarrow> '''' | Some (w, _) \<Rightarrow> w), hs_moves = map fst xs,
      hs_versionCount = 1, hs_headerCount = 1, hs_footerCount = (if ending = None then 0 else 1)\<rparr>"

lemma scan_lines_append:
  "scan_lines n (xs @ ys) ol =
     (case scan_lines n xs ol of Inl err \<Rightarrow> Inl err | Inr ol' \<Rightarrow> scan_lines (n + int (length xs)) ys ol')"
  by (induction xs arbitrary: n ol) (auto split: sum.split simp: algebra_simps)

lemma scan_blank [simp]: "scan_line n '''' ol = Inr ol"
proof -
  have "TrimSpace '''' = ''''" by (rule TrimSpace_keeps) (simp add: starts_with_def utf8_char_not_Nil[symmetric])
  then show ?thesis by (simp add: scan_line_def)
qed

lemma scan_header:
  assumes "stamp s" "stamp e"
  shows "scan_lines 1 (HeaderLines s e) empty_outline = Inr (empty_outline\<lparr>ol_StartedAt := s, ol_EndedAt := e\<rparr>)"
proof -
  have t: "scan_line n title ol = Inr ol" for n ol
    using title_read by (auto simp: scan_line_def read_comment_def Let_def)
  have a: "scan_line n ((''# '' @ utf8 [0x958B,
      0x59CB] @ '' '') @ s) ol = Inr (if ol_StartedAt ol = '''' then ol\<lparr>ol_StartedAt := s\<rparr> else ol)"
    if "s \<noteq> ''''" for n ol
  proof -
    note l = stamp_line[OF assms(1) that, of "[0x958B, 0x59CB]"]
    have q: "(''# '' @ utf8 [0x958B, 0x59CB] @ '' '') @ s = ''# '' @ (utf8 [0x958B,
      0x59CB]) @ '' '' @ s" by simp
    show ?thesis
      unfolding q scan_line_def Let_def
      using l stamp_read(1)[OF assms(1) that] stamp_not_read(1)[of s]
      by (simp del: append.simps add: read_comment_def)
  qed
  have b: "scan_line n ((''# '' @ utf8 [0x7D42,
      0x4E86] @ '' '') @ e) ol = Inr (if ol_EndedAt ol = '''' then ol\<lparr>ol_EndedAt := e\<rparr> else ol)"
    if "e \<noteq> ''''" for n ol
  proof -
    note l = stamp_line[OF assms(2) that, of "[0x7D42, 0x4E86]"]
    have q: "(''# '' @ utf8 [0x7D42, 0x4E86] @ '' '') @ e = ''# '' @ (utf8 [0x7D42,
      0x4E86]) @ '' '' @ e" by simp
    show ?thesis
      unfolding q scan_line_def Let_def
      using l stamp_read(2)[OF assms(2) that] stamp_not_read(2)[of e]
      by (simp del: append.simps add: read_comment_def)
  qed
  have "scan_lines 1 ([T] @ (if s \<noteq> '''' then [A] else []) @ (if e \<noteq> '''' then [B] else [])) empty_outline
      = Inr (empty_outline\<lparr>ol_StartedAt := s, ol_EndedAt := e\<rparr>)"
    if "\<And>n ol. scan_line n T ol = Inr ol"
      "\<And>n ol. s \<noteq> '''' \<Longrightarrow> scan_line n A ol = Inr (if ol_StartedAt ol = '''' then ol\<lparr>ol_StartedAt := s\<rparr> else ol)"
      "\<And>n ol. e \<noteq> '''' \<Longrightarrow> scan_line n B ol = Inr (if ol_EndedAt ol = '''' then ol\<lparr>ol_EndedAt := e\<rparr> else ol)"
    for T A B
    using that by (simp add: empty_outline_def)
  from this[OF t a b] show ?thesis unfolding HeaderLines_def .
qed

lemma scan_moves:
  "list_all noted_ok xs \<Longrightarrow> scan_lines n (map noted_text xs) ol =
     Inr (ol\<lparr>ol_MoveLines := ol_MoveLines ol @ noted_lines (int (length (ol_MoveLines ol)) + 1) n xs\<rparr>)"
proof (induction xs arbitrary: n ol)
  case (Cons x xs)
  then show ?case using scan_noted[of x n ol] by (simp add: add.commute)
qed simp

lemma scan_version:
  "ol_RulesVersionLine ol = 0 \<Longrightarrow> n \<noteq> 0 \<Longrightarrow> scan_line n RulesVersionLine ol =
     Inr (ol\<lparr>ol_RulesVersionLines := ol_RulesVersionLines ol + 1, ol_RulesVersionLine := n,
              ol_RulesVersion := RulesVersion\<rparr>)"
  using reads_fields(2)[OF reads_version]
  by (simp add: scan_line_def Let_def reads_fields(1,4,5)[OF reads_version])

lemma scan_start:
  assumes "ValidateGameID gid = None"
  shows "scan_line n (start_text gid seed) ol = Inr (ol\<lparr>ol_HeaderLines := ol_HeaderLines ol + 1\<rparr>)"
proof -
  note r = reads_fields[OF reads_start[OF assms, of "unat seed"], folded start_text_def]
  show ?thesis using r(2) unfolding scan_line_def Let_def r(1,4-9) option.case by simp
qed

lemma scan_end:
  assumes "Player_Valid w"
  shows "scan_line n (end_text (w, i, k, m)) ol = Inr (ol\<lparr>ol_FooterLines := ol_FooterLines ol + 1\<rparr>)"
proof -
  have t: "end_text (w, i, k, m) =
      (utf8 [0x300C]) @ playerWord w @ (utf8 [0x300D, 0x3067, 0x5BFE, 0x5C40, 0x7D42,
      0x4E86] @ ''   # '') @ dec i @ (utf8 [0x624B, 0x3001, 0x8272, 0x5408,
      0x8A08]) @ dec k @ (utf8 [0x3001, 0x99D2]) @ dec m"
    by (simp add: end_text_def)
  note r = reads_fields[OF reads_end[OF assms, of i k m], folded t]
  show ?thesis using r(2) unfolding scan_line_def Let_def r(1,4-9) option.case by simp
qed

lemma record_lines_nl:
  assumes "record_ok s e gid xs ending" "l \<in> set (record_lines s e gid seed xs ending)"
  shows "nl \<notin> set l"
proof -
  have h: "nl \<notin> set l" if "l \<in> set (HeaderLines s e)"
    using that assms(1) title_read(3) stamp_line(3)[of s "[0x958B,
      0x59CB]"] stamp_line(3)[of e "[0x7D42, 0x4E86]"]
    by (auto simp: HeaderLines_def record_ok_def split: if_splits)
  have n: "nl \<notin> set l" if "l \<in> set (map noted_text xs)"
    using that assms(1) scan_noted by (auto simp: record_ok_def list_all_iff)
  have "nl \<notin> set RulesVersionLine" using reads_fields(3)[OF reads_version] .
  moreover have "nl \<notin> set (start_text gid seed)"
    using reads_fields(3)[OF reads_start] assms(1) by (simp add: start_text_def record_ok_def)
  moreover have "nl \<notin> set (end_text (w, i, k, m))" if "Player_Valid w" for w i k m
    using reads_fields(3)[OF reads_end[OF that]] by (simp add: end_text_def)
  ultimately show ?thesis
    using assms h n by (auto simp: record_lines_def record_ok_def split: option.splits)
qed

lemma scan_record:
  assumes "record_ok s e gid xs ending"
  shows "Scan (unlines (record_lines s e gid seed xs ending)) = Inr (record_outline s e xs ending)"
proof -
  have v: "stamp s" "stamp e" "ValidateGameID gid = None" "list_all noted_ok xs"
    using assms by (simp_all add: record_ok_def)
  have sp: "split_on nl (unlines (record_lines s e gid seed xs ending)) = record_lines s e gid seed xs ending @ ['''']"
    using split_unlines record_lines_nl[OF assms] by blast
  let ?h = "int (length (HeaderLines s e))"
  have "scan_lines 1 (record_lines s e gid seed xs ending @ ['''']) empty_outline = Inr (record_outline s e xs ending)"
  proof (cases ending)
    case None
    show ?thesis
      unfolding record_lines_def append_assoc scan_lines_append scan_header[OF v(1,2)]
      by (simp add: scan_version scan_start[OF v(3)] scan_lines_append scan_moves[OF v(4)] None
          record_outline_def Let_def empty_outline_def algebra_simps)
  next
    case (Some en)
    obtain w i k m where en: "en = (w, i, k, m)" by (cases en)
    then have w: "Player_Valid w" using assms Some by (simp add: record_ok_def)
    show ?thesis
      unfolding record_lines_def append_assoc scan_lines_append scan_header[OF v(1,2)]
      by (simp add: scan_version scan_start[OF v(3)] scan_lines_append scan_moves[OF v(4)] Some en scan_end[OF w]
          record_outline_def Let_def empty_outline_def algebra_simps)
  qed
  then show ?thesis by (simp add: Scan_def sp)
qed

subsection \<open>The calls that a record makes\<close>

lemma record_calls_append: "record_calls (xs @ ys) = record_calls xs @ record_calls ys"
  by (simp add: record_calls_def List.map_filter_def)

lemma record_calls_Cons:
  "record_calls (x # xs) = (case line_call (TrimSpace x) of None \<Rightarrow> [] | Some c \<Rightarrow> [c]) @ record_calls xs"
  by (simp add: record_calls_def List.map_filter_def split: option.split)

lemma record_calls_Nil [simp]: "record_calls [] = []"
  by (simp add: record_calls_def List.map_filter_def)

lemma lit_empty [simp]: "p \<noteq> [] \<Longrightarrow> lit p [] = None"
  by simp

lemma blank_call: "line_call (TrimSpace '''') = None"
proof -
  have "TrimSpace '''' = ''''" by (rule TrimSpace_keeps) (simp add: starts_with_def utf8_char_not_Nil[symmetric])
  then show ?thesis by (simp add: line_call_def line_patterns colourWord_def coordinate_def)
qed

lemma comment_call: "line_call (CHR 0x23 # r) = None"
  by (simp add: line_call_def line_patterns lit_utf8_digit colourWord_ascii coordinate_def)

lemma header_calls:
  assumes "stamp s" "stamp e"
  shows "record_calls (HeaderLines s e) = []"
proof -
  have "line_call (TrimSpace l) = None" if "l \<in> set (HeaderLines s e)" for l
  proof -
    have "TrimSpace l = l" "\<exists>r. l = CHR 0x23 # r"
      using that assms title_read(1) stamp_line(1)[of s "[0x958B,
      0x59CB]"] stamp_line(1)[of e "[0x7D42, 0x4E86]"]
      by (auto simp: HeaderLines_def split: if_splits)
    then show ?thesis using comment_call by metis
  qed
  then have "filter (\<lambda>x. x \<noteq> None) (map (\<lambda>raw. line_call (TrimSpace raw)) (HeaderLines s e)) = []"
    by (simp add: filter_empty_conv)
  then show ?thesis by (simp add: record_calls_def List.map_filter_def filter_map o_def)
qed

lemma move_calls:
  "list_all noted_ok xs \<Longrightarrow> run_calls (record_calls (map noted_text xs)) h = h\<lparr>hs_moves := hs_moves h @ map fst xs\<rparr>"
proof (induction xs arbitrary: h)
  case Nil
  then show ?case by (simp add: run_calls_def)
next
  case (Cons x xs)
  then have x: "noted_ok x" by simp
  have "harness_call (the (line_call (TrimSpace (noted_text x)))) h = h\<lparr>hs_moves := hs_moves h @ [fst x]\<rparr>"
    using x
  proof (cases x rule: noted_cases[consumes 1])
    case (place p row col c k)
    then show ?thesis
      using scan_noted[OF x, of 0 empty_outline]
      by (simp add: PlaceMove_def add_place_def add_move_def turn_word_player Let_def nth_append list_update_append)
  next
    case (pass p c k)
    then show ?thesis
      using scan_noted[OF x, of 0 empty_outline] by (simp add: PassMove_def add_move_def turn_word_player)
  qed
  moreover have "line_call (TrimSpace (noted_text x)) \<noteq> None"
    using scan_noted[OF x, of 0 empty_outline] by simp
  ultimately show ?case
    using Cons.IH[of "h\<lparr>hs_moves := hs_moves h @ [fst x]\<rparr>"] Cons.prems
    by (auto simp: run_calls_def record_calls_Cons)
qed

lemma calls_of_record:
  assumes "record_ok s e gid xs ending"
  shows "record_calls (split_on nl (unlines (record_lines s e gid seed xs ending))) =
      [DeclareVersion RulesVersion, StartGame gid (unat seed)] @ record_calls (map noted_text xs) @
      (case ending of None \<Rightarrow> [] | Some (w, _) \<Rightarrow> [EndGame (playerWord w)])"
proof -
  have v: "stamp s" "stamp e" "ValidateGameID gid = None" "list_all noted_ok xs"
    using assms by (simp_all add: record_ok_def)
  have sp: "split_on nl (unlines (record_lines s e gid seed xs ending)) = record_lines s e gid seed xs ending @ ['''']"
    using split_unlines record_lines_nl[OF assms] by blast
  have c: "line_call (TrimSpace RulesVersionLine) = Some (DeclareVersion RulesVersion)"
    by (simp add: line_call_def reads_fields[OF reads_version])
  have st: "line_call (TrimSpace (start_text gid seed)) = Some (StartGame gid (unat seed))"
    using reads_fields[OF reads_start[OF v(3), of "unat seed"], folded start_text_def]
    by (simp add: line_call_def)
  have en: "line_call (TrimSpace (end_text (w, i, k, m))) = Some (EndGame (playerWord w))" if "Player_Valid w" for w i k m
  proof -
    have t: "end_text (w, i, k, m) =
        (utf8 [0x300C]) @ playerWord w @ (utf8 [0x300D, 0x3067, 0x5BFE, 0x5C40, 0x7D42,
      0x4E86] @ ''   # '') @ dec i @ (utf8 [0x624B, 0x3001, 0x8272, 0x5408,
      0x8A08]) @ dec k @ (utf8 [0x3001, 0x99D2]) @ dec m"
      by (simp add: end_text_def)
    show ?thesis
      using reads_fields[OF reads_end[OF that, of i k m], folded t] by (simp add: line_call_def)
  qed
  show ?thesis
    unfolding sp using assms
    by (auto simp: record_lines_def record_calls_append record_calls_Cons header_calls[OF v(1,2)] blank_call c st en
        record_ok_def split: option.split)
qed

lemma run_calls_append: "run_calls (xs @ ys) h = run_calls ys (run_calls xs h)"
  by (simp add: run_calls_def)

lemma run_calls_Cons: "run_calls (x # xs) h = run_calls xs (harness_call x h)" "run_calls [] h = h"
  by (simp_all add: run_calls_def)

lemma harness_record:
  assumes "record_ok s e gid xs ending"
  shows "harness_result (unlines (record_lines s e gid seed xs ending)) = record_harness gid seed xs ending"
proof -
  have xs: "list_all noted_ok xs" using assms by (simp add: record_ok_def)
  show ?thesis
  proof (cases ending)
    case None
    then show ?thesis
      unfolding harness_result_def calls_of_record[OF assms] run_calls_append
      by (simp add: run_calls_Cons move_calls[OF xs] harness_start_def record_harness_def)
  next
    case (Some en)
    then show ?thesis
      using assms unfolding harness_result_def calls_of_record[OF assms] run_calls_append
      by (auto simp: run_calls_Cons move_calls[OF xs] harness_start_def record_harness_def record_ok_def
          turn_word_player split: prod.splits)
  qed
qed

lemma num_unat_seed: "unat (seed :: 32 word) < 2 ^ 32"
  using unsigned_less[of seed] by simp

lemma json_record:
  assumes "record_ok s e gid xs ending"
  shows "script_json (unlines (record_lines s e gid seed xs ending)) = Inr (harness_output (record_harness gid seed xs ending))"
  using num_unat_seed[of seed]
  by (simp add: script_json_def harness_record[OF assms] Let_def record_harness_def)

lemma contains_high: "list_all (\<lambda>c. of_char c < (128::nat)) t \<Longrightarrow> \<not> contains (utf8 [0xFF5B]) t"
proof -
  assume "list_all (\<lambda>c. of_char c < (128::nat)) t"
  then have "leftmost (\<lambda>r. if starts_with (utf8 [0xFF5B]) r then Some () else None) t = None"
    by (induction t) (auto simp: starts_with_def utf8_def utf8_char_def)
  then show ?thesis by (simp add: contains_def)
qed

lemma move_calls_plain:
  "list_all noted_ok xs \<Longrightarrow>
   list_all (\<lambda>c. case c of DeclareVersion _ \<Rightarrow> False | StartGame _ _ \<Rightarrow> False | _ \<Rightarrow> True) (record_calls (map noted_text xs))"
proof (induction xs)
  case (Cons x xs)
  then show ?case using scan_noted[of x 0 empty_outline] by (auto simp: record_calls_Cons)
qed simp

lemma plain_record_text:
  assumes "record_ok s e gid xs ending"
  shows "plain_record (unlines (record_lines s e gid seed xs ending))"
proof -
  have g: "list_all gameid_char gid"
    using assms by (simp add: record_ok_def ValidateGameID_def gameIDPattern_def split: if_splits)
  have "CHR ''{'' \<notin> set gid" using g by (auto simp: list_all_iff gameid_char_def is_digit_def Let_def)
  moreover have "\<not> contains (utf8 [0xFF5B]) gid"
    using gameid_ascii[OF g] by (intro contains_high) (simp add: list_all_iff)
  moreover have "list_all noted_ok xs" using assms by (simp add: record_ok_def)
  note move_calls_plain[OF this]
  ultimately show ?thesis
    unfolding plain_record_def calls_of_record[OF assms]
    by (auto simp: contains_high list_all_iff split: option.split word_call.splits)
qed

end
