(* ===== verification/ReplayLemmas.thy ===== *)
theory ReplayLemmas
  imports ScanLemmas Store
begin

text \<open>
  Replaying is faithful: the harness reproduces a game from the moves of its accepted commands; a
  record that the writer produced decodes to what was written; a replayed record, written again,
  replays to the same frames. The Go interface \<open>ScriptRunner\<close> is the locale \<open>record_runner\<close>.
\<close>

section \<open>The harness plays the game\<close>

text \<open>The accepted commands of a game with their events and the states after them.\<close>

type_synonym act = "command \<times> event \<times> state"

fun acts :: "state \<Rightarrow> command list \<Rightarrow> act list" where
  "acts s [] = []"
| "acts s (c # cs) =
     (case (rs_Event (apply_command s c), rs_State (apply_command s c)) of
        (Some e, Some s') \<Rightarrow> (c, e, s') # acts s' cs
      | _ \<Rightarrow> [])"

definition replay_event :: "event \<Rightarrow> state \<Rightarrow> event" where
  "replay_event e s' = e\<lparr>ev_CommandID := ''replay-'' @ itoa (st_TurnNumber s')\<rparr>"

fun act_frames :: "int \<Rightarrow> act list \<Rightarrow> script_frame list" where
  "act_frames n [] = []"
| "act_frames n ((c, e, s') # as) =
     \<lparr>sf_TurnNumber = st_TurnNumber s', sf_MoveNumber = n + 1, sf_State = s',
      sf_Event = Some (replay_event e s')\<rparr> # act_frames (n + 1) as"

lemma apply_place_id:
  "rs_OK (apply_place s cid' row col) = rs_OK (apply_place s cid row col)"
  "rs_State (apply_place s cid' row col) = rs_State (apply_place s cid row col)"
  "rs_Event (apply_place s cid' row col) =
     map_option (\<lambda>e. e\<lparr>ev_CommandID := cid'\<rparr>) (rs_Event (apply_place s cid row col))"
  by (simp_all add: apply_place_def error_response_def ok_response_def Let_def case_prod_beta)

lemma apply_pass_id:
  "rs_OK (apply_pass s cid') = rs_OK (apply_pass s cid)"
  "rs_State (apply_pass s cid') = rs_State (apply_pass s cid)"
  "rs_Event (apply_pass s cid') =
     map_option (\<lambda>e. e\<lparr>ev_CommandID := cid'\<rparr>) (rs_Event (apply_pass s cid))"
  by (simp_all add: apply_pass_def error_response_def ok_response_def Let_def)

lemma accepted_timely: "length (cells s) = 64 \<Longrightarrow> accepts s c = Some s' \<Longrightarrow> command_timely s c"
  using accepts_iff by blast

lemma harness_accepts:
  assumes "length (cells s) = 64" "accepts s c = Some s'" "apply_command s c = ok_response s' (Some e)"
  shows "rs_OK (harness_apply s (MoveFromCommand c)) \<and> rs_State (harness_apply s (MoveFromCommand c)) = Some s' \<and>
    rs_Event (harness_apply s (MoveFromCommand c)) = Some (replay_event e s')"
proof -
  note t = accepted_timely[OF assms(1,2)]
  have n: "command_check s c = None" using t by (simp add: command_check_None)
  have turn: "st_TurnNumber s' = st_TurnNumber s + 1" using accepts_turn[OF assms(1,2)] by simp
  show ?thesis
  proof (cases "cm_Type c = ''place''")
    case True
    then obtain row col where rc: "cm_Row c = Some row" "cm_Col c = Some col"
      using t by (auto simp: command_timely_def)
    have "apply_place s (cm_CommandID c) row col = ok_response s' (Some e)"
      using assms(3) n True rc by (simp add: apply_command_def)
    then show ?thesis
      using True rc turn apply_place_id[of s _ row col "cm_CommandID c"]
      by (simp add: harness_apply_def harness_command_def MoveFromCommand_def replay_event_def Let_def)
  next
    case False
    then have "cm_Type c = ''pass''" using t by (simp add: command_timely_def)
    moreover have "apply_pass s (cm_CommandID c) = ok_response s' (Some e)"
      using assms(3) n False by (simp add: apply_command_def)
    ultimately show ?thesis
      using turn apply_pass_id[of s _ "cm_CommandID c"]
      by (simp add: harness_apply_def harness_command_def MoveFromCommand_def replay_event_def Let_def)
  qed
qed

lemma harness_plays:
  "game_inv s \<Longrightarrow> play s cs = Some s' \<Longrightarrow>
   harness_play n s (map MoveFromCommand cs) = (act_frames n (acts s cs), None)"
proof (induction cs arbitrary: s n)
  case (Cons c cs)
  then obtain s1 where s1: "accepts s c = Some s1" "play s1 cs = Some s'"
    by (auto split: option.splits)
  obtain e where e: "apply_command s c = ok_response s1 (Some e)" using accepts_Some[OF s1(1)] by blast
  note h = harness_accepts[OF game_inv_length[OF Cons.prems(1)] s1(1) e]
  show ?case
    using h Cons.IH[OF accepts_inv[OF Cons.prems(1) s1(1)] s1(2), of "n + 1"] e by simp
qed simp

lemma acts_play:
  "play s cs = Some s' \<Longrightarrow> length (acts s cs) = length cs \<and> map fst (acts s cs) = cs \<and>
     last (s # map (\<lambda>(c, e, t). t) (acts s cs)) = s'"
proof (induction cs arbitrary: s)
  case (Cons c cs)
  then obtain s1 where s1: "accepts s c = Some s1" "play s1 cs = Some s'"
    by (auto split: option.splits)
  obtain e where e: "apply_command s c = ok_response s1 (Some e)" using accepts_Some[OF s1(1)] by blast
  show ?case using Cons.IH[OF s1(2)] e by simp
qed simp

lemma acts_snoc:
  "play s cs = Some s1 \<Longrightarrow> accepts s1 c = Some s2 \<Longrightarrow> apply_command s1 c = ok_response s2 (Some e) \<Longrightarrow>
     acts s (cs @ [c]) = acts s cs @ [(c, e, s2)]"
proof (induction cs arbitrary: s)
  case (Cons d cs)
  then obtain t where t: "accepts s d = Some t" "play t cs = Some s1"
    by (auto split: option.splits)
  obtain e' where e': "apply_command s d = ok_response t (Some e')" using accepts_Some[OF t(1)] by blast
  show ?case using Cons.IH[OF t(2) Cons.prems(2,3)] e' by simp
qed simp

lemma act_frames_append:
  "act_frames n (as @ bs) = act_frames n as @ act_frames (n + int (length as)) bs"
proof (induction as arbitrary: n)
  case (Cons a as)
  then show ?case by (cases a) (simp add: algebra_simps)
qed simp

section \<open>Moves of commands\<close>

lemma MoveFromCommand_valid:
  "Command_Validate c = None \<Longrightarrow> Move_Validate (MoveFromCommand c) = None"
  by (auto simp: Command_Validate_None Move_Validate_None MoveFromCommand_def)

lemma Move_Command_roundtrip:
  assumes "Move_Validate m = None"
  shows "MoveFromCommand (Move_Command m n) = m"
  using assms by (cases m) (auto simp: Move_Validate_None MoveFromCommand_def Move_Command_def)

lemma accepted_move_valid:
  assumes "length (cells s) = 64" "accepts s c = Some s'"
  shows "Move_Validate (MoveFromCommand c) = None"
proof -
  note t = accepted_timely[OF assms]
  show ?thesis
    using t assms(2)[unfolded accepts_iff[OF assms(1)]]
    by (auto simp: Move_Validate_None MoveFromCommand_def command_timely_def in_board_InBounds)
qed

text \<open>How many pieces a placement can convert.\<close>

lemma changes_bound:
  assumes "rs_Event (apply_place s cid row col) = Some e"
  shows "length (elems (ev_Changes e)) \<le> 64"
proof -
  have e: "elems (ev_Changes e) = snd (flip_lines (cells s) (st_NextColor s) (sandwich_lines (cells s) row col))"
    and r: "in_board row col"
    using assms by (auto simp: apply_place_def error_response_def ok_response_def Let_def case_prod_beta in_board_def
        split: if_splits)
  let ?f = "flips (cells s) (st_NextColor s) (sandwich_lines (cells s) row col)"
  have d: "length (butlast (run (cells s) row col d)) \<le> 8" for d
    using length_walk[of 8 "cells s" "row + fst d" "col + snd d" "fst d" "snd d"]
    by (simp add: ray_eq_run)
  have "length ?f = length (map fst ?f)" by simp
  also have "\<dots> = sum_list (map (\<lambda>d. length (butlast (run (cells s) row col d))) directions)"
    by (simp only: map_fst_flips length_concat map_map o_def)
  also have "\<dots> \<le> sum_list (map (\<lambda>d. 8) directions)" by (rule sum_list_mono) (rule d)
  finally have "length ?f \<le> 64" by (simp add: directions_def)
  then show ?thesis by (simp add: e flip_lines_eq)
qed

section \<open>What the writer writes\<close>

text \<open>A frame after a move, as the writer notes it.\<close>

definition noted_of :: "frame \<Rightarrow> noted" where
  "noted_of f =
     (the (fr_Move f),
      (case fr_Event f of None \<Rightarrow> 0 | Some e \<Rightarrow> (case ev_PlacedColor e of None \<Rightarrow> 0 | Some c \<Rightarrow> c)),
      (case fr_Event f of None \<Rightarrow> 0 | Some e \<Rightarrow> length (elems (ev_Changes e))))"

definition frame_ok :: "frame \<Rightarrow> bool" where
  "frame_ok f \<longleftrightarrow> fr_Move f \<noteq> None \<and> noted_ok (noted_of f)"

lemma PlaceLine_noted:
  "Player_Valid p \<Longrightarrow> InBounds row col \<Longrightarrow>
   PlaceLine p row col c (int k) = Inr (noted_text (PlaceMove p row col, c, k))"
  by (simp add: PlaceLine_def noted_text_def PlaceMove_def itoa_dec)

lemma PassLine_noted: "Player_Valid p \<Longrightarrow> PassLine p = Inr (noted_text (PassMove p, c, k))"
  by (simp add: PassLine_def noted_text_def PassMove_def)

lemma encodeFrame_noted:
  assumes "frame_ok f"
  shows "encodeFrame f (the (fr_Move f)) = Inr (noted_text (noted_of f))"
proof -
  have n: "noted_ok (noted_of f)" using assms by (simp add: frame_ok_def)
  then show ?thesis
  proof (cases "noted_of f" rule: noted_cases[consumes 1])
    case (place p row col c k)
    then have m: "fr_Move f = Some (PlaceMove p row col)" "c = fst (snd (noted_of f))" "k = snd (snd (noted_of f))"
      using assms by (auto simp: frame_ok_def noted_of_def)
    then have "encodeFrame f (the (fr_Move f)) = PlaceLine p row col c (int k)"
      by (auto simp: encodeFrame_def PlaceMove_def noted_of_def split: option.splits)
    then show ?thesis by (simp add: PlaceLine_noted[OF place(2,3)] place(1))
  next
    case (pass p c k)
    then have m: "fr_Move f = Some (PassMove p)" using assms by (auto simp: frame_ok_def noted_of_def)
    then have "encodeFrame f (the (fr_Move f)) = PassLine p" by (simp add: encodeFrame_def PassMove_def)
    then show ?thesis using PassLine_noted[OF pass(2)] pass(1) by simp
  qed
qed

lemma encode_frames_noted:
  "list_all frame_ok fs \<Longrightarrow> encode_frames fs out = Inr (out @ unlines (map (noted_text \<circ> noted_of) fs))"
proof (induction fs arbitrary: out)
  case Nil
  then show ?case by (simp add: unlines_def)
next
  case (Cons f fs)
  then have "fr_Move f = Some (the (fr_Move f))" by (simp add: frame_ok_def)
  with Cons encodeFrame_noted[of f] show ?case by (cases "fr_Move f") (simp_all add: unlines_def)
qed

lemma boardTotals_eq: "boardTotals b = (int (color_sum (elems b)), int (pieces (elems b)))"
proof -
  have "foldl (\<lambda>(colorSum, pieceCount) cell. case cell of None \<Rightarrow> (colorSum, pieceCount)
        | Some c \<Rightarrow> (colorSum + int (unat c), pieceCount + 1)) (a, n) cs
      = (a + int (color_sum cs), n + int (pieces cs))" for a n and cs :: "cell list"
    by (induction cs arbitrary: a n) (auto simp: color_sum_def pieces_def cell_color_def split: option.split)
  then show ?thesis by (simp add: boardTotals_def)
qed

definition ending_of :: "frame list \<Rightarrow> state \<Rightarrow> ending option" where
  "ending_of fs final =
     (if st_Phase final \<noteq> PhaseFinished then None
      else Some (the (st_Winner final), length fs, color_sum (cells final), pieces (cells final)))"

lemma unlines_append: "unlines (xs @ ys) = unlines xs @ unlines ys"
  by (simp add: unlines_def)

lemma unlines_Cons: "unlines (x # xs) = x @ [nl] @ unlines xs" "unlines [] = []"
  by (simp_all add: unlines_def)

lemma start_line_text: "ValidateGameID gid = None \<Longrightarrow> StartLine gid seed = Inr (start_text gid seed)"
  by (simp add: StartLine_def start_text_def)

lemma end_line_text:
  "Player_Valid w \<Longrightarrow> EndLine w (int n) (int k) (int m) = Inr (end_text (w, n, k, m))"
  by (simp add: EndLine_def end_text_def itoa_dec)

lemma EncodeResult_text:
  assumes "rr_Frames r = f0 # fs" "list_all frame_ok fs" "ValidateGameID (sc_GameID (rr_Script r)) = None"
    and "st_Phase (FinalState r) = PhaseFinished \<Longrightarrow> \<exists>w. st_Winner (FinalState r) = Some w \<and> Player_Valid w"
  shows "EncodeResult (Some r) = Inr (unlines (record_lines (sc_StartedAt (rr_Script r)) (sc_EndedAt (rr_Script r))
      (sc_GameID (rr_Script r)) (sc_Seed (rr_Script r)) (map noted_of fs) (ending_of fs (FinalState r))))"
proof (cases "st_Phase (FinalState r) = PhaseFinished")
  case False
  then show ?thesis
    by (simp add: EncodeResult_def assms(1,3) Let_def start_line_text encode_frames_noted[OF assms(2)]
        record_lines_def ending_of_def unlines_append unlines_Cons)
next
  case True
  then obtain w where w: "st_Winner (FinalState r) = Some w" "Player_Valid w" using assms(4) by blast
  have n: "int (length (rr_Frames r)) - 1 = int (length fs)" by (simp add: assms(1))
  show ?thesis
    unfolding EncodeResult_def option.case Let_def n
    by (simp add: assms(1,3) start_line_text encode_frames_noted[OF assms(2)] w True boardTotals_eq end_line_text
        record_lines_def ending_of_def unlines_append unlines_Cons)
qed

section \<open>The script runner\<close>

text \<open>
  What a decoder relies on: when a run of the harness and a plain record ends without an error, it
  printed the JSON of what the harness computes from the record's calls.
\<close>

locale record_runner =
  fixes harness :: string and runner :: script_run and unmarshal :: "string \<Rightarrow> string + script"
  assumes faithful:
    "Scan source = Inr ol \<Longrightarrow> plain_record source \<Longrightarrow> runner (combine harness source) = Inr out \<Longrightarrow>
       unmarshal out = script_json source"
begin

lemma decode_plain:
  assumes "Decode harness runner unmarshal source = Inr (script, ol)" "plain_record source"
  shows "Scan source = Inr ol \<and> hs_seed (harness_result source) < 2 ^ 32 \<and>
    script = (harness_output (harness_result source))\<lparr>sc_StartedAt := ol_StartedAt ol, sc_EndedAt := ol_EndedAt ol\<rparr>"
proof -
  obtain out decoded where o: "Scan source = Inr ol" "runner (combine harness source) = Inr out"
    "unmarshal out = Inr decoded" "script = decoded\<lparr>sc_StartedAt := ol_StartedAt ol, sc_EndedAt := ol_EndedAt ol\<rparr>"
    using assms(1) by (auto simp: Decode_def Let_def split: sum.splits if_splits option.splits script_error.splits prod.splits)
  then show ?thesis using faithful[OF o(1) assms(2) o(2)] by (auto simp: script_json_def Let_def split: if_splits)
qed

lemma decode_record:
  assumes ok: "record_ok s e gid xs ending"
    and run: "runner (combine harness (unlines (record_lines s e gid seed xs ending))) = Inr out"
  shows "Decode harness runner unmarshal (unlines (record_lines s e gid seed xs ending)) =
    Inr ((harness_output (record_harness gid seed xs ending))\<lparr>sc_StartedAt := s, sc_EndedAt := e\<rparr>,
         record_outline s e xs ending)"
proof -
  let ?src = "unlines (record_lines s e gid seed xs ending)"
  have u: "unmarshal out = Inr (harness_output (record_harness gid seed xs ending))"
    using faithful[OF scan_record[OF ok] plain_record_text[OF ok] run] json_record[OF ok] by simp
  have f: "sc_Version (harness_output h) = Version" "sc_RulesVersion (harness_output h) = hs_rulesVersion h"
    "sc_GameID (harness_output h) = hs_gameId h" "sc_Moves (harness_output h) = hs_moves h" for h
    by (simp_all add: harness_output_def Let_def case_prod_beta)
  have m: "Move_Validate (fst x) = None" if "x \<in> set xs" for x
    using that ok by (auto simp: record_ok_def noted_ok_def list_all_iff)
  have c: "check_moves ?src ol (map fst xs) = None" for ol
  proof -
    have "find (\<lambda>(index, m). Move_Validate m \<noteq> None) (enumerate 0 (map fst xs)) = None"
      using m by (auto simp: find_None_iff in_set_enumerate_eq)
    then show ?thesis by (simp add: check_moves_def)
  qed
  have g: "ValidateGameID gid = None" using ok by (simp add: record_ok_def)
  show ?thesis
    unfolding Decode_def scan_record[OF ok] run u sum.case
    using c g by (simp add: f record_outline_def record_harness_def Let_def)
qed

end

text \<open>The gonako runner is one, when the process prints what the harness computes.\<close>

locale gonako_script =
  fixes harness :: string and g :: script_runner and prepare :: "string \<Rightarrow> string option"
    and cmd :: "string \<Rightarrow> process_result" and unmarshal :: "string \<Rightarrow> string + script"
  assumes prints:
    "Scan source = Inr ol \<Longrightarrow> plain_record source \<Longrightarrow> pr_CtxErr (cmd (combine harness source)) = None \<Longrightarrow>
       pr_RunErr (cmd (combine harness source)) = None \<Longrightarrow>
       unmarshal (pr_Stdout (cmd (combine harness source))) = script_json source"
begin

lemma script_Run_ok:
  "script_Run g prepare cmd src = Inr out \<Longrightarrow>
     pr_CtxErr (cmd src) = None \<and> pr_RunErr (cmd src) = None \<and> out = pr_Stdout (cmd src)"
  by (cases "pr_CtxErr (cmd src)"; cases "the (pr_CtxErr (cmd src))")
    (auto simp: script_Run_def Let_def split: option.splits)

end

sublocale gonako_script \<subseteq> record_runner harness "script_Run g prepare cmd" unmarshal
  by unfold_locales (use script_Run_ok prints in blast)

text \<open>
  The harness in place of the process: the text it prints stands for the JSON of the record it ran;
  \<open>fails\<close> are the failures of the platform.
\<close>

definition source_of :: "string \<Rightarrow> string \<Rightarrow> string" where
  "source_of harness combined =
     take (length combined - length harness - length outputCall - 3) (drop (length harness + 1) combined)"

definition harness_process :: "(string \<Rightarrow> run_error option) \<Rightarrow> string \<Rightarrow> string \<Rightarrow> process_result" where
  "harness_process fails harness combined =
     \<lparr>pr_Stdout = source_of harness combined, pr_Stderr = '''', pr_CtxErr = None,
      pr_RunErr = fails (source_of harness combined)\<rparr>"

definition harness_runner :: "(string \<Rightarrow> run_error option) \<Rightarrow> script_runner \<Rightarrow> string \<Rightarrow> script_run" where
  "harness_runner fails g harness = script_Run g (\<lambda>_. None) (harness_process fails harness)"

definition record_decoder :: "(string \<Rightarrow> run_error option) \<Rightarrow> script_runner \<Rightarrow> string \<Rightarrow> decoder" where
  "record_decoder fails g harness = Decode harness (harness_runner fails g harness) script_json"

lemma source_of_combine [simp]: "source_of harness (combine harness source) = source"
  by (simp add: source_of_def combine_def)

interpretation harness_script: gonako_script harness g "\<lambda>_. None" "harness_process fails harness" script_json
  for harness g fails
  by unfold_locales (simp add: harness_process_def)

lemma harness_runner_ok:
  "fails source = None \<Longrightarrow> harness_runner fails g harness (combine harness source) = Inr source"
  by (simp add: harness_runner_def script_Run_def harness_process_def Let_def)

lemma record_decoder_record:
  assumes "record_ok s e gid xs ending" "fails (unlines (record_lines s e gid seed xs ending)) = None"
  shows "record_decoder fails g harness (unlines (record_lines s e gid seed xs ending)) =
    Inr ((harness_output (record_harness gid seed xs ending))\<lparr>sc_StartedAt := s, sc_EndedAt := e\<rparr>,
         record_outline s e xs ending)"
  using harness_script.decode_record[OF assms(1) harness_runner_ok[where fails = fails, OF assms(2), of g harness, unfolded harness_runner_def]]
  by (simp add: record_decoder_def harness_runner_def)

section \<open>Frames\<close>

fun frames_from :: "outline \<Rightarrow> nat \<Rightarrow> move list \<Rightarrow> script_frame list \<Rightarrow> frame list" where
  "frames_from ol i (m # ms) (sf # sfs) = make_frame ol i m sf # frames_from ol (Suc i) ms sfs"
| "frames_from ol i _ _ = []"

lemma replay_frames_loose: "replay_frames ol False i ms sfs = Inr (frames_from ol i ms sfs)"
  by (induction ol i ms sfs rule: frames_from.induct) simp_all

lemma replay_frames_strict:
  "replay_frames ol True i ms sfs = Inr fs \<longleftrightarrow>
     fs = frames_from ol i ms sfs \<and>
     (\<forall>k < length fs. verifyAnnotation ol (i + k) (fs ! k) = None)"
proof (induction ol i ms sfs arbitrary: fs rule: frames_from.induct)
  case (1 ol i m ms sf sfs)
  let ?f = "make_frame ol i m sf"
  show ?case
  proof (cases "verifyAnnotation ol i ?f")
    case (Some err)
    then show ?thesis by (auto simp: Let_def)
  next
    case None
    have e: "(\<forall>k < length (?f # gs). verifyAnnotation ol (i + k) ((?f # gs) ! k) = None) \<longleftrightarrow>
        (\<forall>k < length gs. verifyAnnotation ol (Suc i + k) (gs ! k) = None)" for gs
      using None by (auto simp: less_Suc_eq_0_disj)
    have "replay_frames ol True i (m # ms) (sf # sfs) = Inr fs \<longleftrightarrow>
        (\<exists>gs. fs = ?f # gs \<and> replay_frames ol True (Suc i) ms sfs = Inr gs)" for fs
      using None by (auto simp: Let_def split: sum.split)
    note r = this
    have "(\<exists>gs. fs = ?f # gs \<and> gs = F \<and> Q gs) \<longleftrightarrow> fs = ?f # F \<and> P fs" if "\<And>gs. P (?f # gs) = Q gs"
      for P Q :: "frame list \<Rightarrow> bool" and F
      using that by auto
    note this[of "\<lambda>fs. \<forall>k < length fs. verifyAnnotation ol (i + k) (fs ! k) = None", OF e]
    then show ?thesis unfolding r 1 frames_from.simps .
  qed
qed auto

lemma frames_from_nth:
  "k < length (frames_from ol i ms sfs) \<Longrightarrow>
     k < length ms \<and> k < length sfs \<and> frames_from ol i ms sfs ! k = make_frame ol (i + k) (ms ! k) (sfs ! k)"
proof (induction ol i ms sfs arbitrary: k rule: frames_from.induct)
  case (1 ol i m ms sf sfs)
  then show ?case by (cases k) auto
qed auto

lemma length_frames_from [simp]: "length (frames_from ol i ms sfs) = min (length ms) (length sfs)"
  by (induction ol i ms sfs rule: frames_from.induct) auto

lemma frames_from_take: "frames_from ol i (take n ms) sfs = take n (frames_from ol i ms sfs)"
proof (induction ms arbitrary: n i sfs)
  case (Cons m ms)
  then show ?case by (cases n; cases sfs) simp_all
qed simp

lemma nth_noted_lines: "k < length xs \<Longrightarrow> noted_lines i n xs ! k = noted_line (i + int k) (n + int k) (xs ! k)"
proof (induction xs arbitrary: i n k)
  case (Cons x xs)
  then show ?case by (cases k) (auto simp: algebra_simps)
qed simp

lemma length_noted_lines [simp]: "length (noted_lines i n xs) = length xs"
  by (induction xs arbitrary: i n) auto

lemma cloneEvent_simps [simp]:
  "cloneEvent None = None"
  "cloneEvent (Some e) = Some (e\<lparr>ev_Changes := slice_copy (ev_Changes e)\<rparr>)"
  by (simp add: cloneEvent_def, cases e, simp add: cloneEvent_def slice_copy_def split: option.split)

definition noted_matches :: "noted \<Rightarrow> script_frame \<Rightarrow> bool" where
  "noted_matches = (\<lambda>(m, c, k) sf.
     case sf_Event sf of
       None \<Rightarrow> True
     | Some e \<Rightarrow> mv_Type m \<noteq> CommandPass \<longrightarrow>
         c = (case ev_PlacedColor e of None \<Rightarrow> 0 | Some c \<Rightarrow> c) \<and> k = length (elems (ev_Changes e)))"

lemma verify_noted:
  assumes "ol_MoveLines ol = noted_lines i n xs" "k < length xs" "noted_matches (xs ! k) sf"
  shows "verifyAnnotation ol k (make_frame ol j m sf) = None"
proof -
  obtain m' c q where x: "xs ! k = (m', c, q)" by (cases "xs ! k") auto
  show ?thesis
    using assms x
    by (auto simp: verifyAnnotation_def nth_noted_lines make_frame_def noted_line_def noted_matches_def Let_def
        split: option.splits)
qed

lemma noted_of_frame:
  "fst (noted_of (make_frame ol i m sf)) = m"
  "noted_matches (noted_of (make_frame ol j m sf)) sf"
  by (auto simp: noted_of_def make_frame_def noted_matches_def split: option.splits)

text \<open>A frame without its line number.\<close>

definition unlined :: "frame \<Rightarrow> frame" where
  "unlined f = f\<lparr>fr_Line := 0\<rparr>"

lemma unlined_frames: "map unlined (frames_from ol i ms sfs) = map unlined (frames_from ol' j ms sfs)"
proof (induction ol i ms sfs arbitrary: j rule: frames_from.induct)
  case (1 ol i m ms sf sfs)
  then show ?case by (simp add: unlined_def make_frame_def)
qed simp_all

section \<open>Replaying a written record\<close>

lemma harness_output_fields [simp]:
  "sc_Version (harness_output h) = ''1''" "sc_GameID (harness_output h) = hs_gameId h"
  "sc_Seed (harness_output h) = of_nat (hs_seed h)" "sc_Winner (harness_output h) = hs_winner h"
  "sc_Moves (harness_output h) = hs_moves h" "sc_FooterCount (harness_output h) = hs_footerCount h"
  "sc_RulesVersion (harness_output h) = hs_rulesVersion h"
  by (simp_all add: harness_output_def Let_def case_prod_beta)

lemma harness_output_played:
  assumes "harness_play 0 (new_game (hs_gameId h) (of_nat (hs_seed h))) (hs_moves h) = (sfs, None)"
  shows "sc_OK (harness_output h)"
    "sc_Frames (harness_output h) =
       \<lparr>sf_TurnNumber = 0, sf_MoveNumber = 0, sf_State = new_game (hs_gameId h) (of_nat (hs_seed h)), sf_Event = None\<rparr> # sfs"
  using assms by (simp_all add: harness_output_def Let_def)

lemma harness_play_length:
  "snd (harness_play n s ms) = None \<Longrightarrow> length (fst (harness_play n s ms)) = length ms"
  by (induction n s ms rule: harness_play.induct)
    (auto simp: Let_def case_prod_beta split: option.splits bool.splits)

lemma harness_ok_played:
  assumes "sc_OK (harness_output h)"
  obtains sfs where "harness_play 0 (new_game (hs_gameId h) (of_nat (hs_seed h))) (hs_moves h) = (sfs, None)"
    "length sfs = length (hs_moves h)"
proof -
  obtain sfs x where p: "harness_play 0 (new_game (hs_gameId h) (of_nat (hs_seed h))) (hs_moves h) = (sfs, x)"
    by fastforce
  then have "x = None" using assms by (simp add: harness_output_def Let_def)
  then show ?thesis
    using that p harness_play_length[of 0 "new_game (hs_gameId h) (of_nat (hs_seed h))" "hs_moves h"] by simp
qed

definition finals :: "state \<Rightarrow> frame list \<Rightarrow> state" where
  "finals s fs = fr_State (last (first_frame s # fs))"

lemma FinalState_last: "rr_Frames r \<noteq> [] \<Longrightarrow> FinalState r = fr_State (last (rr_Frames r))"
  by (simp add: FinalState_def last_conv_nth)

lemma unlined_fields [simp]:
  "fr_Move (unlined f) = fr_Move f" "fr_TurnNumber (unlined f) = fr_TurnNumber f"
  "fr_State (unlined f) = fr_State f"
  by (simp_all add: unlined_def)

lemma finals_unlined: "map unlined fs = map unlined gs \<Longrightarrow> finals s fs = finals s gs"
proof -
  assume "map unlined fs = map unlined gs"
  then have "map fr_State (map unlined fs) = map fr_State (map unlined gs)" by simp
  then have "map fr_State fs = map fr_State gs" by (simp add: unlined_def o_def)
  moreover have "finals s hs = last (fr_State (first_frame s) # map fr_State hs)" for hs :: "frame list"
    by (simp add: finals_def last_map)
  ultimately show ?thesis by (simp only:)
qed

lemma noted_of_unlined: "map unlined fs = map unlined gs \<Longrightarrow> map noted_of fs = map noted_of gs"
proof -
  assume "map unlined fs = map unlined gs"
  then have "map noted_of (map unlined fs) = map noted_of (map unlined gs)" by simp
  moreover have "noted_of (unlined f) = noted_of f" for f by (simp add: unlined_def noted_of_def)
  ultimately show ?thesis by (simp add: o_def)
qed

lemma replay_record:
  assumes ok: "record_ok s e gid xs (Some (w, n, k, m))"
    and src: "source = unlines (record_lines s e gid seed xs (Some (w, n, k, m)))"
    and fails: "fails source = None"
    and played: "harness_play 0 (new_game gid seed) (map fst xs) = (sfs, None)"
    and annots: "list_all2 noted_matches xs sfs"
    and frames: "fs = frames_from (record_outline s e xs (Some (w, n, k, m))) 0 (map fst xs) sfs"
    and final: "st_Phase (finals (new_game gid seed) fs) = PhaseFinished" "st_Winner (finals (new_game gid seed) fs) = Some w"
  shows "Replay (record_decoder fails g harness) source =
    Inr \<lparr>rr_Script = (harness_output (record_harness gid seed xs (Some (w, n, k, m))))\<lparr>sc_StartedAt := s, sc_EndedAt := e\<rparr>,
         rr_Outline = record_outline s e xs (Some (w, n, k, m)),
         rr_Frames = first_frame (new_game gid seed) # fs\<rparr>"
proof -
  let ?en = "Some (w, n, k, m)"
  let ?h = "record_harness gid seed xs ?en"
  let ?ol = "record_outline s e xs ?en"
  let ?sc = "(harness_output ?h)\<lparr>sc_StartedAt := s, sc_EndedAt := e\<rparr>"
  have d: "record_decoder fails g harness source = Inr (?sc, ?ol)"
    using record_decoder_record[OF ok, where fails = fails] fails src by simp
  have hp: "harness_play 0 (new_game (hs_gameId ?h) (of_nat (hs_seed ?h))) (hs_moves ?h) = (sfs, None)"
    using played by (simp add: record_harness_def)
  have len: "length sfs = length xs" using annots by (simp add: list_all2_lengthD)
  have ml: "ol_MoveLines ?ol = noted_lines 1 (int (length (HeaderLines s e)) + 5) xs"
    by (simp add: record_outline_def Let_def)
  have "replay_frames ?ol True 0 (map fst xs) sfs = Inr fs"
    unfolding replay_frames_strict
  proof (intro conjI allI impI frames)
    fix i assume i: "i < length fs"
    then have i': "i < length xs" "i < length sfs" using len by (simp_all add: frames)
    have "fs ! i = make_frame ?ol i (fst (xs ! i)) (sfs ! i)"
      using frames_from_nth[of i ?ol 0 "map fst xs" sfs] i i' by (simp add: frames)
    then show "verifyAnnotation ?ol (0 + i) (fs ! i) = None"
      using verify_noted[OF ml i'(1), of "sfs ! i"] annots i' by (simp add: list_all2_conv_all_nth)
  qed
  moreover have "FinalState \<lparr>rr_Script = ?sc, rr_Outline = ?ol, rr_Frames = first_frame (new_game gid seed) # fs\<rparr>
      = finals (new_game gid seed) fs"
    by (simp add: FinalState_last finals_def)
  ultimately show ?thesis
    using final harness_output_played[OF hp] len
    by (simp add: Replay_def ReplayWith_def d Let_def record_harness_def verifyFinished_def Script_Finished_def)
qed

section \<open>Writing a replayed record again\<close>

lemma run_calls_winner:
  "Player_Valid (hs_winner h) \<or> hs_footerCount h = 0 \<Longrightarrow> 0 \<le> hs_footerCount h \<Longrightarrow>
     (Player_Valid (hs_winner (run_calls cs h)) \<or> hs_footerCount (run_calls cs h) = 0) \<and> 0 \<le> hs_footerCount (run_calls cs h)"
proof (induction cs arbitrary: h)
  case (Cons c cs)
  have "(Player_Valid (hs_winner (harness_call c h)) \<or> hs_footerCount (harness_call c h) = 0) \<and> 0 \<le> hs_footerCount (harness_call c h)"
    using Cons.prems
    by (cases c) (auto simp: add_place_def add_move_def Let_def turn_word_def Player_Valid_def)
  with Cons.IH show ?case by (simp add: run_calls_Cons)
qed (simp add: run_calls_Cons)

lemma harness_winner: "hs_footerCount (harness_result source) = 1 \<Longrightarrow> Player_Valid (hs_winner (harness_result source))"
  using run_calls_winner[of harness_start] by (fastforce simp: harness_result_def harness_start_def)

lemma check_moves_None: "check_moves source ol ms = None \<Longrightarrow> m \<in> set ms \<Longrightarrow> Move_Validate m = None"
proof (rule ccontr)
  assume a: "check_moves source ol ms = None" "m \<in> set ms" "Move_Validate m \<noteq> None"
  from a(2) obtain i where "i < length ms" "ms ! i = m" by (auto simp: in_set_conv_nth)
  then have "(i, m) \<in> set (enumerate 0 ms)" by (simp add: in_set_enumerate_eq)
  then have "find (\<lambda>(index, m). Move_Validate m \<noteq> None) (enumerate 0 ms) \<noteq> None"
    using a(3) by (auto simp: find_None_iff)
  then obtain j m' where "find (\<lambda>(index, m). Move_Validate m \<noteq> None) (enumerate 0 ms) = Some (j, m')" by auto
  moreover from this have "Move_Validate m' \<noteq> None" by (auto simp: find_Some_iff)
  ultimately show False using a(1) by (auto simp: check_moves_def Let_def split: option.splits)
qed

lemma decoded_checks:
  assumes "Decode harness runner unmarshal source = Inr (script, ol)"
  shows "ValidateGameID (sc_GameID script) = None \<and> (\<forall>m \<in> set (sc_Moves script). Move_Validate m = None)"
  using assms check_moves_None
  by (auto simp: Decode_def Let_def split: sum.splits if_splits option.splits script_error.splits prod.splits)

lemma harness_events_bound:
  "sf \<in> set (fst (harness_play n s ms)) \<Longrightarrow> sf_Event sf = Some e \<Longrightarrow> length (elems (ev_Changes e)) \<le> 64"
proof (induction n s ms rule: harness_play.induct)
  case (2 n s m ms)
  have a: "length (elems (ev_Changes e)) \<le> 64" if "rs_Event (harness_apply s m) = Some e"
    using that changes_bound
    by (auto simp: harness_apply_def Let_def apply_pass_def error_response_def ok_response_def split: if_splits)
  show ?case
    using 2 a
    by (auto simp: Let_def case_prod_beta split: option.splits bool.splits if_splits)
qed simp

text \<open>What a successful replay of a plain record tells about its parts.\<close>

lemma replayed_parts:
  assumes "Replay (record_decoder fails g harness) source = Inr r" "plain_record source"
  obtains script ol sfs where
    "r = \<lparr>rr_Script = script, rr_Outline = ol, rr_Frames = first_frame (new_game (sc_GameID script) (sc_Seed script))
         # frames_from ol 0 (sc_Moves script) sfs\<rparr>"
    "harness_play 0 (new_game (sc_GameID script) (sc_Seed script)) (sc_Moves script) = (sfs, None)"
    "length sfs = length (sc_Moves script)" "ValidateGameID (sc_GameID script) = None"
    "\<forall>m \<in> set (sc_Moves script). Move_Validate m = None" "Player_Valid (sc_Winner script)"
    "st_Phase (FinalState r) = PhaseFinished" "st_Winner (FinalState r) = Some (sc_Winner script)"
proof -
  obtain script ol where dec: "record_decoder fails g harness source = Inr (script, ol)"
    using assms(1) by (auto simp: Replay_def ReplayWith_def split: sum.splits)
  let ?h = "harness_result source" and ?s0 = "new_game (sc_GameID script) (sc_Seed script)"
  have d: "Decode harness (script_Run g (\<lambda>_. None) (harness_process fails harness)) script_json source = Inr (script, ol)"
    using dec by (simp add: record_decoder_def harness_runner_def)
  have sc: "script = (harness_output ?h)\<lparr>sc_StartedAt := ol_StartedAt ol, sc_EndedAt := ol_EndedAt ol\<rparr>"
    using harness_script.decode_plain[OF d assms(2)] by simp
  have ok: "sc_OK script" using assms(1) dec by (auto simp: Replay_def ReplayWith_def split: if_splits)
  then obtain sfs where p: "harness_play 0 ?s0 (sc_Moves script) = (sfs, None)"
    and len: "length sfs = length (sc_Moves script)"
    using harness_ok_played[of ?h] by (auto simp: sc)
  have frames0: "sc_Frames script = \<lparr>sf_TurnNumber = 0, sf_MoveNumber = 0, sf_State = ?s0, sf_Event = None\<rparr> # sfs"
    using harness_output_played(2)[of ?h sfs] p by (simp add: sc)
  have r: "r = \<lparr>rr_Script = script, rr_Outline = ol, rr_Frames = first_frame ?s0 # frames_from ol 0 (sc_Moves script) sfs\<rparr>"
    and fin: "verifyFinished r = None"
    using assms(1) ok len frames0 unfolding Replay_def ReplayWith_def dec
    by (auto simp: Let_def replay_frames_strict split: sum.splits option.splits)
  have w: "st_Phase (FinalState r) = PhaseFinished" "st_Winner (FinalState r) = Some (sc_Winner script)"
    "sc_FooterCount script = 1"
    using fin by (auto simp: verifyFinished_def Let_def Script_Finished_def r split: if_splits)
  have "Player_Valid (sc_Winner script)" using harness_winner[of source] w(3) by (simp add: sc)
  then show ?thesis using decoded_checks[OF d] w(1,2) by (intro that[OF r p len]) simp_all
qed

lemma frames_from_notes:
  assumes "length sfs = length ms"
  shows "map fst (map noted_of (frames_from ol 0 ms sfs)) = ms"
    "list_all2 noted_matches (map noted_of (frames_from ol 0 ms sfs)) sfs"
proof -
  have nth: "frames_from ol 0 ms sfs ! i = make_frame ol i (ms ! i) (sfs ! i)" if "i < length ms" for i
    using frames_from_nth[of i ol 0 ms sfs] that assms by simp
  show "map fst (map noted_of (frames_from ol 0 ms sfs)) = ms"
    by (rule nth_equalityI) (simp_all add: assms nth noted_of_frame)
  show "list_all2 noted_matches (map noted_of (frames_from ol 0 ms sfs)) sfs"
    by (simp add: list_all2_conv_all_nth assms nth noted_of_frame)
qed

lemma frames_from_ok:
  assumes "harness_play n s ms = (sfs, None)" "length sfs = length ms" "\<forall>m \<in> set ms. Move_Validate m = None"
  shows "list_all frame_ok (frames_from ol 0 ms sfs)"
  unfolding list_all_length
proof (intro allI impI)
  fix i assume "i < length (frames_from ol 0 ms sfs)"
  then have i: "i < length ms" "i < length sfs" by simp_all
  have f: "frames_from ol 0 ms sfs ! i = make_frame ol i (ms ! i) (sfs ! i)"
    using frames_from_nth[of i ol 0 ms sfs] i by simp
  have "length (elems (ev_Changes e)) \<le> 64" if "sf_Event (sfs ! i) = Some e" for e
    using harness_events_bound[OF _ that, of n s ms] assms(1) i by simp
  then have "snd (snd (noted_of (make_frame ol i (ms ! i) (sfs ! i)))) \<le> 64"
    by (cases "sf_Event (sfs ! i)") (simp_all add: noted_of_def make_frame_def)
  then have "snd (snd (noted_of (make_frame ol i (ms ! i) (sfs ! i)))) < 2 ^ 63"
    by (rule order_le_less_trans) simp
  then show "frame_ok (frames_from ol 0 ms sfs ! i)"
    using assms(3) i noted_of_frame(1)[of ol i "ms ! i" "sfs ! i"]
    by (simp add: frame_ok_def noted_ok_def f case_prod_beta) (simp add: make_frame_def)
qed

lemma FinalState_first: "rr_Frames r = first_frame s # fs \<Longrightarrow> FinalState r = finals s fs"
  by (simp add: FinalState_last finals_def)

lemma Result_Record_unlined:
  assumes "rr_Frames r = first_frame s # fs" "rr_Frames r' = first_frame s # fs'" "map unlined fs' = map unlined fs"
    "sc_GameID (rr_Script r') = sc_GameID (rr_Script r)" "sc_Seed (rr_Script r') = sc_Seed (rr_Script r)"
    "sc_StartedAt (rr_Script r') = sc_StartedAt (rr_Script r)" "sc_EndedAt (rr_Script r') = sc_EndedAt (rr_Script r)"
    "sc_Winner (rr_Script r') = sc_Winner (rr_Script r)"
  shows "Result_Record r' = Result_Record r"
proof -
  let ?c = "\<lambda>f. case fr_Move f of None \<Rightarrow> [] | Some m \<Rightarrow> [Move_Command m (fr_TurnNumber f - 1)]"
  have u: "concat (map ?c gs) = concat (map ?c (map unlined gs))" for gs
    by (simp add: o_def cong: option.case_cong)
  have "concat (map ?c fs') = concat (map ?c fs)" by (simp only: u[of fs'] u[of fs] assms(3))
  moreover have "FinalState r' = FinalState r"
    using FinalState_first[OF assms(1)] FinalState_first[OF assms(2)] finals_unlined[OF assms(3)] by simp
  ultimately show ?thesis using assms by (simp add: Result_Record_def)
qed

lemma reencode:
  assumes rep: "Replay (record_decoder fails g harness) source = Inr r" and plain: "plain_record source"
    and stamps: "stamp (sc_StartedAt (rr_Script r))" "stamp (sc_EndedAt (rr_Script r))"
    and fails: "\<And>src. fails src = None"
  shows "\<exists>source' r'. EncodeResult (Some r) = Inr source' \<and>
    Replay (record_decoder fails g harness) source' = Inr r' \<and> EncodeResult (Some r') = Inr source' \<and>
    map unlined (rr_Frames r') = map unlined (rr_Frames r) \<and> Result_Record r' = Result_Record r"
  using rep plain
proof (cases rule: replayed_parts)
  case (1 script ol sfs)
  let ?s0 = "new_game (sc_GameID script) (sc_Seed script)"
  define fs where "fs = frames_from ol 0 (sc_Moves script) sfs"
  note r = 1(1)[folded fs_def]
  note fok = frames_from_ok[OF 1(2,3,5), of ol, folded fs_def]
  note nts = frames_from_notes[OF 1(3), of ol, folded fs_def]
  let ?xs = "map noted_of fs"
  let ?en = "Some (sc_Winner script, length fs, color_sum (cells (FinalState r)), pieces (cells (FinalState r)))"
  have final: "FinalState r = finals ?s0 fs" by (rule FinalState_first) (simp add: r)
  have en: "ending_of fs (FinalState r) = ?en" using 1(7,8) by (simp add: ending_of_def)
  define source' where "source' = unlines (record_lines (sc_StartedAt script) (sc_EndedAt script)
    (sc_GameID script) (sc_Seed script) ?xs ?en)"
  have enc: "EncodeResult (Some r) = Inr source'"
    unfolding source'_def using EncodeResult_text[of r "first_frame ?s0" fs] fok 1(4,6,7,8) en by (simp add: r)
  have rok: "record_ok (sc_StartedAt script) (sc_EndedAt script) (sc_GameID script) ?xs ?en"
    using stamps fok 1(4,6) by (simp add: record_ok_def r list_all_iff frame_ok_def)
  have played: "harness_play 0 ?s0 (map fst ?xs) = (sfs, None)" using 1(2) by (simp only: nts(1))
  define fs' where "fs' = frames_from (record_outline (sc_StartedAt script) (sc_EndedAt script) ?xs ?en) 0 (map fst ?xs) sfs"
  have "map unlined (frames_from o' 0 (sc_Moves script) sfs) = map unlined fs" for o'
    unfolding fs_def by (rule unlined_frames)
  then have un: "map unlined fs' = map unlined fs" by (simp only: fs'_def nts(1))
  let ?sc' = "(harness_output (record_harness (sc_GameID script) (sc_Seed script) ?xs ?en))
    \<lparr>sc_StartedAt := sc_StartedAt script, sc_EndedAt := sc_EndedAt script\<rparr>"
  let ?r' = "\<lparr>rr_Script = ?sc', rr_Outline = record_outline (sc_StartedAt script) (sc_EndedAt script) ?xs ?en,
     rr_Frames = first_frame ?s0 # fs'\<rparr>"
  have rep': "Replay (record_decoder fails g harness) source' = Inr ?r'"
    using replay_record[OF rok source'_def fails played nts(2) fs'_def] 1(7,8) final finals_unlined[OF un] by simp
  have "Result_Record ?r' = Result_Record r"
    by (rule Result_Record_unlined[where s = ?s0 and fs = fs and fs' = fs'])
      (simp_all add: r un record_harness_def)
  moreover have "EncodeResult (Some ?r') = Inr source'"
  proof -
    have fr: "rr_Frames ?r' = first_frame ?s0 # fs'" by simp
    have final': "FinalState ?r' = FinalState r"
      using FinalState_first[OF fr] final finals_unlined[OF un] by simp
    note fok' = frames_from_ok[OF 1(2,3,5), of "rr_Outline ?r'"]
    have ns: "map noted_of fs' = ?xs" by (rule noted_of_unlined[OF un])
    have ln: "length fs' = length fs" using arg_cong[OF un, of length] by simp
    have "list_all frame_ok fs'" using fok' unfolding fs'_def nts(1) by simp
    then have "EncodeResult (Some ?r') = Inr (unlines (record_lines (sc_StartedAt script) (sc_EndedAt script)
        (sc_GameID script) (sc_Seed script) (map noted_of fs') (ending_of fs' (FinalState ?r'))))"
      using EncodeResult_text[OF fr, unfolded final'] 1(4,6,7,8) unfolding final' by (simp add: record_harness_def)
    moreover have "ending_of fs' (FinalState ?r') = ?en" using en unfolding final' ending_of_def ln .
    ultimately show ?thesis unfolding ns source'_def by (simp only:)
  qed
  ultimately show ?thesis using enc rep' un by (auto simp: r)
qed

end
