(* ===== verification/ReplayErrors.thy ===== *)
theory ReplayErrors
  imports ReplayLemmas
begin

text \<open>
  What reading and replaying guarantee for every source, runner and decoded script: the vocabulary
  that \<open>Scan\<close> admits, the location that an error names, the checks of a strict replay, and the
  replay up to a move as a prefix of the whole replay.
\<close>

section \<open>The vocabulary\<close>

definition admitted :: "string \<Rightarrow> bool" where
  "admitted text \<longleftrightarrow>
     text = '''' \<or> commentPattern text \<noteq> None \<or> rulesVersionLinePattern text \<noteq> None \<or>
     startLinePattern text \<noteq> None \<or> endLinePattern text \<noteq> None \<or> passLinePattern text \<noteq> None \<or>
     placeLinePattern text \<noteq> None"

definition syntax_error :: "int \<Rightarrow> string \<Rightarrow> source_error" where
  "syntax_error line text =
     (source_error CodeRecordSyntaxError (utf8 [0x68CB, 0x8B5C, 0x306E, 0x6587, 0x6CD5, 0x306B,
      0x5408, 0x308F, 0x306A, 0x3044, 0x884C, 0x3067, 0x3059]))\<lparr>sx_Line := line,
      sx_Source := text\<rparr>"

lemma scan_line_admits:
  "\<not> admitted (TrimSpace raw) \<Longrightarrow> scan_line n raw ol = Inl (syntax_error n (TrimSpace raw))"
  "admitted (TrimSpace raw) \<Longrightarrow> \<exists>ol'. scan_line n raw ol = Inr ol'"
  by (auto simp: admitted_def scan_line_def Let_def syntax_error_def split: option.split)

lemma scan_lines_vocabulary:
  "scan_lines n raws ol =
     (case find (\<lambda>(i, raw). \<not> admitted (TrimSpace raw)) (enumerate k raws) of
        Some (i, raw) \<Rightarrow> Inl (syntax_error (n + int (i - k)) (TrimSpace raw))
      | None \<Rightarrow> scan_lines n raws ol)"
proof (induction raws arbitrary: n ol k)
  case (Cons raw raws)
  show ?case
  proof (cases "admitted (TrimSpace raw)")
    case True
    then obtain ol' where ol': "scan_line n raw ol = Inr ol'" using scan_line_admits by blast
    show ?thesis
    proof (cases "find (\<lambda>(i, raw). \<not> admitted (TrimSpace raw)) (enumerate (Suc k) raws)")
      case None
      then show ?thesis using True by simp
    next
      case (Some p)
      obtain i r where p: "p = (i, r)" by (cases p)
      then have "Suc k \<le> i" using Some by (auto simp: find_Some_iff nth_enumerate_eq)
      then have "n + 1 + int (i - Suc k) = n + int (i - k)" by simp
      then show ?thesis using True ol' Some p Cons.IH[of "n + 1" ol' "Suc k"] by simp
    qed
  qed (simp add: scan_line_admits)
qed simp

lemma scan_lines_total:
  "\<forall>raw \<in> set raws. admitted (TrimSpace raw) \<Longrightarrow> \<exists>ol'. scan_lines n raws ol = Inr ol'"
proof (induction raws arbitrary: n ol)
  case (Cons raw raws)
  then obtain ol' where "scan_line n raw ol = Inr ol'" using scan_line_admits(2) by force
  with Cons show ?case by simp
qed simp

lemma Scan_vocabulary:
  "case find (\<lambda>(i, raw). \<not> admitted (TrimSpace raw)) (enumerate 0 (split_on nl source)) of
     Some (i, raw) \<Rightarrow> Scan source = Inl (syntax_error (int i + 1) (TrimSpace raw))
   | None \<Rightarrow> \<exists>ol. Scan source = Inr ol"
proof (cases "find (\<lambda>(i, raw). \<not> admitted (TrimSpace raw)) (enumerate 0 (split_on nl source))")
  case None
  have "admitted (TrimSpace raw)" if r: "raw \<in> set (split_on nl source)" for raw
  proof (rule ccontr)
    assume n: "\<not> admitted (TrimSpace raw)"
    obtain i where "i < length (split_on nl source)" "split_on nl source ! i = raw"
      using r by (auto simp: in_set_conv_nth)
    then have "(i, raw) \<in> set (enumerate 0 (split_on nl source))" by (simp add: in_set_enumerate_eq)
    then show False using None n by (auto simp: find_None_iff)
  qed
  then show ?thesis using None scan_lines_total by (simp add: Scan_def)
next
  case (Some p)
  then show ?thesis
    using scan_lines_vocabulary[of 1 "split_on nl source" empty_outline 0]
    by (cases p) (simp add: Scan_def add.commute)
qed

section \<open>Locations\<close>

text \<open>A line number and a text that belong together: no line, or a line of the source, trimmed.\<close>

definition located :: "string \<Rightarrow> int \<Rightarrow> string \<Rightarrow> bool" where
  "located source line text \<longleftrightarrow>
     0 \<le> line \<and> line \<le> int (length (split_on nl source)) \<and> text = lineAt source line"

definition outline_located :: "string \<Rightarrow> outline \<Rightarrow> bool" where
  "outline_located source ol \<longleftrightarrow>
     (\<forall>ml \<in> set (ol_MoveLines ol). located source (ml_Line ml) (ml_Text ml)) \<and>
     located source (ol_RulesVersionLine ol) (lineAt source (ol_RulesVersionLine ol))"

lemma located_line:
  "k < length (split_on nl source) \<Longrightarrow> located source (int k + 1) (TrimSpace (split_on nl source ! k))"
  by (simp add: located_def lineAt_def Let_def)

lemma annotate_fields [simp]:
  "ml_Line (annotate c ml) = ml_Line ml" "ml_Text (annotate c ml) = ml_Text ml"
  by (auto simp: annotate_def split: option.split)

lemma read_comment_located:
  "outline_located source ol \<Longrightarrow> outline_located source (read_comment c ol)"
  by (auto simp: outline_located_def read_comment_def Let_def split: option.split)

lemma scan_line_located:
  assumes "outline_located source ol" "scan_line n raw ol = Inr ol'" "located source n (TrimSpace raw)"
  shows "outline_located source ol'"
  using assms read_comment_located[OF assms(1)]
  by (auto simp: scan_line_def Let_def outline_located_def located_def split: if_splits option.splits)

lemma scan_lines_located:
  "outline_located source ol \<Longrightarrow> scan_lines (int k + 1) (drop k (split_on nl source)) ol = Inr ol' \<Longrightarrow>
     outline_located source ol'"
proof (induction "length (split_on nl source) - k" arbitrary: k ol)
  case (Suc d)
  then have k: "k < length (split_on nl source)" by simp
  obtain ol1 where o: "scan_line (int k + 1) (split_on nl source ! k) ol = Inr ol1"
    "scan_lines (int (Suc k) + 1) (drop (Suc k) (split_on nl source)) ol1 = Inr ol'"
    using Suc.prems(2) by (auto simp: Cons_nth_drop_Suc[OF k, symmetric] algebra_simps split: sum.splits)
  have "outline_located source ol1"
    using scan_line_located[OF Suc.prems(1) o(1) located_line[OF k]] .
  then show ?case using Suc.hyps(1)[of "Suc k" ol1] Suc.hyps(2) o(2) by simp
qed simp

lemma Scan_located: "Scan source = Inr ol \<Longrightarrow> outline_located source ol"
  using scan_lines_located[of source empty_outline 0 ol]
  by (simp add: Scan_def outline_located_def empty_outline_def located_def)

lemma find_enumerate_Some:
  "find P (enumerate 0 xs) = Some (i, x) \<Longrightarrow> i < length xs \<and> x = xs ! i"
proof -
  assume "find P (enumerate 0 xs) = Some (i, x)"
  then have "(i, x) \<in> set (enumerate 0 xs)" by (auto simp: find_Some_iff in_set_conv_nth)
  then show ?thesis by (simp add: in_set_enumerate_eq)
qed

lemma Scan_error_located:
  assumes "Scan source = Inl e"
  shows "sx_Code e = CodeRecordSyntaxError \<and> located source (sx_Line e) (sx_Source e)"
proof (cases "find (\<lambda>(i, raw). \<not> admitted (TrimSpace raw)) (enumerate 0 (split_on nl source))")
  case None
  then show ?thesis using Scan_vocabulary[of source] assms by auto
next
  case (Some p)
  obtain i raw where p: "p = (i, raw)" by (cases p)
  have i: "i < length (split_on nl source)" "raw = split_on nl source ! i"
    using find_enumerate_Some[OF Some[unfolded p]] by simp_all
  have "e = syntax_error (int i + 1) (TrimSpace raw)"
    using Scan_vocabulary[of source] assms Some p by simp
  then show ?thesis using located_line[OF i(1)] i(2) by (simp add: syntax_error_def source_error_def)
qed

text \<open>The errors of the package have a code of the contract and name a line of the source.\<close>

definition error_ok :: "string \<Rightarrow> source_error \<Rightarrow> bool" where
  "error_ok source e \<longleftrightarrow> RecordErrorCode_Valid (sx_Code e) \<and> located source (sx_Line e) (sx_Source e)"

lemma record_codes [simp]:
  "RecordErrorCode_Valid CodeRecordSyntaxError" "RecordErrorCode_Valid CodeRecordMissingHeader"
  "RecordErrorCode_Valid CodeRecordIllegalMove" "RecordErrorCode_Valid CodeRecordMismatch"
  "RecordErrorCode_Valid CodeRecordUnfinished" "RecordErrorCode_Valid CodeRecordUnsupportedRulesVersion"
  by (simp_all add: RecordErrorCode_Valid_def recordErrorCodes_def)

lemma located_0 [simp]: "located source 0 ''''"
  by (simp add: located_def lineAt_def)

lemma lineAt_0 [simp]: "lineAt source 0 = ''''"
  by (simp add: lineAt_def)

lemma newlines_split: "newlines s + 1 = int (length (split_on nl s))"
proof (induction s)
  case Nil
  then show ?case by (simp add: newlines_def)
next
  case (Cons c s)
  then have "length (split_on nl s) \<noteq> 0" by simp
  with Cons show ?case by (auto simp: newlines_def Let_def)
qed

lemma locateFailure_range:
  "0 \<le> fst (locateFailure harness d source) \<and> fst (locateFailure harness d source) \<le> int (length (split_on nl source))"
  using newlines_split[of source]
  by (auto simp: locateFailure_def Let_def split: option.split prod.split)

lemma startLineNumber_range: "0 \<le> startLineNumber source \<and> startLineNumber source \<le> int (length (split_on nl source))"
  by (auto simp: startLineNumber_def find_Some_iff nth_enumerate_eq split: option.split)

lemma check_moves_error:
  assumes "check_moves source ol ms = Some e" "outline_located source ol"
  shows "error_ok source e"
  using assms by (auto simp: check_moves_def Let_def error_ok_def source_error_def outline_located_def located_def
      split: option.splits if_splits)

lemma Decode_error:
  assumes "Decode harness runner unmarshal source = Inl (SourceErr e)"
  shows "error_ok source e"
proof (cases "Scan source")
  case (Inl err)
  then show ?thesis using assms Scan_error_located by (auto simp: Decode_def error_ok_def)
next
  case (Inr ol)
  note l = Scan_located[OF Inr]
  have v: "located source (ol_RulesVersionLine ol) (lineAt source (ol_RulesVersionLine ol))"
    using l by (simp add: outline_located_def)
  have s: "located source (startLineNumber source) (lineAt source (startLineNumber source))"
    using startLineNumber_range by (simp add: located_def)
  have f: "located source (fst (locateFailure harness d source)) (lineAt source (fst (locateFailure harness d source)))" for d
    using locateFailure_range by (simp add: located_def)
  show ?thesis
    using assms Inr v s f check_moves_error[OF _ l]
    unfolding Decode_def Inr sum.case
    by (auto simp: error_ok_def source_error_def Let_def case_prod_beta
        split: if_splits sum.splits script_error.splits option.splits)
qed

lemma Decode_located:
  "Decode harness runner unmarshal source = Inr (script, ol) \<Longrightarrow> outline_located source ol"
  using Scan_located
  by (auto simp: Decode_def Let_def split: sum.splits if_splits option.splits script_error.splits prod.splits)

lemma illegalMoveError_ok: "outline_located source ol \<Longrightarrow> error_ok source (illegalMoveError script ol source)"
  by (auto simp: illegalMoveError_def Let_def error_ok_def source_error_def outline_located_def located_def
      split: option.split)

lemma verifyAnnotation_error:
  "verifyAnnotation ol i f = Some e \<Longrightarrow> outline_located source ol \<Longrightarrow> error_ok source e"
  by (auto simp: verifyAnnotation_def Let_def error_ok_def source_error_def outline_located_def
      split: if_splits option.splits)

lemma replay_frames_error:
  "replay_frames ol strict i ms sfs = Inl e \<Longrightarrow> outline_located source ol \<Longrightarrow> error_ok source e"
proof (induction ol strict i ms sfs rule: replay_frames.induct)
  case (1 ol strict i m ms sf sfs)
  then show ?case
    using verifyAnnotation_error[of ol i "make_frame ol i m sf" e source]
    by (auto simp: Let_def split: option.splits if_splits sum.splits)
qed auto

lemma verifyFinished_error: "verifyFinished r = Some e \<Longrightarrow> error_ok source e"
  by (auto simp: verifyFinished_def Let_def error_ok_def source_error_def split: if_splits)

lemma ReplayWith_error:
  assumes "ReplayWith (Decode harness runner unmarshal) source options = Inl (SourceErr e)"
  shows "error_ok source e"
proof (cases "Decode harness runner unmarshal source")
  case (Inl err)
  then show ?thesis using assms Decode_error by (simp add: ReplayWith_def)
next
  case (Inr p)
  obtain script ol where p: "p = (script, ol)" by (cases p)
  note l = Decode_located[OF Inr[unfolded p]]
  note a = assms[unfolded ReplayWith_def Inr p sum.case prod.case Let_def]
  show ?thesis
  proof (cases "sc_OK script \<and> length (sc_Frames script) = length (sc_Moves script) + 1")
    case False
    then show ?thesis
      using a illegalMoveError_ok[OF l, of script] by (auto simp: source_error_def error_ok_def split: if_splits)
  next
    case True
    then show ?thesis
      using a replay_frames_error[OF _ l] verifyFinished_error[of _ _ source]
      by (simp split: sum.splits option.splits if_splits)
  qed
qed

section \<open>Which errors name a line\<close>

text \<open>
  The line 0 stands for no line. \<open>names_line\<close> says when an error of a replay names a line: always for a
  line outside the vocabulary and for the version of the rules; for a move that the rules or the
  annotations refuse when its number is that of a move line; never for a missing end.
\<close>

definition names_line :: "string \<Rightarrow> source_error \<Rightarrow> bool" where
  "names_line source e \<longleftrightarrow>
     (\<forall>err. Scan source = Inl err \<longrightarrow> e = err \<and> 1 \<le> sx_Line e) \<and>
     (sx_Code e = CodeRecordUnsupportedRulesVersion \<longrightarrow> 1 \<le> sx_Line e) \<and>
     (sx_Code e = CodeRecordMismatch \<longrightarrow> (1 \<le> sx_Line e \<longleftrightarrow> 1 \<le> sx_MoveNumber e)) \<and>
     (sx_Code e = CodeRecordIllegalMove \<longrightarrow>
        (\<exists>ol. Scan source = Inr ol \<and>
           (1 \<le> sx_Line e \<longleftrightarrow> 1 \<le> sx_MoveNumber e \<and> sx_MoveNumber e \<le> int (length (ol_MoveLines ol))))) \<and>
     (sx_Code e = CodeRecordUnfinished \<longrightarrow> sx_Line e = 0)"

definition outline_lined :: "outline \<Rightarrow> bool" where
  "outline_lined ol \<longleftrightarrow>
     (\<forall>ml \<in> set (ol_MoveLines ol). 1 \<le> ml_Line ml) \<and> 0 \<le> ol_RulesVersionLine ol \<and> 0 \<le> ol_RulesVersionLines ol \<and>
     (1 \<le> ol_RulesVersionLines ol \<longrightarrow> 1 \<le> ol_RulesVersionLine ol)"

lemma read_comment_lined: "outline_lined ol \<Longrightarrow> outline_lined (read_comment c ol)"
  by (auto simp: outline_lined_def read_comment_def Let_def split: option.split)

lemma scan_line_lined:
  assumes "outline_lined ol" "scan_line n raw ol = Inr ol'" "1 \<le> n"
  shows "outline_lined ol'"
  using assms read_comment_lined[OF assms(1)]
  by (auto simp: scan_line_def Let_def outline_lined_def split: if_splits option.splits)

lemma scan_lines_lined:
  "outline_lined ol \<Longrightarrow> scan_lines n raws ol = Inr ol' \<Longrightarrow> 1 \<le> n \<Longrightarrow> outline_lined ol'"
  by (induction n raws ol rule: scan_lines.induct) (auto split: sum.splits dest: scan_line_lined)

lemma Scan_lined: "Scan source = Inr ol \<Longrightarrow> outline_lined ol"
  unfolding Scan_def by (erule scan_lines_lined[rotated]) (simp_all add: outline_lined_def empty_outline_def)

lemma scan_lines_error_line: "scan_lines n raws ol = Inl e \<Longrightarrow> 1 \<le> n \<Longrightarrow> 1 \<le> sx_Line e"
proof (induction n raws ol rule: scan_lines.induct)
  case (2 n raw raws ol)
  show ?case
  proof (cases "admitted (TrimSpace raw)")
    case True
    then show ?thesis using 2 scan_line_admits(2)[OF True, of n ol] by auto
  next
    case False
    then show ?thesis using 2(2,3) scan_line_admits(1)[OF False, of n ol] by (auto simp: syntax_error_def)
  qed
qed simp

text \<open>An error without the special codes names a line or not as it likes.\<close>

lemma names_line_syntax:
  assumes "Scan source = Inr ol" "sx_Code e = CodeRecordSyntaxError \<or> sx_Code e = CodeRecordMissingHeader"
  shows "names_line source e"
  using assms by (auto simp: names_line_def)

lemma names_line_version:
  assumes "Scan source = Inr ol" "sx_Code e = CodeRecordUnsupportedRulesVersion" "1 \<le> sx_Line e"
  shows "names_line source e"
  using assms by (simp add: names_line_def)

lemma Decode_names_line:
  assumes "Decode harness runner unmarshal source = Inl (SourceErr e)"
  shows "names_line source e"
proof (cases "Scan source")
  case (Inl err)
  then have "e = err" using assms by (simp add: Decode_def)
  then show ?thesis
    using scan_lines_error_line[of 1 "split_on nl source" empty_outline e] Scan_error_located[of source e] Inl
    by (simp add: names_line_def Scan_def)
next
  case (Inr ol)
  note l = Scan_lined[OF Inr]
  have m: "names_line source err" if "check_moves source ol ms = Some err" for ms err
    using that by (intro names_line_syntax[OF Inr])
      (auto simp: check_moves_def Let_def source_error_def split: option.splits)
  show ?thesis
    using assms names_line_syntax[OF Inr, of e] names_line_version[OF Inr, of e] l m
    unfolding Decode_def Inr sum.case
    by (auto simp: source_error_def Let_def case_prod_beta outline_lined_def
        split: if_splits sum.splits script_error.splits option.splits)
qed

lemma Decode_Scan: "Decode harness runner unmarshal source = Inr (script, ol) \<Longrightarrow> Scan source = Inr ol"
  by (auto simp: Decode_def Let_def split: sum.splits if_splits option.splits script_error.splits prod.splits)

lemma illegalMoveError_names_line:
  assumes "Scan source = Inr ol"
  shows "names_line source (illegalMoveError script ol source)"
proof (cases "sc_Failure script")
  case None
  then show ?thesis using assms by (simp add: names_line_def illegalMoveError_def source_error_def)
next
  case (Some f)
  have "1 \<le> ml_Line (ol_MoveLines ol ! n)" if "n < length (ol_MoveLines ol)" for n
    using Scan_lined[OF assms] that nth_mem by (fastforce simp: outline_lined_def)
  then show ?thesis using assms Some by (auto simp: names_line_def illegalMoveError_def source_error_def Let_def)
qed

lemma replay_frames_names_line:
  "replay_frames ol strict i ms sfs = Inl e \<Longrightarrow> Scan source = Inr ol \<Longrightarrow> names_line source e"
proof (induction ol strict i ms sfs rule: replay_frames.induct)
  case (1 ol strict i m ms sf sfs)
  have "names_line source err" if v: "verifyAnnotation ol i (make_frame ol i m sf) = Some err" for err
  proof -
    have "i < length (ol_MoveLines ol)" using v by (auto simp: verifyAnnotation_def split: if_splits)
    then have "1 \<le> ml_Line (ol_MoveLines ol ! i)"
      using Scan_lined[OF 1(3)] nth_mem by (fastforce simp: outline_lined_def)
    then show ?thesis
      using v 1(3) by (auto simp: verifyAnnotation_def names_line_def source_error_def Let_def split: if_splits option.splits)
  qed
  then show ?case using 1 by (auto simp: Let_def split: option.splits if_splits sum.splits)
qed auto

lemma verifyFinished_names_line: "verifyFinished r = Some e \<Longrightarrow> Scan source = Inr ol \<Longrightarrow> names_line source e"
  by (auto simp: verifyFinished_def Let_def names_line_def source_error_def split: if_splits)

lemma ReplayWith_names_line:
  assumes "ReplayWith (Decode harness runner unmarshal) source options = Inl (SourceErr e)"
  shows "names_line source e"
proof (cases "Decode harness runner unmarshal source")
  case (Inl err)
  then show ?thesis using assms Decode_names_line by (simp add: ReplayWith_def)
next
  case (Inr p)
  obtain script ol where p: "p = (script, ol)" by (cases p)
  note l = Decode_Scan[OF Inr[unfolded p]]
  note a = assms[unfolded ReplayWith_def Inr p sum.case prod.case Let_def]
  show ?thesis
  proof (cases "sc_OK script \<and> length (sc_Frames script) = length (sc_Moves script) + 1")
    case False
    then show ?thesis
      using a illegalMoveError_names_line[OF l, of script] names_line_syntax[OF l, of e]
      by (auto simp: source_error_def split: if_splits)
  next
    case True
    then show ?thesis
      using a replay_frames_names_line[OF _ l] verifyFinished_names_line[OF _ l]
      by (simp split: sum.splits option.splits if_splits)
  qed
qed

text \<open>The other errors of a replay are those of the runner: nothing is wrong with the record then.\<close>

lemma ReplayWith_other_error:
  assumes "ReplayWith (Decode harness runner unmarshal) source options = Inl err" "\<nexists>e. err = SourceErr e"
  shows "\<exists>e. err = RunErr e \<and> runner (combine harness source) = Inl e \<and> (\<nexists>c a b. e = ScriptExecError c a b)"
proof -
  have "Decode harness runner unmarshal source = Inl err"
    using assms
    by (auto simp: ReplayWith_def Let_def split: sum.splits prod.splits if_splits option.splits)
  then show ?thesis
    using assms(2)
    by (auto simp: Decode_def Let_def case_prod_beta split: sum.splits if_splits option.splits script_error.splits)
qed

section \<open>The checks of a replay\<close>

text \<open>
  What a successful \<open>Replay\<close> has checked, for every decoder: there is an end line, the game is over,
  the winner is the recorded one, and wherever a line is annotated the annotation is what the replay
  gave.
\<close>

lemma Replay_cases:
  assumes "Replay decode source = Inr r"
  obtains script ol fs where "decode source = Inr (script, ol)" "sc_OK script"
    "length (sc_Frames script) = length (sc_Moves script) + 1"
    "fs = frames_from ol 0 (sc_Moves script) (tl (sc_Frames script))"
    "\<forall>k < length fs. verifyAnnotation ol (0 + k) (fs ! k) = None"
    "r = \<lparr>rr_Script = script, rr_Outline = ol, rr_Frames = first_frame (sf_State (sc_Frames script ! 0)) # fs\<rparr>"
    "verifyFinished r = None"
proof -
  obtain script ol where d: "decode source = Inr (script, ol)"
    using assms by (auto simp: Replay_def ReplayWith_def split: sum.splits)
  note a = assms[unfolded Replay_def ReplayWith_def d sum.case prod.case Let_def]
  have ok: "sc_OK script" "length (sc_Frames script) = length (sc_Moves script) + 1"
    using a by (auto split: if_splits)
  obtain fs where fs: "replay_frames ol True 0 (sc_Moves script) (tl (sc_Frames script)) = Inr fs"
    using a ok by (cases "replay_frames ol True 0 (sc_Moves script) (tl (sc_Frames script))") simp_all
  let ?r = "\<lparr>rr_Script = script, rr_Outline = ol, rr_Frames = first_frame (sf_State (sc_Frames script ! 0)) # fs\<rparr>"
  have r: "r = ?r" and v: "verifyFinished ?r = None"
    using a ok fs by (cases "verifyFinished ?r"; simp)+
  note f = fs[unfolded replay_frames_strict]
  have v': "verifyFinished r = None" unfolding r by (rule v)
  show ?thesis by (rule that[OF d ok f[THEN conjunct1] f[THEN conjunct2] r v'])
qed

lemma Replay_checks:
  assumes "Replay decode source = Inr r"
  shows "Script_Finished (rr_Script r) \<and> st_Phase (FinalState r) = PhaseFinished \<and>
    st_Winner (FinalState r) = Some (sc_Winner (rr_Script r)) \<and>
    length (rr_Frames r) = length (sc_Moves (rr_Script r)) + 1 \<and>
    (\<forall>i < length (sc_Moves (rr_Script r)). verifyAnnotation (rr_Outline r) i (rr_Frames r ! Suc i) = None)"
  using assms
proof (cases rule: Replay_cases)
  case (1 script ol fs)
  have "length fs = length (sc_Moves script)" using 1(3,4) by simp
  moreover have "Script_Finished script \<and> st_Phase (FinalState r) = PhaseFinished \<and> st_Winner (FinalState r) = Some (sc_Winner script)"
    using 1(7) by (simp add: 1(6) verifyFinished_def Let_def split: if_splits)
  ultimately show ?thesis using 1(5) by (simp add: 1(6))
qed

text \<open>The replay up to a move is the beginning of the whole replay.\<close>

lemma ReplayUntil_prefix:
  assumes "Replay decode source = Inr r" "0 \<le> n"
  shows "\<exists>r'. ReplayUntil decode source n = Inr r' \<and> rr_Frames r' = take (nat n + 1) (rr_Frames r) \<and>
    rr_Script r' = rr_Script r \<and> rr_Outline r' = rr_Outline r"
  using assms(1)
proof (cases rule: Replay_cases)
  case (1 script ol fs)
  let ?lim = "if n < 0 \<or> n > int (length (sc_Moves script)) then length (sc_Moves script) else nat n"
  let ?r = "\<lparr>rr_Script = script, rr_Outline = ol, rr_Frames = first_frame (sf_State (sc_Frames script ! 0)) #
    frames_from ol 0 (take ?lim (sc_Moves script)) (tl (sc_Frames script))\<rparr>"
  have u: "ReplayUntil decode source n = Inr ?r"
    using assms(2) 1(2,3) by (simp add: ReplayUntil_def ReplayWith_def 1(1) Let_def replay_frames_loose)
  have "length fs = length (sc_Moves script)" using 1(3,4) by simp
  then have "take ?lim fs = take (nat n) fs" using assms(2) by auto
  then have "rr_Frames ?r = take (nat n + 1) (rr_Frames r)"
    by (simp add: frames_from_take 1(4)[symmetric] 1(6))
  with u show ?thesis by (intro exI[of _ ?r]) (simp add: 1(6))
qed

section \<open>What is not checked\<close>

text \<open>
  The harness calls the placing and the passing of the rules directly: the player that a line names
  takes no part in the replay.
\<close>

lemma harness_ignores_players:
  "harness_play n s (map (\<lambda>m. m\<lparr>mv_Player := f m\<rparr>) ms) = harness_play n s ms"
proof (induction ms arbitrary: n s)
  case (Cons m ms)
  have "harness_apply s (m\<lparr>mv_Player := f m\<rparr>) = harness_apply s m"
    by (simp add: harness_apply_def harness_command_def Let_def)
  then show ?case using Cons by (auto simp: Let_def split: bool.split option.split)
qed simp

text \<open>Any text without a closing bracket passes as the game id of a start line.\<close>

lemma start_line_admits:
  assumes "CHR 0xE3 \<notin> set x"
  shows "startLinePattern ((utf8 [0x300C]) @ x @ (utf8 [0x300D,
      0x3068]) @ dec n @ (utf8 [0x3067, 0x5BFE, 0x5C40, 0x958B, 0x59CB])) = Some (x, dec n)"
proof -
  have "break_at (utf8 [0x300D]) (x @ (utf8 [0x300D, 0x3068]) @ dec n @ (utf8 [0x3067, 0x5BFE,
      0x5C40, 0x958B, 0x59CB])) = (x, (utf8 [0x300D, 0x3068]) @ dec n @ (utf8 [0x3067, 0x5BFE,
      0x5C40, 0x958B, 0x59CB]))"
    using break_ket[OF assms] by blast
  then show ?thesis by (simp add: startLinePattern_def)
qed

end
