(* ===== verification/StoreLemmas.thy ===== *)
theory StoreLemmas
  imports ReplayErrors
begin

text \<open>
  Keeping records. The Go interface \<open>Store\<close> is the locale \<open>record_store\<close>: what a caller may expect
  of any implementation. The service's lemmas are proved inside it; the in-memory store is its
  interpretation.
\<close>

section \<open>Clones\<close>

lemma clone_command [simp]:
  "c\<lparr>cm_Row := (case cm_Row c of None \<Rightarrow> None | Some row \<Rightarrow> Some row),
     cm_Col := (case cm_Col c of None \<Rightarrow> None | Some col \<Rightarrow> Some col)\<rparr> = c"
  by (cases c) (auto split: option.split)

lemma Record_Clone_eq: "Record_Clone r = r\<lparr>gr_FinalState := State_Clone (gr_FinalState r)\<rparr>"
  by (cases r) (simp add: Record_Clone_def)

lemma Record_Clone_simps [simp]:
  "gr_GameID (Record_Clone r) = gr_GameID r"
  "Record_Summary (Record_Clone r) = Record_Summary r"
  "Record_Clone (Record_Clone r) = Record_Clone r"
  by (simp_all add: Record_Clone_eq Record_Summary_def State_Clone_idem)

lemma Entry_Clone_simps [simp]:
  "en_Record (Entry_Clone e) = Record_Clone (en_Record e)"
  "en_Source (Entry_Clone e) = en_Source e"
  "Entry_Clone (Entry_Clone e) = Entry_Clone e"
  by (simp_all add: Entry_Clone_def)

section \<open>What a store promises\<close>

abbreviation entry_id :: "entry \<Rightarrow> string" where
  "entry_id e \<equiv> gr_GameID (en_Record e)"

locale record_store =
  fixes save :: "'s \<Rightarrow> entry \<Rightarrow> 's \<times> string option"
    and get :: "'s \<Rightarrow> string \<Rightarrow> replay_error + entry"
    and list_all_of :: "'s \<Rightarrow> summary list"
    and ids :: "'s \<Rightarrow> string list"
    and store_ok :: "'s \<Rightarrow> bool"
  assumes save_ok: "store_ok s \<Longrightarrow> store_ok (fst (save s e))"
    and save_result: "snd (save s e) = ValidateGameID (entry_id e)"
    and save_refused: "snd (save s e) \<noteq> None \<Longrightarrow> fst (save s e) = s"
    and get_saved: "store_ok s \<Longrightarrow> snd (save s e) = None \<Longrightarrow>
      get (fst (save s e)) (entry_id e) = Inr (Entry_Clone e)"
    and get_other: "store_ok s \<Longrightarrow> entry_id e \<noteq> gid \<Longrightarrow> get (fst (save s e)) gid = get s gid"
    and ids_saved: "store_ok s \<Longrightarrow> snd (save s e) = None \<Longrightarrow>
      ids (fst (save s e)) = (if entry_id e \<in> set (ids s) then ids s else ids s @ [entry_id e])"
    and get_ids: "store_ok s \<Longrightarrow> (\<exists>e. get s gid = Inr e) \<longleftrightarrow> gid \<in> set (ids s)"
    and get_missing: "get s gid = Inl err \<Longrightarrow> err = NotFound gid"
    and listed: "store_ok s \<Longrightarrow>
      list_all_of s = concat (map (\<lambda>gid. case get s gid of Inl _ \<Rightarrow> [] | Inr e \<Rightarrow> [Record_Summary (en_Record e)]) (ids s))"
begin

definition saves :: "entry list \<Rightarrow> 's \<Rightarrow> 's" where
  "saves es s = fold (\<lambda>e s. fst (save s e)) es s"

lemma saves_snoc: "saves (es @ [e]) s = fst (save (saves es s) e)"
  by (simp add: saves_def)

lemma saves_ok: "store_ok s \<Longrightarrow> store_ok (saves es s)"
  by (induction es arbitrary: s) (simp_all add: saves_def save_ok)

text \<open>After any saves, a store holds the latest entry of each id, in the order of the first.\<close>

lemma get_saves:
  "store_ok s \<Longrightarrow>
   get (saves es s) gid =
     (case find (\<lambda>e. entry_id e = gid \<and> ValidateGameID gid = None) (rev es) of
        None \<Rightarrow> get s gid
      | Some e \<Rightarrow> Inr (Entry_Clone e))"
proof (induction es rule: rev_induct)
  case (snoc e es)
  note ok = saves_ok[OF snoc.prems, of es]
  show ?case
  proof (cases "entry_id e = gid")
    case True
    then show ?thesis
      using snoc get_saved[OF ok, of e] save_refused[of "saves es s" e] save_result[of "saves es s" e]
      by (cases "ValidateGameID gid") (auto simp: saves_snoc)
  next
    case False
    then show ?thesis using snoc get_other[OF ok, of e gid] by (simp add: saves_snoc)
  qed
qed (simp add: saves_def)

lemma ids_saves:
  "store_ok s \<Longrightarrow>
   ids (saves es s) =
     fold (\<lambda>e is. if ValidateGameID (entry_id e) = None \<and> entry_id e \<notin> set is then is @ [entry_id e] else is) es (ids s)"
proof (induction es rule: rev_induct)
  case (snoc e es)
  note ok = saves_ok[OF snoc.prems, of es]
  show ?case
    using snoc ids_saved[OF ok, of e] save_refused[of "saves es s" e] save_result[of "saves es s" e]
    by (cases "ValidateGameID (entry_id e)") (auto simp: saves_snoc)
qed (simp add: saves_def)

lemma listed_saves:
  assumes "store_ok s"
  shows "list_all_of (saves es s) = map (\<lambda>gid. Record_Summary (en_Record (projr (get (saves es s) gid)))) (ids (saves es s))"
proof -
  note ok = saves_ok[OF assms, of es]
  have "(\<exists>e. get (saves es s) gid = Inr e)" if "gid \<in> set (ids (saves es s))" for gid
    using that get_ids[OF ok] by blast
  then have eq: "map (\<lambda>gid. case get (saves es s) gid of Inl _ \<Rightarrow> [] | Inr e \<Rightarrow> [Record_Summary (en_Record e)]) (ids (saves es s))
      = map (\<lambda>gid. [Record_Summary (en_Record (projr (get (saves es s) gid)))]) (ids (saves es s))"
    by (intro map_cong refl) (fastforce split: sum.split)
  show ?thesis unfolding listed[OF ok] eq by simp
qed

subsection \<open>The service\<close>

text \<open>A saved source is one that replays, and replaying it again gives the saved record.\<close>

lemma SaveSource_saved:
  assumes "store_ok s" "SaveSource save decode s source = (s', Inr record)"
  obtains result where "Replay decode source = Inr result" "record = Result_Record result"
    "get s' (gr_GameID record) = Inr (Entry_Clone \<lparr>en_Record = record, en_Source = source\<rparr>)"
    "service_Source get s' (gr_GameID record) = Inr source"
    "service_Get get s' (gr_GameID record) = Inr (Record_Clone record)"
    "service_Replay get decode s' (gr_GameID record) = Inr result"
proof -
  obtain result where r: "Replay decode source = Inr result"
    using assms(2) by (auto simp: SaveSource_def split: sum.splits)
  let ?e = "\<lparr>en_Record = Result_Record result, en_Source = source\<rparr>"
  have s: "save s ?e = (s', None)" "record = Result_Record result"
    using assms(2) r by (auto simp: SaveSource_def Let_def split: prod.splits option.splits)
  then have g: "get s' (gr_GameID record) = Inr (Entry_Clone ?e)"
    using get_saved[OF assms(1), of ?e] by simp
  show ?thesis
    using that[OF r s(2)] g s(2) r by (simp add: service_Source_def service_Get_def service_Replay_def)
qed

lemma SaveSource_failed:
  assumes "SaveSource save decode s source = (s', Inl err)"
  shows "s' = s"
  using assms save_refused[of s]
  by (auto simp: SaveSource_def Let_def split: sum.splits prod.splits option.splits) (metis fst_conv option.distinct(1) snd_conv)

lemma SaveResult_saved:
  assumes "store_ok s" "SaveResult save s result = (s', Inr source)"
  shows "EncodeResult (Some result) = Inr source \<and>
    get s' (sc_GameID (rr_Script result)) = Inr (Entry_Clone \<lparr>en_Record = Result_Record result, en_Source = source\<rparr>)"
proof -
  have e: "EncodeResult (Some result) = Inr source"
    using assms(2) by (auto simp: SaveResult_def split: sum.splits prod.splits option.splits)
  let ?e = "\<lparr>en_Record = Result_Record result, en_Source = source\<rparr>"
  have "save s ?e = (s', None)"
    using assms(2) e by (auto simp: SaveResult_def split: prod.splits option.splits)
  then show ?thesis using get_saved[OF assms(1), of ?e] e by (simp add: Result_Record_def)
qed

lemma SaveResult_other:
  assumes "store_ok s" "SaveResult save s result = (s', Inr source)" "gid \<noteq> sc_GameID (rr_Script result)"
  shows "get s' gid = get s gid"
proof -
  let ?e = "\<lparr>en_Record = Result_Record result, en_Source = source\<rparr>"
  have "save s ?e = (s', None)"
    using assms(2) by (auto simp: SaveResult_def split: sum.splits prod.splits option.splits)
  then show ?thesis using get_other[OF assms(1), of ?e gid] \<open>save s ?e = (s', None)\<close> assms(3) by (simp add: Result_Record_def)
qed

lemma SaveResult_failed:
  assumes "SaveResult save s result = (s', Inl err)"
  shows "s' = s"
  using assms save_refused[of s]
  by (auto simp: SaveResult_def split: sum.splits prod.splits option.splits) (metis fst_conv option.distinct(1) snd_conv)

end

section \<open>The in-memory store\<close>

definition memory_ok :: "memory_store \<Rightarrow> bool" where
  "memory_ok s \<longleftrightarrow> distinct (ms_order s) \<and> (\<forall>gid. gid \<in> set (ms_order s) \<longleftrightarrow> map_of (ms_entries s) gid \<noteq> None)"

lemma NewMemoryStore_ok [simp]: "memory_ok NewMemoryStore" "ms_order NewMemoryStore = []"
  by (simp_all add: memory_ok_def NewMemoryStore_def)

lemma store_Save_fields:
  "snd (store_Save s e) = ValidateGameID (entry_id e)"
  "ValidateGameID (entry_id e) \<noteq> None \<Longrightarrow> fst (store_Save s e) = s"
  "ValidateGameID (entry_id e) = None \<Longrightarrow>
     map_of (ms_entries (fst (store_Save s e))) = (map_of (ms_entries s))(entry_id e \<mapsto> Entry_Clone e) \<and>
     ms_order (fst (store_Save s e)) =
       (if map_of (ms_entries s) (entry_id e) = None then ms_order s @ [entry_id e] else ms_order s)"
  by (auto simp: store_Save_def Let_def split: option.split)

lemma store_Save_ok: "memory_ok s \<Longrightarrow> memory_ok (fst (store_Save s e))"
  by (cases "ValidateGameID (entry_id e)")
    (auto simp: memory_ok_def store_Save_fields(2) store_Save_fields(3))

interpretation memory: record_store store_Save store_Get store_List ms_order memory_ok
proof unfold_locales
  fix s :: memory_store and e :: entry and gid :: string and err :: replay_error
  show "memory_ok s \<Longrightarrow> memory_ok (fst (store_Save s e))" by (rule store_Save_ok)
  show r: "snd (store_Save s e) = ValidateGameID (entry_id e)" by (rule store_Save_fields(1))
  show "snd (store_Save s e) \<noteq> None \<Longrightarrow> fst (store_Save s e) = s"
    using store_Save_fields(2)[of e s] by (simp add: r)
  show "memory_ok s \<Longrightarrow> snd (store_Save s e) = None \<Longrightarrow>
      store_Get (fst (store_Save s e)) (entry_id e) = Inr (Entry_Clone e)"
    using store_Save_fields(3)[of e s] by (simp add: r store_Get_def)
  show "memory_ok s \<Longrightarrow> entry_id e \<noteq> gid \<Longrightarrow> store_Get (fst (store_Save s e)) gid = store_Get s gid"
    by (cases "ValidateGameID (entry_id e)") (simp_all add: store_Get_def store_Save_fields(2,3))
  show "memory_ok s \<Longrightarrow> snd (store_Save s e) = None \<Longrightarrow>
      ms_order (fst (store_Save s e)) =
        (if entry_id e \<in> set (ms_order s) then ms_order s else ms_order s @ [entry_id e])"
    using store_Save_fields(3)[of e s] by (simp add: r memory_ok_def)
  show "memory_ok s \<Longrightarrow> (\<exists>e. store_Get s gid = Inr e) \<longleftrightarrow> gid \<in> set (ms_order s)"
    by (auto simp: memory_ok_def store_Get_def split: option.split)
  show "store_Get s gid = Inl err \<Longrightarrow> err = NotFound gid"
    by (auto simp: store_Get_def split: option.splits)
  show "store_List s =
      concat (map (\<lambda>gid. case store_Get s gid of Inl _ \<Rightarrow> [] | Inr e \<Rightarrow> [Record_Summary (en_Record e)]) (ms_order s))"
    by (auto simp: store_List_def store_Get_def intro!: arg_cong[where f = concat] split: option.split)
qed

lemma store_Random_saved:
  assumes "memory_ok s" "\<And>n. 0 < n \<Longrightarrow> intn n < n"
  shows "store_Random intn s =
    (if ms_order s = [] then Some (Inl (NotFound ''''))
     else Some (store_Get s (ms_order s ! intn (length (ms_order s)))))"
  using assms(2)[of "length (ms_order s)"]
  by (cases "ms_order s = []") (simp_all add: store_Random_def Let_def)

end
