(* ===== verification/ManagerLemmas.thy ===== *)
theory ManagerLemmas
  imports Manager
begin

text \<open>
  What the manager keeps between calls: players and rooms refer to each other consistently, at most
  one room waits for a player, and rooms that everybody left are dropped and closed.
\<close>

section \<open>Names of rooms\<close>

text \<open>Reading a decimal number back: the names of two rooms differ when their numbers do.\<close>

definition undec :: "string \<Rightarrow> nat" where
  "undec s = foldl (\<lambda>a c. 10 * a + ((of_char c :: nat) - 48)) 0 s"

lemma undec_dec [simp]: "undec (dec n) = n"
proof (induction n rule: dec.induct)
  case (1 n)
  have d: "(of_char (digit_char k) :: nat) - 48 = k" if "k < 10" for k
    using that by (simp add: digit_char_def)
  show ?case
  proof (cases "n < 10")
    case True
    then show ?thesis by (subst dec.simps) (simp add: undec_def d)
  next
    case False
    then have "undec (dec (n div 10) @ [digit_char (n mod 10)]) = 10 * undec (dec (n div 10)) + n mod 10"
      by (simp add: undec_def d)
    then show ?thesis using False 1 by (subst dec.simps) simp
  qed
qed

lemma dec_inject [simp]: "dec m = dec n \<longleftrightarrow> m = n"
  using undec_dec by metis

lemma room_name_inject [simp]: "room_name m = room_name n \<longleftrightarrow> m = n"
  by (simp add: room_name_def itoa_def)

lemma room_name_not_Nil [simp]: "room_name n \<noteq> ''''" "'''' \<noteq> room_name n"
  by (simp_all add: room_name_def)

section \<open>The invariant of the manager\<close>

definition seated :: "room \<Rightarrow> string list" where
  "seated r = map snd (Room_Seats r)"

text \<open>
  Between calls: room objects are sound and named by their number; a room in the map has a
  connected player, and it is the waiting room exactly if a seat is free; a player is registered
  with a room exactly if he sits in it; a room that was dropped is closed and left by everybody.
\<close>

definition objs_inv :: "manager \<Rightarrow> bool" where
  "objs_inv m \<longleftrightarrow>
     mg_nextID m = length (mg_objs m) \<and>
     (\<forall>i < length (mg_objs m). room_inv (obj m i) \<and> rm_id (obj m i) = room_name (Suc i))"

definition rooms_inv :: "manager \<Rightarrow> bool" where
  "rooms_inv m \<longleftrightarrow>
     gomap_wf (mg_rooms m) \<and>
     (\<forall>rid i. map_of (mg_rooms m) rid = Some i \<longrightarrow>
        i < length (mg_objs m) \<and> room_name (Suc i) = rid \<and> some_connected (obj m i) \<and>
        (rm_phase (obj m i) = RoomWaiting) = (mg_waiting m = rid)) \<and>
     (mg_waiting m \<noteq> '''' \<longrightarrow> map_of (mg_rooms m) (mg_waiting m) \<noteq> None)"

definition players_inv :: "manager \<Rightarrow> bool" where
  "players_inv m \<longleftrightarrow>
     gomap_wf (mg_players m) \<and>
     (\<forall>p rid. map_of (mg_players m) p = Some rid \<longleftrightarrow>
        (\<exists>i. map_of (mg_rooms m) rid = Some i \<and> p \<in> set (seated (obj m i))))"

definition dropped_inv :: "manager \<Rightarrow> bool" where
  "dropped_inv m \<longleftrightarrow>
     (\<forall>i < length (mg_objs m). map_of (mg_rooms m) (room_name (Suc i)) = None \<longrightarrow>
        rm_phase (obj m i) = RoomClosed \<and> \<not> some_connected (obj m i))"

definition manager_inv :: "manager \<Rightarrow> bool" where
  "manager_inv m \<longleftrightarrow> objs_inv m \<and> rooms_inv m \<and> players_inv m \<and> dropped_inv m"

lemma NewManager_inv [wf_intros]: "manager_inv NewManager"
  by (simp add: manager_inv_def NewManager_def objs_inv_def rooms_inv_def players_inv_def dropped_inv_def)

lemma manager_room:
  assumes "manager_inv m" "map_of (mg_rooms m) rid = Some i"
  shows "i < length (mg_objs m)" "rid = room_name (Suc i)" "some_connected (obj m i)"
    "(rm_phase (obj m i) = RoomWaiting) = (mg_waiting m = rid)" "room_inv (obj m i)"
    "rm_id (obj m i) = rid"
  using assms by (auto simp: manager_inv_def rooms_inv_def objs_inv_def)

lemma manager_player:
  "manager_inv m \<Longrightarrow> map_of (mg_players m) p = Some rid \<longleftrightarrow>
     (\<exists>i. map_of (mg_rooms m) rid = Some i \<and> p \<in> set (seated (obj m i)))"
  by (auto simp: manager_inv_def players_inv_def)

lemma obj_set_obj [simp]:
  "i < length (mg_objs m) \<Longrightarrow> obj (set_obj i r m) j = (if j = i then r else obj m j)"
  by (simp add: obj_def set_obj_def)

lemma set_obj_fields [simp]:
  "mg_rooms (set_obj i r m) = mg_rooms m" "mg_players (set_obj i r m) = mg_players m"
  "mg_waiting (set_obj i r m) = mg_waiting m" "mg_nextID (set_obj i r m) = mg_nextID m"
  "length (mg_objs (set_obj i r m)) = length (mg_objs m)"
  by (simp_all add: set_obj_def)

lemma obj_update [simp]:
  "obj (m\<lparr>mg_rooms := a\<rparr>) i = obj m i" "obj (m\<lparr>mg_players := b\<rparr>) i = obj m i"
  "obj (m\<lparr>mg_waiting := c\<rparr>) i = obj m i" "obj (m\<lparr>mg_nextID := d\<rparr>) i = obj m i"
  by (simp_all add: obj_def)

text \<open>A step inside one room that keeps its players and whether it waits.\<close>

lemma set_obj_inv:
  assumes inv: "manager_inv m" and i: "map_of (mg_rooms m) rid = Some i"
    and r: "room_inv r" "rm_id r = rm_id (obj m i)" "seated r = seated (obj m i)" "some_connected r"
      "(rm_phase r = RoomWaiting) = (rm_phase (obj m i) = RoomWaiting)"
  shows "manager_inv (set_obj i r m)"
proof -
  note m = manager_room[OF inv i]
  have "objs_inv (set_obj i r m)" using inv m r by (simp add: manager_inv_def objs_inv_def)
  moreover have "rooms_inv (set_obj i r m)"
    using inv m r by (auto simp: manager_inv_def rooms_inv_def)
  moreover have "players_inv (set_obj i r m)"
  proof -
    have "seated (obj (set_obj i r m) j) = seated (obj m j)" for j using m(1) r(3) by simp
    then show ?thesis using inv by (simp add: manager_inv_def players_inv_def)
  qed
  moreover have "dropped_inv (set_obj i r m)"
    using inv m i by (auto simp: manager_inv_def dropped_inv_def)
  ultimately show ?thesis by (simp add: manager_inv_def)
qed

section \<open>Submitting\<close>

lemma Room_Seats_moved [simp]: "Room_Seats (room_moved r s e) = Room_Seats r"
  by (simp add: Room_Seats_def)

lemma seated_moved [simp]: "seated (room_moved r s e) = seated r"
  by (simp add: seated_def)

lemma some_connected_moved [simp]: "some_connected (room_moved r s e) = some_connected r"
  by (simp add: some_connected_def)

lemma seated_eq: "seated r = map (\<lambda>(player, s). se_playerID s) (rm_seats r)"
  by (auto simp: seated_def Room_Seats_def)

lemma seatOf_seated: "seatOf r p \<noteq> None \<longleftrightarrow> p \<in> set (seated r)"
  by (auto simp: seatOf_None seated_eq)

lemma set_obj_same [simp]: "i < length (mg_objs m) \<Longrightarrow> set_obj i (obj m i) m = m"
  by (simp add: set_obj_def obj_def)

context rules_runner
begin

text \<open>Submitting: refused or failed with nothing changed, or one accepted move in the player's own room.\<close>

lemma Manager_Submit_cases:
  assumes inv: "manager_inv m"
  obtains (failed) err where "Manager_Submit eval m roomID playerID c = Some (m, Inl err)"
  | (refused) resp where "Manager_Submit eval m roomID playerID c = Some (m, Inr (Some resp))"
      "\<not> rs_OK resp" "rs_Event resp = None" "rs_Error resp \<noteq> None"
  | (accepted) i player st s s' e where
      "map_of (mg_players m) playerID = Some roomID" "map_of (mg_rooms m) roomID = Some i"
      "seatOf (obj m i) playerID = Some (player, st)" "rm_state (obj m i) = Some s" "cm_Player c = player"
      "accepts (wire_state s) c = Some s'" "apply_command (wire_state s) c = ok_response s' (Some e)"
      "Manager_Submit eval m roomID playerID c =
         Some (set_obj i (room_moved (obj m i) s' (Some e)) m,
               Inr (room_cloneResponse (Some (ok_response s' (Some e)))))"
      "manager_inv (set_obj i (room_moved (obj m i) s' (Some e)) m)"
proof (cases "map_of (mg_players m) playerID = Some roomID")
  case False
  then have "\<exists>resp. Manager_Submit eval m roomID playerID c = Some (m, Inr (Some resp)) \<and>
      \<not> rs_OK resp \<and> rs_Event resp = None \<and> rs_Error resp \<noteq> None"
    by (auto simp: Manager_Submit_def room_rejected_def Let_def split: option.splits)
  then show ?thesis using refused by blast
next
  case True
  then obtain i where i: "map_of (mg_rooms m) roomID = Some i"
    using manager_player[OF inv] by blast
  note m = manager_room[OF inv i]
  have sub: "Manager_Submit eval m roomID playerID c =
      (case room_submit eval (obj m i) playerID c of None \<Rightarrow> None | Some (r, res) \<Rightarrow> Some (set_obj i r m, res))"
    using True i by (simp add: Manager_Submit_def)
  show ?thesis
    using m(5)
  proof (cases rule: room_submit_cases[where playerID = playerID and c = c])
    case (failed err)
    then show ?thesis using sub m(1) that(1) by simp
  next
    case (refused resp)
    then show ?thesis using sub m(1) that(2)[of resp] by (auto simp: refusal_def)
  next
    case (accepted player st s s' e)
    have st: "rm_phase (obj m i) \<noteq> RoomWaiting"
      using m(5) accepted(3) by (auto simp: room_inv_def phase_inv_def)
    have "manager_inv (set_obj i (room_moved (obj m i) s' (Some e)) m)"
      using m st accepted(2) room_moved_inv[OF m(5) accepted(3,2,6)] by (intro set_obj_inv[OF inv i]) auto
    then show ?thesis using that(3)[OF True i accepted(1,3,4,6,7)] sub accepted(8) by simp
  qed
qed

end

section \<open>Joining\<close>

lemma manager_inv_wf: "manager_inv m \<Longrightarrow> gomap_wf (mg_rooms m) \<and> gomap_wf (mg_players m)"
  by (simp add: manager_inv_def rooms_inv_def players_inv_def)

text \<open>The manager after a player opened a new room.\<close>

definition manager_opened :: "(string \<Rightarrow> 32 word) \<Rightarrow> manager \<Rightarrow> string \<Rightarrow> manager" where
  "manager_opened seedFor m playerID =
     (let rid = room_name (Suc (length (mg_objs m))) in
      m\<lparr>mg_nextID := Suc (length (mg_objs m)),
        mg_objs := mg_objs m @ [room_opened (newRoom rid (seedFor rid)) playerID],
        mg_rooms := AList.update rid (length (mg_objs m)) (mg_rooms m),
        mg_waiting := rid, mg_players := AList.update playerID rid (mg_players m)\<rparr>)"

lemma room_opened_new:
  "room_inv (room_opened (newRoom (room_name n) sd) p)"
  "rm_phase (room_opened (newRoom (room_name n) sd) p) = RoomWaiting"
  "Room_Seats (room_opened (newRoom (room_name n) sd) p) = [(PlayerDark, p)]"
  "rm_id (room_opened (newRoom (room_name n) sd) p) = room_name n"
  "some_connected (room_opened (newRoom (room_name n) sd) p)"
proof -
  have inv: "room_inv (newRoom (room_name n) sd)" by (intro wf_intros) simp
  have e: "rm_seats (newRoom (room_name n) sd) = []" "rm_phase (newRoom (room_name n) sd) \<noteq> RoomClosed"
    by (simp_all add: newRoom_def)
  note o = room_opened_inv[OF inv e]
  show "room_inv (room_opened (newRoom (room_name n) sd) p)"
    "rm_phase (room_opened (newRoom (room_name n) sd) p) = RoomWaiting"
    "Room_Seats (room_opened (newRoom (room_name n) sd) p) = [(PlayerDark, p)]"
    "rm_id (room_opened (newRoom (room_name n) sd) p) = room_name n"
    using o by (simp_all add: newRoom_def)
  show "some_connected (room_opened (newRoom (room_name n) sd) p)"
    by (simp add: some_connected_def room_opened_def newRoom_def)
qed

lemma manager_opened_inv:
  assumes inv: "manager_inv m" and p: "map_of (mg_players m) playerID = None" and w: "mg_waiting m = ''''"
  shows "manager_inv (manager_opened seedFor m playerID)"
proof -
  let ?n = "length (mg_objs m)" and ?m = "manager_opened seedFor m playerID"
  let ?r = "room_opened (newRoom (room_name (Suc ?n)) (seedFor (room_name (Suc ?n)))) playerID"
  note r = room_opened_new[of "Suc ?n" "seedFor (room_name (Suc ?n))" playerID]
  have o: "obj ?m i = (if i = ?n then ?r else obj m i)" if "i \<le> ?n" for i
    using that by (auto simp: obj_def manager_opened_def Let_def nth_append)
  have len: "length (mg_objs ?m) = Suc ?n" "mg_nextID ?m = Suc ?n" "mg_waiting ?m = room_name (Suc ?n)"
    "mg_players ?m = AList.update playerID (room_name (Suc ?n)) (mg_players m)"
    "mg_rooms ?m = AList.update (room_name (Suc ?n)) ?n (mg_rooms m)"
    by (simp_all add: manager_opened_def Let_def)
  have fresh: "map_of (mg_rooms m) (room_name (Suc ?n)) = None"
    using manager_room(1,2)[OF inv, of "room_name (Suc ?n)"] by (cases "map_of (mg_rooms m) (room_name (Suc ?n))") auto
  have lt: "i < ?n" if "map_of (mg_rooms m) rid = Some i" for rid i
    using manager_room(1)[OF inv that] .
  have "objs_inv ?m" using inv r by (auto simp: manager_inv_def objs_inv_def len o less_Suc_eq)
  moreover have "rooms_inv ?m"
  proof -
    have rm: "i < length (mg_objs ?m) \<and> room_name (Suc i) = rid \<and> some_connected (obj ?m i) \<and>
        (rm_phase (obj ?m i) = RoomWaiting) = (mg_waiting ?m = rid)"
      if "map_of (mg_rooms ?m) rid = Some i" for rid i
    proof (cases "rid = room_name (Suc ?n)")
      case True
      then have "i = ?n" using that by (simp add: len)
      then show ?thesis using r True by (simp add: len(1,3) o)
    next
      case False
      then have old: "map_of (mg_rooms m) rid = Some i" using that by (simp add: len)
      note k = manager_room[OF inv old]
      have "'''' \<noteq> rid" using k(2) by simp
      then have a: "rm_phase (obj m i) \<noteq> RoomWaiting" using k(4) w by metis
      have ob: "obj ?m i = obj m i" using k(1) by (simp add: o)
      show ?thesis
        unfolding ob len(1,3)
      proof (intro conjI)
        show "i < Suc ?n" using k(1) by simp
        show "room_name (Suc i) = rid" using k(2) by simp
        show "some_connected (obj m i)" by (fact k(3))
        show "(rm_phase (obj m i) = RoomWaiting) = (room_name (Suc ?n) = rid)" using a False by metis
      qed
    qed
    have wfm: "gomap_wf (mg_rooms ?m)"
      using manager_inv_wf[OF inv] by (simp add: len gomap_wf_update)
    have "map_of (mg_rooms ?m) (mg_waiting ?m) \<noteq> None" by (simp add: len)
    with rm wfm show ?thesis unfolding rooms_inv_def by blast
  qed
  moreover have "players_inv ?m"
  proof -
    have "playerID \<notin> set (seated (obj m i))" if "map_of (mg_rooms m) rid = Some i" for rid i
      using manager_player[OF inv, of playerID rid] p that by auto
    moreover have "map_of (mg_players m) q \<noteq> Some (room_name (Suc ?n))" for q
      using manager_player[OF inv, of q "room_name (Suc ?n)"] fresh by auto
    moreover have "seated (obj ?m i) = (if i = ?n then [playerID] else seated (obj m i))" if "i \<le> ?n" for i
      using r(3) o[OF that] by (simp add: seated_def)
    ultimately have "map_of (mg_players ?m) q = Some rid \<longleftrightarrow>
        (\<exists>i. map_of (mg_rooms ?m) rid = Some i \<and> q \<in> set (seated (obj ?m i)))" for q rid
      using manager_player[OF inv, of q rid] lt[of rid] fresh unfolding len
      by (cases "rid = room_name (Suc ?n)") (auto simp: less_imp_le)
    then show ?thesis
      using manager_inv_wf[OF inv] by (simp add: players_inv_def len gomap_wf_update)
  qed
  moreover have "dropped_inv ?m"
    using inv by (auto simp: manager_inv_def dropped_inv_def len o less_Suc_eq)
  ultimately show ?thesis by (simp add: manager_inv_def)
qed

lemma playing_some_connected:
  assumes "room_inv r" "rm_phase r = RoomPlaying"
  shows "some_connected r"
proof -
  have "all_connected r" "length (rm_seats r) = 2" using assms by (auto simp: room_inv_def phase_inv_def)
  then show ?thesis by (cases "rm_seats r") (auto simp: all_connected_def some_connected_def)
qed

text \<open>The manager after the second player started the match of the waiting room.\<close>

definition manager_started :: "manager \<Rightarrow> nat \<Rightarrow> string \<Rightarrow> manager" where
  "manager_started m i playerID =
     (set_obj i (room_started (obj m i) playerID) m)
       \<lparr>mg_players := AList.update playerID (rm_id (obj m i)) (mg_players m), mg_waiting := ''''\<rparr>"

lemma manager_started_inv:
  assumes inv: "manager_inv m" and i: "map_of (mg_rooms m) (mg_waiting m) = Some i"
    and p: "map_of (mg_players m) playerID = None" and t: "rm_seats (obj m i) = [(PlayerDark, t)]"
    and w: "rm_phase (obj m i) = RoomWaiting" and free: "seatOf (obj m i) playerID = None"
  shows "manager_inv (manager_started m i playerID)"
proof -
  let ?m = "manager_started m i playerID" and ?r = "room_started (obj m i) playerID"
  note k = manager_room[OF inv i]
  note s = room_started_inv[OF k(5) t w free]
  have o: "obj ?m j = (if j = i then ?r else obj m j)" for j
    using k(1) by (simp add: manager_started_def)
  have f: "length (mg_objs ?m) = length (mg_objs m)" "mg_nextID ?m = mg_nextID m" "mg_rooms ?m = mg_rooms m"
    "mg_waiting ?m = ''''" "mg_players ?m = AList.update playerID (mg_waiting m) (mg_players m)"
    using k(6) by (simp_all add: manager_started_def)
  have some: "some_connected ?r"
    using s(1,2) by (rule playing_some_connected)
  have "objs_inv ?m" using inv s(1,4) by (auto simp: manager_inv_def objs_inv_def f o)
  moreover have "rooms_inv ?m"
  proof -
    have "j < length (mg_objs ?m) \<and> room_name (Suc j) = rid \<and> some_connected (obj ?m j) \<and>
        (rm_phase (obj ?m j) = RoomWaiting) = (mg_waiting ?m = rid)"
      if j: "map_of (mg_rooms ?m) rid = Some j" for rid j
    proof -
      have j': "map_of (mg_rooms m) rid = Some j" using j by (simp add: f)
      note kj = manager_room[OF inv j']
      have e: "'''' \<noteq> rid" using kj(2) by simp
      show ?thesis
      proof (cases "j = i")
        case True
        then show ?thesis using kj(1,2) s(2) some e by (simp add: f o)
      next
        case False
        then have "mg_waiting m \<noteq> rid" using j' i by auto
        then show ?thesis using kj(1-4) e False by (simp add: f o)
      qed
    qed
    then show ?thesis using manager_inv_wf[OF inv] unfolding rooms_inv_def f by blast
  qed
  moreover have "players_inv ?m"
  proof -
    have st: "set (seated (obj ?m j)) = (if j = i then insert playerID (set (seated (obj m j))) else set (seated (obj m j)))" for j
      using s(3) t by (auto simp: o seated_def Room_Seats_def)
    have new: "playerID \<notin> set (seated (obj m j))" if "map_of (mg_rooms m) rid = Some j" for rid j
      using manager_player[OF inv, of playerID rid] p that by auto
    have only: "map_of (mg_rooms m) rid = Some i \<longleftrightarrow> mg_waiting m = rid" for rid
      using manager_room(2)[OF inv, of rid i] k(2) i by metis
    have "map_of (mg_players ?m) q = Some rid \<longleftrightarrow>
        (\<exists>j. map_of (mg_rooms ?m) rid = Some j \<and> q \<in> set (seated (obj ?m j)))" for q rid
    proof (cases "q = playerID")
      case True
      have "(\<exists>j. map_of (mg_rooms ?m) rid = Some j \<and> q \<in> set (seated (obj ?m j))) \<longleftrightarrow>
          map_of (mg_rooms m) rid = Some i"
        unfolding f st True using new[of rid] by (cases "map_of (mg_rooms m) rid") auto
      then show ?thesis unfolding only by (simp add: f True)
    next
      case False
      have "(\<exists>j. map_of (mg_rooms ?m) rid = Some j \<and> q \<in> set (seated (obj ?m j))) \<longleftrightarrow>
          (\<exists>j. map_of (mg_rooms m) rid = Some j \<and> q \<in> set (seated (obj m j)))"
        unfolding f st using False by (cases "map_of (mg_rooms m) rid") auto
      then show ?thesis using manager_player[OF inv, of q rid] False by (simp add: f)
    qed
    then show ?thesis
      using manager_inv_wf[OF inv] by (simp add: players_inv_def f gomap_wf_update)
  qed
  moreover have "dropped_inv ?m"
    using inv i k(2) by (auto simp: manager_inv_def dropped_inv_def f o)
  ultimately show ?thesis by (simp add: manager_inv_def)
qed

lemma manager_returned_inv:
  assumes inv: "manager_inv m" and i: "map_of (mg_rooms m) rid = Some i"
    and s: "seatOf (obj m i) playerID = Some (player, s)" "\<not> se_connected s"
    and ph: "rm_phase (obj m i) = RoomSuspended"
  shows "manager_inv (set_obj i (room_returned (obj m i) playerID player) m)"
proof -
  note k = manager_room[OF inv i]
  have "rm_phase (obj m i) \<noteq> RoomClosed" using ph by simp
  note r = room_returned_inv[OF k(5) s this]
  have "some_connected (room_returned (obj m i) playerID player)"
    using r(1,2) by (rule playing_some_connected)
  then show ?thesis
    using r ph by (intro set_obj_inv[OF inv i]) (auto simp: seated_def)
qed

lemma manager_failed_inv:
  assumes inv: "manager_inv m" and i: "map_of (mg_rooms m) rid = Some i"
  shows "manager_inv (set_obj i (room_chan_added (obj m i)) m)"
proof -
  note k = manager_room[OF inv i]
  have "some_connected (room_chan_added (obj m i))"
    using k(3) by (simp add: some_connected_def room_chan_added_inv)
  then show ?thesis
    using room_chan_added_inv(1)[OF k(5)]
    by (intro set_obj_inv[OF inv i]) (auto simp: seated_def room_chan_added_inv(2-))
qed

lemma update_same: "map_of m k = Some v \<Longrightarrow> AList.update k v m = m"
  by (induction m) (auto split: if_splits)

context rules_runner
begin

text \<open>What \<open>Join\<close> does, on each of its branches.\<close>

lemma Manager_Join_cases:
  assumes inv: "manager_inv m" and p: "playerID \<noteq> ''''"
  obtains (refused) rid i message where "map_of (mg_players m) playerID = Some rid"
      "map_of (mg_rooms m) rid = Some i"
      "Manager_Join eval seedFor m playerID = Some (m, Inl (JoinError playerID message))"
      "rm_phase (obj m i) = RoomClosed \<or>
       (\<exists>player s. seatOf (obj m i) playerID = Some (player, s) \<and> se_connected s)"
  | (returned) rid i player s where "map_of (mg_players m) playerID = Some rid"
      "map_of (mg_rooms m) rid = Some i" "seatOf (obj m i) playerID = Some (player, s)" "\<not> se_connected s"
      "rm_phase (obj m i) = RoomSuspended"
      "Manager_Join eval seedFor m playerID =
         Some (set_obj i (room_returned (obj m i) playerID player) m,
           Inr \<lparr>ms_RoomID = rid, ms_PlayerID = playerID, ms_Seat = player,
                ms_Events = length (rm_chans (obj m i)), ms_Reconnected = True\<rparr>)"
      "manager_inv (set_obj i (room_returned (obj m i) playerID player) m)"
  | (opened) "map_of (mg_players m) playerID = None" "mg_waiting m = ''''"
      "Manager_Join eval seedFor m playerID =
         Some (manager_opened seedFor m playerID,
           Inr \<lparr>ms_RoomID = room_name (Suc (length (mg_objs m))), ms_PlayerID = playerID,
                ms_Seat = PlayerDark, ms_Events = 0, ms_Reconnected = False\<rparr>)"
      "manager_inv (manager_opened seedFor m playerID)"
  | (failed) i err where "map_of (mg_players m) playerID = None" "map_of (mg_rooms m) (mg_waiting m) = Some i"
      "Manager_Join eval seedFor m playerID =
         Some (set_obj i (room_chan_added (obj m i)) m, Inl (JoinRuntimeError err))"
      "manager_inv (set_obj i (room_chan_added (obj m i)) m)"
      "eval (NewGameRequest (rm_id (obj m i)) (rm_seed (obj m i))) = Inl err"
  | (started) i t where "map_of (mg_players m) playerID = None" "map_of (mg_rooms m) (mg_waiting m) = Some i"
      "rm_seats (obj m i) = [(PlayerDark, t)]"
      "Manager_Join eval seedFor m playerID =
         Some (manager_started m i playerID,
           Inr \<lparr>ms_RoomID = mg_waiting m, ms_PlayerID = playerID, ms_Seat = PlayerLight,
                ms_Events = length (rm_chans (obj m i)), ms_Reconnected = False\<rparr>)"
      "manager_inv (manager_started m i playerID)"
proof (cases "map_of (mg_players m) playerID")
  case (Some rid)
  then obtain i where i: "map_of (mg_rooms m) rid = Some i" "playerID \<in> set (seated (obj m i))"
    using manager_player[OF inv] by blast
  note k = manager_room[OF inv i(1)]
  have rj: "roomForJoin seedFor m playerID = (m, i)" using Some i by (simp add: roomForJoin_def)
  have seat: "seatOf (obj m i) playerID \<noteq> None" using i(2) seatOf_seated by metis
  have ne: "Room_Seats (obj m i) \<noteq> []" using i(2) by (auto simp: seated_def)
  show ?thesis
    using k(5)
  proof (cases rule: room_join_cases[where playerID = playerID])
    case (refused message)
    then have "Manager_Join eval seedFor m playerID = Some (m, Inl (JoinError playerID message))"
      using p rj k(1) ne by (simp add: Manager_Join_def releaseOnJoinFailure_def)
    then show ?thesis using that(1)[OF Some i(1)] refused(2) seat by blast
  next
    case (returned player s)
    let ?r = "room_returned (obj m i) playerID player"
    have rid: "rm_id ?r = rid" "rm_phase ?r = RoomPlaying"
      using room_returned_inv[OF k(5) returned(1,2)] returned(3) k(6) by auto
    have inv': "manager_inv (set_obj i ?r m)"
      using manager_returned_inv[OF inv i(1) returned(1-3)] .
    have "mg_waiting m \<noteq> rid" using k(4) returned(3) by auto
    moreover have "AList.update playerID rid (mg_players m) = mg_players m"
      using Some by (rule update_same)
    ultimately have "join_record (set_obj i ?r m) i playerID = set_obj i ?r m"
      using rid k(1) by (simp add: join_record_def Let_def)
    then have "Manager_Join eval seedFor m playerID =
         Some (set_obj i ?r m, Inr \<lparr>ms_RoomID = rid, ms_PlayerID = playerID, ms_Seat = player,
                ms_Events = length (rm_chans (obj m i)), ms_Reconnected = True\<rparr>)"
      using p rj returned(4) rid by (simp add: Manager_Join_def)
    then show ?thesis using that(2)[OF Some i(1) returned(1-3) _ inv'] by blast
  qed (use seat i(2) in \<open>auto simp: seated_eq\<close>)
next
  case None
  show ?thesis
  proof (cases "mg_waiting m = ''''")
    case True
    let ?n = "length (mg_objs m)" and ?rid = "room_name (Suc (length (mg_objs m)))"
    let ?r = "newRoom ?rid (seedFor ?rid)"
    have next_id: "mg_nextID m = ?n" using inv by (simp add: manager_inv_def objs_inv_def)
    obtain m1 where m1: "make_room seedFor m = (m1, ?n)" "obj m1 ?n = ?r"
      "m1 = m\<lparr>mg_nextID := Suc ?n, mg_objs := mg_objs m @ [?r], mg_rooms := AList.update ?rid ?n (mg_rooms m),
              mg_waiting := ?rid\<rparr>"
      by (simp add: make_room_def next_id Let_def obj_def)
    have inv0: "room_inv ?r" by (intro wf_intros) simp
    have j: "room_join eval ?r playerID = Some (room_opened ?r playerID, Inr (PlayerDark, 0, False))"
      using room_join_first[OF inv0, of playerID] by (simp add: newRoom_def)
    note o = room_opened_new[of "Suc ?n" "seedFor ?rid" playerID]
    have "join_record (set_obj ?n (room_opened ?r playerID) m1) ?n playerID = manager_opened seedFor m playerID"
      using m1(3) o by (simp add: join_record_def set_obj_def obj_def manager_opened_def Let_def list_update_append)
    then have "Manager_Join eval seedFor m playerID =
         Some (manager_opened seedFor m playerID,
           Inr \<lparr>ms_RoomID = ?rid, ms_PlayerID = playerID,
                ms_Seat = PlayerDark, ms_Events = 0, ms_Reconnected = False\<rparr>)"
      using p None True m1 j o by (simp add: Manager_Join_def roomForJoin_def waiting_or_new_def)
    then show ?thesis using that(3)[OF None True _ manager_opened_inv[OF inv None True]] by blast
  next
    case False
    then obtain i where i: "map_of (mg_rooms m) (mg_waiting m) = Some i"
      using inv by (auto simp: manager_inv_def rooms_inv_def)
    note k = manager_room[OF inv i]
    have w: "rm_phase (obj m i) = RoomWaiting" using k(4) by simp
    have rj: "roomForJoin seedFor m playerID = (m, i)"
      using None False i w by (simp add: roomForJoin_def waiting_or_new_def Room_Phase_def)
    have ns: "seatOf (obj m i) playerID = None"
      using manager_player[OF inv, of playerID "mg_waiting m"] None i seatOf_seated by fastforce
    show ?thesis
      using k(5)
    proof (cases rule: room_join_cases[where playerID = playerID])
      case (refused message)
      then show ?thesis using w ns k(5) by (auto simp: room_inv_def phase_inv_def)
    next
      case (returned player s)
      then show ?thesis using ns by simp
    next
      case opened
      then show ?thesis using k(3) by (simp add: some_connected_def)
    next
      case (failed t err)
      have "Room_Seats (obj m i) \<noteq> []" using failed(2) by (simp add: Room_Seats_def)
      then have "Manager_Join eval seedFor m playerID =
          Some (set_obj i (room_chan_added (obj m i)) m, Inl (JoinRuntimeError err))"
        using p rj failed(4) k(1) by (simp add: Manager_Join_def releaseOnJoinFailure_def room_chan_added_inv)
      then show ?thesis using that(4)[OF None i _ manager_failed_inv[OF inv i] failed(5)] by blast
    next
      case (started t)
      note s = room_started_inv[OF k(5) started(2,1,3)]
      have "join_record (set_obj i (room_started (obj m i) playerID) m) i playerID = manager_started m i playerID"
        using s k(1,6) by (simp add: join_record_def manager_started_def Let_def)
      then have "Manager_Join eval seedFor m playerID =
         Some (manager_started m i playerID,
           Inr \<lparr>ms_RoomID = mg_waiting m, ms_PlayerID = playerID, ms_Seat = PlayerLight,
                ms_Events = length (rm_chans (obj m i)), ms_Reconnected = False\<rparr>)"
        using p rj started(4) s k(6) by (simp add: Manager_Join_def)
      then show ?thesis
        using that(5)[OF None i started(2) _ manager_started_inv[OF inv i None started(2,1,3)]] by blast
    qed
  qed
qed

end

section \<open>Leaving\<close>

lemma map_of_fold_delete:
  "map_of (fold (\<lambda>(player, seated) ps. AList.delete seated ps) xs ps) q =
     (if q \<in> snd ` set xs then None else map_of ps q)"
  by (induction xs arbitrary: ps) auto

lemma gomap_wf_fold_delete:
  "gomap_wf ps \<Longrightarrow> gomap_wf (fold (\<lambda>(player, seated) ps. AList.delete seated ps) xs ps)"
  by (induction xs arbitrary: ps) (auto simp: gomap_wf_delete)

definition manager_left :: "manager \<Rightarrow> string \<Rightarrow> nat \<Rightarrow> room \<Rightarrow> string \<Rightarrow> manager" where
  "manager_left m rid i r playerID = leave_cleanup (set_obj i r m) rid i playerID"

lemma manager_left_inv:
  assumes inv: "manager_inv m" and i: "map_of (mg_rooms m) rid = Some i"
    and p: "map_of (mg_players m) playerID = Some rid"
    and r: "room_inv r" "rm_id r = rm_id (obj m i)" "Room_Seats r = Room_Seats (obj m i)"
      "rm_phase r = RoomClosed" "\<not> some_connected r"
  shows "manager_inv (manager_left m rid i r playerID)"
proof -
  let ?m = "manager_left m rid i r playerID"
  note k = manager_room[OF inv i]
  have o: "obj ?m j = (if j = i then r else obj m j)" for j
    using k(1) by (simp add: manager_left_def leave_cleanup_def Let_def)
  have f: "length (mg_objs ?m) = length (mg_objs m)" "mg_nextID ?m = mg_nextID m"
    "mg_rooms ?m = AList.delete rid (mg_rooms m)" "mg_waiting ?m = (if mg_waiting m = rid then '''' else mg_waiting m)"
    using k(1) by (simp_all add: manager_left_def leave_cleanup_def Let_def)
  have in_room: "playerID \<in> set (seated (obj m i))" using manager_player[OF inv, of playerID rid] p i by simp
  have pl: "map_of (mg_players ?m) q = (if q \<in> set (seated (obj m i)) then None else map_of (mg_players m) q)" for q
    using k(1) r(3) in_room
    by (auto simp: manager_left_def leave_cleanup_def Let_def map_of_fold_delete seated_def fun_eq_iff)
  have "objs_inv ?m" using inv r(1,2) by (auto simp: manager_inv_def objs_inv_def f o)
  moreover have "rooms_inv ?m"
  proof -
    have "j < length (mg_objs ?m) \<and> room_name (Suc j) = rid' \<and> some_connected (obj ?m j) \<and>
        (rm_phase (obj ?m j) = RoomWaiting) = (mg_waiting ?m = rid')"
      if j: "map_of (mg_rooms ?m) rid' = Some j" for rid' j
    proof -
      have j': "map_of (mg_rooms m) rid' = Some j" "rid' \<noteq> rid" using j by (auto simp: f split: if_splits)
      note kj = manager_room[OF inv j'(1)]
      have "j \<noteq> i" using kj(2) k(2) j'(2) by metis
      moreover have "'''' \<noteq> rid'" using kj(2) by simp
      ultimately show ?thesis using kj(1-4) j'(2) by (auto simp: f o)
    qed
    moreover have "gomap_wf (mg_rooms ?m)" using manager_inv_wf[OF inv] by (simp add: f gomap_wf_delete)
    moreover have "mg_waiting ?m \<noteq> '''' \<longrightarrow> map_of (mg_rooms ?m) (mg_waiting ?m) \<noteq> None"
      using inv by (simp add: f manager_inv_def rooms_inv_def)
    ultimately show ?thesis unfolding rooms_inv_def by blast
  qed
  moreover have "players_inv ?m"
  proof -
    have "map_of (mg_players ?m) q = Some rid' \<longleftrightarrow>
        (\<exists>j. map_of (mg_rooms ?m) rid' = Some j \<and> q \<in> set (seated (obj ?m j)))" for q rid'
    proof (cases "rid' = rid")
      case True
      then show ?thesis using manager_player[OF inv, of q rid] i by (simp add: pl f)
    next
      case False
      have other: "q \<notin> set (seated (obj m i))" if "map_of (mg_players m) q = Some rid'"
        using that False manager_player[OF inv, of q rid] i by auto
      have "obj ?m j = obj m j" if "map_of (mg_rooms m) rid' = Some j" for j
        using manager_room(2)[OF inv that] k(2) False o by metis
      then show ?thesis
        using manager_player[OF inv, of q rid'] False other by (auto simp: pl f)
    qed
    moreover have "gomap_wf (mg_players ?m)"
      using manager_inv_wf[OF inv]
      by (simp add: manager_left_def leave_cleanup_def Let_def gomap_wf_fold_delete gomap_wf_delete)
    ultimately show ?thesis by (simp add: players_inv_def)
  qed
  moreover have "dropped_inv ?m"
    unfolding dropped_inv_def
  proof (intro allI impI)
    fix j assume j: "j < length (mg_objs ?m)" "map_of (mg_rooms ?m) (room_name (Suc j)) = None"
    show "rm_phase (obj ?m j) = RoomClosed \<and> \<not> some_connected (obj ?m j)"
    proof (cases "j = i")
      case True
      then show ?thesis using r(4,5) by (simp add: o)
    next
      case False
      then have "room_name (Suc j) \<noteq> rid" using k(2) by simp
      then have "map_of (mg_rooms m) (room_name (Suc j)) = None" using j(2) by (simp add: f)
      then show ?thesis using inv j(1) False by (simp add: manager_inv_def dropped_inv_def f o)
    qed
  qed
  ultimately show ?thesis by (simp add: manager_inv_def)
qed

text \<open>What \<open>Leave\<close> does, on each of its branches.\<close>

lemma Manager_Leave_cases:
  assumes inv: "manager_inv m"
  obtains (stranger) message where "map_of (mg_players m) playerID = None"
      "Manager_Leave m playerID = Some (m, Some (LeaveError playerID message))"
  | (remains) rid i r player s where "map_of (mg_players m) playerID = Some rid"
      "map_of (mg_rooms m) rid = Some i" "seatOf (obj m i) playerID = Some (player, s)"
      "Manager_Leave m playerID = Some (set_obj i r m, None)" "manager_inv (set_obj i r m)"
      "seatOf r playerID = Some (player, vacated s)"
      "rm_phase r = (if rm_phase (obj m i) = RoomPlaying then RoomSuspended else rm_phase (obj m i))"
      "rm_state r = rm_state (obj m i)" "Room_Seats r = Room_Seats (obj m i)" "rm_seed r = rm_seed (obj m i)"
  | (emptied) rid i r where "map_of (mg_players m) playerID = Some rid" "map_of (mg_rooms m) rid = Some i"
      "Manager_Leave m playerID = Some (manager_left m rid i r playerID, None)"
      "manager_inv (manager_left m rid i r playerID)"
      "rm_phase r = RoomClosed" "held (rm_seats r) = []" "\<not> some_connected r" "rm_state r = rm_state (obj m i)"
      "Room_Seats r = Room_Seats (obj m i)" "rm_seed r = rm_seed (obj m i)"
proof (cases "map_of (mg_players m) playerID")
  case None
  then show ?thesis using stranger by (simp add: Manager_Leave_def leave_lookup_def)
next
  case (Some rid)
  then obtain i where i: "map_of (mg_rooms m) rid = Some i" "playerID \<in> set (seated (obj m i))"
    using manager_player[OF inv] by blast
  note k = manager_room[OF inv i(1)]
  have lk: "leave_lookup m playerID = Some (rid, i)" using Some i by (simp add: leave_lookup_def)
  have seat: "seatOf (obj m i) playerID \<noteq> None" using i(2) seatOf_seated by metis
  show ?thesis
    using k(5)
  proof (cases rule: room_leave_cases[where playerID = playerID])
    case (stranger message)
    then show ?thesis using seat by simp
  next
    case (empty r)
    then have "manager_inv (manager_left m rid i r playerID)" by (intro manager_left_inv[OF inv i(1) Some]) auto
    then show ?thesis
      using that(3)[OF Some i(1), of r] lk empty by (simp add: Manager_Leave_def manager_left_def Let_def)
  next
    case (remains r player s)
    have "manager_inv (set_obj i r m)"
      using remains k(5) by (intro set_obj_inv[OF inv i(1)]) (auto simp: seated_def)
    then show ?thesis
      using that(2)[OF Some i(1) remains(1), of r] lk remains by (simp add: Manager_Leave_def Let_def)
  qed
qed

section \<open>Closing\<close>

lemma close_rooms_ok:
  "objs_inv m \<Longrightarrow> list_all (\<lambda>i. i < length (mg_objs m)) is \<Longrightarrow>
   \<exists>m'. close_rooms reason is m = Some m' \<and> objs_inv m' \<and> length (mg_objs m') = length (mg_objs m) \<and>
     mg_rooms m' = mg_rooms m \<and> mg_players m' = mg_players m \<and> mg_waiting m' = mg_waiting m \<and>
     (\<forall>j. (j \<notin> set is \<longrightarrow> obj m' j = obj m j) \<and>
        (j \<in> set is \<or> rm_phase (obj m j) = RoomClosed \<and> \<not> some_connected (obj m j) \<longrightarrow>
           rm_phase (obj m' j) = RoomClosed \<and> \<not> some_connected (obj m' j)))"
proof (induction "is" arbitrary: m)
  case (Cons i "is")
  then have i: "i < length (mg_objs m)" "room_inv (obj m i)" by (simp_all add: objs_inv_def)
  obtain r where r: "room_close reason (obj m i) = Some r" "room_inv r" "rm_phase r = RoomClosed"
      "\<not> some_connected r" "rm_id r = rm_id (obj m i)"
    using room_close_inv[OF i(2), of reason] by blast
  have inv: "objs_inv (set_obj i r m)" using Cons.prems(1) i r by (auto simp: objs_inv_def)
  have len: "list_all (\<lambda>i. i < length (mg_objs (set_obj i r m))) is" using Cons.prems(2) by simp
  from Cons.IH[OF inv] Cons.prems(2) obtain m' where m': "close_rooms reason is (set_obj i r m) = Some m'"
    "objs_inv m'" "length (mg_objs m') = length (mg_objs m)" "mg_rooms m' = mg_rooms m"
    "mg_players m' = mg_players m" "mg_waiting m' = mg_waiting m"
    "\<forall>j. (j \<notin> set is \<longrightarrow> obj m' j = obj (set_obj i r m) j) \<and>
        (j \<in> set is \<or> rm_phase (obj (set_obj i r m) j) = RoomClosed \<and> \<not> some_connected (obj (set_obj i r m) j) \<longrightarrow>
           rm_phase (obj m' j) = RoomClosed \<and> \<not> some_connected (obj m' j))"
    by auto
  show ?case using m' r i(1) by (intro exI[of _ m']) (auto split: if_splits)
qed auto

lemma Manager_Close_ok:
  assumes inv: "manager_inv m"
  shows "\<exists>m'. Manager_Close reason m = Some m' \<and> manager_inv m' \<and> RoomCount m' = 0 \<and> PlayerCount m' = 0 \<and>
    (\<forall>i < length (mg_objs m'). rm_phase (obj m' i) = RoomClosed \<and> \<not> some_connected (obj m' i))"
proof -
  let ?m = "m\<lparr>mg_rooms := [], mg_players := [], mg_waiting := ''''\<rparr>" and ?is = "map snd (mg_rooms m)"
  have o: "objs_inv ?m" using inv by (simp add: manager_inv_def objs_inv_def)
  have "list_all (\<lambda>i. i < length (mg_objs ?m)) ?is"
    using manager_room(1)[OF inv] manager_inv_wf[OF inv]
    by (auto simp: list_all_iff gomap_mem_iff)
  from close_rooms_ok[OF o this, of reason] obtain m' where
    m': "close_rooms reason ?is ?m = Some m'" "objs_inv m'" "length (mg_objs m') = length (mg_objs m)"
    "mg_rooms m' = []" "mg_players m' = []" "mg_waiting m' = ''''"
    "\<forall>j. (j \<notin> set ?is \<longrightarrow> obj m' j = obj m j) \<and>
        (j \<in> set ?is \<or> rm_phase (obj m j) = RoomClosed \<and> \<not> some_connected (obj m j) \<longrightarrow>
           rm_phase (obj m' j) = RoomClosed \<and> \<not> some_connected (obj m' j))"
    by auto
  have all: "rm_phase (obj m' j) = RoomClosed \<and> \<not> some_connected (obj m' j)" if "j < length (mg_objs m)" for j
  proof (cases "j \<in> set ?is")
    case True
    then show ?thesis using m'(7) by blast
  next
    case False
    have "map_of (mg_rooms m) (room_name (Suc j)) = None"
    proof (rule ccontr)
      assume "map_of (mg_rooms m) (room_name (Suc j)) \<noteq> None"
      then obtain i where i: "map_of (mg_rooms m) (room_name (Suc j)) = Some i" by blast
      then have "i = j" using manager_room(2)[OF inv i] by simp
      then have "(room_name (Suc j), j) \<in> set (mg_rooms m)" using map_of_SomeD[OF i] by simp
      then show False using False by force
    qed
    then have "rm_phase (obj m j) = RoomClosed \<and> \<not> some_connected (obj m j)"
      using inv that by (simp add: manager_inv_def dropped_inv_def)
    then show ?thesis using m'(7) by blast
  qed
  then have "manager_inv m'"
    using m' by (simp add: manager_inv_def rooms_inv_def players_inv_def dropped_inv_def)
  then show ?thesis
    using m' all by (intro exI[of _ m']) (simp add: Manager_Close_def close_reset_def RoomCount_def PlayerCount_def)
qed

section \<open>Runs of the manager\<close>

datatype manager_op =
    CallJoin string
  | CallSubmit string string command
  | CallLeave string
  | CallClose string
  | CallReceive nat nat

fun manager_exec ::
  "runner \<Rightarrow> (string \<Rightarrow> 32 word) \<Rightarrow> manager \<Rightarrow> manager_op \<Rightarrow> manager option" where
  "manager_exec runner seedFor m (CallJoin playerID) = map_option fst (Manager_Join runner seedFor m playerID)"
| "manager_exec runner seedFor m (CallSubmit roomID playerID c) =
     map_option fst (Manager_Submit runner m roomID playerID c)"
| "manager_exec runner seedFor m (CallLeave playerID) = map_option fst (Manager_Leave m playerID)"
| "manager_exec runner seedFor m (CallClose reason) = Manager_Close reason m"
| "manager_exec runner seedFor m (CallReceive i k) =
     (if i < length (mg_objs m)
      then Some (set_obj i ((obj m i)\<lparr>rm_chans := chan_recv (rm_chans (obj m i)) k\<rparr>) m)
      else Some m)"

fun manager_run ::
  "(string \<Rightarrow> 32 word) \<Rightarrow> manager \<Rightarrow> ((request \<Rightarrow> rt_error option) \<times> manager_op) list \<Rightarrow> manager option" where
  "manager_run seedFor m [] = Some m"
| "manager_run seedFor m ((fails, x) # xs) =
     (case manager_exec (engine_runner fails) seedFor m x of
        None \<Rightarrow> None
      | Some m' \<Rightarrow> manager_run seedFor m' xs)"

lemma recv_inv:
  assumes inv: "manager_inv m" and i: "i < length (mg_objs m)"
  shows "manager_inv (set_obj i ((obj m i)\<lparr>rm_chans := chan_recv (rm_chans (obj m i)) k\<rparr>) m)"
proof -
  let ?r = "(obj m i)\<lparr>rm_chans := chan_recv (rm_chans (obj m i)) k\<rparr>"
  have r: "room_inv ?r" "rm_id ?r = room_name (Suc i)"
    using inv i room_recv_inv[of "obj m i" k] by (simp_all add: manager_inv_def objs_inv_def)
  have same: "rm_phase ?r = rm_phase (obj m i)" "some_connected ?r = some_connected (obj m i)"
    "seated ?r = seated (obj m i)"
    by (simp_all add: some_connected_def seated_eq)
  then have attr: "rm_phase (obj (set_obj i ?r m) j) = rm_phase (obj m j)"
    "some_connected (obj (set_obj i ?r m) j) = some_connected (obj m j)"
    "seated (obj (set_obj i ?r m) j) = seated (obj m j)" for j
    using i by auto
  have "objs_inv (set_obj i ?r m)" using inv r i by (auto simp: manager_inv_def objs_inv_def)
  then show ?thesis
    using inv unfolding manager_inv_def rooms_inv_def players_inv_def dropped_inv_def attr set_obj_fields
    by blast
qed

context rules_runner
begin

lemma manager_exec_ok:
  assumes inv: "manager_inv m"
  shows "\<exists>m'. manager_exec eval seedFor m x = Some m' \<and> manager_inv m'"
proof (cases x)
  case (CallJoin playerID)
  show ?thesis
  proof (cases "playerID = ''''")
    case True
    then show ?thesis using CallJoin inv by (simp add: Manager_Join_def)
  next
    case False
    show ?thesis
      using inv False
      by (cases rule: Manager_Join_cases[where playerID = playerID and seedFor = seedFor])
        (use CallJoin inv in simp_all)
  qed
next
  case (CallSubmit rid playerID c)
  show ?thesis
    using inv
    by (cases rule: Manager_Submit_cases[where roomID = rid and playerID = playerID and c = c])
      (use CallSubmit inv in simp_all)
next
  case (CallLeave playerID)
  show ?thesis
    using inv
    by (cases rule: Manager_Leave_cases[where playerID = playerID]) (use CallLeave inv in simp_all)
next
  case (CallClose reason)
  then show ?thesis using Manager_Close_ok[OF inv, of reason] by auto
next
  case (CallReceive i k)
  then show ?thesis using recv_inv[OF inv] inv by simp
qed

end

lemma manager_run_ok:
  "manager_inv m \<Longrightarrow> \<exists>m'. manager_run seedFor m xs = Some m' \<and> manager_inv m'"
proof (induction xs arbitrary: m)
  case (Cons x xs)
  obtain fails op where x: "x = (fails, op)" by fastforce
  obtain m1 where "manager_exec (engine_runner fails) seedFor m op = Some m1" "manager_inv m1"
    using engine.manager_exec_ok[OF Cons.prems] by blast
  with Cons.IH[of m1] show ?case by (simp add: x)
qed simp

text \<open>Consequences of the invariant.\<close>

lemma one_waiting:
  assumes "manager_inv m" "map_of (mg_rooms m) a = Some i" "map_of (mg_rooms m) b = Some j"
    "rm_phase (obj m i) = RoomWaiting" "rm_phase (obj m j) = RoomWaiting"
  shows "a = b"
  using manager_room(4)[OF assms(1,2)] manager_room(4)[OF assms(1,3)] assms(4,5) by simp

lemma RoomCount_zero:
  assumes inv: "manager_inv m"
  shows "RoomCount m = 0 \<longleftrightarrow> PlayerCount m = 0"
proof
  assume "RoomCount m = 0"
  then have e: "mg_rooms m = []" by (simp add: RoomCount_def)
  have "map_of (mg_players m) p = None" for p
    using manager_player[OF inv, of p] e by (cases "map_of (mg_players m) p") auto
  then have "map_of (mg_players m) = Map.empty" by (rule ext)
  then show "PlayerCount m = 0" by (simp add: PlayerCount_def)
next
  assume "PlayerCount m = 0"
  then have e: "mg_players m = []" by (simp add: PlayerCount_def)
  have "map_of (mg_rooms m) rid = None" for rid
  proof (rule ccontr)
    assume "map_of (mg_rooms m) rid \<noteq> None"
    then obtain i where i: "map_of (mg_rooms m) rid = Some i" by blast
    then have "some_connected (obj m i)" using manager_room(3)[OF inv] by blast
    then obtain player s where "(player, s) \<in> set (rm_seats (obj m i))"
      by (auto simp: some_connected_def list_ex_iff)
    then have "se_playerID s \<in> set (seated (obj m i))" by (force simp: seated_eq)
    then have "map_of (mg_players m) (se_playerID s) = Some rid" using manager_player[OF inv] i by blast
    then show False using e by simp
  qed
  then have "map_of (mg_rooms m) = Map.empty" by (rule ext)
  then show "RoomCount m = 0" by (simp add: RoomCount_def)
qed

text \<open>The last option decides how seeds are chosen; without a runner there is no manager.\<close>

lemma make_manager_last:
  "make_manager (Some r) random (options @ [WithSeed seed]) = Inr (NewManager, r, \<lambda>roomID. seed)"
  "make_manager (Some r) random (options @ [WithSeedFunc (Some g)]) = Inr (NewManager, r, g)"
  "make_manager (Some r) random (options @ [WithSeedFunc None]) = make_manager (Some r) random options"
  "make_manager None random options = Inl (''runner'' @ utf8 [0x304C, 0x5FC5, 0x8981, 0x3067,
      0x3059])"
  by (simp_all add: make_manager_def WithSeed_def WithSeedFunc_def)

end
