(* ===== verification/SessionLemmas.thy ===== *)
theory SessionLemmas
  imports Session StoreLemmas ManagerLemmas
begin

text \<open>
  From the first join to the replay: the record that is kept of a room's moves is the room's game; a
  game that ends is written, replayed, compared and stored; what is served afterwards is every state
  of the game.
\<close>

section \<open>The moves of a game as a record\<close>

lemma join_unlines: "join_text [nl] (ls @ ['''']) = unlines ls"
proof (induction ls)
  case (Cons l ls)
  then show ?case by (cases "ls @ ['''']") (simp_all add: unlines_def)
qed (simp add: unlines_def)

text \<open>An accepted command as the server keeps it and as it is noted in the record.\<close>

fun kept_move :: "act \<Rightarrow> accepted_move" where
  "kept_move (c, e, t) = \<lparr>am_command = c, am_event = e\<lparr>ev_Changes := slice_copy (ev_Changes e)\<rparr>\<rparr>"

fun note_act :: "act \<Rightarrow> noted" where
  "note_act (c, e, t) =
     (MoveFromCommand c, (case ev_PlacedColor e of None \<Rightarrow> 0 | Some k \<Rightarrow> k), length (elems (ev_Changes e)))"

fun act_ok :: "act \<Rightarrow> bool" where
  "act_ok (c, e, t) \<longleftrightarrow>
     noted_ok (note_act (c, e, t)) \<and>
     (cm_Type c = CommandPlace \<and> ev_PlacedColor e \<noteq> None \<or> cm_Type c = CommandPass)"

lemma accepted_act_ok:
  assumes "length (cells s) = 64" "accepts s c = Some s'" "apply_command s c = ok_response s' (Some e)"
  shows "act_ok (c, e, s')"
proof -
  note t = accepted_timely[OF assms(1,2)]
  have n: "command_check s c = None" using t by (simp add: command_check_None)
  have m: "Move_Validate (MoveFromCommand c) = None" by (rule accepted_move_valid[OF assms(1,2)])
  show ?thesis
  proof (cases "cm_Type c = ''place''")
    case True
    have a: "apply_place s (cm_CommandID c) (the (cm_Row c)) (the (cm_Col c)) = ok_response s' (Some e)"
      using assms(3) n True by (simp add: apply_command_def)
    then have "ev_PlacedColor e \<noteq> None"
      using apply_place_event[of s "cm_CommandID c" "the (cm_Row c)" "the (cm_Col c)"] by auto
    moreover have "length (elems (ev_Changes e)) \<le> 64"
      using changes_bound[of s "cm_CommandID c" "the (cm_Row c)" "the (cm_Col c)" e] a by simp
    then have "length (elems (ev_Changes e)) < 2 ^ 63" by (rule order_le_less_trans) simp
    ultimately show ?thesis using m True by (simp add: noted_ok_def)
  next
    case False
    then have p: "cm_Type c = ''pass''" using t by (simp add: command_timely_def)
    have "apply_pass s (cm_CommandID c) = ok_response s' (Some e)"
      using assms(3) n False by (simp add: apply_command_def)
    then have "ev_Changes e = None" using apply_pass_event[of s "cm_CommandID c"] by auto
    then show ?thesis using m p by (simp add: noted_ok_def)
  qed
qed

lemma acts_ok:
  "game_inv s \<Longrightarrow> play s cs = Some s' \<Longrightarrow> list_all act_ok (acts s cs)"
proof (induction cs arbitrary: s)
  case (Cons c cs)
  then obtain t where t: "accepts s c = Some t" "play t cs = Some s'"
    by (auto split: option.splits)
  obtain e where e: "apply_command s c = ok_response t (Some e)" using accepts_Some[OF t(1)] by blast
  show ?case
    using accepted_act_ok[OF game_inv_length[OF Cons.prems(1)] t(1) e]
      Cons.IH[OF accepts_inv[OF Cons.prems(1) t(1)] t(2)] e by simp
qed simp

lemma move_text_kept: "act_ok a \<Longrightarrow> move_text (kept_move a) = Inr (noted_text (note_act a))"
proof (cases a)
  case (fields c e t)
  assume ok: "act_ok a"
  then have m: "Move_Validate (MoveFromCommand c) = None" by (simp add: fields noted_ok_def)
  show ?thesis
  proof (cases "cm_Type c = CommandPlace")
    case True
    then obtain row col k where rc: "cm_Row c = Some row" "cm_Col c = Some col" "ev_PlacedColor e = Some k"
      "Player_Valid (cm_Player c)" "InBounds row col"
      using ok m by (auto simp: fields Move_Validate_None MoveFromCommand_def Let_def noted_ok_def split: if_splits)
    have "MoveFromCommand c = PlaceMove (cm_Player c) row col"
      using True rc by (simp add: MoveFromCommand_def PlaceMove_def Let_def)
    then show ?thesis
      using True rc PlaceLine_noted[OF rc(4,5), of k "length (elems (ev_Changes e))"]
      by (simp add: fields move_text_def)
  next
    case False
    then have p: "cm_Type c = CommandPass" "Player_Valid (cm_Player c)"
      using ok m by (auto simp: fields Move_Validate_None MoveFromCommand_def Let_def noted_ok_def split: if_splits)
    have "MoveFromCommand c = PassMove (cm_Player c)"
      using p by (simp add: MoveFromCommand_def PassMove_def Let_def)
    then show ?thesis using p by (simp add: fields move_text_def PassLine_noted[symmetric] del: note_act.simps) (simp add: PassLine_noted)
  qed
qed

lemma move_texts_kept:
  "list_all act_ok as \<Longrightarrow> move_texts (map kept_move as) = Inr (map (noted_text \<circ> note_act) as)"
  by (induction as) (simp_all add: move_text_kept)

section \<open>The frames of a game\<close>

lemma act_frames_match: "list_all2 noted_matches (map note_act as) (act_frames n as)"
proof (induction as arbitrary: n)
  case (Cons a as)
  then show ?case by (cases a) (auto simp: noted_matches_def replay_event_def split: option.split)
qed simp

lemma length_act_frames [simp]: "length (act_frames n as) = length as"
  by (induction n as rule: act_frames.induct) simp_all

text \<open>What is served of a game: every state with its number.\<close>

fun state_frames :: "int \<Rightarrow> state list \<Rightarrow> replay_frame list" where
  "state_frames n [] = []"
| "state_frames n (s # ss) = \<lparr>rf_MoveNumber = n, rf_State = State_Clone s\<rparr> # state_frames (n + 1) ss"

fun states_of :: "state \<Rightarrow> command list \<Rightarrow> state list" where
  "states_of s [] = [s]"
| "states_of s (c # cs) = s # (case accepts s c of None \<Rightarrow> [] | Some s' \<Rightarrow> states_of s' cs)"

lemma states_of_acts: "play s cs = Some s' \<Longrightarrow> states_of s cs = s # map (\<lambda>(c, e, t). t) (acts s cs)"
proof (induction cs arbitrary: s)
  case (Cons c cs)
  then obtain t where t: "accepts s c = Some t" "play t cs = Some s'"
    by (auto split: option.splits)
  obtain e where e: "apply_command s c = ok_response t (Some e)" using accepts_Some[OF t(1)] by blast
  show ?case using Cons.IH[OF t(2)] t(1) e by simp
qed simp

abbreviation served :: "frame \<Rightarrow> replay_frame" where
  "served f \<equiv> \<lparr>rf_MoveNumber = fr_MoveNumber f, rf_State = fr_State f\<rparr>"

lemma served_frames:
  "length ms = length as \<Longrightarrow>
   map served (frames_from ol i ms (act_frames n as)) = state_frames (n + 1) (map (\<lambda>(c, e, t). t) as)"
proof (induction as arbitrary: n i ms)
  case (Cons a as)
  then obtain m ms' where "ms = m # ms'" by (cases ms) auto
  with Cons show ?case by (cases a) (simp add: make_frame_def)
qed simp

lemma last_frames:
  "length ms = length as \<Longrightarrow>
   finals s (frames_from ol i ms (act_frames n as)) = State_Clone (last (s # map (\<lambda>(c, e, t). t) as))"
proof -
  assume "length ms = length as"
  then have "map rf_State (map served (frames_from ol i ms (act_frames n as))) =
      map rf_State (state_frames (n + 1) (map (\<lambda>(c, e, t). t) as))" by (simp only: served_frames)
  moreover have "map rf_State (state_frames k ss) = map State_Clone ss" for k ss
    by (induction ss arbitrary: k) simp_all
  ultimately have "map fr_State (frames_from ol i ms (act_frames n as)) = map State_Clone (map (\<lambda>(c, e, t). t) as)"
    by (simp add: o_def)
  moreover have "finals s fs = last (fr_State (first_frame s) # map fr_State fs)" for fs :: "frame list"
    by (simp add: finals_def last_map)
  moreover have "last (fr_State (first_frame s) # map State_Clone ts) = State_Clone (last (s # ts))" for ts
    using last_map[of "s # ts" State_Clone] by (simp add: first_frame_def)
  ultimately show ?thesis by (simp only:)
qed

section \<open>A finished game is written and replays\<close>

lemma noted_frames:
  "map noted_of (frames_from ol i (map (fst \<circ> note_act) as) (act_frames n as)) = map note_act as"
proof (induction as arbitrary: n i)
  case (Cons a as)
  then show ?case
    by (cases a) (simp add: make_frame_def noted_of_def replay_event_def split: option.split)
qed simp

lemma frames_have_moves: "\<forall>f \<in> set (frames_from ol i ms sfs). fr_Move f \<noteq> None"
  by (induction ol i ms sfs rule: frames_from.induct) (simp_all add: make_frame_def)

lemma noted_frames_ok:
  assumes "list_all act_ok as"
  shows "list_all frame_ok (frames_from ol i (map (fst \<circ> note_act) as) (act_frames n as))"
proof -
  have "list_all noted_ok (map note_act as)"
    using assms by (auto simp: list_all_iff elim!: act_ok.elims)
  then have "list_all (noted_ok \<circ> noted_of) (frames_from ol i (map (fst \<circ> note_act) as) (act_frames n as))"
    by (simp only: noted_frames[symmetric, of as ol i n] list_all_iff) auto
  then show ?thesis using frames_have_moves by (fastforce simp: frame_ok_def list_all_iff)
qed

definition written_game :: "string \<Rightarrow> string \<Rightarrow> string \<Rightarrow> 32 word \<Rightarrow> act list \<Rightarrow> state \<Rightarrow> string" where
  "written_game startedAt endedAt gid seed as s =
     unlines (record_lines startedAt endedAt gid seed (map note_act as)
       (Some (the (st_Winner s), length as, color_sum (cells s), pieces (cells s))))"

lemma finished_winner:
  "game_inv s \<Longrightarrow> st_Phase s = PhaseFinished \<Longrightarrow> \<exists>w. st_Winner s = Some w \<and> Player_Valid w"
  using winner_of_valid by (auto simp: game_inv_def)

lemma game_replays:
  assumes play: "play (new_game gid seed) cs = Some s" and fin: "st_Phase s = PhaseFinished"
    and gid: "ValidateGameID gid = None" and stamps: "stamp startedAt" "stamp endedAt"
    and src: "source = written_game startedAt endedAt gid seed (acts (new_game gid seed) cs) s"
    and fails: "fails source = None"
  shows "\<exists>r. Replay (record_decoder fails g harness) source = Inr r \<and> EncodeResult (Some r) = Inr source \<and>
    FinalState r = State_Clone s \<and> sc_GameID (rr_Script r) = gid \<and>
    sc_Winner (rr_Script r) = the (st_Winner s) \<and> sc_StartedAt (rr_Script r) = startedAt \<and>
    sc_EndedAt (rr_Script r) = endedAt \<and> plain_record source \<and>
    map served (rr_Frames r) = state_frames 0 (states_of (new_game gid seed) cs)"
proof -
  let ?s0 = "new_game gid seed"
  let ?as = "acts ?s0 cs"
  let ?xs = "map note_act ?as"
  have ne: "gid \<noteq> ''''" using gid by (auto simp: ValidateGameID_def gameIDPattern_def)
  have inv0: "game_inv ?s0" using new_game_inv ne by blast
  have inv: "game_inv s" using play_inv[OF inv0 play] .
  obtain w where w: "st_Winner s = Some w" "Player_Valid w" using finished_winner[OF inv fin] by blast
  note ap = acts_play[OF play]
  note ok = acts_ok[OF inv0 play]
  let ?n = "length ?as" and ?k = "color_sum (cells s)" and ?m = "pieces (cells s)"
  have rok: "record_ok startedAt endedAt gid ?xs (Some (w, ?n, ?k, ?m))"
    using stamps gid w(2) ok by (auto simp: record_ok_def list_all_iff elim!: act_ok.elims)
  have src': "source = unlines (record_lines startedAt endedAt gid seed ?xs (Some (w, ?n, ?k, ?m)))"
    using src w(1) by (simp add: written_game_def)
  have ms: "map fst ?xs = map MoveFromCommand cs"
  proof -
    have "fst (note_act a) = MoveFromCommand (fst a)" for a by (cases a) simp
    then have "map fst ?xs = map MoveFromCommand (map fst ?as)" by simp
    then show ?thesis using ap by simp
  qed
  have played: "harness_play 0 ?s0 (map fst ?xs) = (act_frames 0 ?as, None)"
    unfolding ms by (rule harness_plays[OF inv0 play])
  define ol where "ol = record_outline startedAt endedAt ?xs (Some (w, ?n, ?k, ?m))"
  define fs where "fs = frames_from ol 0 (map fst ?xs) (act_frames 0 ?as)"
  define r where "r = \<lparr>rr_Script = (harness_output (record_harness gid seed ?xs (Some (w, ?n, ?k, ?m))))
      \<lparr>sc_StartedAt := startedAt, sc_EndedAt := endedAt\<rparr>,
    rr_Outline = ol, rr_Frames = first_frame ?s0 # fs\<rparr>"
  have fl: "length (map fst ?xs) = length ?as" by simp
  have finals: "finals ?s0 fs = State_Clone s" using last_frames[OF fl] ap by (simp add: fs_def)
  have rep: "Replay (record_decoder fails g harness) source = Inr r"
    unfolding r_def ol_def
    by (rule replay_record[where fails = fails, OF rok src' fails played act_frames_match fs_def[unfolded ol_def]])
      (use finals fin w in simp_all)
  have sc: "sc_GameID (rr_Script r) = gid" "sc_Winner (rr_Script r) = w" "sc_StartedAt (rr_Script r) = startedAt"
    "sc_EndedAt (rr_Script r) = endedAt" "sc_Seed (rr_Script r) = seed"
    using w(2) by (simp_all add: r_def record_harness_def)
  have fr: "rr_Frames r = first_frame ?s0 # fs" by (simp add: r_def)
  have final: "FinalState r = State_Clone s" using FinalState_first[OF fr] finals by simp
  have fo: "list_all frame_ok fs" using noted_frames_ok[OF ok, of ol 0 0] by (simp add: fs_def)
  have nf: "map noted_of fs = ?xs" using noted_frames[of ol 0 ?as 0] by (simp add: fs_def)
  have en: "ending_of fs (State_Clone s) = Some (w, ?n, ?k, ?m)"
    using w(1) fin by (simp add: ending_of_def fs_def)
  have enc: "EncodeResult (Some r) = Inr source"
    using EncodeResult_text[OF fr fo] gid w fin by (simp add: sc src' final nf en)
  have "map served (rr_Frames r) = state_frames 0 (states_of ?s0 cs)"
    using served_frames[OF fl, of ol 0 0] states_of_acts[OF play] by (simp add: fr fs_def first_frame_def)
  moreover have "plain_record source" unfolding src' by (rule plain_record_text[OF rok])
  ultimately show ?thesis using rep enc final sc w(1) by (intro exI[of _ r]) simp
qed

text \<open>So \<open>saveFinished\<close> stores it, and \<open>handleReplay\<close> serves it.\<close>

lemma save_finished:
  assumes play: "play (new_game gid (rd_seed rd)) cs = Some s" and fin: "st_Phase s = PhaseFinished"
    and gid: "ValidateGameID gid = None" and stamps: "stamp (rd_startedAt rd)" "stamp now"
    and moves: "rd_moves rd = map kept_move (acts (new_game gid (rd_seed rd)) cs)"
    and store: "memory_ok store" and fails: "\<And>src. fails src = None"
  shows "\<exists>store' source. saveFinished (record_decoder fails g harness) now gid rd (State_Clone s) store = (store', None) \<and>
    memory_ok store' \<and> (\<forall>id. id \<noteq> gid \<longrightarrow> store_Get store' id = store_Get store id) \<and>
    (\<exists>e. store_Get store' gid = Inr e \<and> en_Source e = source) \<and>
    handleReplay (record_decoder fails g harness) store' gid =
      ReplayServed gid source (state_frames 0 (states_of (new_game gid (rd_seed rd)) cs)) (the (st_Winner s))"
proof -
  let ?s0 = "new_game gid (rd_seed rd)"
  let ?as = "acts ?s0 cs"
  let ?d = "record_decoder fails g harness"
  have ne: "gid \<noteq> ''''" using gid by (auto simp: ValidateGameID_def gameIDPattern_def)
  have inv0: "game_inv ?s0" using new_game_inv ne by blast
  have inv: "game_inv s" using play_inv[OF inv0 play] .
  obtain w where w: "st_Winner s = Some w" "Player_Valid w" using finished_winner[OF inv fin] by blast
  define source where "source = written_game (rd_startedAt rd) now gid (rd_seed rd) ?as s"
  obtain r where r: "Replay ?d source = Inr r" "EncodeResult (Some r) = Inr source" "FinalState r = State_Clone s"
    "sc_GameID (rr_Script r) = gid" "sc_Winner (rr_Script r) = w"
    "map served (rr_Frames r) = state_frames 0 (states_of ?s0 cs)"
    using game_replays[where fails = fails and g = g and harness = harness, OF play fin gid stamps source_def fails] w(1)
    by auto
  have lines: "join_text [nl] (HeaderLines (rd_startedAt rd) now @ [''''] @ [RulesVersionLine] @
      [start_text gid (rd_seed rd), ''''] @ map (noted_text \<circ> note_act) ?as @
      ['''', end_text (w, length ?as, color_sum (cells s), pieces (cells s)), '''']) = source"
    using join_unlines[of "record_lines (rd_startedAt rd) now gid (rd_seed rd) (map note_act ?as)
      (Some (w, length ?as, color_sum (cells s), pieces (cells s)))"] w(1)
    by (simp add: source_def written_game_def record_lines_def)
  let ?e = "\<lparr>en_Record = Result_Record r, en_Source = source\<rparr>"
  have id: "entry_id ?e = gid" using r(4) by (simp add: Result_Record_def)
  obtain store' where s': "store_Save store ?e = (store', None)"
    using memory.save_result[of store ?e] gid id by (cases "store_Save store ?e") simp
  then have s'': "fst (store_Save store ?e) = store'" by simp
  have saved: "saveFinished ?d now gid rd (State_Clone s) store = (store', None)"
    using w r(1,2,3) s' move_texts_kept[OF acts_ok[OF inv0 play]] lines
    by (simp add: saveFinished_def moves start_line_text[OF gid] boardTotals_eq end_line_text[OF w(2)] Let_def
        SaveResult_def)
  have get: "store_Get store' gid = Inr (Entry_Clone ?e)"
    using memory.get_saved[OF store, of ?e] s' id by simp
  have other: "store_Get store' x = store_Get store x" if "x \<noteq> gid" for x
    using memory.get_other[OF store, of ?e x] s' id that by simp
  have "handleReplay ?d store' gid = ReplayServed gid source (state_frames 0 (states_of ?s0 cs)) w"
    using gid get r by (simp add: handleReplay_def service_Source_def service_Replay_def)
  then show ?thesis
    using saved get other memory.save_ok[OF store, of ?e] s' w(1) by (intro exI[of _ store'] exI[of _ source]) simp
qed

section \<open>The invariant of the sessions\<close>

text \<open>The record of a room: the accepted commands of the room's game, with their events.\<close>

definition keeps :: "room \<Rightarrow> room_record \<Rightarrow> bool" where
  "keeps r rd \<longleftrightarrow>
     rd_seed rd = rm_seed r \<and> rd_ready rd = rd_finished rd \<and> stamp (rd_startedAt rd) \<and>
     (case rm_state r of
        None \<Rightarrow> rd_moves rd = [] \<and> \<not> rd_finished rd
      | Some s \<Rightarrow>
          (\<exists>cs. play (new_game (rm_id r) (rm_seed r)) cs = Some (wire_state s) \<and>
             rd_moves rd = map kept_move (acts (new_game (rm_id r) (rm_seed r)) cs)) \<and>
          (rd_finished rd \<longleftrightarrow> st_Phase s = PhaseFinished))"

text \<open>A finished match whose record was saved is served, state by state.\<close>

definition serves :: "decoder \<Rightarrow> memory_store \<Rightarrow> room \<Rightarrow> bool" where
  "serves decode store r \<longleftrightarrow>
     (\<exists>cs s source w. play (new_game (rm_id r) (rm_seed r)) cs = Some s \<and>
        map_option wire_state (rm_state r) = Some s \<and> st_Winner s = Some w \<and>
        handleReplay decode store (rm_id r) =
          ReplayServed (rm_id r) source (state_frames 0 (states_of (new_game (rm_id r) (rm_seed r)) cs)) w)"

text \<open>
  The replay process may fail while a record is checked: \<open>decode\<close> is the decoder of a run, and it does
  what the decoder \<open>d\<close> does or reports an error.
\<close>

definition may_fail :: "decoder \<Rightarrow> decoder \<Rightarrow> bool" where
  "may_fail d decode \<longleftrightarrow> (\<forall>source. decode source = d source \<or> (\<exists>err. decode source = Inl err))"

text \<open>
  A room and its record: the record keeps the game, and when the game is finished it is saved and
  served, or the process failed and the error is kept.
\<close>

definition room_recorded :: "decoder \<Rightarrow> decoder \<Rightarrow> memory_store \<Rightarrow> room \<Rightarrow> room_record \<Rightarrow> bool" where
  "room_recorded decode d store r rd \<longleftrightarrow>
     keeps r rd \<and> (rd_finished rd \<longrightarrow> ValidateGameID (rm_id r) = None \<longrightarrow>
       rd_saveError rd = None \<and> (\<exists>source x. decode source = Inr x) \<and> serves d store r \<or>
       (\<exists>err source. rd_saveError rd = Some (SaveReplay err) \<and> decode source = Inl err \<and> decode source \<noteq> d source))"

definition records_inv :: "decoder \<Rightarrow> decoder \<Rightarrow> app \<Rightarrow> bool" where
  "records_inv decode d a \<longleftrightarrow>
     length (ld_objs (ap_records a)) = length (mg_objs (ap_matches a)) \<and>
     (\<forall>i < length (mg_objs (ap_matches a)).
        room_recorded decode d (ap_replays a) (obj (ap_matches a) i) (ld_objs (ap_records a) ! i))"

text \<open>Only what was saved without an error is in the store.\<close>

definition stored_inv :: "ledger \<Rightarrow> memory_store \<Rightarrow> bool" where
  "stored_inv l store \<longleftrightarrow>
     (\<forall>gid e. store_Get store gid = Inr e \<longrightarrow>
        (\<exists>i < length (ld_objs l). gid = room_name (Suc i) \<and> rd_finished (ld_objs l ! i) \<and>
           rd_saveError (ld_objs l ! i) = None))"

definition ledger_inv :: "app \<Rightarrow> bool" where
  "ledger_inv a \<longleftrightarrow>
     (\<forall>rid i. map_of (mg_rooms (ap_matches a)) rid = Some i \<longrightarrow> map_of (ld_rooms (ap_records a)) rid = Some i) \<and>
     (\<forall>rid j. map_of (ld_rooms (ap_records a)) rid = Some j \<longrightarrow>
        j < length (mg_objs (ap_matches a)) \<and> rid = room_name (Suc j))"

definition app_inv :: "decoder \<Rightarrow> decoder \<Rightarrow> app \<Rightarrow> bool" where
  "app_inv decode d a \<longleftrightarrow>
     manager_inv (ap_matches a) \<and> records_inv decode d a \<and> ledger_inv a \<and> memory_ok (ap_replays a) \<and>
     stored_inv (ap_records a) (ap_replays a)"

lemma keeps_cong:
  "rm_id r' = rm_id r \<Longrightarrow> rm_seed r' = rm_seed r \<Longrightarrow> rm_state r' = rm_state r \<Longrightarrow> keeps r' rd = keeps r rd"
  unfolding keeps_def by (simp only:)

lemma handleReplay_cong:
  assumes "store_Get store' gid = store_Get store gid"
  shows "handleReplay decode store' gid = handleReplay decode store gid"
  by (simp only: handleReplay_def service_Source_def service_Replay_def assms)

lemma serves_cong:
  "rm_id r' = rm_id r \<Longrightarrow> rm_seed r' = rm_seed r \<Longrightarrow> rm_state r' = rm_state r \<Longrightarrow>
   store_Get store' (rm_id r) = store_Get store (rm_id r) \<Longrightarrow> serves decode store' r' = serves decode store r"
  unfolding serves_def by (simp only: handleReplay_cong[of store' "rm_id r" store])

lemma room_recorded_cong:
  assumes "rm_id r' = rm_id r" "rm_seed r' = rm_seed r" "rm_state r' = rm_state r"
    and "store_Get store' (rm_id r) = store_Get store (rm_id r)"
  shows "room_recorded decode d store' r' rd = room_recorded decode d store r rd"
  using keeps_cong[OF assms(1-3), of rd] serves_cong[OF assms, of d] assms(1)
  by (simp add: room_recorded_def)

text \<open>A process that fails, on the texts \<open>fails\<close> says.\<close>

lemma record_decoder_failed:
  assumes "fails source = Some e"
  shows "\<exists>err. record_decoder fails g harness source = Inl err"
proof -
  obtain err where "harness_runner fails g harness (combine harness source) = Inl err"
    using assms by (simp add: harness_runner_def script_Run_def harness_process_def Let_def)
  then show ?thesis
    unfolding record_decoder_def Decode_def by (cases err) (simp_all add: Let_def case_prod_beta split: sum.split)
qed

lemma record_decoder_may_fail: "may_fail (record_decoder (\<lambda>_. None) g harness) (record_decoder fails g harness)"
  unfolding may_fail_def
proof
  fix source
  show "record_decoder fails g harness source = record_decoder (\<lambda>_. None) g harness source \<or>
    (\<exists>err. record_decoder fails g harness source = Inl err)"
  proof (cases "fails source")
    case None
    then have "harness_runner fails g harness (combine harness source) =
        harness_runner (\<lambda>_. None) g harness (combine harness source)"
      by (simp add: harness_runner_ok)
    then show ?thesis unfolding record_decoder_def Decode_def by (simp only: simp_thms)
  next
    case (Some e)
    then show ?thesis using record_decoder_failed by blast
  qed
qed

lemma may_fail_refl [simp]: "may_fail d d"
  by (simp add: may_fail_def)

lemma new_room_recorded:
  "stamp now \<Longrightarrow> room_recorded decode d store (newRoom rid seed) \<lparr>rd_seed = seed, rd_startedAt = now, rd_moves = [],
     rd_ready = False, rd_finished = False, rd_saveError = None\<rparr>"
  by (simp add: room_recorded_def keeps_def newRoom_def)

lemma stored_same: "stored_inv l store \<Longrightarrow> ld_objs l' = ld_objs l \<Longrightarrow> stored_inv l' store"
  by (simp add: stored_inv_def)

lemma stored_more:
  assumes "stored_inv l store" "ld_objs l' = ld_objs l @ [rd]"
  shows "stored_inv l' store"
  using assms unfolding stored_inv_def by (metis length_append less_add_same_cancel1 nth_append trans_less_add1)

lemma wire_winner [simp]: "st_Winner (wire_state s) = st_Winner s" "st_Phase (wire_state s) = st_Phase s"
  by (simp_all add: wire_state_def)

text \<open>A step of the matches in which no room's game moves keeps the records.\<close>

lemma records_inv_matches:
  assumes inv: "records_inv decode d a" and len: "length (mg_objs m) = length (mg_objs (ap_matches a))"
    and same: "\<And>i. i < length (mg_objs m) \<Longrightarrow> rm_id (obj m i) = rm_id (obj (ap_matches a) i) \<and>
      rm_seed (obj m i) = rm_seed (obj (ap_matches a) i) \<and> rm_state (obj m i) = rm_state (obj (ap_matches a) i)"
    and l: "ld_objs l = ld_objs (ap_records a)"
  shows "records_inv decode d (a\<lparr>ap_matches := m, ap_records := l\<rparr>)"
  unfolding records_inv_def
proof (intro conjI allI impI)
  show "length (ld_objs (ap_records (a\<lparr>ap_matches := m, ap_records := l\<rparr>))) =
      length (mg_objs (ap_matches (a\<lparr>ap_matches := m, ap_records := l\<rparr>)))"
    using inv len l by (simp add: records_inv_def)
next
  fix i assume "i < length (mg_objs (ap_matches (a\<lparr>ap_matches := m, ap_records := l\<rparr>)))"
  then have i: "i < length (mg_objs (ap_matches a))" "i < length (mg_objs m)" using len by simp_all
  have "room_recorded decode d (ap_replays a) (obj m i) rd = room_recorded decode d (ap_replays a) (obj (ap_matches a) i) rd" for rd
    by (rule room_recorded_cong; use same[OF i(2)] in simp)
  then show "room_recorded decode d (ap_replays (a\<lparr>ap_matches := m, ap_records := l\<rparr>))
      (obj (ap_matches (a\<lparr>ap_matches := m, ap_records := l\<rparr>)) i) (ld_objs (ap_records (a\<lparr>ap_matches := m, ap_records := l\<rparr>)) ! i)"
    using inv i(1) by (simp add: records_inv_def l)
qed

subsection \<open>Joining and leaving\<close>

lemma room_returned_fields [simp]:
  "rm_id (room_returned r p q) = rm_id r" "rm_seed (room_returned r p q) = rm_seed r"
  "rm_state (room_returned r p q) = rm_state r"
  by (simp_all add: room_returned_def Let_def)

lemma room_chan_added_fields [simp]:
  "rm_id (room_chan_added r) = rm_id r" "rm_seed (room_chan_added r) = rm_seed r"
  "rm_state (room_chan_added r) = rm_state r"
  by (simp_all add: room_chan_added_def)

lemma room_started_fields [simp]:
  "rm_id (room_started r p) = rm_id r" "rm_seed (room_started r p) = rm_seed r"
  "rm_state (room_started r p) = Some (State_Clone (new_game (rm_id r) (rm_seed r)))"
  by (simp_all add: room_started_def Let_def)

lemma room_opened_fields [simp]:
  "rm_id (room_opened r p) = rm_id r" "rm_seed (room_opened r p) = rm_seed r"
  "rm_state (room_opened r p) = rm_state r"
  by (simp_all add: room_opened_def)

lemma set_obj_same_game:
  assumes "i < length (mg_objs m)" "rm_id r = rm_id (obj m i)" "rm_seed r = rm_seed (obj m i)" "rm_state r = rm_state (obj m i)"
  shows "rm_id (obj (set_obj i r m) j) = rm_id (obj m j) \<and> rm_seed (obj (set_obj i r m) j) = rm_seed (obj m j) \<and>
    rm_state (obj (set_obj i r m) j) = rm_state (obj m j)"
  using assms by simp

lemma app_inv_same_rooms:
  assumes inv: "app_inv decode d a" and m: "manager_inv m" "mg_rooms m = mg_rooms (ap_matches a)"
    and len: "length (mg_objs m) = length (mg_objs (ap_matches a))"
    and same: "\<And>i. i < length (mg_objs m) \<Longrightarrow> rm_id (obj m i) = rm_id (obj (ap_matches a) i) \<and>
      rm_seed (obj m i) = rm_seed (obj (ap_matches a) i) \<and> rm_state (obj m i) = rm_state (obj (ap_matches a) i)"
  shows "app_inv decode d (a\<lparr>ap_matches := m\<rparr>)"
proof -
  have "records_inv decode d (a\<lparr>ap_matches := m, ap_records := ap_records a\<rparr>)"
    using inv by (intro records_inv_matches len same) (simp_all add: app_inv_def)
  then have "records_inv decode d (a\<lparr>ap_matches := m\<rparr>)" by simp
  then show ?thesis using inv m len by (simp add: app_inv_def ledger_inv_def)
qed

lemma started_state:
  "rm_id r \<noteq> '''' \<Longrightarrow> wire_state (new_game (rm_id r) (rm_seed r)) = new_game (rm_id r) (rm_seed r)"
  using wire_game_inv new_game_inv by blast

lemma started_recorded:
  assumes "room_recorded decode d store r rd" "rm_state r = None" "rm_id r' = rm_id r" "rm_seed r' = rm_seed r"
    "rm_state r' = Some (State_Clone (new_game (rm_id r') (rm_seed r')))" "rm_id r' \<noteq> ''''"
  shows "room_recorded decode d store r' rd"
proof -
  have kp: "keeps r rd" using assms(1) by (simp add: room_recorded_def)
  have fin: "\<not> rd_finished rd" "rd_moves rd = []" using kp assms(2) by (simp_all add: keeps_def)
  have "st_Phase (new_game g sd) \<noteq> PhaseFinished" for g sd by (simp add: new_game_def Let_def)
  then have "keeps r' rd"
    using kp fin assms(2-) started_state[OF assms(6)] by (auto simp: keeps_def intro!: exI[of _ "[]"])
  then show ?thesis using fin by (simp add: room_recorded_def)
qed

context rules_runner
begin

lemma match_join_inv:
  assumes inv: "app_inv decode d a" and now: "stamp now"
  shows "\<exists>a' res. match_join eval seeds now a playerID = Some (a', res) \<and> app_inv decode d a' \<and>
    (case res of Inr member \<Rightarrow>
        \<exists>j. ledger_get (ap_records a') (ms_RoomID member) = Some j \<and> ms_RoomID member = room_name (Suc j) \<and>
          j < length (ld_objs (ap_records a'))
      | Inl _ \<Rightarrow> True)"
proof (cases "playerID = ''''")
  case True
  then show ?thesis using inv by (simp add: match_join_def Manager_Join_def Let_def)
next
  case False
  let ?m = "ap_matches a"
  have mi: "manager_inv ?m" and li: "ledger_inv a" and ri: "records_inv decode d a" using inv by (simp_all add: app_inv_def)
  have room: "\<exists>j. ledger_get (ap_records (a\<lparr>ap_matches := m\<rparr>)) rid = Some j \<and> rid = room_name (Suc j) \<and>
      j < length (ld_objs (ap_records (a\<lparr>ap_matches := m\<rparr>)))" if "map_of (mg_rooms ?m) rid = Some i" for rid i m
    using li ri that by (auto simp: ledger_inv_def ledger_get_def records_inv_def)
  show ?thesis
    using mi False
  proof (cases rule: Manager_Join_cases[where playerID = playerID and seedFor = seeds])
    case (refused rid i message)
    then show ?thesis using inv by (simp add: match_join_def Let_def)
  next
    case (returned rid i player s)
    have i: "i < length (mg_objs ?m)" using manager_room[OF mi returned(2)] by simp
    have "app_inv decode d (a\<lparr>ap_matches := set_obj i (room_returned (obj ?m i) playerID player) ?m\<rparr>)"
      using returned(7) i by (intro app_inv_same_rooms[OF inv]) simp_all
    then show ?thesis using returned(6) room[OF returned(2)] by (simp add: match_join_def Let_def)
  next
    case (failed i err)
    have i: "i < length (mg_objs ?m)" using manager_room[OF mi failed(2)] by simp
    have "app_inv decode d (a\<lparr>ap_matches := set_obj i (room_chan_added (obj ?m i)) ?m\<rparr>)"
      using failed(4) i by (intro app_inv_same_rooms[OF inv]) simp_all
    then show ?thesis using failed(3) by (simp add: match_join_def Let_def)
  next
    case opened
    let ?n = "length (mg_objs ?m)"
    let ?rid = "room_name (Suc ?n)"
    let ?m' = "manager_opened seeds ?m playerID"
    let ?rd = "\<lparr>rd_seed = seeds ?rid, rd_startedAt = now, rd_moves = [], rd_ready = False,
                               rd_finished = False, rd_saveError = None\<rparr>"
    let ?l = "\<lparr>ld_objs = ld_objs (ap_records a) @ [?rd],
       ld_rooms = AList.update ?rid (length (ld_objs (ap_records a))) (ld_rooms (ap_records a))\<rparr>"
    let ?a = "a\<lparr>ap_matches := ?m', ap_records := ?l\<rparr>"
    have n: "mg_nextID ?m = ?n" using mi by (simp add: manager_inv_def objs_inv_def)
    have n': "mg_nextID ?m' = Suc ?n" by (simp add: manager_opened_def Let_def)
    have len: "length (ld_objs (ap_records a)) = ?n" using ri by (simp add: records_inv_def)
    have j: "match_join eval seeds now a playerID = Some (?a, Inr \<lparr>ms_RoomID = ?rid, ms_PlayerID = playerID,
                ms_Seat = PlayerDark, ms_Events = 0, ms_Reconnected = False\<rparr>)"
      using opened(3) n by (simp add: match_join_def Let_def n' seedFor_def)
    have objs: "mg_objs ?m' = mg_objs ?m @ [room_opened (newRoom ?rid (seeds ?rid)) playerID]"
      by (simp add: manager_opened_def Let_def)
    have ob: "obj ?m' i = (if i < ?n then obj ?m i else room_opened (newRoom ?rid (seeds ?rid)) playerID)" if "i < Suc ?n" for i
      using that by (simp add: obj_def objs nth_append)
    have "records_inv decode d ?a"
      unfolding records_inv_def
    proof (intro conjI allI impI)
      show "length (ld_objs (ap_records ?a)) = length (mg_objs (ap_matches ?a))" by (simp add: objs len)
    next
      fix i assume "i < length (mg_objs (ap_matches ?a))"
      then have i: "i < Suc ?n" by (simp add: objs)
      show "room_recorded decode d (ap_replays ?a) (obj (ap_matches ?a) i) (ld_objs (ap_records ?a) ! i)"
      proof (cases "i = ?n")
        case True
        have "room_recorded decode d (ap_replays a) (room_opened (newRoom ?rid (seeds ?rid)) playerID) ?rd =
            room_recorded decode d (ap_replays a) (newRoom ?rid (seeds ?rid)) ?rd"
          by (rule room_recorded_cong) simp_all
        then show ?thesis using True new_room_recorded[OF now] ob[of ?n] by (simp add: nth_append len)
      next
        case False
        then show ?thesis using i ri by (simp add: ob nth_append len records_inv_def)
      qed
    qed
    moreover have "ledger_inv ?a"
      using li len by (auto simp: ledger_inv_def manager_opened_def Let_def less_SucI)
    moreover have "stored_inv ?l (ap_replays a)"
      by (rule stored_more[of "ap_records a"]) (use inv in \<open>simp_all add: app_inv_def\<close>)
    ultimately have "app_inv decode d ?a" using inv opened(4) by (simp add: app_inv_def)
    moreover have "ledger_get (ap_records ?a) ?rid = Some ?n" "?n < length (ld_objs (ap_records ?a))"
      by (simp_all add: ledger_get_def len)
    ultimately show ?thesis unfolding j by (intro exI[of _ ?a]) auto
  next
    case (started i t)
    let ?m' = "manager_started ?m i playerID"
    note k = manager_room[OF mi started(2)]
    have ob: "obj ?m' j = (if j = i then room_started (obj ?m i) playerID else obj ?m j)" for j
      using k(1) by (simp add: manager_started_def)
    have len: "length (mg_objs ?m') = length (mg_objs ?m)" "mg_rooms ?m' = mg_rooms ?m" "mg_nextID ?m' = mg_nextID ?m"
      by (simp_all add: manager_started_def)
    have id: "rm_id (obj ?m i) \<noteq> ''''" using k(5) by (simp add: room_inv_def)
    have none: "rm_state (obj ?m i) = None" using k(4,5) by (auto simp: room_inv_def phase_inv_def)
    have "records_inv decode d (a\<lparr>ap_matches := ?m'\<rparr>)"
      unfolding records_inv_def
    proof (intro conjI allI impI)
      show "length (ld_objs (ap_records (a\<lparr>ap_matches := ?m'\<rparr>))) = length (mg_objs (ap_matches (a\<lparr>ap_matches := ?m'\<rparr>)))"
        using ri by (simp add: len records_inv_def)
    next
      fix j assume "j < length (mg_objs (ap_matches (a\<lparr>ap_matches := ?m'\<rparr>)))"
      then have j: "j < length (mg_objs ?m)" by (simp add: len)
      have rj: "room_recorded decode d (ap_replays a) (obj ?m j) (ld_objs (ap_records a) ! j)"
        using ri j by (simp add: records_inv_def)
      have "room_recorded decode d (ap_replays a) (room_started (obj ?m i) playerID) (ld_objs (ap_records a) ! i)" if "j = i"
        by (rule started_recorded[of decode d "ap_replays a" "obj ?m i"]) (use that none id rj in simp_all)
      then show "room_recorded decode d (ap_replays (a\<lparr>ap_matches := ?m'\<rparr>)) (obj (ap_matches (a\<lparr>ap_matches := ?m'\<rparr>)) j)
          (ld_objs (ap_records (a\<lparr>ap_matches := ?m'\<rparr>)) ! j)"
        using rj by (simp add: ob)
    qed
    then have "app_inv decode d (a\<lparr>ap_matches := ?m'\<rparr>)"
      using inv started(5) by (simp add: app_inv_def ledger_inv_def len)
    then show ?thesis using started(4) room[OF started(2)] by (simp add: match_join_def Let_def len)
  qed
qed

end

subsection \<open>Leaving\<close>

lemma match_leave_inv:
  assumes inv: "app_inv decode d a"
  shows "\<exists>a'. match_leave a roomID playerID = Some a' \<and> app_inv decode d a'"
proof -
  let ?m = "ap_matches a"
  have mi: "manager_inv ?m" and li: "ledger_inv a" and ri: "records_inv decode d a" using inv by (simp_all add: app_inv_def)
  have step: "app_inv decode d (a\<lparr>ap_matches := m,
      ap_records := (if Manager_Room m roomID = None then discard roomID (ap_records a) else ap_records a)\<rparr>)"
    if m: "manager_inv m" "length (mg_objs m) = length (mg_objs ?m)"
      and same: "\<And>i. i < length (mg_objs m) \<Longrightarrow> rm_id (obj m i) = rm_id (obj ?m i) \<and>
        rm_seed (obj m i) = rm_seed (obj ?m i) \<and> rm_state (obj m i) = rm_state (obj ?m i)"
      and rooms: "\<And>rid i. map_of (mg_rooms m) rid = Some i \<Longrightarrow> map_of (mg_rooms ?m) rid = Some i" for m
  proof -
    let ?l = "if Manager_Room m roomID = None then discard roomID (ap_records a) else ap_records a"
    have objs: "ld_objs ?l = ld_objs (ap_records a)" by (simp add: discard_def)
    have "records_inv decode d (a\<lparr>ap_matches := m, ap_records := ?l\<rparr>)"
      by (rule records_inv_matches[OF ri m(2) same objs])
    moreover have "ledger_inv (a\<lparr>ap_matches := m, ap_records := ?l\<rparr>)"
      using li rooms m(2) by (auto simp: ledger_inv_def discard_def Manager_Room_def split: if_splits)
    moreover have "stored_inv ?l (ap_replays a)"
      using inv by (intro stored_same[OF _ objs]) (simp add: app_inv_def)
    ultimately show ?thesis using inv m(1) by (simp add: app_inv_def)
  qed
  show ?thesis
    using mi
  proof (cases rule: Manager_Leave_cases[where playerID = playerID])
    case (stranger message)
    then show ?thesis using step[of ?m] mi by (simp add: match_leave_def)
  next
    case (remains rid i r player s)
    note k = manager_room[OF mi remains(2)]
    have "rm_id r = rm_id (obj ?m i)"
      using remains(5) k(1) mi unfolding manager_inv_def objs_inv_def by (metis obj_set_obj set_obj_fields(5))
    then show ?thesis
      using step[of "set_obj i r ?m"] remains k(1) by (simp add: match_leave_def)
  next
    case (emptied rid i r)
    note k = manager_room[OF mi emptied(2)]
    let ?m' = "manager_left ?m rid i r playerID"
    have ob: "obj ?m' j = (if j = i then r else obj ?m j)" for j
      using k(1) by (simp add: manager_left_def leave_cleanup_def Let_def)
    have f: "length (mg_objs ?m') = length (mg_objs ?m)" "mg_rooms ?m' = AList.delete rid (mg_rooms ?m)"
      using k(1) by (simp_all add: manager_left_def leave_cleanup_def Let_def)
    have "rm_id r = rm_id (obj ?m i)"
      using emptied(4) k(1) mi ob[of i] f(1) unfolding manager_inv_def objs_inv_def by metis
    then have "app_inv decode d (a\<lparr>ap_matches := ?m',
        ap_records := (if Manager_Room ?m' roomID = None then discard roomID (ap_records a) else ap_records a)\<rparr>)"
      using emptied by (intro step) (auto simp: ob f split: if_splits)
    then show ?thesis using emptied(3) by (simp add: match_leave_def)
  qed
qed

subsection \<open>Submitting\<close>

lemma cloned_ok_response:
  "room_cloneResponse (Some (ok_response s (Some e))) = Some
     \<lparr>rs_Version = Version, rs_OK = True, rs_State = Some (State_Clone s),
      rs_Event = Some (e\<lparr>ev_Changes := slice_copy (ev_Changes e)\<rparr>), rs_Error = None\<rparr>"
  by (cases e; cases "ev_Changes e") (auto simp: room_cloneResponse_def ok_response_def slice_copy_def)

lemma saveFinished_invalid:
  "ValidateGameID roomID \<noteq> None \<Longrightarrow> st_Winner final \<noteq> None \<Longrightarrow> fst (saveFinished decode now roomID rd final store) = store"
  by (auto simp: saveFinished_def StartLine_def)

text \<open>\<open>owes_move\<close>: the room has accepted a command that the record does not have yet.\<close>

definition owes_move :: "room \<Rightarrow> room_record \<Rightarrow> command \<Rightarrow> response \<Rightarrow> bool" where
  "owes_move r rd c resp \<longleftrightarrow>
     (\<exists>s s' e. keeps (r\<lparr>rm_state := Some s\<rparr>) rd \<and> rm_state r = Some (State_Clone s') \<and>
        accepts (wire_state s) c = Some s' \<and> apply_command (wire_state s) c = ok_response s' (Some e) \<and>
        room_cloneResponse (Some (ok_response s' (Some e))) = Some resp)"

lemma owes_move_cong:
  assumes "rm_id r' = rm_id r" "rm_seed r' = rm_seed r" "rm_state r' = rm_state r"
  shows "owes_move r' rd c resp = owes_move r rd c resp"
proof -
  have "keeps (r'\<lparr>rm_state := Some s\<rparr>) rd = keeps (r\<lparr>rm_state := Some s\<rparr>) rd" for s
    by (rule keeps_cong) (use assms in simp_all)
  then show ?thesis using assms(3) by (simp add: owes_move_def)
qed

lemma owes_moved:
  assumes "keeps r rd" "rm_state r = Some s" "accepts (wire_state s) c = Some s'"
    "apply_command (wire_state s) c = ok_response s' (Some e)"
    "room_cloneResponse (Some (ok_response s' (Some e))) = Some resp"
  shows "owes_move (room_moved r s' (Some e)) rd c resp"
proof -
  have "keeps ((room_moved r s' (Some e))\<lparr>rm_state := Some s\<rparr>) rd = keeps r rd"
    by (rule keeps_cong) (use assms(2) in simp_all)
  then show ?thesis unfolding owes_move_def using assms by (intro exI[of _ s] exI[of _ s'] exI[of _ e]) simp
qed

text \<open>When the process fails the error is reported and nothing is stored.\<close>

lemma Replay_may_fail:
  assumes "may_fail d decode"
  shows "Replay decode src = Replay d src \<or>
    (\<exists>err. decode src = Inl err \<and> decode src \<noteq> d src \<and> Replay decode src = Inl err)"
proof (cases "decode src = d src")
  case True
  then show ?thesis by (simp add: Replay_def ReplayWith_def)
next
  case False
  then obtain err where "decode src = Inl err" using assms by (auto simp: may_fail_def)
  then show ?thesis using False by (simp add: Replay_def ReplayWith_def)
qed

lemma saveFinished_may_fail:
  assumes "may_fail d decode"
  shows "saveFinished decode now rid rd final store = saveFinished d now rid rd final store \<or>
    (\<exists>src err. decode src = Inl err \<and> decode src \<noteq> d src \<and>
       saveFinished decode now rid rd final store = (store, Some (SaveReplay err)))"
proof -
  have sep: "(case Replay decode src of Inl err \<Rightarrow> (store, Some (SaveReplay err)) | Inr res \<Rightarrow> f res) =
      (case Replay d src of Inl err \<Rightarrow> (store, Some (SaveReplay err)) | Inr res \<Rightarrow> f res) \<or>
      (\<exists>source err. decode source = Inl err \<and> decode source \<noteq> d source \<and>
        (case Replay decode src of Inl err \<Rightarrow> (store, Some (SaveReplay err)) | Inr res \<Rightarrow> f res) =
          (store, Some (SaveReplay err)))" for src f
    using Replay_may_fail[OF assms, of src] by (elim disjE exE conjE) auto
  show ?thesis
    unfolding saveFinished_def Let_def
    by (cases "st_Winner final"; cases "StartLine rid (rd_seed rd)"; cases "move_texts (rd_moves rd)";
        cases "EndLine (the (st_Winner final)) (int (length (rd_moves rd))) (fst (boardTotals (st_Board final)))
          (snd (boardTotals (st_Board final)))")
      (simp_all add: case_prod_beta sep del: append.simps)
qed

lemma saveFinished_decoded:
  "saveFinished decode now rid rd final store = (store', None) \<Longrightarrow> \<exists>source x. decode source = Inr x"
  by (auto simp: saveFinished_def Let_def Replay_def ReplayWith_def split: option.splits sum.splits prod.splits if_splits)

text \<open>A move is only owed while the game goes on.\<close>

lemma owes_unfinished:
  assumes "owes_move r rd c resp" "rm_id r \<noteq> ''''"
  shows "\<not> rd_finished rd \<and> \<not> rd_ready rd"
proof -
  obtain s s' where s: "keeps (r\<lparr>rm_state := Some s\<rparr>) rd" "accepts (wire_state s) c = Some s'"
    using assms(1) unfolding owes_move_def by blast
  then obtain cs where "play (new_game (rm_id r) (rm_seed r)) cs = Some (wire_state s)" by (auto simp: keeps_def)
  then have "game_inv (wire_state s)" using play_inv new_game_inv assms(2) by blast
  then have "command_timely (wire_state s) c" using accepted_timely[OF game_inv_length s(2)] by blast
  then show ?thesis using s(1) by (simp add: keeps_def command_timely_def)
qed

lemma stored_recorded:
  assumes st: "stored_inv l store" and j: "j < length (ld_objs l)" "\<not> rd_finished (ld_objs l ! j)"
    and other: "\<forall>x. x \<noteq> room_name (Suc j) \<longrightarrow> store_Get store' x = store_Get store x"
    and own: "store_Get store' (room_name (Suc j)) = store_Get store (room_name (Suc j)) \<or>
      rd_finished rd \<and> rd_saveError rd = None"
  shows "stored_inv (l\<lparr>ld_objs := (ld_objs l)[j := rd]\<rparr>) store'"
  unfolding stored_inv_def
proof (intro allI impI)
  fix gid e assume e: "store_Get store' gid = Inr e"
  show "\<exists>i < length (ld_objs (l\<lparr>ld_objs := (ld_objs l)[j := rd]\<rparr>)). gid = room_name (Suc i) \<and>
      rd_finished (ld_objs (l\<lparr>ld_objs := (ld_objs l)[j := rd]\<rparr>) ! i) \<and>
      rd_saveError (ld_objs (l\<lparr>ld_objs := (ld_objs l)[j := rd]\<rparr>) ! i) = None"
  proof (cases "store_Get store gid = Inr e")
    case True
    then obtain i where i: "i < length (ld_objs l)" "gid = room_name (Suc i)" "rd_finished (ld_objs l ! i)"
      "rd_saveError (ld_objs l ! i) = None"
      using st unfolding stored_inv_def by blast
    then have "i \<noteq> j" using j(2) by auto
    then show ?thesis using i by (intro exI[of _ i]) simp
  next
    case False
    then have "gid = room_name (Suc j)" using e other by metis
    then show ?thesis using False e own j(1) by (intro exI[of _ j]) auto
  qed
qed

text \<open>The move is recorded: then the record keeps the game again, and a finished game is saved and served.\<close>

lemma record_move_kept:
  fixes g :: script_runner and harness :: string
  defines "d \<equiv> record_decoder (\<lambda>_. None) g harness"
  assumes fl: "may_fail d decode"
    and owes: "owes_move r (ld_objs l ! j) c resp" and id: "rm_id r = room_name (Suc j)"
    and st: "memory_ok store" and now: "stamp now"
    and sv: "stored_inv l store" and j: "j < length (ld_objs l)"
  obtains e final rd store' where "rs_OK resp" "rs_Event resp = Some e" "rs_State resp = Some final"
    "record_move decode now (room_name (Suc j)) j c e final (l, store) =
       (l\<lparr>ld_objs := (ld_objs l)[j := rd]\<rparr>, store')"
    "room_recorded decode d store' r rd" "memory_ok store'"
    "\<forall>x. x \<noteq> room_name (Suc j) \<longrightarrow> store_Get store' x = store_Get store x"
    "stored_inv (l\<lparr>ld_objs := (ld_objs l)[j := rd]\<rparr>) store'"
proof -
  let ?rd = "ld_objs l ! j" and ?rid = "room_name (Suc j)"
  let ?s0 = "new_game (rm_id r) (rm_seed r)"
  obtain s s' e where kp: "keeps (r\<lparr>rm_state := Some s\<rparr>) ?rd" and r: "rm_state r = Some (State_Clone s')"
    and acc: "accepts (wire_state s) c = Some s'" "apply_command (wire_state s) c = ok_response s' (Some e)"
    and resp: "room_cloneResponse (Some (ok_response s' (Some e))) = Some resp"
    using owes unfolding owes_move_def by blast
  let ?e = "e\<lparr>ev_Changes := slice_copy (ev_Changes e)\<rparr>"
  have resp': "rs_OK resp" "rs_Event resp = Some ?e" "rs_State resp = Some (State_Clone s')"
    using resp[symmetric] by (simp_all add: cloned_ok_response)
  have sd: "rd_seed ?rd = rm_seed r" "stamp (rd_startedAt ?rd)" using kp by (simp_all add: keeps_def)
  obtain cs where cs: "play ?s0 cs = Some (wire_state s)" "rd_moves ?rd = map kept_move (acts ?s0 cs)"
    using kp by (auto simp: keeps_def)
  have ne: "rm_id r \<noteq> ''''" by (simp add: id)
  have game: "room_game r s" using cs(1) by (auto simp: room_game_def)
  note mv = room_game_move[OF ne game acc(1)]
  have play': "play ?s0 (cs @ [c]) = Some s'" using cs(1) acc(1) by (simp add: play_append)
  have acts': "acts ?s0 (cs @ [c]) = acts ?s0 cs @ [(c, e, s')]" by (rule acts_snoc[OF cs(1) acc])
  have "game_inv (wire_state s)" using room_game_server[OF ne game] by (simp add: server_state_def)
  then have "command_timely (wire_state s) c" using accepted_timely[OF game_inv_length acc(1)] by blast
  then have "st_Phase s \<noteq> PhaseFinished" by (simp add: command_timely_def)
  then have nf: "\<not> rd_finished ?rd" using kp by (simp add: keeps_def)
  let ?rd1 = "?rd\<lparr>rd_moves := rd_moves ?rd @ [\<lparr>am_command = c, am_event = ?e\<rparr>]\<rparr>"
  have moves: "rd_moves ?rd1 = map kept_move (acts ?s0 (cs @ [c]))" by (simp add: cs(2) acts')
  obtain store' err where sf: "saveFinished decode now ?rid ?rd1 (State_Clone s') store = (store', err)" by fastforce
  let ?rd2 = "if st_Phase s' = PhaseFinished then ?rd1\<lparr>rd_finished := True, rd_saveError := err, rd_ready := True\<rparr> else ?rd1"
  let ?store = "if st_Phase s' = PhaseFinished then store' else store"
  have rec: "record_move decode now ?rid j c ?e (State_Clone s') (l, store) =
      (l\<lparr>ld_objs := (ld_objs l)[j := ?rd2]\<rparr>, ?store)"
    using sf nf by (simp add: record_move_def Let_def)
  have fin: "memory_ok ?store \<and> (\<forall>x. x \<noteq> ?rid \<longrightarrow> store_Get ?store x = store_Get store x) \<and>
      (store_Get ?store ?rid = store_Get store ?rid \<or> rd_finished ?rd2 \<and> rd_saveError ?rd2 = None) \<and>
      (st_Phase s' = PhaseFinished \<longrightarrow> ValidateGameID ?rid = None \<longrightarrow>
         err = None \<and> (\<exists>source x. decode source = Inr x) \<and> serves d store' r \<or>
         (\<exists>x source. err = Some (SaveReplay x) \<and> decode source = Inl x \<and> decode source \<noteq> d source))"
  proof (cases "st_Phase s' = PhaseFinished")
    case True
    obtain w where w: "st_Winner s' = Some w" using finished_winner[OF mv(3) True] by blast
    show ?thesis
    proof (cases "ValidateGameID ?rid")
      case None
      have st1: "stamp (rd_startedAt ?rd1)" "rd_seed ?rd1 = rm_seed r" using sd by simp_all
      note play1 = play'[folded st1(2), unfolded id]
      note moves1 = moves[folded st1(2), unfolded id]
      obtain store1 source where s1: "saveFinished d now ?rid ?rd1 (State_Clone s') store = (store1, None)"
        "memory_ok store1" "\<forall>x. x \<noteq> ?rid \<longrightarrow> store_Get store1 x = store_Get store x"
        "handleReplay d store1 ?rid =
          ReplayServed ?rid source (state_frames 0 (states_of (new_game ?rid (rd_seed ?rd1)) (cs @ [c]))) (the (st_Winner s'))"
        using save_finished[where fails = "\<lambda>_. None" and g = g and harness = harness,
          OF play1 True None st1(1) now moves1 st refl]
        unfolding d_def by blast
      have "serves d store1 r"
        unfolding serves_def using play' s1(4) w mv(2) st1(2) id r
        by (intro exI[of _ "cs @ [c]"] exI[of _ s'] exI[of _ source] exI[of _ w]) simp
      consider "(store', err) = (store1, None)"
        | x src where "(store', err) = (store, Some (SaveReplay x))" "decode src = Inl x" "decode src \<noteq> d src"
        using saveFinished_may_fail[OF fl, of now ?rid ?rd1 "State_Clone s'" store] unfolding sf s1(1) by metis
      then show ?thesis
      proof cases
        case 1
        then have "saveFinished decode now ?rid ?rd1 (State_Clone s') store = (store1, None)" using sf by simp
        then have "\<exists>source x. decode source = Inr x" by (rule saveFinished_decoded)
        then show ?thesis using 1 s1(2,3) True \<open>serves d store1 r\<close> by simp
      next
        case 2
        then show ?thesis using st by auto
      qed
    next
      case (Some x)
      then show ?thesis
        using saveFinished_invalid[of ?rid "State_Clone s'" decode now ?rd1 store] sf w st True by simp
    qed
  qed (use st in simp)
  have "keeps r ?rd2"
    using kp play' moves mv(2) nf r unfolding keeps_def by (auto simp: nf)
  then have "room_recorded decode d ?store r ?rd2"
    using fin id nf by (auto simp: room_recorded_def split: if_splits)
  moreover have "stored_inv (l\<lparr>ld_objs := (ld_objs l)[j := ?rd2]\<rparr>) ?store"
    using fin by (intro stored_recorded[OF sv j nf]) blast+
  ultimately show ?thesis using that[OF resp' rec] fin by blast
qed

context rules_runner
begin

lemma submitCommand_inv:
  fixes g :: script_runner and harness :: string
  defines "d \<equiv> record_decoder (\<lambda>_. None) g harness"
  assumes fl: "may_fail d decode"
    and inv: "app_inv decode d a" and now: "stamp now" and j: "j < length (ld_objs (ap_records a))"
  shows "\<exists>a' res. submitCommand eval decode now a (room_name (Suc j)) playerID (Some j) c = Some (a', res) \<and>
    res \<noteq> Inr None \<and> app_inv decode d a' \<and>
    length (ld_objs (ap_records a')) = length (ld_objs (ap_records a))"
proof -
  let ?m = "ap_matches a" and ?rid = "room_name (Suc j)"
  have mi: "manager_inv ?m" and li: "ledger_inv a" and ri: "records_inv decode d a" and st: "memory_ok (ap_replays a)"
    and sv: "stored_inv (ap_records a) (ap_replays a)"
    using inv by (simp_all add: app_inv_def)
  show ?thesis
    using mi
  proof (cases rule: Manager_Submit_cases[where roomID = ?rid and playerID = playerID and c = c])
    case (failed err)
    then show ?thesis using inv by (simp add: submitCommand_def Let_def)
  next
    case (refused resp)
    then show ?thesis using inv by (simp add: submitCommand_def Let_def)
  next
    case (accepted i player seat s s' e)
    note k = manager_room[OF mi accepted(2)]
    have i: "i = j" using k(2) by simp
    let ?r = "obj ?m j" and ?rd = "ld_objs (ap_records a) ! j"
    let ?r' = "room_moved ?r s' (Some e)"
    have id: "rm_id ?r' = ?rid" using k(6) i by simp
    have kp: "keeps ?r ?rd" using ri k(1) i by (simp add: records_inv_def room_recorded_def)
    obtain resp where resp: "room_cloneResponse (Some (ok_response s' (Some e))) = Some resp"
      by (simp add: cloned_ok_response)
    have owes: "owes_move ?r' ?rd c resp"
      by (rule owes_moved[OF kp _ accepted(6,7) resp]) (use accepted(4) i in simp)
    show ?thesis
      using fl[unfolded d_def] owes id st now sv j
    proof (cases rule: record_move_kept[where g = g and harness = harness])
      case (1 e' final rd store')
      note rec = 1[folded d_def]
      let ?m' = "set_obj j ?r' ?m"
      let ?l = "(ap_records a)\<lparr>ld_objs := (ld_objs (ap_records a))[j := rd]\<rparr>"
      let ?a' = "a\<lparr>ap_matches := ?m', ap_records := ?l, ap_replays := store'\<rparr>"
      have sub: "submitCommand eval decode now a ?rid playerID (Some j) c = Some (?a', Inr (Some resp))"
        using accepted(8) i rec(1-4) resp by (simp add: submitCommand_def Let_def)
      have "room_recorded decode d store' (obj ?m' x) (ld_objs ?l ! x)" if x: "x < length (mg_objs ?m)" for x
      proof (cases "x = j")
        case True
        then show ?thesis using rec(5) k(1) i j by simp
      next
        case False
        have "rm_id (obj ?m x) = room_name (Suc x)" using mi x by (simp add: manager_inv_def objs_inv_def)
        then have "room_recorded decode d store' (obj ?m x) (ld_objs (ap_records a) ! x) =
            room_recorded decode d (ap_replays a) (obj ?m x) (ld_objs (ap_records a) ! x)"
          using rec(7) False by (intro room_recorded_cong) simp_all
        then show ?thesis using ri x False k(1) i by (simp add: records_inv_def)
      qed
      then have "records_inv decode d ?a'" using ri by (simp add: records_inv_def)
      moreover have "ledger_inv ?a'" using li by (simp add: ledger_inv_def)
      ultimately have "app_inv decode d ?a'" using accepted(9) rec(6,8) i by (simp add: app_inv_def)
      then show ?thesis using sub by auto
    qed
  qed
qed

end

section \<open>Runs of the server\<close>

text \<open>
  What can happen, in any order: a request to join with the outcome of its handshake, a frame (or a
  failure to read one) on a connection of the \<open>j\<close>-th room with the limiter of that connection, the
  end of a connection, an event taken off a room's channel, and the closing of all rooms at a signal. Every step comes with the failures of
  the platform under the engine and with the text of the clock.
\<close>

datatype session_op =
    OpConnect string upgrade bool
  | OpFrame nat string rate_limiter int "ws_error + ws_frame"
  | OpLeave nat string
  | OpReceive nat nat
  | OpShutdown

record world =
  wd_show :: "rt_error \<Rightarrow> string"
  wd_config :: demo_config
  wd_parse :: "bytes \<Rightarrow> command option"
  wd_seeds :: "string \<Rightarrow> 32 word"

type_synonym moment = "(request \<Rightarrow> rt_error option) \<times> string"

definition pointer :: "app \<Rightarrow> nat \<Rightarrow> nat option" where
  "pointer a j = (if j < length (ld_objs (ap_records a)) then Some j else None)"

fun session_exec :: "world \<Rightarrow> decoder \<Rightarrow> moment \<Rightarrow> app \<Rightarrow> session_op \<Rightarrow> app option" where
  "session_exec w decode (fails, clock) a (OpConnect playerID upgraded let_in) =
     map_option fst (handleMatch (wd_show w) (engine_runner fails) (wd_seeds w) clock (wd_config w) upgraded let_in a playerID)"
| "session_exec w decode (fails, clock) a (OpFrame j playerID limiter now frame) =
     map_option (fst \<circ> fst) (read_step (engine_runner fails) decode (wd_parse w) now clock (room_name (Suc j)) playerID
       (pointer a j) frame (a, limiter))"
| "session_exec w decode (fails, clock) a (OpLeave j playerID) = match_leave a (room_name (Suc j)) playerID"
| "session_exec w decode (fails, clock) a (OpReceive i k) =
     map_option (\<lambda>m. a\<lparr>ap_matches := m\<rparr>)
       (manager_exec (engine_runner fails) (wd_seeds w) (ap_matches a) (CallReceive i k))"
| "session_exec w decode (fails, clock) a OpShutdown = stop_matches a"

fun session_run :: "world \<Rightarrow> decoder \<Rightarrow> app \<Rightarrow> (moment \<times> session_op) list \<Rightarrow> app option" where
  "session_run w decode a [] = Some a"
| "session_run w decode a ((t, x) # xs) =
     (case session_exec w decode t a x of None \<Rightarrow> None | Some a' \<Rightarrow> session_run w decode a' xs)"

definition new_app :: app where
  "new_app = \<lparr>ap_matches = NewManager, ap_records = newRecordLedger, ap_replays = NewMemoryStore\<rparr>"

lemma empty_store: "stored_inv l NewMemoryStore"
  by (simp add: stored_inv_def NewMemoryStore_def store_Get_def)

lemma new_app_inv: "app_inv decode d new_app"
  using NewManager_inv
  by (simp add: app_inv_def new_app_def records_inv_def ledger_inv_def newRecordLedger_def NewManager_def empty_store)

context rules_runner
begin

lemma handleMatch_inv:
  assumes inv: "app_inv decode d a" and now: "stamp clock"
  shows "\<exists>a' st. handleMatch show_error eval seeds clock config upgraded let_in a playerID = Some (a', st) \<and> app_inv decode d a'"
proof -
  obtain a' res where j: "match_join eval seeds clock a playerID = Some (a', res)" "app_inv decode d a'"
    using match_join_inv[OF inv now, of seeds playerID] by blast
  then show ?thesis
    using inv by (cases upgraded; cases res) (auto simp: handleMatch_def)
qed

lemma read_step_inv:
  fixes g :: script_runner and harness :: string
  defines "d \<equiv> record_decoder (\<lambda>_. None) g harness"
  assumes fl: "may_fail d decode" and inv: "app_inv decode d a" and now: "stamp clock"
  shows "\<exists>a' l out more. read_step eval decode parse t clock (room_name (Suc j)) playerID (pointer a j) frame (a, limiter) =
    Some ((a', l), out, more) \<and> app_inv decode d a'"
proof -
  have sub: "\<exists>a' res. submitCommand eval decode clock a (room_name (Suc j)) playerID (pointer a j) c = Some (a', res) \<and>
      res \<noteq> Inr None \<and> app_inv decode d a'" for c
  proof (cases "j < length (ld_objs (ap_records a))")
    case True
    then show ?thesis
      using submitCommand_inv[where g = g and harness = harness, OF fl[unfolded d_def] inv[unfolded d_def] now True,
        of playerID c]
      by (auto simp: pointer_def d_def)
  next
    case False
    then show ?thesis using inv by (simp add: pointer_def submitCommand_def)
  qed
  show ?thesis
  proof (cases frame)
    case (Inl err)
    then show ?thesis using inv by (auto simp: read_step_def)
  next
    case (Inr f)
    obtain l ok where l: "limiter_allow t limiter = (l, ok)" by fastforce
    show ?thesis
    proof (cases "wf_opcode f = 1 \<and> ok \<and> parse (wf_data f) \<noteq> None")
      case False
      then show ?thesis using inv Inr l by (auto simp: read_step_def Let_def split: option.split)
    next
      case True
      then obtain c where c: "parse (wf_data f) = Some c" by blast
      obtain a' res where s: "submitCommand eval decode clock a (room_name (Suc j)) playerID (pointer a j) c = Some (a', res)"
        "res \<noteq> Inr None" "app_inv decode d a'" using sub[of c] by blast
      then show ?thesis
        using Inr l c True by (auto simp: read_step_def split: sum.split option.split)
    qed
  qed
qed

end

lemma receive_inv:
  assumes inv: "app_inv decode d a"
  shows "\<exists>a'. session_exec w decode t a (OpReceive i k) = Some a' \<and> app_inv decode d a'"
proof (cases t)
  case (Pair fails clock)
  show ?thesis
  proof (cases "i < length (mg_objs (ap_matches a))")
    case True
    let ?r = "(obj (ap_matches a) i)\<lparr>rm_chans := chan_recv (rm_chans (obj (ap_matches a) i)) k\<rparr>"
    have "manager_inv (set_obj i ?r (ap_matches a))" using inv recv_inv[OF _ True] by (simp add: app_inv_def)
    then have "app_inv decode d (a\<lparr>ap_matches := set_obj i ?r (ap_matches a)\<rparr>)"
      using True by (intro app_inv_same_rooms[OF inv]) simp_all
    then show ?thesis using True Pair by simp
  next
    case False
    then show ?thesis using inv Pair by simp
  qed
qed

text \<open>Closing a room keeps its game.\<close>

lemma room_close_game:
  assumes "room_close reason r = Some r'"
  shows "rm_id r' = rm_id r \<and> rm_seed r' = rm_seed r \<and> rm_state r' = rm_state r"
  using assms
  by (auto simp: room_close_def closeLocked_def releaseSeats_def Let_def split: if_splits option.splits bind_splits)

lemma close_rooms_game:
  "close_rooms reason is m = Some m' \<Longrightarrow> length (mg_objs m') = length (mg_objs m) \<and>
     mg_nextID m' = mg_nextID m \<and> mg_rooms m' = mg_rooms m \<and>
     rm_id (obj m' j) = rm_id (obj m j) \<and> rm_seed (obj m' j) = rm_seed (obj m j) \<and> rm_state (obj m' j) = rm_state (obj m j)"
proof (induction reason "is" m rule: close_rooms.induct)
  case (2 reason i "is" m)
  then obtain r where r: "room_close reason (obj m i) = Some r" "close_rooms reason is (set_obj i r m) = Some m'"
    by (auto split: option.splits)
  have "obj (set_obj i r m) j = (if i < length (mg_objs m) \<and> j = i then r else obj m j)"
    by (cases "i < length (mg_objs m)") (auto simp: obj_def set_obj_def list_update_beyond)
  then show ?case using "2.IH"[OF r] room_close_game[OF r(1)] by auto
qed auto

lemma stop_matches_inv:
  assumes inv: "app_inv decode d a"
  shows "\<exists>a'. stop_matches a = Some a' \<and> app_inv decode d a'"
proof -
  obtain m' where m': "Manager_Close (utf8 [0x30B5, 0x30FC, 0x30D0, 0x30FC, 0x3092, 0x518D,
      0x8D77, 0x52D5, 0x3057, 0x307E, 0x3059, 0x3002, 0x5C11, 0x3057, 0x5F85, 0x3063, 0x3066,
      0x304B, 0x3089, 0x518D, 0x63A5, 0x7D9A, 0x3057, 0x3066, 0x304F, 0x3060, 0x3055,
      0x3044]) (ap_matches a) = Some m'"
    "manager_inv m'" "RoomCount m' = 0"
    using Manager_Close_ok[of "ap_matches a" "(utf8 [0x30B5, 0x30FC, 0x30D0, 0x30FC, 0x3092,
      0x518D, 0x8D77, 0x52D5, 0x3057, 0x307E, 0x3059, 0x3002, 0x5C11, 0x3057, 0x5F85, 0x3063,
      0x3066, 0x304B, 0x3089, 0x518D, 0x63A5, 0x7D9A, 0x3057, 0x3066, 0x304F, 0x3060, 0x3055,
      0x3044])"] inv
    by (auto simp: app_inv_def)
  have same: "length (mg_objs m') = length (mg_objs (ap_matches a)) \<and>
      rm_id (obj m' j) = rm_id (obj (ap_matches a) j) \<and> rm_seed (obj m' j) = rm_seed (obj (ap_matches a) j) \<and>
      rm_state (obj m' j) = rm_state (obj (ap_matches a) j)" for j
    using m'(1) close_rooms_game[where j = j] by (force simp: Manager_Close_def close_reset_def)
  have "records_inv decode d (a\<lparr>ap_matches := m', ap_records := ap_records a\<rparr>)"
    using inv same by (intro records_inv_matches) (simp_all add: app_inv_def)
  moreover have "mg_rooms m' = []" using m'(3) by (simp add: RoomCount_def)
  ultimately have "app_inv decode d (a\<lparr>ap_matches := m'\<rparr>)"
    using inv m'(2) same by (simp add: app_inv_def ledger_inv_def)
  then show ?thesis using m'(1) by (simp add: stop_matches_def)
qed

lemma session_exec_inv:
  fixes g :: script_runner and harness :: string
  defines "d \<equiv> record_decoder (\<lambda>_. None) g harness"
  assumes fl: "may_fail d decode" and inv: "app_inv decode d a" and now: "stamp (snd t)"
  shows "\<exists>a'. session_exec w decode t a x = Some a' \<and> app_inv decode d a'"
proof (cases t)
  case (Pair fails clock)
  then have st: "stamp clock" using now by simp
  show ?thesis
  proof (cases x)
    case (OpConnect playerID upgraded let_in)
    then show ?thesis
      using engine.handleMatch_inv[where fails = fails, OF inv st, of "wd_show w" "wd_seeds w" "wd_config w" upgraded let_in playerID]
      by (auto simp: Pair)
  next
    case (OpFrame j playerID limiter now' frame)
    then show ?thesis
      using engine.read_step_inv[where fails = fails and g = g and harness = harness,
          OF fl[unfolded d_def] inv[unfolded d_def] st, of "wd_parse w" now' j playerID frame limiter]
      by (auto simp: Pair d_def)
  next
    case (OpLeave j playerID)
    then show ?thesis using match_leave_inv[OF inv, of "room_name (Suc j)" playerID] by (simp add: Pair)
  next
    case (OpReceive i k)
    then show ?thesis using receive_inv[OF inv] by blast
  next
    case OpShutdown
    then show ?thesis using stop_matches_inv[OF inv] by (auto simp: Pair)
  qed
qed

lemma session_run_inv:
  assumes fl: "may_fail (record_decoder (\<lambda>_. None) g harness) decode"
  shows "app_inv decode (record_decoder (\<lambda>_. None) g harness) a \<Longrightarrow> list_all (\<lambda>(t, x). stamp (snd t)) xs \<Longrightarrow>
   \<exists>a'. session_run w decode a xs = Some a' \<and> app_inv decode (record_decoder (\<lambda>_. None) g harness) a'"
proof (induction xs arbitrary: a)
  case (Cons y xs)
  obtain t x where y: "y = (t, x)" by fastforce
  obtain a1 where a1: "session_exec w decode t a x = Some a1"
    "app_inv decode (record_decoder (\<lambda>_. None) g harness) a1"
    using session_exec_inv[OF fl Cons.prems(1), of t w x] Cons.prems(2) by (auto simp: y)
  show ?case using Cons.IH[OF a1(2)] Cons.prems(2) a1(1) by (simp add: y)
qed simp

text \<open>The names of the rooms are valid ids of game records.\<close>

lemma length_dec: "n < 10 ^ k \<Longrightarrow> 0 < k \<Longrightarrow> length (dec n) \<le> k"
proof (induction k arbitrary: n)
  case (Suc k)
  show ?case
  proof (cases "n < 10")
    case True
    then show ?thesis by (subst dec.simps) simp
  next
    case False
    then have k: "0 < k" using Suc.prems by (cases k) auto
    have "n div 10 < 10 ^ k" using Suc.prems by (simp add: less_mult_imp_div_less mult.commute)
    then have "length (dec (n div 10)) \<le> k" using Suc.IH k by blast
    then show ?thesis using False by (subst dec.simps) simp
  qed
qed simp

lemma room_name_valid: "n < 10 ^ 59 \<Longrightarrow> ValidateGameID (room_name n) = None"
proof -
  assume "n < 10 ^ 59"
  then have l: "length (dec n) \<le> 59" using length_dec[of n 59] by simp
  have "list_all gameid_char (dec n)"
    using dec_digits[of n] by (auto simp: list_all_iff gameid_char_def)
  then show ?thesis
    using l by (simp add: ValidateGameID_def gameIDPattern_def room_name_def itoa_def gameid_char_def Let_def)
qed

text \<open>What a saved record of a finished game is served as.\<close>

definition replays_game :: "decoder \<Rightarrow> memory_store \<Rightarrow> string \<Rightarrow> 32 word \<Rightarrow> state \<Rightarrow> bool" where
  "replays_game decode store gid seed final \<longleftrightarrow>
     (\<exists>cs source w. play (new_game gid seed) cs = Some final \<and> st_Winner final = Some w \<and>
        handleReplay decode store gid =
          ReplayServed gid source (state_frames 0 (states_of (new_game gid seed) cs)) w)"

text \<open>The replay process reported \<open>err\<close> on a text that it would otherwise have replayed.\<close>

definition process_failed :: "decoder \<Rightarrow> decoder \<Rightarrow> replay_error \<Rightarrow> bool" where
  "process_failed d decode err \<longleftrightarrow> (\<exists>source. decode source = Inl err \<and> d source \<noteq> Inl err)"

lemma recorded_served:
  assumes rec: "room_recorded decode d store r rd" and id: "rm_id r = room_name (Suc i)" "Suc i < 10 ^ 59"
    and s: "rm_state r = Some s" "st_Phase s = PhaseFinished"
  shows "rd_saveError rd = None \<and> (\<exists>source x. decode source = Inr x) \<and>
      replays_game d store (room_name (Suc i)) (rm_seed r) (wire_state s) \<or>
    (\<exists>err. rd_saveError rd = Some (SaveReplay err) \<and> process_failed d decode err)"
proof -
  have "keeps r rd" using rec by (simp add: room_recorded_def)
  then have "rd_finished rd" using s by (simp add: keeps_def)
  then consider "rd_saveError rd = None" "serves d store r" "\<exists>source x. decode source = Inr x"
    | err source where "rd_saveError rd = Some (SaveReplay err)" "decode source = Inl err" "decode source \<noteq> d source"
    using rec room_name_valid[OF id(2)] id(1) unfolding room_recorded_def by metis
  then show ?thesis
  proof cases
    case 1
    obtain cs u source w where u: "play (new_game (rm_id r) (rm_seed r)) cs = Some u"
      "map_option wire_state (rm_state r) = Some u" "st_Winner u = Some w"
      "handleReplay d store (rm_id r) =
        ReplayServed (rm_id r) source (state_frames 0 (states_of (new_game (rm_id r) (rm_seed r)) cs)) w"
      using 1(2) unfolding serves_def by blast
    have "u = wire_state s" using u(2) s(1) by simp
    then have "replays_game d store (room_name (Suc i)) (rm_seed r) (wire_state s)"
      unfolding replays_game_def using u by (intro exI[of _ cs] exI[of _ source] exI[of _ w]) (simp add: id(1)[symmetric])
    then show ?thesis using 1(1,3) by simp
  next
    case 2
    then show ?thesis unfolding process_failed_def by (metis (no_types))
  qed
qed

lemma not_served:
  assumes sv: "stored_inv l store" and j: "Suc j < 10 ^ 59" and e: "rd_saveError (ld_objs l ! j) \<noteq> None"
  shows "handleReplay decode store (room_name (Suc j)) = ReplayFailed 404 (utf8 [0x5B8C,
      0x4E86, 0x3057, 0x305F, 0x5BFE, 0x5C40, 0x306E, 0x68CB, 0x8B5C, 0x304C, 0x3042, 0x308A,
      0x307E, 0x305B, 0x3093])"
proof -
  have "\<exists>err. store_Get store (room_name (Suc j)) = Inl err"
  proof (cases "store_Get store (room_name (Suc j))")
    case (Inr x)
    then show ?thesis using sv e unfolding stored_inv_def by (metis nat.inject room_name_inject)
  qed simp
  then show ?thesis
    using room_name_valid[OF j] by (auto simp: handleReplay_def service_Source_def split: sum.splits)
qed

lemma finished_served:
  assumes inv: "app_inv decode d a" and i: "i < length (mg_objs (ap_matches a))" "Suc i < 10 ^ 59"
    and s: "rm_state (obj (ap_matches a) i) = Some s" "st_Phase s = PhaseFinished"
  shows "rd_saveError (ld_objs (ap_records a) ! i) = None \<and> (\<exists>source x. decode source = Inr x) \<and>
      replays_game d (ap_replays a) (room_name (Suc i)) (rm_seed (obj (ap_matches a) i)) (wire_state s) \<or>
    (\<exists>err. rd_saveError (ld_objs (ap_records a) ! i) = Some (SaveReplay err) \<and> process_failed d decode err \<and>
      (\<forall>decode'. handleReplay decode' (ap_replays a) (room_name (Suc i)) = ReplayFailed 404 (utf8 [0x5B8C, 0x4E86, 0x3057, 0x305F, 0x5BFE, 0x5C40, 0x306E, 0x68CB, 0x8B5C, 0x304C, 0x3042, 0x308A, 0x307E, 0x305B, 0x3093])))"
proof -
  have "room_recorded decode d (ap_replays a) (obj (ap_matches a) i) (ld_objs (ap_records a) ! i)"
    using inv i(1) by (simp add: app_inv_def records_inv_def)
  moreover have "rm_id (obj (ap_matches a) i) = room_name (Suc i)"
    using inv i(1) by (simp add: app_inv_def manager_inv_def objs_inv_def)
  moreover have "stored_inv (ap_records a) (ap_replays a)" using inv by (simp add: app_inv_def)
  ultimately show ?thesis
    using recorded_served[OF _ _ i(2) s] not_served[OF _ i(2)] by (metis option.distinct(1))
qed

end
