(* ===== verification/ServerLemmas.thy ===== *)
theory ServerLemmas
  imports Server
begin

text \<open>
  What the server's limits guarantee: the configured values are in their ranges, the origin that may
  connect is one, the number of connections stays within its limit in every interleaving, and the
  number of commands of a connection within what the rate allows.
\<close>

section \<open>Configuration\<close>

lemma envInt_range:
  assumes "envInt getenv name fallback lo hi = Inr v" "lo \<le> fallback" "fallback \<le> hi"
  shows "lo \<le> v \<and> v \<le> hi"
  using assms by (auto simp: envInt_def Let_def split: if_splits option.splits)

lemma envSeconds_range:
  assumes "envSeconds getenv name fallback lo hi = Inr v"
    "lo div second \<le> fallback div second" "fallback div second \<le> hi div second"
  shows "second dvd v \<and> lo div second * second \<le> v \<and> v \<le> hi div second * second"
  using assms envInt_range[of getenv name "fallback div second" "lo div second" "hi div second"]
  by (auto simp: envSeconds_def split: sum.splits)

definition config_ok :: "demo_config \<Rightarrow> bool" where
  "config_ok c \<longleftrightarrow>
     dc_maxConnections c \<in> {1..10000} \<and> dc_maxRooms c \<in> {1..10000} \<and>
     dc_commandRate c \<in> of_int ` {1..1000} \<and> dc_commandBurst c \<in> {1..1000} \<and>
     dc_idleTimeout c \<in> {minute..24 * hour} \<and> dc_maxConnectionAge c \<in> {minute..24 * hour} \<and>
     dc_pingInterval c < dc_readTimeout c"

lemmas default_defs = defaultMaxConns_def defaultMaxRooms_def defaultCommandRate_def defaultCommandBurst_def
  defaultIdleTimeout_def defaultConnectionAge_def

lemma loadConfig_ok:
  assumes "loadConfig parse isLoopback getenv addr addrSet webDir rulesDir = Inr c"
  shows "config_ok c"
proof -
  obtain mc mr cr cb it ma where
    e: "envInt getenv ''MAX_CONNECTIONS'' defaultMaxConns 1 10000 = Inr mc"
      "envInt getenv ''MAX_ROOMS'' defaultMaxRooms 1 10000 = Inr mr"
      "envInt getenv ''COMMAND_RATE_PER_SEC'' defaultCommandRate 1 1000 = Inr cr"
      "envInt getenv ''COMMAND_BURST'' defaultCommandBurst 1 1000 = Inr cb"
      "envSeconds getenv ''IDLE_TIMEOUT_SECONDS'' defaultIdleTimeout minute (24 * hour) = Inr it"
      "envSeconds getenv ''MAX_CONNECTION_SECONDS'' defaultConnectionAge minute (24 * hour) = Inr ma"
    and c: "dc_maxConnections c = mc" "dc_maxRooms c = mr" "dc_commandRate c = of_int cr" "dc_commandBurst c = cb"
      "dc_idleTimeout c = it" "dc_maxConnectionAge c = ma" "dc_pingInterval c = wsPingInterval"
      "dc_readTimeout c = 2 * wsPingInterval + 15 * second"
    using assms unfolding loadConfig_def by (auto split: sum.splits)
  show ?thesis
    using envInt_range[OF e(1)] envInt_range[OF e(2)] envInt_range[OF e(3)] envInt_range[OF e(4)]
      envSeconds_range[OF e(5)] envSeconds_range[OF e(6)]
    by (simp add: config_ok_def c wsPingInterval_def default_defs)
qed

text \<open>A value that is given decides; one that is not is the default.\<close>

lemma envInt_value:
  "TrimSpace (getenv name) = '''' \<Longrightarrow> envInt getenv name fallback lo hi = Inr fallback"
  "TrimSpace (getenv name) \<noteq> '''' \<Longrightarrow>
     envInt getenv name fallback lo hi = Inr v \<longleftrightarrow> Atoi (TrimSpace (getenv name)) = Some v \<and> lo \<le> v \<and> v \<le> hi"
  by (auto simp: envInt_def Let_def split: option.split)

section \<open>Origins\<close>

lemma scheme_host_inject:
  assumes "s \<in> {''http'', ''https''}" "t \<in> {''http'', ''https''}"
  shows "s @ ''://'' @ h = t @ ''://'' @ k \<longleftrightarrow> s = t \<and> h = k"
  using assms by auto

definition bare_origin :: "url \<Rightarrow> bool" where
  "bare_origin u \<longleftrightarrow>
     ur_Host u \<noteq> '''' \<and> ur_Opaque u = '''' \<and> \<not> ur_User u \<and> ur_RawQuery u = '''' \<and> ur_Fragment u = ''''"

definition same_origin :: "url \<Rightarrow> url \<Rightarrow> bool" where
  "same_origin u v \<longleftrightarrow> ToLower (ur_Scheme u) = ToLower (ur_Scheme v) \<and> ToLower (ur_Host u) = ToLower (ur_Host v)"

lemma parsePublicOrigin_Inr:
  assumes "parsePublicOrigin parse isLoopback raw = Inr p" "p \<noteq> ''''"
  obtains u where "parse (TrimSpace raw) = Inr u" "bare_origin u" "ur_Path u \<in> {'''', ''/''}"
    "ToLower (ur_Scheme u) = ''https'' \<or> ToLower (ur_Scheme u) = ''http'' \<and> loopbackHost isLoopback (ur_Host u)"
    "p = ToLower (ur_Scheme u) @ ''://'' @ ToLower (ur_Host u)"
  using assms by (auto simp: parsePublicOrigin_def Let_def bare_origin_def split: sum.splits if_splits)

lemma publicOriginMatches_iff:
  assumes "parsePublicOrigin parse isLoopback raw = Inr p" "p \<noteq> ''''" "parse (TrimSpace raw) = Inr u"
  shows "publicOriginMatches parse p header \<longleftrightarrow>
    (\<exists>v. TrimSpace header \<noteq> '''' \<and> parse (TrimSpace header) = Inr v \<and> bare_origin v \<and> ur_Path v = '''' \<and> same_origin u v)"
proof -
  have u: "ToLower (ur_Scheme u) \<in> {''http'', ''https''}"
    "p = ToLower (ur_Scheme u) @ ''://'' @ ToLower (ur_Host u)"
    using parsePublicOrigin_Inr[OF assms(1,2)] assms(3) by auto
  show ?thesis
  proof (cases "TrimSpace header = ''''")
    case False
    show ?thesis
    proof (cases "parse (TrimSpace header)")
      case (Inr v)
      have "ToLower (ur_Scheme v) @ ''://'' @ ToLower (ur_Host v) = p \<longleftrightarrow> same_origin u v"
        if "ToLower (ur_Scheme v) \<in> {''http'', ''https''}"
        using scheme_host_inject[OF that u(1)] unfolding u(2) same_origin_def by auto
      moreover have "same_origin u v \<Longrightarrow> ToLower (ur_Scheme v) \<in> {''http'', ''https''}"
        using u(1) by (simp add: same_origin_def)
      ultimately show ?thesis
        using False Inr assms(2) by (auto simp: publicOriginMatches_def Let_def bare_origin_def)
    qed (simp add: publicOriginMatches_def Let_def)
  qed (simp add: publicOriginMatches_def Let_def)
qed

section \<open>Connections\<close>

definition in_phase :: "conn_phase \<Rightarrow> admission \<Rightarrow> nat" where
  "in_phase p a = length (filter (\<lambda>q. q = p) (ad_conns a))"

definition admission_inv :: "demo_config \<Rightarrow> admission \<Rightarrow> bool" where
  "admission_inv config a \<longleftrightarrow>
     ad_connections a = int (in_phase Admitted a + in_phase Refusing a) \<and>
     int (in_phase Admitted a) \<le> dc_maxConnections config"

lemma filter_update:
  assumes "i < length xs"
  shows "length (filter P (xs[i := x])) + (if P (xs ! i) then 1 else 0) =
    length (filter P xs) + (if P x then 1 else 0)"
  using assms
proof (induction xs arbitrary: i)
  case (Cons y xs)
  then show ?case by (cases i) auto
qed simp

lemma in_phase_update:
  "i < length (ad_conns a) \<Longrightarrow>
     in_phase p (a\<lparr>ad_connections := n, ad_conns := (ad_conns a)[i := q]\<rparr>) + (if ad_conns a ! i = p then 1 else 0) =
     in_phase p a + (if q = p then 1 else 0)"
  using filter_update[of i "ad_conns a" "\<lambda>q. q = p" q] by (simp add: in_phase_def)

lemma admission_step_inv:
  assumes "admission_step config a a'" "admission_inv config a"
  shows "admission_inv config a'"
proof -
  consider (admit) "a' = admit config a"
    | (refuse) i where "a' = admit_refuse i a" "i < length (ad_conns a)" "ad_conns a ! i = Refusing"
    | (release) i where "a' = release i a" "i < length (ad_conns a)" "ad_conns a ! i \<in> {Admitted, Released}"
    using assms(1) by (rule admission_stepE) auto
  then show ?thesis
  proof cases
  case admit
  then show ?thesis using assms(2) by (simp add: admission_inv_def admit_def in_phase_def Let_def)
next
  case (refuse i)
  note 2 = refuse
  have "a' = a\<lparr>ad_connections := ad_connections a - 1, ad_conns := (ad_conns a)[i := Refused]\<rparr>"
    using 2(1) by (simp add: admit_refuse_def)
  then show ?thesis
    using assms(2) 2(2,3) in_phase_update[OF 2(2), where p = Admitted and n = "ad_connections a - 1" and q = Refused]
      in_phase_update[OF 2(2), where p = Refusing and n = "ad_connections a - 1" and q = Refused]
    by (simp add: admission_inv_def)
next
  case (release i)
  note 3 = release
  show ?thesis
  proof (cases "ad_conns a ! i = Released")
    case True
    then show ?thesis using 3(1) assms(2) by (simp add: release_def)
  next
    case False
    then have a: "ad_conns a ! i = Admitted" using 3(3) by simp
    have "a' = a\<lparr>ad_connections := ad_connections a - 1, ad_conns := (ad_conns a)[i := Released]\<rparr>"
      using 3(1) False by (simp add: release_def)
    then show ?thesis
      using assms(2) a in_phase_update[OF 3(2), where p = Admitted and n = "ad_connections a - 1" and q = Released]
        in_phase_update[OF 3(2), where p = Refusing and n = "ad_connections a - 1" and q = Released]
      by (simp add: admission_inv_def)
  qed
  qed
qed

lemma admission_inv_reachable:
  assumes "(admission_step config)\<^sup>*\<^sup>* no_connections a" "0 \<le> dc_maxConnections config"
  shows "admission_inv config a"
  using assms(1)
proof (induction rule: rtranclp_induct)
  case base
  then show ?case using assms(2) by (simp add: admission_inv_def no_connections_def in_phase_def)
next
  case (step a b)
  then show ?case using admission_step_inv by blast
qed

section \<open>The rate of commands\<close>

text \<open>The answers of the limiter to calls at the given times.\<close>

fun limiter_run :: "rate_limiter \<Rightarrow> int list \<Rightarrow> rate_limiter \<times> bool list" where
  "limiter_run l [] = (l, [])"
| "limiter_run l (now # ts) =
     (let (l1, ok) = limiter_allow now l; (l2, oks) = limiter_run l1 ts in (l2, ok # oks))"

definition accepted :: "bool list \<Rightarrow> nat" where
  "accepted oks = length (filter id oks)"

definition limiter_inv :: "rate_limiter \<Rightarrow> bool" where
  "limiter_inv l \<longleftrightarrow> 0 \<le> rl_tokens l \<and> rl_tokens l \<le> rl_burst l \<and> 0 < rl_rate l"

definition seconds :: "int \<Rightarrow> rat" where
  "seconds d = of_int d / of_int second"

lemma limiter_allow_step:
  assumes "limiter_allow now l = (l', ok)" "limiter_inv l"
  shows "limiter_inv l' \<and> rl_rate l' = rl_rate l \<and> rl_burst l' = rl_burst l \<and>
    rl_lastFill l' = max now (rl_lastFill l) \<and>
    rl_tokens l' + (if ok then 1 else 0) \<le> rl_tokens l + seconds (rl_lastFill l' - rl_lastFill l) * rl_rate l"
proof -
  have "(0 :: rat) < of_int (now - rl_lastFill l) / of_int second \<longleftrightarrow> rl_lastFill l < now"
    by (simp add: zero_less_divide_iff)
  moreover have "0 \<le> seconds (now - rl_lastFill l) * rl_rate l" if "rl_lastFill l < now"
    using that assms(2) by (simp add: seconds_def limiter_inv_def)
  ultimately show ?thesis
    using assms by (auto simp: limiter_allow_def limiter_inv_def Let_def seconds_def min_def split: if_splits)
qed

lemma limiter_run_bound:
  assumes "limiter_run l ts = (l', oks)" "limiter_inv l"
  shows "limiter_inv l' \<and> rl_rate l' = rl_rate l \<and> rl_lastFill l' = fold max ts (rl_lastFill l) \<and>
    of_nat (accepted oks) + rl_tokens l' \<le> rl_tokens l + seconds (rl_lastFill l' - rl_lastFill l) * rl_rate l"
  using assms
proof (induction ts arbitrary: l l' oks)
  case Nil
  then show ?case by (simp add: accepted_def seconds_def)
next
  case (Cons now ts)
  obtain l1 ok where s: "limiter_allow now l = (l1, ok)" by (cases "limiter_allow now l")
  obtain l2 oks' where r: "limiter_run l1 ts = (l2, oks')" by (cases "limiter_run l1 ts")
  have e: "l' = l2" "oks = ok # oks'" using Cons.prems(1) s r by simp_all
  note st = limiter_allow_step[OF s Cons.prems(2)]
  note ih = Cons.IH[OF r] 
  have "seconds (rl_lastFill l2 - rl_lastFill l) = seconds (rl_lastFill l2 - rl_lastFill l1) + seconds (rl_lastFill l1 - rl_lastFill l)"
    by (simp add: seconds_def diff_divide_distrib)
  then have "seconds (rl_lastFill l2 - rl_lastFill l) * rl_rate l =
      seconds (rl_lastFill l2 - rl_lastFill l1) * rl_rate l + seconds (rl_lastFill l1 - rl_lastFill l) * rl_rate l"
    by (simp add: algebra_simps)
  then show ?case using st ih by (auto simp: e accepted_def)
qed

text \<open>Whoever waits for one token gets it.\<close>

lemma limiter_refills:
  assumes "limiter_inv l" "1 \<le> rl_burst l" "1 \<le> seconds (now - rl_lastFill l) * rl_rate l"
  shows "snd (limiter_allow now l)"
proof -
  have "0 < seconds (now - rl_lastFill l)"
    using assms(1) less_le_trans[OF zero_less_one assms(3)]
    by (auto simp: limiter_inv_def dest: zero_less_mult_pos2)
  then show ?thesis
    using assms by (auto simp: limiter_allow_def Let_def seconds_def limiter_inv_def min_def)
qed

end
