(* ===== verification/Startup.thy ===== *)
theory Startup
  imports SessionLemmas ServerLemmas
begin

text \<open>
  How the process comes up (\<open>main\<close> of \<open>server/main.go\<close>): the parts are made one after the other from
  the flags and the environment, and the first failure ends the process with its message. The
  environment, the files, the interpreter and the JSON are a record of functions; the routes, the
  listening and the signals are not part of the model.
\<close>

section \<open>The start\<close>

text \<open>\<open>fl_addr\<close>: the address, if the flag was given.\<close>

record flags =
  fl_addr :: "string option"
  fl_web :: string
  fl_rules :: string

record host =
  ho_getenv :: "string \<Rightarrow> string"
  ho_url :: url_parser
  ho_isLoopback :: "string \<Rightarrow> bool"
  ho_join :: "string list \<Rightarrow> string"
  ho_stat :: "string \<Rightarrow> bool option"
  ho_duration :: "int \<Rightarrow> string"
  ho_readFile :: "string \<Rightarrow> string + string"
  ho_absDir :: "string \<Rightarrow> string + string"
  ho_isAbs :: "string \<Rightarrow> bool"
  ho_show :: "rt_error \<Rightarrow> string"
  ho_rules :: "gonako \<Rightarrow> runner"
  ho_script :: "script_runner \<Rightarrow> script_run"
  ho_unmarshal :: "string \<Rightarrow> string + script"

text \<open>What the handlers are given; \<open>sv_verified\<close> is \<open>rulesVerified\<close>.\<close>

record server =
  sv_config :: demo_config
  sv_rules :: gonako
  sv_decoder :: decoder
  sv_app :: app
  sv_verified :: bool

text \<open>The message of the fatal error, or the server; \<open>None\<close> is a panic.\<close>

definition start_server :: "host \<Rightarrow> flags \<Rightarrow> (string + server) option" where
  "start_server h fl =
     (let addr = (case fl_addr fl of None \<Rightarrow> defaultAddr | Some a \<Rightarrow> a) in
      case loadConfig (ho_url h) (ho_isLoopback h) (ho_getenv h) addr (fl_addr fl \<noteq> None) (fl_web fl) (fl_rules fl) of
        Inl err \<Rightarrow> Some (Inl ((utf8 [0x69CB, 0x6210, 0x304C, 0x4E0D, 0x6B63, 0x3067,
      0x3059] @ '': '') @ err))
      | Inr config \<Rightarrow>
      let gonakoBin = (if ho_getenv h ''GONAKO_BIN'' = '''' then ho_join h [''.tools'', ''bin'', ''gonako'']
                       else ho_getenv h ''GONAKO_BIN'');
          ruleFile = ho_join h [fl_rules fl, ''game'', ''main.nako3'']
      in
      (case New (ho_stat h) (ho_duration h)
              \<lparr>cf_GonakoPath = gonakoBin, cf_RulesPath = ruleFile, cf_Timeout = 5 * second\<rparr> of
        Inl err \<Rightarrow> Some (Inl ((utf8 [0x30EB, 0x30FC,
      0x30EB] @ ''runtime'' @ utf8 [0x3092, 0x521D, 0x671F, 0x5316, 0x3067, 0x304D, 0x307E,
      0x305B, 0x3093] @ '': '') @ ho_show h err))
      | Inr rules \<Rightarrow>
      let harnessFile = ho_join h [fl_rules fl, ''replay'', ''harness.nako3''] in
      (case LoadHarness (ho_readFile h) (ho_absDir h) (ho_isAbs h) (\<lambda>dir file. ho_join h [dir, file])
              (\<lambda>file. ho_stat h file \<noteq> None) harnessFile of
        Inl err \<Rightarrow> Some (Inl ((utf8 [0x68CB, 0x8B5C, 0x30CF, 0x30FC, 0x30CD, 0x30B9,
      0x3092, 0x8AAD, 0x307F, 0x8FBC, 0x3081, 0x307E, 0x305B, 0x3093] @ '': '') @ err))
      | Inr harness \<Rightarrow>
      (case NewGonakoScriptRunner (ho_stat h) (ho_duration h) gonakoBin DefaultScriptTimeout of
        Inl err \<Rightarrow> Some (Inl ((utf8 [0x68CB, 0x8B5C] @ ''runtime'' @ utf8 [0x3092,
      0x521D, 0x671F, 0x5316, 0x3067, 0x304D, 0x307E, 0x305B, 0x3093] @ '': '') @ err))
      | Inr scriptRunner \<Rightarrow>
      (case NewDecoder harness (Some (ho_script h scriptRunner)) of
        Inl err \<Rightarrow> Some (Inl ((utf8 [0x68CB, 0x8B5C] @ ''decoder'' @ utf8 [0x3092,
      0x521D, 0x671F, 0x5316, 0x3067, 0x304D, 0x307E, 0x305B, 0x3093] @ '': '') @ err))
      | Inr (harness, runner) \<Rightarrow>
      (case NewReplayer (Some (Decode harness runner (ho_unmarshal h))) of
        Inl err \<Rightarrow> Some (Inl ((utf8 [0x68CB, 0x8B5C, 0x518D, 0x751F, 0x3092, 0x521D,
      0x671F, 0x5316, 0x3067, 0x304D, 0x307E, 0x305B, 0x3093] @ '': '') @ err))
      | Inr replayer \<Rightarrow>
      (case verifyRules (ho_rules h rules) of
        None \<Rightarrow> None
      | Some failure \<Rightarrow>
          Some (Inr \<lparr>sv_config = config, sv_rules = rules, sv_decoder = replayer,
                     sv_app = \<lparr>ap_matches = NewManager, ap_records = newRecordLedger, ap_replays = NewMemoryStore\<rparr>,
                     sv_verified = (failure = None)\<rparr>))))))))"

text \<open>The answer of \<open>/healthz\<close>, with \<open>rulesReady\<close> the runtime's \<open>Ready\<close> on the files as they are then.\<close>

definition health :: "(string \<Rightarrow> bool option) \<Rightarrow> server \<Rightarrow> nat \<times> health_response" where
  "health stat sv = handleHealth (sv_verified sv) (Some (\<lambda>_. Ready stat (sv_rules sv)))"

section \<open>A server that has started\<close>

lemma New_ready: "New stat show_duration c = Inr g \<Longrightarrow> Ready stat g"
  by (auto simp: New_def Ready_def split: if_splits option.splits bool.splits)

lemma start_server_parts:
  assumes "start_server h fl = Some (Inr sv)"
  obtains addr harness where "loadConfig (ho_url h) (ho_isLoopback h) (ho_getenv h) addr (fl_addr fl \<noteq> None) (fl_web fl) (fl_rules fl)
      = Inr (sv_config sv)"
    "Ready (ho_stat h) (sv_rules sv)" "TrimSpace harness \<noteq> ''''"
    "\<exists>runner. sv_decoder sv = Decode harness runner (ho_unmarshal h)" "sv_app sv = new_app"
    "\<exists>failure. verifyRules (ho_rules h (sv_rules sv)) = Some failure \<and> sv_verified sv = (failure = None)"
proof -
  show ?thesis
    using assms that New_ready
    by (fastforce simp: start_server_def Let_def NewDecoder_def NewReplayer_def new_app_def split: sum.splits option.splits if_splits)
qed

text \<open>
  A server that has started has a checked configuration, its files are in place and no match exists;
  it is healthy as long as the files stay and exactly if the rules answered the first request.
\<close>

lemma started_server:
  assumes "start_server h fl = Some (Inr sv)"
  shows "config_ok (sv_config sv) \<and> app_inv (sv_decoder sv) (sv_decoder sv) (sv_app sv) \<and> Ready (ho_stat h) (sv_rules sv) \<and>
    (fst (health stat sv) = 200 \<longleftrightarrow> sv_verified sv \<and> Ready stat (sv_rules sv))"
  using assms
proof (cases rule: start_server_parts)
  case (1 addr harness)
  then show ?thesis
    using loadConfig_ok[OF 1(1)] new_app_inv
    by (simp add: health_def handleHealth_def gonakoReady_def Let_def)
qed

text \<open>With working rules the check at the start succeeds.\<close>

lemma verifyRules_engine: "verifyRules (engine_runner (\<lambda>_. None)) = Some None"
  by (simp add: verifyRules_def engine_starts ok_response_def)

end
