(* ===== verification/Delivery.thy ===== *)
theory Delivery
  imports RoomLemmas
begin

text \<open>
  What reaches the players: the buffer of a seat's channel after an operation of its room, the
  independence of a distribution from the order of the seats, and the channels that closing closes.
\<close>



lemma push_take: "length (cn_buf c) \<le> eventBuffer \<Longrightarrow> cn_buf (push_event e c) = take eventBuffer (cn_buf c @ [e])"
  by (simp add: push_event_def)

lemma take_snoc_snoc: "take n (take n (xs @ [x]) @ [y]) = take n (xs @ [x, y])"
  by (cases "Suc (length xs) \<le> n") (auto simp: take_Cons' min_def)

text \<open>The buffer of a seat's channel after a distribution.\<close>

lemma posted_buffer:
  assumes wf: "room_wf r" and m: "(player, s) \<in> set (rm_seats r)" and i: "se_events s = Some i"
  shows "cn_buf (rm_chans (posted g r) ! i) =
    (case g player s of None \<Rightarrow> cn_buf (rm_chans r ! i)
     | Some e \<Rightarrow> take eventBuffer (cn_buf (rm_chans r ! i) @ [room_event_clone e]))"
proof -
  have h: "i \<in> set (held (rm_seats r))" using m i by (auto simp: set_held)
  then have lt: "i < length (rm_chans r)" using room_wf_held[OF wf] by (auto simp: open_in_def)
  have b: "length (cn_buf (rm_chans r ! i)) \<le> eventBuffer"
    using wf lt by (auto simp: room_wf_def list_all_length)
  have c: "se_connected s" using wf m i by (auto simp: room_wf_def list_all_iff)
  have d: "distinct (map fst (outbox g (rm_seats r)))" using distinct_outbox room_wf_held[OF wf] by blast
  have only: "p = player \<and> t = s" if "(p, t) \<in> set (rm_seats r)" "se_events t = Some i" for p t
    by (insert m i that room_wf_held[OF wf], rule room_wf_cases[OF wf]) (auto split: option.splits)
  show ?thesis
  proof (cases "g player s")
    case None
    then have "map_of (outbox g (rm_seats r)) i = None"
      using only by (auto simp: map_of_eq_None_iff outbox_mem)
    then show ?thesis using None lt by (simp add: posted_def nth_sent)
  next
    case (Some e)
    then have "(i, room_event_clone e) \<in> set (outbox g (rm_seats r))"
      using m i c by (auto simp: outbox_mem)
    then have "map_of (outbox g (rm_seats r)) i = Some (room_event_clone e)" using d by simp
    then show ?thesis using Some lt b by (simp add: posted_def nth_sent push_take)
  qed
qed

text \<open>What the players receive after an accepted command.\<close>

definition moved_events :: "room \<Rightarrow> state \<Rightarrow> event option \<Rightarrow> string \<Rightarrow> room_event list" where
  "moved_events r s' e player =
     room_event_clone (addressed r (room_event EventState (Some (State_Clone s')) e '''') player) #
     (if st_Phase s' = PhaseFinished
      then [room_event_clone (addressed r (room_event EventClosed (Some (State_Clone s')) None
              (utf8 [0x5BFE, 0x5C40, 0x304C, 0x7D42, 0x4E86, 0x3057, 0x307E, 0x3057,
      0x305F])) player)]
      else [])"

lemma moved_buffer:
  assumes wf: "room_wf r" and m: "(player, s) \<in> set (rm_seats r)" and i: "se_events s = Some i"
  shows "cn_buf (rm_chans (room_moved r s' e) ! i) =
    take eventBuffer (cn_buf (rm_chans r ! i) @ moved_events r s' e player)"
proof -
  let ?r2 = "r\<lparr>rm_state := Some (State_Clone s'),
               rm_phase := (if st_Phase s' = PhaseFinished then RoomClosed else rm_phase r)\<rparr>"
  let ?r3 = "posted (\<lambda>player s. Some (addressed ?r2 (stateEvent ?r2 e player) player)) ?r2"
  have wf2: "room_wf ?r2" by (rule room_wf_update(1)[OF room_wf_update(2)[OF wf]])
  note wf3 = posted_wf[OF wf2, of "\<lambda>player s. Some (addressed ?r2 (stateEvent ?r2 e player) player)"]
  have m2: "(player, s) \<in> set (rm_seats ?r2)" "(player, s) \<in> set (rm_seats ?r3)" using m by simp_all
  have a: "addressed ?r2 x p = addressed r x p" "addressed ?r3 x p = addressed r x p" for x p
    by (simp_all add: addressed_def)
  note b3 = posted_buffer[OF wf2 m2(1) i, of "\<lambda>player s. Some (addressed ?r2 (stateEvent ?r2 e player) player)"]
  note b4 = posted_buffer[OF wf3 m2(2) i,
    of "\<lambda>player s. Some (addressed ?r3 (closed_event ?r3 (utf8 [0x5BFE, 0x5C40, 0x304C,
      0x7D42, 0x4E86, 0x3057, 0x307E, 0x3057, 0x305F])) player)"]
  show ?thesis
  proof (cases "st_Phase s' = PhaseFinished")
    case True
    then show ?thesis
      using b3 b4 unfolding room_moved_def Let_def moved_events_def
      by (simp add: addressed_def stateEvent_def closed_event_def take_snoc_snoc del: take_append)
  next
    case False
    then show ?thesis
      using b3 unfolding room_moved_def Let_def moved_events_def
      by (simp add: addressed_def stateEvent_def del: take_append)
  qed
qed

text \<open>The order of a room's seats does not matter.\<close>

lemma broadcast_perm:
  assumes wf: "room_wf r" and p: "mset seats' = mset (rm_seats r)"
  shows "broadcast build (r\<lparr>rm_seats := seats'\<rparr>) =
    map_option (\<lambda>r'. r'\<lparr>rm_seats := seats'\<rparr>) (broadcast build r)"
proof -
  have s: "set seats' = set (rm_seats r)" using mset_eq_setD[OF p] .
  have h: "mset (held seats') = mset (held (rm_seats r))"
    unfolding held_def map_filter_def by (simp only: mset_map mset_filter p)
  have d: "distinct (held seats')" using room_wf_held[OF wf] mset_eq_imp_distinct_iff[OF h] by blast
  have o: "\<forall>i \<in> set (held seats'). open_in (rm_chans r) i"
    using room_wf_held[OF wf] mset_eq_setD[OF h] by simp
  let ?g = "\<lambda>player s. Some (addressed r (build player) player)"
  let ?f = "\<lambda>player s cs.
            if \<not> se_connected s then Some cs
            else deliver s ((build player)\<lparr>re_RoomID := rm_id r, re_Seat := player\<rparr>) cs"
  have e: "each_seat ?f seats (rm_chans r) = Some (sent (map_of (outbox ?g seats)) (rm_chans r))"
    if "distinct (held seats)" "\<forall>i \<in> set (held seats). open_in (rm_chans r) i" for seats
    using that by (intro each_seat_sent) (auto simp: addressed_def deliver_def)
  have "map_of (outbox ?g seats') = map_of (outbox ?g (rm_seats r))"
    using outbox_perm[OF p d] room_wf_held[OF wf] by blast
  moreover have "r\<lparr>rm_seats := seats', rm_chans := x\<rparr> = r\<lparr>rm_chans := x, rm_seats := seats'\<rparr>" for x
    by (cases r) simp
  ultimately show ?thesis
    using e[OF d o] e[of "rm_seats r"] room_wf_held[OF wf] by (simp add: broadcast_def cong: if_cong)
qed

text \<open>Closing a room closes every channel that a seat holds.\<close>

lemma room_close_channels:
  assumes wf: "room_wf r" and c: "room_close reason r = Some r'" and i: "i \<in> set (held (rm_seats r))"
  shows "cn_closed (rm_chans r' ! i)"
proof -
  have lt: "i < length (rm_chans r)" using i room_wf_held[OF wf] by (auto simp: open_in_def)
  show ?thesis
    using c i lt unfolding room_close_def closeLocked_vacate[OF wf] by (auto simp: vacate_def nth_shut)
qed

text \<open>Coming back: the channel of a reconnected seat starts with the state.\<close>

lemma returned_buffer:
  assumes inv: "room_inv r" and s: "seatOf r playerID = Some (player, s)" and off: "\<not> se_connected s"
    and ph: "rm_phase r \<noteq> RoomClosed"
  shows "cn_buf (rm_chans (room_returned r playerID player) ! length (rm_chans r)) = [state_note r player]"
proof -
  let ?r1 = "seat_taken player playerID [state_note r player] r"
  let ?s = "\<lparr>se_playerID = playerID, se_events = Some (length (rm_chans r)), se_connected = True\<rparr>"
  note wf = room_inv_wf[OF inv]
  have wf1: "room_wf ?r1" using wf s by (intro seat_back_wf) (auto simp: eventBuffer_def)
  have m: "(player, ?s) \<in> set (rm_seats ?r1)"
    using wf1 by (simp add: room_wf_def gomap_mem_iff)
  let ?r2 = "?r1\<lparr>rm_phase := RoomPlaying\<rparr>"
  have "cn_buf (rm_chans (posted g ?r2) ! length (rm_chans r)) = cn_buf (rm_chans ?r2 ! length (rm_chans r))"
    if "\<And>player s. se_playerID s = playerID \<Longrightarrow> g player s = None" for g
    using posted_buffer[of ?r2 player ?s "length (rm_chans r)" g] room_wf_update(1)[OF wf1] m that by simp
  moreover have "rm_chans ?r2 ! length (rm_chans r) = \<lparr>cn_buf = [state_note r player], cn_closed = False\<rparr>"
    by (simp add: seat_taken_def)
  ultimately show ?thesis
    using seat_back_connected[OF inv s off ph] by (simp add: room_returned_def Let_def)
qed

text \<open>When the platform works, what the rules accept goes through.\<close>

lemma engine_apply:
  assumes s: "server_state s" and v: "Command_Validate c = None"
    and ok: "fails (ApplyCommandRequest s c) = None"
  shows "engine_runner fails (ApplyCommandRequest s c) = Inr (Some (apply_command (wire_state s) c))"
proof -
  have send: "sendable (wire_state s)" using server_state_sendable[OF s] by simp
  have "Request_Validate (ApplyCommandRequest s c) = None"
    using server_state_valid[OF s] v by (simp add: Request_Validate_apply)
  moreover have "evaluate (ApplyCommandRequest (wire_state s) c) = apply_command (wire_state s) c"
    using evaluate_apply sendable_valid[OF send] by blast
  ultimately show ?thesis
    using ok apply_command_valid[OF send] by (simp add: engine_runner_def wire_apply Let_def)
qed

lemma submit_accepted:
  assumes inv: "room_inv r" and seat: "seatOf r playerID = Some (cm_Player c, st)"
    and ph: "rm_phase r \<noteq> RoomClosed" and s: "rm_state r = Some s" and v: "Command_Validate c = None"
    and acc: "accepts (wire_state s) c = Some s'"
    and ok: "fails (ApplyCommandRequest (State_Clone s) c) = None"
  shows "\<exists>e. room_submit (engine_runner fails) r playerID c =
    Some (room_moved r s' (Some e), Inr (room_cloneResponse (Some (ok_response s' (Some e)))))"
proof -
  obtain e where e: "apply_command (wire_state s) c = ok_response s' (Some e)" using accepts_Some[OF acc] by blast
  have "engine_runner fails (ApplyCommandRequest (State_Clone s) c) = Inr (Some (ok_response s' (Some e)))"
    using engine_apply[of "State_Clone s" c fails] room_inv_state[OF inv s] v ok e by simp
  then show ?thesis
    using room_submit_eval[OF room_inv_wf[OF inv] seat ph s refl v, of "engine_runner fails"]
    by (intro exI[of _ e]) (simp add: ApplyCommand_def)
qed

end
