(* ===== verification/Matches.thy ===== *)
theory Matches
  imports SessionLemmas Delivery
begin

text \<open>
  A match from the first request to the replay: two players connect to a new server and their
  connections carry the commands of a game. The run exists and ends as the rules say; with the
  invariant of all runs (SessionLemmas) this gives what is served.
\<close>

section \<open>A room in which two players play\<close>

definition plays_at :: "app \<Rightarrow> nat \<Rightarrow> string \<Rightarrow> string \<Rightarrow> state \<Rightarrow> bool" where
  "plays_at a i p q s \<longleftrightarrow>
     (let m = ap_matches a; rid = room_name (Suc i) in
      map_of (mg_rooms m) rid = Some i \<and> map_of (mg_players m) p = Some rid \<and> map_of (mg_players m) q = Some rid \<and>
      Room_Seats (obj m i) = [(PlayerDark, p), (PlayerLight, q)] \<and> rm_state (obj m i) = Some s \<and>
      (st_Phase s \<noteq> PhaseFinished \<longrightarrow> rm_phase (obj m i) \<noteq> RoomClosed))"

abbreviation player_of :: "string \<Rightarrow> string \<Rightarrow> string \<Rightarrow> string" where
  "player_of p q player \<equiv> (if player = PlayerDark then p else q)"

lemma seat_of_player:
  assumes "Room_Seats r = [(PlayerDark, p), (PlayerLight, q)]" "p \<noteq> q" "Player_Valid player"
  shows "\<exists>st. seatOf r (player_of p q player) = Some (player, st)"
  using assms by (auto simp: Room_Seats_def seatOf_def Player_Valid_def)

text \<open>One frame with a command that the rules accept, read from the connection of the player to move.\<close>

lemma frame_plays:
  fixes g :: script_runner and harness :: string
  defines "d \<equiv> record_decoder (\<lambda>_. None) g harness"
  assumes fl: "may_fail d decode" and inv: "app_inv decode d a" and pl: "plays_at a i p q s" "p \<noteq> q" and now: "stamp clock"
    and acc: "accepts (wire_state s) c = Some s'" and v: "Command_Validate c = None"
    and parse: "wd_parse w data = Some c" and lim: "snd (limiter_allow t l)"
  shows "\<exists>a'. session_exec w decode (\<lambda>_. None, clock) a
      (OpFrame i (player_of p q (cm_Player c)) l t (Inr \<lparr>wf_opcode = 1, wf_data = data\<rparr>)) = Some a' \<and>
    app_inv decode d a' \<and> plays_at a' i p q (State_Clone s') \<and>
    map rm_seed (mg_objs (ap_matches a')) = map rm_seed (mg_objs (ap_matches a))"
proof -
  let ?m = "ap_matches a" and ?rid = "room_name (Suc i)"
  let ?who = "player_of p q (cm_Player c)"
  have mi: "manager_inv ?m" and len: "length (ld_objs (ap_records a)) = length (mg_objs ?m)"
    using inv by (simp_all add: app_inv_def records_inv_def)
  have m: "map_of (mg_rooms ?m) ?rid = Some i" "map_of (mg_players ?m) ?who = Some ?rid"
    "Room_Seats (obj ?m i) = [(PlayerDark, p), (PlayerLight, q)]" "rm_state (obj ?m i) = Some s"
    using pl(1) by (simp_all add: plays_at_def Let_def)
  note k = manager_room[OF mi m(1)]
  have gi: "game_inv (wire_state s)" using room_inv_state[OF k(5) m(4)] by (simp add: server_state_def)
  have "st_Phase (wire_state s) \<noteq> ''finished''" by (rule accepts_turn(3)[OF game_inv_length[OF gi] acc])
  then have ph: "rm_phase (obj ?m i) \<noteq> RoomClosed" using pl(1) by (simp add: plays_at_def Let_def)
  obtain st where st: "seatOf (obj ?m i) ?who = Some (cm_Player c, st)"
    using seat_of_player[OF m(3) pl(2), of "cm_Player c"] v by (auto simp: Command_Validate_None)
  obtain e where e: "room_submit eval (obj ?m i) ?who c =
      Some (room_moved (obj ?m i) s' (Some e), Inr (room_cloneResponse (Some (ok_response s' (Some e)))))"
    if "eval = engine_runner (\<lambda>_. None)" for eval
    using submit_accepted[OF k(5) st ph m(4) v acc, of "\<lambda>_. None"] by auto
  let ?m' = "set_obj i (room_moved (obj ?m i) s' (Some e)) ?m"
  have sub: "Manager_Submit (engine_runner (\<lambda>_. None)) ?m ?rid ?who c =
      Some (?m', Inr (room_cloneResponse (Some (ok_response s' (Some e)))))"
    using m(1,2) e[OF refl] by (simp add: Manager_Submit_def)
  have j: "i < length (ld_objs (ap_records a))" using k(1) len by simp
  obtain a' res where s: "submitCommand (engine_runner (\<lambda>_. None)) decode clock a ?rid ?who (Some i) c = Some (a', res)"
    "app_inv decode d a'"
    using engine.submitCommand_inv[where g = g and harness = harness and fails = "\<lambda>_. None",
      OF fl[unfolded d_def] inv[unfolded d_def] now j, of ?who c] unfolding d_def by blast
  have m': "ap_matches a' = ?m'" and res: "\<exists>r. res = Inr (Some r) \<and> rs_OK r"
    using s(1) sub by (auto simp: submitCommand_def cloned_ok_response Let_def split: prod.splits if_splits)
  obtain l' where l': "limiter_allow t l = (l', True)" using lim by (cases "limiter_allow t l") auto
  have "session_exec w decode (\<lambda>_. None, clock) a (OpFrame i ?who l t (Inr \<lparr>wf_opcode = 1, wf_data = data\<rparr>)) = Some a'"
    using l' parse s(1) res j by (auto simp: read_step_def pointer_def)
  moreover have "plays_at a' i p q (State_Clone s')"
    using pl(1) k(1) ph by (simp add: plays_at_def Let_def m' Room_Seats_def)
  moreover have "map rm_seed (mg_objs (ap_matches a')) = map rm_seed (mg_objs ?m)"
    using k(1) by (simp add: m' set_obj_def map_update obj_def list_update_same_conv)
  ultimately show ?thesis using s(2) by blast
qed

section \<open>A whole match\<close>

text \<open>The frames of a game: with each command the limiter of the connection, the time and the bytes.\<close>

type_synonym sent = "command \<times> rate_limiter \<times> int \<times> bytes"

definition sent_ok :: "world \<Rightarrow> sent \<Rightarrow> bool" where
  "sent_ok w x = (case x of (c, l, t, data) \<Rightarrow>
     Command_Validate c = None \<and> wd_parse w data = Some c \<and> snd (limiter_allow t l))"

definition sent_op :: "string \<Rightarrow> nat \<Rightarrow> string \<Rightarrow> string \<Rightarrow> sent \<Rightarrow> moment \<times> session_op" where
  "sent_op clock i p q x = (case x of (c, l, t, data) \<Rightarrow>
     ((\<lambda>_. None, clock), OpFrame i (player_of p q (cm_Player c)) l t (Inr \<lparr>wf_opcode = 1, wf_data = data\<rparr>)))"

lemma frames_play:
  fixes g :: script_runner and harness :: string
  defines "d \<equiv> record_decoder (\<lambda>_. None) g harness"
  assumes fl: "may_fail d decode" and "app_inv decode d a" "plays_at a i p q s" "play (wire_state s) (map fst xs) = Some s'"
    "list_all (sent_ok w) xs" "p \<noteq> q" "stamp clock"
  shows "\<exists>a' s1. session_run w decode a (map (sent_op clock i p q) xs) = Some a' \<and> app_inv decode d a' \<and>
    plays_at a' i p q s1 \<and> wire_state s1 = s' \<and>
    map rm_seed (mg_objs (ap_matches a')) = map rm_seed (mg_objs (ap_matches a))"
  using assms(3-)
proof (induction xs arbitrary: a s)
  case Nil
  then show ?case by auto
next
  case (Cons x xs)
  obtain c l t data where x: "x = (c, l, t, data)" by (cases x)
  obtain s2 where acc: "accepts (wire_state s) c = Some s2" and rest: "play s2 (map fst xs) = Some s'"
    using Cons.prems(3) by (auto simp: x split: option.splits)
  obtain a1 where a1: "session_exec w decode (\<lambda>_. None, clock) a
      (OpFrame i (player_of p q (cm_Player c)) l t (Inr \<lparr>wf_opcode = 1, wf_data = data\<rparr>)) = Some a1"
    "app_inv decode d a1" "plays_at a1 i p q (State_Clone s2)"
    "map rm_seed (mg_objs (ap_matches a1)) = map rm_seed (mg_objs (ap_matches a))"
    using frame_plays[where g = g and harness = harness,
      OF fl[unfolded d_def] Cons.prems(1)[unfolded d_def] Cons.prems(2,5,6) acc, of w data t l] Cons.prems(4)
    unfolding d_def by (auto simp: x sent_ok_def)
  have mi: "manager_inv (ap_matches a)" "map_of (mg_rooms (ap_matches a)) (room_name (Suc i)) = Some i"
    "rm_state (obj (ap_matches a) i) = Some s"
    using Cons.prems(1,2) by (simp_all add: app_inv_def plays_at_def Let_def)
  have "game_inv (wire_state s)"
    using room_inv_state[OF manager_room(5)[OF mi(1,2)] mi(3)] by (simp add: server_state_def)
  then have "wire_state (State_Clone s2) = s2" using accepts_inv[OF _ acc] wire_game_inv by simp
  then obtain a' s1 where r: "session_run w decode a1 (map (sent_op clock i p q) xs) = Some a'" "app_inv decode d a'"
    "plays_at a' i p q s1" "wire_state s1 = s'"
    "map rm_seed (mg_objs (ap_matches a')) = map rm_seed (mg_objs (ap_matches a1))"
    using Cons.IH[OF a1(2,3)] rest Cons.prems(4-) by auto
  have "session_run w decode a (map (sent_op clock i p q) (x # xs)) = Some a'"
    unfolding list.map session_run.simps sent_op_def x prod.case a1(1) option.case
    by (rule r(1)[unfolded sent_op_def])
  then show ?case using r(2-) a1(4) by auto
qed

text \<open>Two players who connect to a new server.\<close>

definition joins :: "string \<Rightarrow> string \<Rightarrow> string \<Rightarrow> (moment \<times> session_op) list" where
  "joins clock p q =
     [((\<lambda>_. None, clock), OpConnect p (Upgraded []) True), ((\<lambda>_. None, clock), OpConnect q (Upgraded []) True)]"

text \<open>The request is served as a join while there are fewer rooms than allowed.\<close>

lemma connect_joins:
  assumes "ValidateGameID p = None" "int (RoomCount (ap_matches a)) < dc_maxRooms (wd_config w)"
  shows "session_exec w decode (fails, clock) a (OpConnect p (Upgraded x) True) =
    map_option fst (match_join (engine_runner fails) (wd_seeds w) clock a p)"
  using assms by (auto simp: handleMatch_def split: option.split sum.split)

lemma joins_play:
  fixes g :: script_runner and harness :: string
  defines "d \<equiv> record_decoder (\<lambda>_. None) g harness"
  assumes fl: "may_fail d decode" and p: "ValidateGameID p = None" "ValidateGameID q = None" "p \<noteq> q" and now: "stamp clock"
    and two: "2 \<le> dc_maxRooms (wd_config w)"
  shows "\<exists>a. session_run w decode new_app (joins clock p q) = Some a \<and> app_inv decode d a \<and>
    plays_at a 0 p q (State_Clone (new_game (room_name 1) (wd_seeds w (room_name 1)))) \<and>
    map rm_seed (mg_objs (ap_matches a)) = [wd_seeds w (room_name 1)]"
proof -
  let ?e = "engine_runner (\<lambda>_. None)" and ?rid = "room_name (Suc 0)"
  let ?seeds = "wd_seeds w"
  have ne: "p \<noteq> ''''" "q \<noteq> ''''" using p by (auto simp: ValidateGameID_def gameIDPattern_def)
  obtain a1 r1 where j1: "match_join ?e ?seeds clock new_app p = Some (a1, r1)" "app_inv decode d a1"
    using engine.match_join_inv[where fails = "\<lambda>_. None", OF new_app_inv now, of ?seeds p decode d] by blast
  obtain a2 r2 where j2: "match_join ?e ?seeds clock a1 q = Some (a2, r2)" "app_inv decode d a2"
    using engine.match_join_inv[where fails = "\<lambda>_. None", OF j1(2) now, of ?seeds q] by blast
  let ?m1 = "manager_opened ?seeds NewManager p"
  have m1: "ap_matches a1 = ?m1 \<and> manager_inv ?m1"
    using NewManager_inv ne(1)
  proof (cases rule: engine.Manager_Join_cases[where playerID = p and seedFor = ?seeds and fails = "\<lambda>_. None"])
    case opened
    then show ?thesis using j1(1) by (auto simp: match_join_def new_app_def Let_def)
  qed (simp_all add: NewManager_def)
  let ?r = "room_opened (newRoom ?rid (?seeds ?rid)) p"
  have room_opened_id: "rm_id ?r \<noteq> ''''" using room_opened_new(4)[of "Suc 0" "?seeds ?rid" p] unfolding room_name_def by simp
  have f1: "mg_waiting ?m1 = ?rid" "map_of (mg_players ?m1) q = None" "map_of (mg_rooms ?m1) ?rid = Some 0"
    "obj ?m1 0 = ?r" "mg_objs ?m1 = [?r]" "RoomCount ?m1 = 1" "map_of (mg_players ?m1) p = Some ?rid"
    using p(3) by (simp_all add: manager_opened_def Let_def obj_def NewManager_def RoomCount_def)
  have m2: "ap_matches a2 = manager_started ?m1 0 q \<and> (\<exists>t. rm_seats ?r = [(PlayerDark, t)])"
    using conjunct2[OF m1] ne(2)
  proof (cases rule: engine.Manager_Join_cases[where playerID = q and seedFor = ?seeds and fails = "\<lambda>_. None"])
    case (started i t)
    then show ?thesis using j2(1) m1 f1 by (auto simp: match_join_def Let_def)
  next
    case (failed i err)
    then show ?thesis using f1 engine_starts[OF room_opened_id] by simp
  qed (use f1 in simp_all)
  obtain t where t: "rm_seats ?r = [(PlayerDark, t)]" using m2 by blast
  have ri: "Room_Seats ?r = [(PlayerDark, p)]" "rm_id ?r = ?rid" "rm_seed ?r = ?seeds ?rid"
    using room_opened_new(3,4)[of "Suc 0"] by (simp_all add: room_opened_def newRoom_def)
  have fr: "seatOf ?r q = None" using ri(1) p(3) by (auto simp: seatOf_def Room_Seats_def)
  note st = room_started_inv[OF room_opened_new(1) t room_opened_new(2) fr]
  have pl: "plays_at a2 0 p q (State_Clone (new_game ?rid (?seeds ?rid)))"
    using st(2,3,6) t ri f1 p(3)
    by (simp add: plays_at_def Let_def m2 manager_started_def Room_Seats_def)
  have sd: "map rm_seed (mg_objs (ap_matches a2)) = [?seeds ?rid]"
    using f1 ri(3) by (simp add: m2 manager_started_def set_obj_def)
  have "session_run w decode new_app (joins clock p q) = Some a2"
    unfolding joins_def session_run.simps
    using j1(1) j2(1) m1 f1 two p
    by (simp del: session_exec.simps add: connect_joins new_app_def NewManager_def RoomCount_def)
  then show ?thesis using j2(2) pl sd by auto
qed

lemma session_run_append:
  "session_run w decode a (xs @ ys) =
     (case session_run w decode a xs of None \<Rightarrow> None | Some a' \<Rightarrow> session_run w decode a' ys)"
  by (induction xs arbitrary: a) (auto split: option.split prod.split)

lemma match_plays:
  fixes g :: script_runner and harness :: string
  defines "d \<equiv> record_decoder (\<lambda>_. None) g harness"
  assumes fl: "may_fail d decode" and p: "ValidateGameID p = None" "ValidateGameID q = None" "p \<noteq> q" and now: "stamp clock"
    and two: "2 \<le> dc_maxRooms (wd_config w)"
    and xs: "play (new_game (room_name 1) (wd_seeds w (room_name 1))) (map fst xs) = Some s" "list_all (sent_ok w) xs"
  shows "\<exists>a s1. session_run w decode new_app (joins clock p q @ map (sent_op clock 0 p q) xs) = Some a \<and>
    app_inv decode d a \<and> plays_at a 0 p q s1 \<and> wire_state s1 = s \<and>
    map rm_seed (mg_objs (ap_matches a)) = [wd_seeds w (room_name 1)]"
proof -
  let ?s0 = "new_game (room_name 1) (wd_seeds w (room_name 1))"
  obtain a where a: "session_run w decode new_app (joins clock p q) = Some a" "app_inv decode d a"
    "plays_at a 0 p q (State_Clone ?s0)" "map rm_seed (mg_objs (ap_matches a)) = [wd_seeds w (room_name 1)]"
    using joins_play[OF fl[unfolded d_def] p now two, folded d_def] by (elim exE conjE) (rule that)
  have "game_inv ?s0" by (rule new_game_inv) (simp add: room_name_def)
  then have "play (wire_state (State_Clone ?s0)) (map fst xs) = Some s" using xs(1) wire_game_inv by simp
  then obtain a' s1 where "session_run w decode a (map (sent_op clock 0 p q) xs) = Some a' \<and> app_inv decode d a' \<and>
    plays_at a' 0 p q s1 \<and> wire_state s1 = s \<and> map rm_seed (mg_objs (ap_matches a')) = map rm_seed (mg_objs (ap_matches a))"
    using frames_play[where g = g and harness = harness, OF fl[unfolded d_def] a(2)[unfolded d_def] a(3) _ xs(2) p(3) now]
    unfolding d_def by blast
  then show ?thesis unfolding session_run_append a(1) option.case a(4) by (intro exI)
qed

section \<open>A server for one room\<close>

text \<open>
  The limit on the rooms is checked before the request joins: when it is reached, the second player
  of a waiting room is turned away like everybody else.
\<close>

definition no_games :: "app \<Rightarrow> bool" where
  "no_games a \<longleftrightarrow> list_all (\<lambda>r. rm_state r = None) (mg_objs (ap_matches a))"

lemma no_games_set:
  "no_games a \<Longrightarrow> rm_state r = None \<Longrightarrow> ap_matches a' = set_obj i r (ap_matches a) \<Longrightarrow> no_games a'"
  using set_update_subset_insert[of "mg_objs (ap_matches a)" i r] by (auto simp: no_games_def list_all_iff set_obj_def)

lemma no_games_obj: "no_games a \<Longrightarrow> i < length (mg_objs (ap_matches a)) \<Longrightarrow> rm_state (obj (ap_matches a) i) = None"
  by (simp add: no_games_def list_all_length obj_def)

context rules_runner
begin

lemma connect_no_games:
  assumes inv: "app_inv decode d a" and n: "no_games a" and one: "dc_maxRooms config \<le> 1"
    and h: "handleMatch show_error eval seeds clock config upgraded let_in a p = Some (a', st)"
  shows "no_games a'"
proof (cases "RoomCount (ap_matches a) = 0 \<and> ValidateGameID p = None")
  case False
  then show ?thesis using h n one by (auto simp: handleMatch_def split: upgrade.splits if_splits)
next
  case True
  then have p: "p \<noteq> ''''" "mg_rooms (ap_matches a) = []"
    by (auto simp: ValidateGameID_def gameIDPattern_def RoomCount_def)
  have "manager_inv (ap_matches a)" using inv by (simp add: app_inv_def)
  then have "no_games b" if j: "match_join eval seeds clock a p = Some (b, res)" for b res
    using p(1)
  proof (cases rule: Manager_Join_cases[where playerID = p and seedFor = seeds])
    case opened
    then have "ap_matches b = manager_opened seeds (ap_matches a) p" using j by (auto simp: match_join_def Let_def)
    then show ?thesis
      using n by (simp add: no_games_def manager_opened_def Let_def room_opened_def seat_taken_def newRoom_def)
  qed (use p in simp_all)
  then show ?thesis
    using h n by (auto simp: handleMatch_def split: upgrade.splits if_splits option.splits sum.splits)
qed

lemma submit_no_games:
  assumes inv: "app_inv decode d a" and n: "no_games a"
    and s: "submitCommand eval decode' clock a rid p record c = Some (a', res)"
  shows "no_games a'"
proof -
  have mi: "manager_inv (ap_matches a)" using inv by (simp add: app_inv_def)
  show ?thesis
  proof (cases "record")
    case None
    then show ?thesis using s n by (simp add: submitCommand_def)
  next
    case (Some j)
    show ?thesis
      using mi
    proof (cases rule: Manager_Submit_cases[where roomID = rid and playerID = p and c = c])
      case (accepted i player st s1 s' e)
      then show ?thesis using no_games_obj[OF n manager_room(1)[OF mi accepted(2)]] by simp
    qed (use s n Some in \<open>auto simp: submitCommand_def Let_def\<close>)
  qed
qed

end

lemma leave_no_games:
  assumes inv: "app_inv decode d a" and n: "no_games a" and l: "match_leave a rid p = Some a'"
  shows "no_games a'"
proof -
  have mi: "manager_inv (ap_matches a)" using inv by (simp add: app_inv_def)
  show ?thesis
    using mi
  proof (cases rule: Manager_Leave_cases[where playerID = p])
    case (stranger message)
    then show ?thesis using l n by (auto simp: match_leave_def no_games_def)
  next
    case (remains rid' i r player s)
    then show ?thesis
      using l no_games_obj[OF n manager_room(1)[OF mi remains(2)]]
      by (intro no_games_set[OF n, of r _ i]) (auto simp: match_leave_def)
  next
    case (emptied rid' i r)
    have "rm_state r = None" using emptied(8) no_games_obj[OF n manager_room(1)[OF mi emptied(2)]] by simp
    then have "no_games (a\<lparr>ap_matches := set_obj i r (ap_matches a)\<rparr>)" by (rule no_games_set[OF n]) simp
    then show ?thesis
      using l emptied(3) by (auto simp: match_leave_def no_games_def manager_left_def leave_cleanup_def Let_def)
  qed
qed

lemma stop_no_games:
  assumes n: "no_games a" and st: "stop_matches a = Some a'"
  shows "no_games a'"
proof -
  obtain m' where m': "ap_matches a' = m'" "length (mg_objs m') = length (mg_objs (ap_matches a))"
    "\<And>j. rm_state (obj m' j) = rm_state (obj (ap_matches a) j)"
    using st close_rooms_game by (force simp: stop_matches_def Manager_Close_def close_reset_def)
  then show ?thesis
    using no_games_obj[OF n] by (simp add: no_games_def list_all_length obj_def)
qed

lemma one_room_no_games:
  fixes g :: script_runner and harness :: string
  defines "d \<equiv> record_decoder (\<lambda>_. None) g harness"
  assumes fl: "may_fail d decode" and "app_inv decode d a" "no_games a" "dc_maxRooms (wd_config w) \<le> 1"
    "session_run w decode a xs = Some a'" "list_all (\<lambda>(t, x). stamp (snd t)) xs"
  shows "no_games a'"
  using assms(3-)
proof (induction xs arbitrary: a)
  case (Cons y xs)
  obtain fails clock x where y: "y = ((fails, clock), x)" by (metis surj_pair)
  have st: "stamp clock" using Cons.prems(5) by (simp add: y)
  obtain a1 where a1: "session_exec w decode (fails, clock) a x = Some a1" "session_run w decode a1 xs = Some a'"
    using Cons.prems(4) by (auto simp: y split: option.splits)
  have inv: "app_inv decode d a1"
    using session_exec_inv[where g = g and harness = harness and t = "(fails, clock)" and w = w and x = x,
        OF fl[unfolded d_def] Cons.prems(1)[unfolded d_def]] st a1(1)
    unfolding d_def by auto
  have "no_games a1"
  proof (cases x)
    case (OpConnect p upgraded let_in)
    then show ?thesis
      using a1(1) engine.connect_no_games[where fails = fails, OF Cons.prems(1-3)] by auto
  next
    case (OpFrame j p l t frame)
    then show ?thesis
      using a1(1) Cons.prems(2) engine.submit_no_games[where fails = fails, OF Cons.prems(1,2)]
      by (auto simp: read_step_def Let_def split: sum.splits if_splits prod.splits option.splits)
  next
    case (OpLeave j p)
    then show ?thesis using a1(1) leave_no_games[OF Cons.prems(1,2)] by simp
  next
    case (OpReceive i k)
    let ?r = "(obj (ap_matches a) i)\<lparr>rm_chans := chan_recv (rm_chans (obj (ap_matches a) i)) k\<rparr>"
    have "no_games (a\<lparr>ap_matches := set_obj i ?r (ap_matches a)\<rparr>)" if "i < length (mg_objs (ap_matches a))"
      using no_games_obj[OF Cons.prems(2) that] by (intro no_games_set[OF Cons.prems(2), of ?r _ i]) simp_all
    then show ?thesis using a1(1) Cons.prems(2) OpReceive by (auto split: if_splits)
  next
    case OpShutdown
    then show ?thesis using a1(1) stop_no_games[OF Cons.prems(2)] by simp
  qed
  then show ?case using Cons.IH[OF inv _ Cons.prems(3) a1(2)] Cons.prems(5) by simp
qed simp

section \<open>After the end of a match\<close>

text \<open>
  A player who leaves a finished match that the opponent is still connected to stays in its books: the
  next request to join is refused until the opponent has left as well.
\<close>

context rules_runner
begin

lemma finished_player_locked_out:
  assumes inv: "manager_inv m" and p: "map_of (mg_players m) p = Some rid" "map_of (mg_rooms m) rid = Some i"
    and fin: "rm_phase (obj m i) = RoomClosed" and l: "Manager_Leave m p = Some (m', err)"
    and other: "map_of (mg_rooms m') rid = Some i" and named: "p \<noteq> ''''"
  shows "\<exists>message. Manager_Join eval seeds m' p = Some (m', Inl (JoinError p message))"
proof -
  have m': "manager_inv m' \<and> map_of (mg_players m') p = Some rid \<and> rm_phase (obj m' i) = RoomClosed"
    using inv
  proof (cases rule: Manager_Leave_cases[where playerID = p])
    case (remains rid' i' r player s)
    then show ?thesis using l p fin manager_room(1)[OF inv p(2)] by auto
  next
    case (emptied rid' i' r)
    then have "map_of (mg_rooms m') rid = None"
      using l p by (auto simp: manager_left_def leave_cleanup_def Let_def delete_conv split: if_splits)
    then show ?thesis using other by simp
  qed (use p l in simp)
  note inv' = conjunct1[OF m']
  show ?thesis
    using inv' named
  proof (cases rule: Manager_Join_cases[where playerID = p and seedFor = seeds])
    case (refused rid' j message)
    then show ?thesis by blast
  qed (use m' other in auto)
qed

end

lemma finished_player_cannot_join:
  assumes "manager_inv m" "map_of (mg_players m) p = Some rid" "map_of (mg_rooms m) rid = Some i"
    "rm_phase (obj m i) = RoomClosed" "Manager_Leave m p = Some (m', err)" "map_of (mg_rooms m') rid = Some i" "p \<noteq> ''''"
  shows "\<exists>message. Manager_Join (engine_runner fails) seeds m' p = Some (m', Inl (JoinError p message))"
  by (rule engine.finished_player_locked_out[OF assms])

end
