(* ===== verification/Peer.thy ===== *)
theory Peer
  imports Transport
begin

text \<open>
  The queue of frames of a connection (\<open>wsPeer\<close> of \<open>server/main.go\<close>). Four goroutines share it: the
  reader of the frames, \<open>forwardEvents\<close> and \<open>keepAlive\<close> put frames into a channel of 32 places, and
  \<open>writeLoop\<close> takes them out and writes them.

  A channel operation, a write and the two statements of \<open>close\<close> are one step each. A \<open>select\<close> takes
  any case that is ready, so a step is the list of its possible results; the empty list is an
  operation that blocks. The acknowledgements (channels that are closed) are numbered.
\<close>

section \<open>The state\<close>

record queued =
  qf_frame :: ws_frame
  qf_ack :: "nat option"

text \<open>
  Where \<open>writeLoop\<close> is: at its \<open>select\<close>, in \<open>writeFrame\<close>, before the \<open>close\<close> that follows an error, or
  at its end.
\<close>

datatype write_loop = Selecting | Writing queued | Closing | Returned

text \<open>\<open>pr_conn\<close>: the connection is open. \<open>pr_wire\<close>: the bytes that went out on it.\<close>

record peer =
  pr_outgoing :: "queued list"
  pr_done :: bool
  pr_conn :: bool
  pr_loop :: write_loop
  pr_wire :: bytes
  pr_acks :: nat
  pr_acked :: "nat list"
  pr_lastActive :: int

definition outgoingBuffer :: nat where "outgoingBuffer = 32"

definition newWSPeer :: "int \<Rightarrow> peer" where
  "newWSPeer now =
     \<lparr>pr_outgoing = [], pr_done = False, pr_conn = True, pr_loop = Selecting, pr_wire = [],
      pr_acks = 0, pr_acked = [], pr_lastActive = now\<rparr>"

definition touch :: "int \<Rightarrow> peer \<Rightarrow> peer" where
  "touch now p = p\<lparr>pr_lastActive := now\<rparr>"

section \<open>Putting frames in\<close>

definition peer_send :: "ws_frame \<Rightarrow> peer \<Rightarrow> (peer \<times> bool) list" where
  "peer_send f p =
     (if length (pr_outgoing p) < outgoingBuffer
      then [(p\<lparr>pr_outgoing := pr_outgoing p @ [\<lparr>qf_frame = f, qf_ack = None\<rparr>]\<rparr>, True)] else [])
     @ (if pr_done p then [(p, False)] else [])"

text \<open>\<open>marshalled\<close> is the JSON of the value, if it has one.\<close>

definition sendJSON :: "bytes option \<Rightarrow> peer \<Rightarrow> (peer \<times> bool) list" where
  "sendJSON marshalled p =
     (case marshalled of
        None \<Rightarrow> [(p, False)]
      | Some data \<Rightarrow> peer_send \<lparr>wf_opcode = 1, wf_data = data\<rparr> p)"

text \<open>
  The first \<open>select\<close> of \<open>flush\<close>: the number of the acknowledgement to wait for, or the end. The second
  one goes on when \<open>flush_returns\<close>.
\<close>

definition flush_put :: "ws_frame \<Rightarrow> peer \<Rightarrow> (peer \<times> nat option) list" where
  "flush_put f p =
     (if length (pr_outgoing p) < outgoingBuffer
      then [(p\<lparr>pr_outgoing := pr_outgoing p @ [\<lparr>qf_frame = f, qf_ack = Some (pr_acks p)\<rparr>],
               pr_acks := pr_acks p + 1\<rparr>, Some (pr_acks p))] else [])
     @ (if pr_done p then [(p, None)] else [])"

definition flush_returns :: "nat \<Rightarrow> peer \<Rightarrow> bool" where
  "flush_returns ack p \<longleftrightarrow> ack \<in> set (pr_acked p) \<or> pr_done p"

section \<open>Closing\<close>

text \<open>The two statements under the \<open>once\<close>.\<close>

definition close_done :: "peer \<Rightarrow> peer" where
  "close_done p = p\<lparr>pr_done := True\<rparr>"

definition close_conn :: "peer \<Rightarrow> peer" where
  "close_conn p = p\<lparr>pr_conn := False\<rparr>"

definition shutdown_put :: "16 word \<Rightarrow> bytes \<Rightarrow> peer \<Rightarrow> (peer \<times> nat option) list" where
  "shutdown_put code reason p = flush_put (wsCloseFrame code reason) p"

text \<open>What \<open>closeSocket\<close> puts on the connection of a request that has no peer yet.\<close>

definition closeSocket :: "16 word \<Rightarrow> bytes \<Rightarrow> bytes" where
  "closeSocket code reason =
     (case writeFrame (wsCloseFrame code reason) of Inl _ \<Rightarrow> [] | Inr out \<Rightarrow> out)"

section \<open>Writing\<close>

definition close_ack :: "queued \<Rightarrow> peer \<Rightarrow> peer" where
  "close_ack q p = (case qf_ack q of None \<Rightarrow> p | Some ack \<Rightarrow> p\<lparr>pr_acked := ack # pr_acked p\<rparr>)"

text \<open>
  A write on an open connection goes through, or it fails after any part of the bytes; on a closed
  connection it fails.
\<close>

definition write_results :: "queued \<Rightarrow> peer \<Rightarrow> peer list" where
  "write_results q p =
     (case writeFrame (qf_frame q) of
        Inl _ \<Rightarrow> [(close_ack q p)\<lparr>pr_loop := Closing\<rparr>]
      | Inr out \<Rightarrow>
          (if pr_conn p
           then (close_ack q p)\<lparr>pr_loop := Selecting, pr_wire := pr_wire p @ out\<rparr>
                # map (\<lambda>k. (close_ack q p)\<lparr>pr_loop := Closing, pr_wire := pr_wire p @ take k out\<rparr>)
                    [0..<length out]
           else [(close_ack q p)\<lparr>pr_loop := Closing\<rparr>]))"

definition writeLoop_step :: "peer \<Rightarrow> peer list" where
  "writeLoop_step p =
     (case pr_loop p of
        Selecting \<Rightarrow>
          (if pr_done p then [p\<lparr>pr_loop := Returned\<rparr>] else []) @
          (case pr_outgoing p of
             [] \<Rightarrow> []
           | q # qs \<Rightarrow> [p\<lparr>pr_outgoing := qs, pr_loop := Writing q\<rparr>])
      | Writing q \<Rightarrow> write_results q p
      | Closing \<Rightarrow> [(close_conn (close_done p))\<lparr>pr_loop := Returned\<rparr>]
      | Returned \<Rightarrow> [])"

text \<open>
  Everything that can happen to a peer, with the frames that were put into its queue so far. A
  \<open>close\<close> of \<open>writeLoop\<close> that finds the \<open>once\<close> taken waits for it and changes nothing.
\<close>

inductive peer_run :: "peer \<Rightarrow> queued list \<Rightarrow> bool" where
  start: "peer_run (newWSPeer now) []"
| sends: "peer_run p qs \<Longrightarrow> (p', True) \<in> set (peer_send f p) \<Longrightarrow> peer_run p' (qs @ [\<lparr>qf_frame = f, qf_ack = None\<rparr>])"
| flushes: "peer_run p qs \<Longrightarrow> (p', Some ack) \<in> set (flush_put f p) \<Longrightarrow>
    peer_run p' (qs @ [\<lparr>qf_frame = f, qf_ack = Some ack\<rparr>])"
| writes: "peer_run p qs \<Longrightarrow> p' \<in> set (writeLoop_step p) \<Longrightarrow> peer_run p' qs"
| touches: "peer_run p qs \<Longrightarrow> peer_run (touch now p) qs"
| closes: "peer_run p qs \<Longrightarrow> peer_run (close_done p) qs"
| disconnects: "peer_run p qs \<Longrightarrow> pr_done p \<Longrightarrow> peer_run (close_conn p) qs"

end
