(* ===== verification/TransportLemmas.thy ===== *)
theory TransportLemmas
  imports Transport
begin

text \<open>
  The frames of the transport. \<open>client_frame\<close> is what RFC 6455 lets a client send and
  \<open>server_frame\<close> how a client reads what a server sends; the first is exactly what \<open>readFrame\<close>
  accepts, the second undoes \<open>writeFrame\<close> except for one length. The close reason is cut to the longest
  valid text that fits.
\<close>

section \<open>Valid UTF-8\<close>

lemma rune_size_bound: "rune_size s \<le> 4 \<and> rune_size s \<le> length s"
  by (auto simp: rune_size_def Let_def lead_size_def)

lemma rune_size_append: "rune_size s \<noteq> 0 \<Longrightarrow> rune_size (s @ t) = rune_size s"
  by (auto simp: rune_size_def Let_def split: if_splits)

lemma rune_size_take:
  assumes "rune_size s \<noteq> 0"
  shows "rune_size (take (rune_size s) s) = rune_size s"
  using assms by (auto simp: rune_size_def Let_def min_def split: if_splits)

lemma utf8_valid_Nil [simp]: "utf8_valid []"
  by (simp add: utf8_valid.simps)

lemma utf8_valid_append: "utf8_valid s \<Longrightarrow> utf8_valid (s @ t) = utf8_valid t"
proof (induction s rule: utf8_valid.induct)
  case (1 s)
  show ?case
  proof (cases "s = []")
    case False
    then have n: "rune_size s \<noteq> 0" "utf8_valid (drop (rune_size s) s)"
      using "1.prems" by (subst (asm) utf8_valid.simps, simp split: if_splits)+
    have l: "rune_size s \<le> length s" using rune_size_bound by blast
    have "utf8_valid (s @ t) = utf8_valid (drop (rune_size s) s @ t)"
      using False n(1) l by (subst utf8_valid.simps) (simp add: rune_size_append)
    then show ?thesis using "1.IH"[OF False n(1) n(2)] by simp
  qed simp
qed

lemma utf8_valid_rune: "rune_size s \<noteq> 0 \<Longrightarrow> utf8_valid (take (rune_size s) s)"
proof -
  assume n: "rune_size s \<noteq> 0"
  then have "s \<noteq> []" by (auto simp: rune_size_def)
  then show ?thesis
    using n rune_size_take[OF n] by (subst utf8_valid.simps) simp
qed

text \<open>Between any position and three before it, a valid text can be cut.\<close>

lemma utf8_valid_cut:
  assumes "utf8_valid s" "m \<le> length s"
  shows "\<exists>k \<le> m. m < k + 4 \<and> utf8_valid (take k s)"
  using assms
proof (induction s arbitrary: m rule: utf8_valid.induct)
  case (1 s)
  show ?case
  proof (cases "s = [] \<or> m < rune_size s")
    case True
    then have "m < 4" using "1.prems"(2) rune_size_bound[of s] by auto
    then show ?thesis by (intro exI[of _ 0]) simp
  next
    case False
    then have n: "s \<noteq> []" "rune_size s \<noteq> 0" "utf8_valid (drop (rune_size s) s)"
      using "1.prems"(1) by (subst (asm) utf8_valid.simps, simp split: if_splits)+
    let ?n = "rune_size s"
    obtain k where k: "k \<le> m - ?n" "m - ?n < k + 4" "utf8_valid (take k (drop ?n s))"
      using "1.IH"[OF n(1,2,3), of "m - ?n"] "1.prems"(2) diff_le_mono[OF "1.prems"(2), of ?n]
      by (simp only: length_drop) blast
    have "take (?n + k) s = take ?n s @ take k (drop ?n s)" by (simp add: take_add)
    then have "utf8_valid (take (?n + k) s)"
      using utf8_valid_append[OF utf8_valid_rune[OF n(2)]] k(3) by simp
    then show ?thesis using k(1,2) False by (intro exI[of _ "?n + k"]) auto
  qed
qed

section \<open>The reason of a close frame\<close>

text \<open>\<open>shorten\<close> finds the longest valid beginning.\<close>

lemma shorten_prefix:
  "\<exists>k \<le> length s. shorten s = take k s \<and> utf8_valid (take k s) \<and>
     (\<forall>j \<le> length s. utf8_valid (take j s) \<longrightarrow> j \<le> k)"
proof (induction s rule: shorten.induct)
  case (1 s)
  show ?case
  proof (cases "s = [] \<or> utf8_valid s")
    case True
    then show ?thesis by (intro exI[of _ "length s"]) (auto simp: shorten.simps)
  next
    case False
    then obtain k where k: "k \<le> length (butlast s)" "shorten (butlast s) = take k (butlast s)"
      "utf8_valid (take k (butlast s))" "\<forall>j \<le> length (butlast s). utf8_valid (take j (butlast s)) \<longrightarrow> j \<le> k"
      using 1 by blast
    have t: "take j (butlast s) = take j s" if "j \<le> length s - 1" for j
      using that by (simp add: butlast_conv_take)
    have "\<forall>j \<le> length s. utf8_valid (take j s) \<longrightarrow> j \<le> k"
    proof (intro allI impI)
      fix j assume j: "j \<le> length s" "utf8_valid (take j s)"
      then have "j \<noteq> length s" using False by auto
      then show "j \<le> k" using j k(4) t[of j] by simp
    qed
    then show ?thesis using k(1-3) t[of k] False by (intro exI[of _ k]) (auto simp: shorten.simps[of s])
  qed
qed

lemma truncateCloseReason_long:
  assumes "utf8_valid reason" "length reason > 123"
  shows "\<exists>k. truncateCloseReason reason = take k reason \<and> 120 \<le> k \<and> k \<le> 123 \<and> utf8_valid (take k reason)"
proof -
  obtain k where k: "k \<le> 123" "shorten (take 123 reason) = take k reason" "utf8_valid (take k reason)"
    "\<forall>j \<le> 123. utf8_valid (take j reason) \<longrightarrow> j \<le> k"
    using shorten_prefix[of "take 123 reason"] assms(2) by (auto simp: min_def)
  obtain j where "j \<le> 123" "123 < j + 4" "utf8_valid (take j reason)"
    using utf8_valid_cut[OF assms(1), of 123] assms(2) by auto
  with k(4) have "120 \<le> k" by fastforce
  then show ?thesis using k assms(2) by (auto simp: truncateCloseReason_def)
qed

lemma length_PutUint16 [simp]: "length (PutUint16 w) = 2"
  by (simp add: PutUint16_def)

lemma close_frame_fits:
  assumes "utf8_valid reason"
  shows "\<exists>kept. wf_data (wsCloseFrame code reason) = PutUint16 code @ kept \<and>
    kept = take (length kept) reason \<and> utf8_valid kept \<and> length kept \<le> 123 \<and>
    (length reason \<le> 123 \<longrightarrow> kept = reason) \<and> (length reason > 123 \<longrightarrow> 120 \<le> length kept)"
proof (cases "length reason \<le> 123")
  case True
  then show ?thesis using assms by (simp add: wsCloseFrame_def truncateCloseReason_def)
next
  case False
  then show ?thesis
    using truncateCloseReason_long[OF assms] by (auto simp: wsCloseFrame_def min_def)
qed

section \<open>Frames of a client\<close>

text \<open>\<open>k\<close> bytes of a number, the length of a frame in its shortest form, a frame with its key.\<close>

fun be_bytes :: "nat \<Rightarrow> nat \<Rightarrow> bytes" where
  "be_bytes 0 n = []"
| "be_bytes (Suc k) n = be_bytes k (n div 256) @ [of_nat (n mod 256)]"

definition client_length :: "nat \<Rightarrow> bytes" where
  "client_length n =
     (if n < 126 then [0x80 OR of_nat n]
      else if n < 65536 then 0xFE # be_bytes 2 n
      else 0xFF # be_bytes 8 n)"

definition client_frame :: "bytes \<Rightarrow> ws_frame \<Rightarrow> bytes" where
  "client_frame key f =
     [0x80 OR wf_opcode f] @ client_length (length (wf_data f)) @ key @ unmask key (wf_data f)"

definition client_frame_ok :: "ws_frame \<Rightarrow> bool" where
  "client_frame_ok f \<longleftrightarrow>
     wf_opcode f \<in> {1, 8, 9, 10} \<and> length (wf_data f) \<le> maxWSMessage \<and>
     (wf_opcode f \<noteq> 1 \<longrightarrow> length (wf_data f) \<le> 125) \<and>
     (wf_opcode f = 1 \<longrightarrow> utf8_valid (wf_data f)) \<and>
     (wf_opcode f = 8 \<longrightarrow> length (wf_data f) \<noteq> 1 \<and> utf8_valid (drop 2 (wf_data f)))"

lemma length_unmask [simp]: "length (unmask key data) = length data"
  by (simp add: unmask_def)

lemma nth_unmask: "i < length data \<Longrightarrow> unmask key data ! i = data ! i XOR key ! (i mod 4)"
  by (simp add: unmask_def nth_enumerate_eq)

lemma unmask_unmask [simp]: "unmask key (unmask key data) = data"
  by (rule nth_equalityI) (simp_all add: nth_unmask xor.assoc)

lemma length_be_bytes [simp]: "length (be_bytes k n) = k"
  by (induction k arbitrary: n) simp_all

lemma be_nat_snoc: "be_nat (bs @ [b]) = 256 * be_nat bs + unat b"
  by (simp add: be_nat_def)

lemma unat_of_byte: "n < 256 \<Longrightarrow> unat (of_nat n :: 8 word) = n"
  by (simp add: unat_of_nat take_bit_eq_mod)

lemma be_nat_bytes: "n < 256 ^ k \<Longrightarrow> be_nat (be_bytes k n) = n"
proof (induction k arbitrary: n)
  case (Suc k)
  then have "n div 256 < 256 ^ k" by (simp add: less_mult_imp_div_less mult.commute)
  with Suc.IH show ?case by (simp add: be_nat_snoc unat_of_byte)
qed (simp add: be_nat_def)

lemma be_bytes_nat: "be_bytes (length bs) (be_nat bs) = bs"
proof (induction bs rule: rev_induct)
  case (snoc b bs)
  have b: "unat b < 256" using unsigned_less[of b] by simp
  then have "(256 * be_nat bs + unat b) div 256 = be_nat bs" "(256 * be_nat bs + unat b) mod 256 = unat b"
    by simp_all
  then show ?case using snoc by (simp add: be_nat_snoc)
qed simp

lemma be_nat_less: "be_nat bs < 256 ^ length bs"
proof (induction bs rule: rev_induct)
  case (snoc b bs)
  have "unat b < 256" using unsigned_less[of b] by simp
  with snoc show ?case by (simp add: be_nat_snoc)
qed (simp add: be_nat_def)

text \<open>The first byte of a frame, and the second, bit by bit.\<close>

lemma byte_eq_iff: "(a :: 8 word) = b \<longleftrightarrow>
    bit a 0 = bit b 0 \<and> bit a 1 = bit b 1 \<and> bit a 2 = bit b 2 \<and> bit a 3 = bit b 3 \<and>
    bit a 4 = bit b 4 \<and> bit a 5 = bit b 5 \<and> bit a 6 = bit b 6 \<and> bit a 7 = bit b 7"
proof -
  have "(\<forall>n < 8. P n) \<longleftrightarrow> P 0 \<and> P 1 \<and> P 2 \<and> P 3 \<and> P 4 \<and> P 5 \<and> P 6 \<and> P (7::nat)" for P
    by (simp add: numeral_eq_Suc All_less_Suc conj_ac)
  moreover have "a = b \<longleftrightarrow> (\<forall>n < 8. bit a n = bit b n)" by (auto intro: bit_word_eqI)
  ultimately show ?thesis by simp
qed

lemma first_byte:
  "(b AND 0x80 \<noteq> 0 \<and> b AND 0x70 = 0 \<and> b AND 0x0f = op) \<longleftrightarrow> op AND 0x0f = op \<and> b = 0x80 OR (op :: 8 word)"
  unfolding byte_eq_iff by (simp add: bit_simps) blast

lemma low_bits: "unat ((b :: 8 word) AND 0x7f) = unat b mod 128"
proof -
  have "b AND 0x7f = take_bit 7 b" by (simp add: take_bit_eq_mask mask_eq_exp_minus_1)
  then show ?thesis by (simp add: take_bit_eq_mod unat_mod)
qed

lemma second_byte:
  assumes "(b :: 8 word) AND 0x80 \<noteq> 0"
  shows "b = 0x80 OR of_nat (unat (b AND 0x7f)) \<and> unat (b AND 0x7f) < 128"
proof -
  have "b = 0x80 OR (b AND 0x7f)" using assms unfolding byte_eq_iff by (simp add: bit_simps)
  moreover have "unat (b AND 0x7f) < 128" by (simp add: low_bits)
  ultimately show ?thesis by simp
qed

lemma length_byte:
  assumes "n < 128"
  shows "(0x80 OR of_nat n :: 8 word) AND 0x80 \<noteq> 0 \<and> unat ((0x80 OR of_nat n :: 8 word) AND 0x7f) = n"
proof -
  have "(0x80 OR b) AND 0x80 \<noteq> 0 \<and> (0x80 OR b) AND 0x7f = b AND 0x7f" for b :: "8 word"
    unfolding byte_eq_iff by (simp add: bit_simps)
  then show ?thesis using assms by (simp add: low_bits unat_of_byte)
qed

lemma read_full_Some: "read_full n s = Some (a, r) \<longleftrightarrow> length a = n \<and> s = a @ r"
  by (auto simp: read_full_def)

lemma read_length_client:
  assumes "n < 2 ^ 63"
  shows "\<exists>b r. client_length n = b # r \<and> b AND 0x80 \<noteq> 0 \<and> read_length (unat (b AND 0x7f)) (r @ s) = Inr (n, s)"
proof -
  consider "n < 126" | "126 \<le> n" "n < 65536" | "65536 \<le> n" by linarith
  then show ?thesis
  proof cases
    case 1
    then show ?thesis using length_byte[of n] by (simp add: client_length_def read_length_def)
  next
    case 2
    have "read_full 2 (be_bytes 2 n @ s) = Some (be_bytes 2 n, s)" by (simp add: read_full_Some)
    then show ?thesis using 2 be_nat_bytes[of n 2] by (simp add: client_length_def read_length_def del: be_bytes.simps)
  next
    case 3
    have "read_full 8 (be_bytes 8 n @ s) = Some (be_bytes 8 n, s)" by (simp add: read_full_Some)
    moreover have "n < 256 ^ 8" "n div 2 ^ 63 = 0" using assms by simp_all
    ultimately show ?thesis using 3 be_nat_bytes[of n 8] by (simp add: client_length_def read_length_def del: be_bytes.simps)
  qed
qed

lemma read_length_Inr:
  assumes "b AND 0x80 \<noteq> 0" "read_length (unat (b AND 0x7f)) s = Inr (n, r)"
  shows "b # s = client_length n @ r \<and> n < 2 ^ 63"
proof -
  let ?len = "unat (b AND 0x7f)"
  note b = second_byte[OF assms(1)]
  consider "?len < 126" | "?len = 126" | "?len = 127" using b by linarith
  then show ?thesis
  proof cases
    case 1
    then show ?thesis using assms(2) b by (simp add: read_length_def client_length_def)
  next
    case 2
    then obtain x where x: "length x = 2" "s = x @ r" "n = be_nat x" "126 \<le> n"
      using assms(2) by (auto simp: read_length_def read_full_Some split: option.splits prod.splits if_splits)
    moreover have "b = 0xFE" using b 2 by simp
    moreover have "be_bytes 2 n = x" "n < 65536" using be_bytes_nat[of x] be_nat_less[of x] x by simp_all
    ultimately show ?thesis by (simp add: client_length_def del: be_bytes.simps)
  next
    case 3
    then obtain x where x: "length x = 8" "s = x @ r" "n = be_nat x" "65536 \<le> n" "n div 2 ^ 63 = 0"
      using assms(2) by (auto simp: read_length_def read_full_Some split: option.splits prod.splits if_splits)
    moreover have "b = 0xFF" using b 3 by simp
    moreover have "be_bytes 8 n = x" using be_bytes_nat[of x] x by simp
    moreover have "n < 2 ^ 63" using x(5) by (simp add: div_eq_0_iff)
    ultimately show ?thesis by (simp add: client_length_def del: be_bytes.simps)
  qed
qed

text \<open>\<open>readFrame\<close> accepts exactly the frames that a client may send.\<close>

lemma payload_ok:
  "op \<in> {1, 8, 9, 10} \<Longrightarrow>
     length data \<le> maxWSMessage \<and> \<not> (op \<ge> 8 \<and> length data > 125) \<and>
     \<not> (op = 1 \<and> \<not> utf8_valid data \<or> op = 8 \<and> (length data = 1 \<or> length data \<ge> 2 \<and> \<not> utf8_valid (drop 2 data)))
     \<longleftrightarrow> client_frame_ok \<lparr>wf_opcode = op, wf_data = data\<rparr>"
proof -
  assume op: "op \<in> {1, 8, 9, 10}"
  have "utf8_valid (drop 2 data)" if "length data < 2" using that by simp
  then show ?thesis using op by (auto simp: client_frame_ok_def not_le)
qed


lemma readFrame_iff:
  "readFrame s = Inr (f, rest) \<longleftrightarrow>
     (\<exists>key. length key = 4 \<and> client_frame_ok f \<and> s = client_frame key f @ rest)"
proof
  assume r: "readFrame s = Inr (f, rest)"
  obtain h s1 where h: "length h = 2" "s = h @ s1" "read_full 2 s = Some (h, s1)"
    using r by (auto simp: readFrame_def read_full_Some split: option.splits)
  obtain h0 h1 where h01: "h = [h0, h1]" using h(1) by (auto simp: length_Suc_conv numeral_2_eq_2)
  let ?op = "h0 AND 0x0f"
  note r1 = r[unfolded readFrame_def h(3) option.case prod.case h01, simplified]
  have fin: "h0 AND 0x80 \<noteq> 0" "h0 AND 0x70 = 0" "h1 AND 0x80 \<noteq> 0" and op: "?op \<in> {1, 8, 9, 10}"
    using r1 by (auto simp: Let_def split: if_splits)
  obtain len s2 where len: "read_length (unat (h1 AND 0x7f)) s1 = Inr (len, s2)"
    using r1 fin op by (auto simp: Let_def split: sum.splits)
  obtain key s3 where key: "read_full 4 s2 = Some (key, s3)"
    using r1 fin op len by (auto simp: Let_def split: option.splits if_splits)
  obtain masked s4 where masked: "read_full len s3 = Some (masked, s4)"
    using r1 fin op len key by (auto simp: Let_def split: option.splits if_splits)
  let ?data = "unmask key masked"
  have ml: "length masked = len" using masked by (simp add: read_full_Some)
  have f: "f = \<lparr>wf_opcode = ?op, wf_data = ?data\<rparr>" "rest = s4" and
    ok: "\<not> len > maxWSMessage" "\<not> (?op \<ge> 8 \<and> len > 125)"
      "\<not> (?op = 1 \<and> \<not> utf8_valid ?data \<or> ?op = 8 \<and> (length ?data = 1 \<or> length ?data \<ge> 2 \<and> \<not> utf8_valid (drop 2 ?data)))"
    using r1 fin op len key masked by (simp_all add: Let_def split: if_splits)
  have "client_frame_ok f" unfolding f(1) using payload_ok[OF op, of ?data] ok ml by simp
  moreover have "h0 = 0x80 OR ?op" using first_byte[of h0 ?op] fin by blast
  moreover have "h1 # s1 = client_length len @ s2" using read_length_Inr[OF fin(3) len] by blast
  ultimately show "\<exists>key. length key = 4 \<and> client_frame_ok f \<and> s = client_frame key f @ rest"
    using key masked h(2) h01 ml
    by (intro exI[of _ key]) (simp add: f client_frame_def read_full_Some)
next
  assume "\<exists>key. length key = 4 \<and> client_frame_ok f \<and> s = client_frame key f @ rest"
  then obtain key where k: "length key = 4" "client_frame_ok f" "s = client_frame key f @ rest" by blast
  let ?op = "wf_opcode f" and ?len = "length (wf_data f)"
  have op: "?op \<in> {1, 8, 9, 10}" using k(2) by (simp add: client_frame_ok_def)
  then have "?op AND 0x0f = ?op" by auto
  then have b0: "(0x80 OR ?op) AND 0x80 \<noteq> 0" "(0x80 OR ?op) AND 0x70 = 0" "(0x80 OR ?op) AND 0x0f = ?op"
    using first_byte[of "0x80 OR ?op" ?op] by simp_all
  have le: "?len \<le> maxWSMessage" using k(2) by (simp add: client_frame_ok_def)
  then have "?len < 2 ^ 63" by (simp add: maxWSMessage_def)
  from read_length_client[OF this, of "key @ unmask key (wf_data f) @ rest"] obtain b r where
    b: "client_length ?len = b # r" "b AND 0x80 \<noteq> 0"
    "read_length (unat (b AND 0x7f)) (r @ key @ unmask key (wf_data f) @ rest) = Inr (?len,
      key @ unmask key (wf_data f) @ rest)"
    by blast
  have full: "read_full 2 s = Some ([0x80 OR ?op, b], r @ key @ unmask key (wf_data f) @ rest)"
    "read_full 4 (key @ unmask key (wf_data f) @ rest) = Some (key, unmask key (wf_data f) @ rest)"
    "read_full ?len (unmask key (wf_data f) @ rest) = Some (unmask key (wf_data f), rest)"
    using k b(1) by (simp_all add: read_full_Some client_frame_def)
  have "client_frame_ok \<lparr>wf_opcode = ?op, wf_data = wf_data f\<rparr>" using k(2) by (simp add: client_frame_ok_def)
  note p = this[folded payload_ok[OF op]]
  have f: "f = \<lparr>wf_opcode = ?op, wf_data = wf_data f\<rparr>" by simp
  show "readFrame s = Inr (f, rest)"
    unfolding readFrame_def full option.case prod.case Let_def nth_Cons_0 nth_Cons_numeral
    using op b0 b(2,3) full(2,3) p f by (simp add: not_less)
qed

section \<open>Frames of the server\<close>

text \<open>How a client reads a frame of the server: no mask, the length in one of its three forms.\<close>

definition server_frame :: "bytes \<Rightarrow> (ws_frame \<times> bytes) option" where
  "server_frame s =
     do {
       (header, s) \<leftarrow> read_full 2 s;
       let b = unat (header ! 1);
       (len, s) \<leftarrow>
         (if b = 126 then map_option (\<lambda>(x, s). (be_nat x, s)) (read_full 2 s)
          else if b = 127 then map_option (\<lambda>(x, s). (be_nat x, s)) (read_full 8 s)
          else Some (b, s));
       (data, s) \<leftarrow> read_full len s;
       if (header ! 0) AND 0x80 = 0 \<or> (header ! 0) AND 0x70 \<noteq> 0 then None
       else Some (\<lparr>wf_opcode = (header ! 0) AND 0x0f, wf_data = data\<rparr>, s)
     }"

lemma be_nat_PutUint16: "be_nat (PutUint16 w) = unat w"
proof -
  have "unat (ucast (drop_bit 8 w) :: 8 word) = unat w div 256"
  proof -
    have "unat w < 65536" using unsigned_less[of w] by simp
    then show ?thesis
      by (simp add: unsigned_ucast_eq drop_bit_eq_div unat_div take_bit_eq_mod less_mult_imp_div_less)
  qed
  moreover have "unat (ucast w :: 8 word) = unat w mod 256"
    by (simp add: unsigned_ucast_eq take_bit_eq_mod)
  ultimately show ?thesis by (simp add: be_nat_def PutUint16_def)
qed

lemma written_frame_read:
  assumes w: "writeFrame f = Inr out" and op: "wf_opcode f AND 0x0f = wf_opcode f"
  shows "server_frame (out @ rest) =
    (if length (wf_data f) = maxWSMessage then Some (f\<lparr>wf_data := []\<rparr>, wf_data f @ rest)
     else Some (f, rest))"
proof -
  let ?len = "length (wf_data f)" and ?op = "wf_opcode f"
  have le: "?len \<le> 65536" using w by (auto simp: writeFrame_def maxWSMessage_def split: if_splits)
  have b0: "(0x80 OR ?op) AND 0x80 \<noteq> 0" "(0x80 OR ?op) AND 0x70 = 0" "(0x80 OR ?op) AND 0x0f = ?op"
    using first_byte[of "0x80 OR ?op" ?op] op by simp_all
  show ?thesis
  proof (cases "?len < 126")
    case True
    then have "out = [0x80 OR ?op,
      of_nat ?len] @ wf_data f" using w by (simp add: writeFrame_def maxWSMessage_def)
    moreover have "unat (of_nat ?len :: 8 word) = ?len" using True by (simp add: unat_of_byte)
    ultimately show ?thesis
      using True b0 by (simp add: server_frame_def read_full_def maxWSMessage_def Let_def)
  next
    case False
    then have out: "out = (0x80 OR ?op) # 126 # PutUint16 (of_nat ?len) @ wf_data f"
      using w le by (simp add: writeFrame_def maxWSMessage_def)
    have "read_full 2 (PutUint16 (of_nat ?len) @ wf_data f @ rest) = Some (PutUint16 (of_nat ?len), wf_data f @ rest)"
      by (simp add: read_full_Some)
    moreover have "unat (of_nat ?len :: 16 word) = (if ?len = 65536 then 0 else ?len)"
      using le by (simp add: unat_of_nat take_bit_eq_mod)
    ultimately show ?thesis
      using b0 by (simp add: out server_frame_def be_nat_PutUint16 Let_def maxWSMessage_def read_full_def)
  qed
qed

end
