(* ===== verification/PeerLemmas.thy ===== *)
theory PeerLemmas
  imports "HOL-Library.Sublist" Peer TransportLemmas
begin

text \<open>
  What the queue of a connection promises, for every interleaving: frames go out whole and in the
  order in which they were put in, the queue stays within its bound, an acknowledged flush has been
  written, and the writer always gets there.
\<close>

section \<open>The invariant\<close>

definition writable :: "ws_frame \<Rightarrow> bool" where
  "writable f \<longleftrightarrow> length (wf_data f) \<le> maxWSMessage"

definition frame_bytes :: "ws_frame \<Rightarrow> bytes" where
  "frame_bytes f = (case writeFrame f of Inl _ \<Rightarrow> [] | Inr out \<Rightarrow> out)"

lemma writeFrame_cases: "writeFrame f = (if writable f then Inr (frame_bytes f) else Inl WSMessageTooLarge)"
  by (simp add: writeFrame_def writable_def frame_bytes_def Let_def)

definition in_flight :: "peer \<Rightarrow> queued list" where
  "in_flight p = (case pr_loop p of Writing q \<Rightarrow> [q] | _ \<Rightarrow> [])"

text \<open>
  \<open>ws\<close> was written whole; after a failed write \<open>lost\<close> is its frame, of which only a part went out.
\<close>

definition delivered :: "peer \<Rightarrow> queued list \<Rightarrow> queued list \<Rightarrow> bool" where
  "delivered p ws lost \<longleftrightarrow>
     list_all (\<lambda>q. writable (qf_frame q)) ws \<and>
     (if lost = [] then pr_wire p = concat (map (frame_bytes \<circ> qf_frame) ws)
      else pr_loop p \<in> {Closing, Returned} \<and> length lost = 1 \<and>
        (\<exists>k. pr_wire p = concat (map (frame_bytes \<circ> qf_frame) ws) @ take k (frame_bytes (qf_frame (hd lost))) \<and>
          (k = 0 \<or> k < length (frame_bytes (qf_frame (hd lost))))))"

definition peer_inv :: "peer \<Rightarrow> queued list \<Rightarrow> queued list \<Rightarrow> queued list \<Rightarrow> bool" where
  "peer_inv p qs ws lost \<longleftrightarrow>
     qs = ws @ lost @ in_flight p @ pr_outgoing p \<and> delivered p ws lost \<and>
     length (pr_outgoing p) \<le> outgoingBuffer \<and>
     (pr_loop p = Returned \<longrightarrow> pr_done p) \<and> (\<not> pr_conn p \<longrightarrow> pr_done p) \<and>
     List.map_filter qf_ack qs = [0..<pr_acks p] \<and>
     set (pr_acked p) = set (List.map_filter qf_ack (ws @ lost))"

lemma map_filter_append: "List.map_filter f (xs @ ys) = List.map_filter f xs @ List.map_filter f ys"
  by (simp add: List.map_filter_def)

lemma map_filter_single [simp]: "List.map_filter f [x] = (case f x of None \<Rightarrow> [] | Some y \<Rightarrow> [y])"
  by (simp add: List.map_filter_def split: option.split)

lemma map_filter_nil [simp]: "List.map_filter f [] = []"
  by (simp add: List.map_filter_def)

lemma close_ack_fields [simp]:
  "pr_outgoing (close_ack q p) = pr_outgoing p" "pr_done (close_ack q p) = pr_done p"
  "pr_conn (close_ack q p) = pr_conn p" "pr_acks (close_ack q p) = pr_acks p"
  "pr_wire (close_ack q p) = pr_wire p"
  "set (pr_acked (close_ack q p)) = set (pr_acked p) \<union> set (List.map_filter qf_ack [q])"
  by (auto simp: close_ack_def split: option.split)

lemma put_inv:
  assumes "peer_inv p qs ws lost" "length (pr_outgoing p) < outgoingBuffer"
  shows "peer_inv (p\<lparr>pr_outgoing := pr_outgoing p @ [\<lparr>qf_frame = f, qf_ack = None\<rparr>]\<rparr>)
      (qs @ [\<lparr>qf_frame = f, qf_ack = None\<rparr>]) ws lost"
    "peer_inv (p\<lparr>pr_outgoing := pr_outgoing p @ [\<lparr>qf_frame = f, qf_ack = Some (pr_acks p)\<rparr>], pr_acks := pr_acks p + 1\<rparr>)
      (qs @ [\<lparr>qf_frame = f, qf_ack = Some (pr_acks p)\<rparr>]) ws lost"
  using assms by (auto simp: peer_inv_def delivered_def in_flight_def map_filter_append)

lemma still_inv:
  "peer_inv p qs ws lost \<Longrightarrow> peer_inv (touch now p) qs ws lost"
  "peer_inv p qs ws lost \<Longrightarrow> peer_inv (close_done p) qs ws lost"
  "peer_inv p qs ws lost \<Longrightarrow> pr_done p \<Longrightarrow> peer_inv (close_conn p) qs ws lost"
  by (auto simp: peer_inv_def delivered_def in_flight_def touch_def close_done_def close_conn_def)

lemma write_inv:
  assumes inv: "peer_inv p qs ws lost" and w: "p' \<in> set (writeLoop_step p)"
  shows "\<exists>ws' lost'. peer_inv p' qs ws' lost'"
proof (cases "pr_loop p")
  case Selecting
  then have l: "lost = []" using inv by (auto simp: peer_inv_def delivered_def split: if_splits)
  consider (returned) "pr_done p" "p' = p\<lparr>pr_loop := Returned\<rparr>"
    | (taken) q rest where "pr_outgoing p = q # rest" "p' = p\<lparr>pr_outgoing := rest, pr_loop := Writing q\<rparr>"
    using w by (cases "pr_outgoing p") (auto simp: writeLoop_step_def Selecting split: if_splits)
  then have "peer_inv p' qs ws []"
  proof cases
    case returned
    then show ?thesis using inv Selecting unfolding l by (auto simp: peer_inv_def delivered_def in_flight_def)
  next
    case taken
    then show ?thesis using inv Selecting unfolding l by (auto simp: peer_inv_def delivered_def in_flight_def)
  qed
  then show ?thesis by blast
next
  case (Writing q)
  then have l: "lost = []" using inv by (auto simp: peer_inv_def delivered_def split: if_splits)
  have r: "p' \<in> set (write_results q p)" using w Writing by (simp add: writeLoop_step_def)
  let ?f = "qf_frame q"
  consider (sent) "writable ?f" "p' = (close_ack q p)\<lparr>pr_loop := Selecting, pr_wire := pr_wire p @ frame_bytes ?f\<rparr>"
    | (failed) k where "k = 0 \<or> k < length (frame_bytes ?f)"
        "p' = (close_ack q p)\<lparr>pr_loop := Closing, pr_wire := pr_wire p @ take k (frame_bytes ?f)\<rparr>"
  proof (cases "writable ?f \<and> pr_conn p")
    case True
    then have "p' = (close_ack q p)\<lparr>pr_loop := Selecting, pr_wire := pr_wire p @ frame_bytes ?f\<rparr> \<or>
        (\<exists>k < length (frame_bytes ?f). p' = (close_ack q p)\<lparr>pr_loop := Closing, pr_wire := pr_wire p @ take k (frame_bytes ?f)\<rparr>)"
      using r by (auto simp: write_results_def writeFrame_cases)
    then show ?thesis using that True by blast
  next
    case False
    have "(close_ack q p)\<lparr>pr_loop := Closing, pr_wire := pr_wire p @ take 0 (frame_bytes ?f)\<rparr> = (close_ack q p)\<lparr>pr_loop := Closing\<rparr>"
      by (rule peer.equality) simp_all
    then have "p' = (close_ack q p)\<lparr>pr_loop := Closing, pr_wire := pr_wire p @ take 0 (frame_bytes ?f)\<rparr>"
      using r False by (simp add: write_results_def writeFrame_cases split: if_splits)
    then show ?thesis using that(2) by blast
  qed
  then show ?thesis
  proof cases
    case sent
    then have "peer_inv p' qs (ws @ [q]) []"
      using inv Writing unfolding l by (auto simp: peer_inv_def delivered_def in_flight_def map_filter_append)
    then show ?thesis by blast
  next
    case failed
    then have "peer_inv p' qs ws [q]"
      using inv Writing unfolding l by (auto simp: peer_inv_def delivered_def in_flight_def map_filter_append)
    then show ?thesis by blast
  qed
next
  case Closing
  then have "peer_inv p' qs ws lost"
    using inv w by (auto simp: writeLoop_step_def close_conn_def close_done_def peer_inv_def delivered_def in_flight_def)
  then show ?thesis by blast
qed (use w in \<open>simp add: writeLoop_step_def\<close>)

lemma peer_run_inv: "peer_run p qs \<Longrightarrow> \<exists>ws lost. peer_inv p qs ws lost"
proof (induction rule: peer_run.induct)
  case (start now)
  have "peer_inv (newWSPeer now) [] [] []"
    by (simp add: peer_inv_def delivered_def newWSPeer_def in_flight_def)
  then show ?case by blast
next
  case (sends p qs p' f)
  then obtain ws lost where i: "peer_inv p qs ws lost" by blast
  have p': "length (pr_outgoing p) < outgoingBuffer"
    "p' = p\<lparr>pr_outgoing := pr_outgoing p @ [\<lparr>qf_frame = f, qf_ack = None\<rparr>]\<rparr>"
    using sends(2) by (auto simp: peer_send_def split: if_splits)
  show ?case unfolding p'(2) by (intro exI) (rule put_inv(1)[OF i p'(1)])
next
  case (flushes p qs p' ack f)
  then obtain ws lost where i: "peer_inv p qs ws lost" by blast
  have p': "length (pr_outgoing p) < outgoingBuffer" "ack = pr_acks p"
    "p' = p\<lparr>pr_outgoing := pr_outgoing p @ [\<lparr>qf_frame = f, qf_ack = Some (pr_acks p)\<rparr>], pr_acks := pr_acks p + 1\<rparr>"
    using flushes(2) by (auto simp: flush_put_def split: if_splits)
  show ?case unfolding p'(2,3) by (intro exI) (rule put_inv(2)[OF i p'(1)])
next
  case (writes p qs p')
  then obtain ws lost where "peer_inv p qs ws lost" by blast
  then show ?case using writes(2) by (rule write_inv)
next
  case (touches p qs now)
  then show ?case using still_inv(1) by (elim exE) (intro exI)
next
  case (closes p qs)
  then show ?case using still_inv(2) by (elim exE) (intro exI)
next
  case (disconnects p qs)
  then show ?case using still_inv(3)[OF _ disconnects(2)] by (elim exE) (intro exI)
qed

section \<open>What the client reads\<close>

text \<open>A client that reads frame by frame gets \<open>fs\<close> and has \<open>rest\<close> left.\<close>

fun reads_as :: "bytes \<Rightarrow> ws_frame list \<Rightarrow> bytes \<Rightarrow> bool" where
  "reads_as s [] rest \<longleftrightarrow> s = rest"
| "reads_as s (f # fs) rest \<longleftrightarrow> (case server_frame s of None \<Rightarrow> False | Some (g, s') \<Rightarrow> g = f \<and> reads_as s' fs rest)"

definition fine :: "ws_frame \<Rightarrow> bool" where
  "fine f \<longleftrightarrow> wf_opcode f AND 0x0f = wf_opcode f \<and> length (wf_data f) < maxWSMessage"

lemma reads_written:
  "list_all fine fs \<Longrightarrow> reads_as (concat (map frame_bytes fs) @ rest) fs rest"
proof (induction fs)
  case (Cons f fs)
  have "writable f" using Cons.prems by (simp add: fine_def writable_def)
  then have "writeFrame f = Inr (frame_bytes f)" by (simp add: writeFrame_cases)
  from written_frame_read[OF this, of "concat (map frame_bytes fs) @ rest"] show ?case
    using Cons by (simp add: fine_def)
qed simp

lemma delivered_order:
  assumes "peer_run p qs"
  shows "length (pr_outgoing p) \<le> outgoingBuffer \<and>
    (\<exists>ws rest. prefix ws qs \<and> pr_wire p = concat (map (frame_bytes \<circ> qf_frame) ws) @ rest \<and>
      (rest = [] \<and> length qs \<le> length ws + outgoingBuffer + 1 \<or> pr_loop p \<in> {Closing, Returned}))"
proof -
  obtain ws lost where i: "peer_inv p qs ws lost" using peer_run_inv[OF assms] by blast
  have "length (in_flight p) \<le> 1" by (simp add: in_flight_def split: write_loop.split)
  then show ?thesis
    using i by (cases "lost = []") (auto simp: peer_inv_def delivered_def intro!: exI[of _ ws])
qed

section \<open>Flushing\<close>

lemma acked_position:
  assumes i: "peer_inv p qs ws lost" and q: "q \<in> set qs" "qf_ack q = Some n"
  shows "n \<in> set (pr_acked p) \<longleftrightarrow> q \<in> set (ws @ lost)"
proof -
  let ?waiting = "in_flight p @ pr_outgoing p"
  have mf: "n \<in> set (List.map_filter qf_ack xs)" if "q \<in> set xs" for xs
    using that q(2) by (force simp: List.map_filter_def)
  have "List.map_filter qf_ack qs = [0..<pr_acks p]" "qs = (ws @ lost) @ ?waiting"
    using i by (auto simp: peer_inv_def)
  then have "distinct (List.map_filter qf_ack ((ws @ lost) @ ?waiting))" by (metis distinct_upt)
  then have d: "set (List.map_filter qf_ack (ws @ lost)) \<inter> set (List.map_filter qf_ack ?waiting) = {}"
    unfolding map_filter_append by auto
  have "q \<in> set (ws @ lost) \<or> q \<in> set ?waiting" using i q(1) by (auto simp: peer_inv_def)
  moreover have "set (pr_acked p) = set (List.map_filter qf_ack (ws @ lost))" using i by (simp add: peer_inv_def)
  ultimately show ?thesis using d mf by blast
qed

lemma flush_written:
  assumes r: "peer_run p qs" and q: "q \<in> set qs" "qf_ack q = Some n" and fl: "flush_returns n p"
  shows "pr_done p \<or> pr_loop p = Closing \<or>
    (\<exists>ws more. qs = ws @ more \<and> q \<in> set ws \<and> pr_wire p = concat (map (frame_bytes \<circ> qf_frame) ws))"
proof (cases "pr_done p \<or> pr_loop p = Closing")
  case False
  obtain ws lost where i: "peer_inv p qs ws lost" using peer_run_inv[OF r] by blast
  have l: "lost = []" using i False by (auto simp: peer_inv_def delivered_def split: if_splits)
  then show ?thesis
    using acked_position[OF i q] fl False i
    by (intro disjI2 exI[of _ ws] exI[of _ "in_flight p @ pr_outgoing p"])
      (auto simp: flush_returns_def peer_inv_def delivered_def)
qed auto

section \<open>The writer gets there\<close>

definition work :: "peer \<Rightarrow> nat" where
  "work p = 3 * length (pr_outgoing p) +
     (case pr_loop p of Selecting \<Rightarrow> 1 | Writing _ \<Rightarrow> 3 | Closing \<Rightarrow> 2 | Returned \<Rightarrow> 0)"

lemma writer_work: "p' \<in> set (writeLoop_step p) \<Longrightarrow> work p' < work p"
  by (cases "pr_loop p"; cases "pr_outgoing p")
    (auto simp: writeLoop_step_def work_def write_results_def close_conn_def close_done_def split: sum.splits if_splits)

text \<open>The states that \<open>writeLoop\<close> goes through on its own.\<close>

fun writer_path :: "peer \<Rightarrow> peer list \<Rightarrow> bool" where
  "writer_path p [] \<longleftrightarrow> True"
| "writer_path p (p' # ps) \<longleftrightarrow> p' \<in> set (writeLoop_step p) \<and> writer_path p' ps"

lemma writer_path_run:
  "writer_path p ps \<Longrightarrow> peer_run p qs \<Longrightarrow> peer_run (last (p # ps)) qs \<and> length ps \<le> work p"
proof (induction ps arbitrary: p)
  case (Cons p' ps)
  then have s: "p' \<in> set (writeLoop_step p)" "writer_path p' ps" by simp_all
  show ?case using Cons.IH[OF s(2) peer_run.writes[OF Cons.prems(2) s(1)]] writer_work[OF s(1)] by simp
qed simp

lemma writer_blocked:
  assumes r: "peer_run p qs" and b: "writeLoop_step p = []" and q: "q \<in> set qs" "qf_ack q = Some n"
  shows "flush_returns n p \<and> peer_send f p \<noteq> []"
proof -
  obtain ws lost where i: "peer_inv p qs ws lost" using peer_run_inv[OF r] by blast
  show ?thesis
  proof (cases "pr_done p")
    case True
    then show ?thesis by (simp add: flush_returns_def peer_send_def)
  next
    case False
    then have s: "pr_loop p = Selecting" "pr_outgoing p = []"
      using b i
      by (auto simp: writeLoop_step_def peer_inv_def write_results_def split: write_loop.splits list.splits sum.splits if_splits)
    then have "q \<in> set (ws @ lost)" using i q(1) by (auto simp: peer_inv_def in_flight_def)
    then show ?thesis
      using acked_position[OF i q] s by (simp add: flush_returns_def peer_send_def outgoingBuffer_def)
  qed
qed

text \<open>A frame that is too long ends the connection, and nothing of it goes out.\<close>

lemma oversized_closes:
  assumes "pr_loop p = Writing q" "\<not> writable (qf_frame q)"
    "p1 \<in> set (writeLoop_step p)" "p2 \<in> set (writeLoop_step p1)"
  shows "pr_done p2 \<and> \<not> pr_conn p2 \<and> pr_wire p2 = pr_wire p"
  using assms by (auto simp: writeLoop_step_def write_results_def writeFrame_cases close_done_def close_conn_def)

end
