(* ===== verification/Calls.thy ===== *)
theory Calls
  imports ManagerLemmas
begin

text \<open>
  Calls of the manager that run at the same time: \<open>server/internal/match/manager.go\<close> as its clients
  use it (\<open>handleMatch\<close> of \<open>server/main.go\<close>, one goroutine per connection, and the shutdown).

  A call of the manager is not one atomic step. It takes \<open>m.mu\<close> for a while, gives it back, works
  on a room under the room's own mutex, and takes \<open>m.mu\<close> again; between these critical sections
  other goroutines run. \<open>call\<close> says where a goroutine stands, \<open>call_step\<close> is its next critical
  section on the shared manager, and a schedule is a list of actions that begin calls and advance
  them in any order. \<open>joinMu\<close> is the only lock that is held from one section to the next, so it is
  part of the state. A section under \<open>m.mu\<close> reads one room at most once, and a room's sections never
  take \<open>m.mu\<close>: a section is therefore one step also where it takes a room's mutex inside.
\<close>

section \<open>Where a call stands (manager.go)\<close>

datatype call =
    Outside \<comment> \<open>no connection to a room\<close>
  | JoinLock string \<comment> \<open>\<open>Join\<close>: before \<open>joinMu.Lock\<close>\<close>
  | JoinChoose string \<comment> \<open>before \<open>roomForJoin\<close>\<close>
  | JoinSeat string nat \<comment> \<open>before \<open>room.join\<close>\<close>
  | JoinRelease string nat join_error \<comment> \<open>before \<open>releaseOnJoinFailure\<close>\<close>
  | JoinRegister string nat membership \<comment> \<open>before the last section under \<open>m.mu\<close>\<close>
  | JoinUnlock string "join_error + membership" \<comment> \<open>before \<open>joinMu.Unlock\<close>\<close>
  | Inside string string \<comment> \<open>a connection of a player in a room, between its calls\<close>
  | SubmitLookup string string string command \<comment> \<open>\<open>Submit\<close>: before the section under \<open>m.mu\<close>\<close>
  | SubmitRoom string string nat command \<comment> \<open>before \<open>room.submit\<close>\<close>
  | SubmitReturn string string "rt_error + response option"
  | LeaveLookup string string \<comment> \<open>\<open>Leave\<close>: before its first section\<close>
  | LeaveRoom string string nat \<comment> \<open>before \<open>room.leave\<close>\<close>
  | LeaveCleanup string string nat \<comment> \<open>before the section that drops the room\<close>
  | CloseReset string \<comment> \<open>\<open>Close\<close>: before the section under \<open>m.mu\<close>\<close>
  | CloseRooms string "nat list" \<comment> \<open>the rooms that are still to be closed\<close>

definition submit_lookup :: "manager \<Rightarrow> string \<Rightarrow> string \<Rightarrow> response + nat" where
  "submit_lookup m roomID playerID =
     (case (map_of (mg_players m) playerID, map_of (mg_rooms m) roomID) of
        (None, _) \<Rightarrow> Inl (room_rejected CodeInvalidRequest (''room'' @ utf8 [0x306B,
      0x53C2, 0x52A0, 0x3057, 0x3066, 0x3044, 0x307E, 0x305B, 0x3093]) None)
      | (Some joined, room) \<Rightarrow>
          if joined \<noteq> roomID then
            Inl (room_rejected CodeInvalidRequest (utf8 [0x53C2, 0x52A0, 0x3057, 0x3066,
      0x3044, 0x306A, 0x3044] @ ''room'' @ utf8 [0x3078, 0x306E] @ ''command'' @ utf8 [0x3067,
      0x3059]) None)
          else (case room of
                  None \<Rightarrow> Inl (room_rejected CodeInvalidRequest (''room'' @ utf8 [0x304C, 0x5B58, 0x5728, 0x3057, 0x307E, 0x305B, 0x3093]) None)
                | Some i \<Rightarrow> Inr i))"

text \<open>The sections that work on a room, each with what the call does with the result; \<open>None\<close> is a panic.\<close>

definition seat_section :: "runner \<Rightarrow> manager \<Rightarrow> string \<Rightarrow> nat \<Rightarrow> (manager \<times> call) option" where
  "seat_section runner m p i =
     (case room_join runner (obj m i) p of
        None \<Rightarrow> None
      | Some (r, Inl err) \<Rightarrow> Some (set_obj i r m, JoinRelease p i err)
      | Some (r, Inr (seat, events, reconnected)) \<Rightarrow>
          Some (set_obj i r m, JoinRegister p i
            \<lparr>ms_RoomID = rm_id r, ms_PlayerID = p, ms_Seat = seat, ms_Events = events,
             ms_Reconnected = reconnected\<rparr>))"

definition submit_section ::
  "runner \<Rightarrow> manager \<Rightarrow> string \<Rightarrow> string \<Rightarrow> nat \<Rightarrow> command \<Rightarrow> (manager \<times> call) option" where
  "submit_section runner m p own i c =
     (case room_submit runner (obj m i) p c of
        None \<Rightarrow> None
      | Some (r, result) \<Rightarrow> Some (set_obj i r m, SubmitReturn p own result))"

definition leave_section :: "manager \<Rightarrow> string \<Rightarrow> string \<Rightarrow> nat \<Rightarrow> (manager \<times> call) option" where
  "leave_section m p roomID i =
     (case room_leave (obj m i) p of
        None \<Rightarrow> None
      | Some (r, Inl err) \<Rightarrow> Some (set_obj i r m, Outside)
      | Some (r, Inr is_empty) \<Rightarrow>
          Some (set_obj i r m, if is_empty then LeaveCleanup p roomID i else Outside))"

fun close_section :: "string \<Rightarrow> manager \<Rightarrow> nat list \<Rightarrow> (manager \<times> call) option" where
  "close_section reason m [] = Some (m, Outside)"
| "close_section reason m (i # is) =
     (case room_close reason (obj m i) of
        None \<Rightarrow> None
      | Some r \<Rightarrow> Some (set_obj i r m, CloseRooms reason is))"

text \<open>The next section of a call, from where it stands.\<close>

fun call_step ::
  "runner \<Rightarrow> (string \<Rightarrow> 32 word) \<Rightarrow> manager \<Rightarrow> call \<Rightarrow> (manager \<times> call) option" where
  "call_step runner seedFor m (JoinChoose p) =
     (let (m1, i) = roomForJoin seedFor m p in Some (m1, JoinSeat p i))"
| "call_step runner seedFor m (JoinSeat p i) = seat_section runner m p i"
| "call_step runner seedFor m (JoinRelease p i err) = Some (releaseOnJoinFailure m i, JoinUnlock p (Inl err))"
| "call_step runner seedFor m (JoinRegister p i ms) = Some (join_record m i p, JoinUnlock p (Inr ms))"
| "call_step runner seedFor m (SubmitLookup p own roomID c) =
     (case submit_lookup m roomID p of
        Inl resp \<Rightarrow> Some (m, SubmitReturn p own (Inr (Some resp)))
      | Inr i \<Rightarrow> Some (m, SubmitRoom p own i c))"
| "call_step runner seedFor m (SubmitRoom p own i c) = submit_section runner m p own i c"
| "call_step runner seedFor m (SubmitReturn p own result) = Some (m, Inside p own)"
| "call_step runner seedFor m (LeaveLookup p own) =
     (case leave_lookup m p of
        None \<Rightarrow> Some (m, Outside)
      | Some (roomID, i) \<Rightarrow> Some (m, LeaveRoom p roomID i))"
| "call_step runner seedFor m (LeaveRoom p roomID i) = leave_section m p roomID i"
| "call_step runner seedFor m (LeaveCleanup p roomID i) = Some (leave_cleanup m roomID i p, Outside)"
| "call_step runner seedFor m (CloseReset reason) =
     (let (m1, rooms) = close_reset m in Some (m1, CloseRooms reason rooms))"
| "call_step runner seedFor m (CloseRooms reason is) = close_section reason m is"
| "call_step runner seedFor m c = Some (m, c)"

section \<open>The goroutines and their schedule\<close>

record server_calls =
  sc_manager :: manager
  sc_joinMu :: "nat option"
  sc_calls :: "call list"

definition calls_start :: "nat \<Rightarrow> server_calls" where
  "calls_start n = \<lparr>sc_manager = NewManager, sc_joinMu = None, sc_calls = replicate n Outside\<rparr>"

text \<open>
  What a goroutine may begin: a connection that is in no room joins (an empty player id is refused
  at once), one in a room submits under its own name or leaves; the shutdown closes. A call that is
  not possible at that point changes nothing.
\<close>

fun begin_call :: "manager_op \<Rightarrow> call \<Rightarrow> call" where
  "begin_call (CallJoin p) Outside = (if p = '''' then Outside else JoinLock p)"
| "begin_call (CallSubmit roomID q c) (Inside p own) =
     (if q = p then SubmitLookup p own roomID c else Inside p own)"
| "begin_call (CallLeave q) (Inside p own) = (if q = p then LeaveLookup p own else Inside p own)"
| "begin_call (CallClose reason) Outside = CloseReset reason"
| "begin_call op c = c"

datatype action =
    Begin nat manager_op
  | Advance nat "request \<Rightarrow> rt_error option"
  | Receive nat nat

text \<open>
  One action of a schedule. Advancing takes or gives back \<open>joinMu\<close> or runs the next section; a call
  that waits for the lock stays where it is.
\<close>

definition advance_call ::
  "runner \<Rightarrow> (string \<Rightarrow> 32 word) \<Rightarrow> server_calls \<Rightarrow> nat \<Rightarrow> server_calls option" where
  "advance_call runner seedFor w t =
     (case sc_calls w ! t of
        JoinLock p \<Rightarrow>
          Some (if sc_joinMu w = None
                then w\<lparr>sc_joinMu := Some t, sc_calls := (sc_calls w)[t := JoinChoose p]\<rparr> else w)
      | JoinUnlock p result \<Rightarrow>
          Some (w\<lparr>sc_joinMu := None, sc_calls := (sc_calls w)[t :=
            (case result of Inl err \<Rightarrow> Outside | Inr ms \<Rightarrow> Inside p (ms_RoomID ms))]\<rparr>)
      | c \<Rightarrow>
          (case call_step runner seedFor (sc_manager w) c of
             None \<Rightarrow> None
           | Some (m, c') \<Rightarrow> Some (w\<lparr>sc_manager := m, sc_calls := (sc_calls w)[t := c']\<rparr>)))"

fun calls_exec :: "(string \<Rightarrow> 32 word) \<Rightarrow> server_calls \<Rightarrow> action \<Rightarrow> server_calls option" where
  "calls_exec seedFor w (Begin t op) =
     Some (if t < length (sc_calls w)
           then w\<lparr>sc_calls := (sc_calls w)[t := begin_call op (sc_calls w ! t)]\<rparr> else w)"
| "calls_exec seedFor w (Advance t fails) =
     (if t < length (sc_calls w) then advance_call (engine_runner fails) seedFor w t else Some w)"
| "calls_exec seedFor w (Receive i k) =
     (if i < length (mg_objs (sc_manager w))
      then Some (w\<lparr>sc_manager := set_obj i ((obj (sc_manager w) i)
             \<lparr>rm_chans := chan_recv (rm_chans (obj (sc_manager w) i)) k\<rparr>) (sc_manager w)\<rparr>)
      else Some w)"

fun calls_run :: "(string \<Rightarrow> 32 word) \<Rightarrow> server_calls \<Rightarrow> action list \<Rightarrow> server_calls option" where
  "calls_run seedFor w [] = Some w"
| "calls_run seedFor w (x # xs) =
     (case calls_exec seedFor w x of None \<Rightarrow> None | Some w' \<Rightarrow> calls_run seedFor w' xs)"

text \<open>No call is under way.\<close>

fun at_rest :: "call \<Rightarrow> bool" where
  "at_rest Outside = True"
| "at_rest (Inside p own) = True"
| "at_rest c = False"

definition calls_quiet :: "server_calls \<Rightarrow> bool" where
  "calls_quiet w \<longleftrightarrow> list_all at_rest (sc_calls w)"

text \<open>A schedule without a shutdown.\<close>

fun closes :: "action \<Rightarrow> bool" where
  "closes (Begin t (CallClose reason)) = True"
| "closes x = False"

end
