(* ===== verification/CallsLemmas.thy ===== *)
theory CallsLemmas
  imports Calls
begin

text \<open>
  What holds in every interleaving of the manager's calls: no call panics, rooms are only worked on in
  sound states, a room is kept only while somebody needs it, and the locks cannot block for ever.
\<close>

declare seat_section_def [simp] submit_section_def [simp] leave_section_def [simp]

section \<open>Rooms as the manager sees them\<close>

text \<open>The players that are connected to a room.\<close>

definition online :: "room \<Rightarrow> string \<Rightarrow> bool" where
  "online r q \<longleftrightarrow> list_ex (\<lambda>(player, s). se_playerID s = q \<and> se_connected s) (rm_seats r)"

lemma some_connected_online: "some_connected r \<longleftrightarrow> (\<exists>q. online r q)"
  unfolding some_connected_def online_def list_ex_iff by (simp add: case_prod_beta) blast

lemma online_seated: "online r q \<Longrightarrow> q \<in> set (seated r)"
  by (auto simp: online_def list_ex_iff seated_eq)

lemma online_seats: "rm_seats r' = rm_seats r \<Longrightarrow> online r' = online r"
  by (simp add: online_def fun_eq_iff)

lemma seated_seats: "rm_seats r' = rm_seats r \<Longrightarrow> seated r' = seated r"
  by (simp add: seated_eq)

lemma online_posted [simp]: "online (posted g r) = online r"
  by (rule online_seats) simp

lemma seatOf_online:
  assumes "room_wf r" "seatOf r q = Some (player, s)"
  shows "online r q = se_connected s"
  by (insert seatOf_Some[OF assms(2)], rule room_wf_cases[OF assms(1)]) (auto simp: online_def)

lemma online_vacate [simp]: "\<not> online (vacate r) q"
  using not_some_connected_vacate[of r] by (simp add: some_connected_online)

text \<open>
  The four things that can happen to a room: its members stay as they are, a player joins, a player
  leaves, everybody is disconnected.
\<close>

definition room_quiet :: "room \<Rightarrow> room \<Rightarrow> bool" where
  "room_quiet r r' \<longleftrightarrow>
     room_inv r' \<and> rm_id r' = rm_id r \<and> seated r' = seated r \<and> online r' = online r \<and>
     (rm_phase r = RoomClosed \<longrightarrow> rm_phase r' = RoomClosed) \<and>
     (rm_phase r' = RoomWaiting) = (rm_phase r = RoomWaiting) \<and>
     (rm_phase r' = RoomClosed \<longrightarrow> rm_phase r = RoomClosed \<or> seated r \<noteq> [])"

definition room_joined :: "string \<Rightarrow> room \<Rightarrow> room \<Rightarrow> bool" where
  "room_joined p r r' \<longleftrightarrow>
     room_inv r' \<and> rm_id r' = rm_id r \<and> rm_phase r \<noteq> RoomClosed \<and> rm_phase r' \<noteq> RoomClosed \<and>
     \<not> online r p \<and> (\<forall>q. online r' q \<longleftrightarrow> online r q \<or> q = p) \<and>
     (p \<in> set (seated r) \<and> seated r' = seated r \<and> rm_phase r \<noteq> RoomWaiting \<and> rm_phase r' \<noteq> RoomWaiting \<or>
      p \<notin> set (seated r) \<and> seated r' = seated r @ [p] \<and> rm_phase r = RoomWaiting \<and>
      (rm_phase r' = RoomWaiting) = (length (seated r') < 2))"

definition room_left :: "string \<Rightarrow> bool \<Rightarrow> room \<Rightarrow> room \<Rightarrow> bool" where
  "room_left p gone r r' \<longleftrightarrow>
     room_inv r' \<and> rm_id r' = rm_id r \<and> seated r' = seated r \<and> p \<in> set (seated r) \<and>
     (\<forall>q. online r' q \<longleftrightarrow> online r q \<and> q \<noteq> p) \<and>
     (gone \<longrightarrow> rm_phase r' = RoomClosed \<and> \<not> some_connected r') \<and>
     (\<not> gone \<longrightarrow> some_connected r' \<and> (rm_phase r' = RoomClosed) = (rm_phase r = RoomClosed) \<and>
        (rm_phase r' = RoomWaiting) = (rm_phase r = RoomWaiting))"

definition room_emptied :: "room \<Rightarrow> room \<Rightarrow> bool" where
  "room_emptied r r' \<longleftrightarrow>
     room_inv r' \<and> rm_id r' = rm_id r \<and> seated r' = seated r \<and> rm_phase r' = RoomClosed \<and>
     \<not> some_connected r'"

lemma room_quiet_refl: "room_inv r \<Longrightarrow> room_quiet r r"
  by (simp add: room_quiet_def)

lemma seated_length: "length (seated r) = length (rm_seats r)"
  by (simp add: seated_eq)

lemma room_returned_seats:
  "rm_seats (room_returned r p player) = rm_seats (seat_taken player p evs r)"
  by (simp add: room_returned_def Let_def)

lemma room_joined_returned:
  assumes inv: "room_inv r" and s: "seatOf r p = Some (player, s)" "\<not> se_connected s"
    and ph: "rm_phase r = RoomSuspended"
  shows "room_joined p r (room_returned r p player)"
proof -
  note wf = room_inv_wf[OF inv]
  have "rm_phase r \<noteq> RoomClosed" using ph by simp
  note k = room_returned_inv[OF inv s this]
  have "online (room_returned r p player) q \<longleftrightarrow> online r q \<or> q = p" for q
    by (insert seatOf_Some[OF s(1)] s(2) room_returned_seats[of r p player "[]"],
      rule room_wf_cases[OF wf]) (auto simp: online_def)
  moreover have "p \<in> set (seated r)" using s(1) seatOf_seated[of r p] by simp
  ultimately show ?thesis
    using k ph seatOf_online[OF wf s(1)] s(2) by (simp add: room_joined_def seated_def)
qed

lemma room_joined_opened:
  assumes inv: "room_inv r" and e: "rm_seats r = []" and w: "rm_phase r = RoomWaiting"
  shows "room_joined p r (room_opened r p)"
proof -
  have "rm_phase r \<noteq> RoomClosed" using w by simp
  note k = room_opened_inv[OF inv e this, of p]
  have "online (room_opened r p) q \<longleftrightarrow> q = p" for q
    using e by (auto simp: online_def room_opened_def)
  then show ?thesis using k e w by (simp add: room_joined_def seated_def Room_Seats_def online_def)
qed

lemma room_joined_started:
  assumes inv: "room_inv r" and o: "rm_seats r = [(PlayerDark, t)]" and w: "rm_phase r = RoomWaiting"
    and free: "seatOf r p = None"
  shows "room_joined p r (room_started r p)"
proof -
  note k = room_started_inv[OF inv o w free]
  have c: "se_connected t" using inv w o by (simp add: room_inv_def phase_inv_def all_connected_def)
  have "online (room_started r p) q \<longleftrightarrow> q = se_playerID t \<or> q = p" for q
    using o c by (auto simp: online_def room_started_def Let_def)
  moreover have "se_playerID t \<noteq> p" using free o by (simp add: seatOf_None)
  ultimately show ?thesis
    using k o w c by (auto simp: room_joined_def seated_def Room_Seats_def online_def)
qed

text \<open>A room that is full: what the message of \<open>join\<close> means.\<close>

lemma messages_differ:
  "(''room'' @ utf8 [0x306F, 0x7D42, 0x4E86, 0x3057, 0x3066, 0x3044, 0x307E,
      0x3059]) \<noteq> (''room'' @ utf8 [0x306F, 0x6E80, 0x5E2D, 0x3067,
      0x3059])" "(utf8 [0x65E2, 0x306B, 0x53C2, 0x52A0, 0x3057, 0x3066, 0x3044, 0x307E,
      0x3059]) \<noteq> (''room'' @ utf8 [0x306F, 0x6E80, 0x5E2D, 0x3067, 0x3059])"
  by (simp_all add: utf8_def utf8_char_def)

abbreviation "room_full p \<equiv> JoinError p (''room'' @ utf8 [0x306F, 0x6E80, 0x5E2D,
      0x3067, 0x3059])"

context rules_runner
begin

lemma room_join_outcome:
  assumes inv: "room_inv r"
  obtains (refused) r' err where "room_join eval r p = Some (r', Inl err)" "room_quiet r r'"
      "rm_phase r = RoomClosed \<or> seated r \<noteq> []"
      "err = room_full p \<longrightarrow> rm_phase r \<noteq> RoomClosed \<and> p \<notin> set (seated r) \<and> length (seated r) = 2"
  | (joined) r' seat events again where "room_join eval r p = Some (r', Inr (seat, events, again))"
      "room_joined p r r'"
  using inv
proof (cases rule: room_join_cases[where playerID = p])
  case (refused message)
  have "rm_phase r = RoomClosed \<or> seated r \<noteq> []"
    using refused(2) seatOf_Some[of r p] by (auto simp: seated_eq)
  moreover have "rm_phase r \<noteq> RoomClosed \<and> p \<notin> set (seated r) \<and> length (seated r) = 2"
    if "message = (''room'' @ utf8 [0x306F, 0x6E80, 0x5E2D, 0x3067, 0x3059])"
  proof -
    have "rm_phase r \<noteq> RoomClosed" using refused(1) that messages_differ by (auto simp: room_join_def)
    moreover have "\<not> (\<exists>player s. seatOf r p = Some (player, s) \<and> se_connected s)"
      using refused(1) that messages_differ calculation by (auto simp: room_join_def)
    ultimately show ?thesis using refused(2) seatOf_seated[of r p] by (auto simp: seated_length)
  qed
  ultimately show ?thesis using that(1)[OF refused(1) room_quiet_refl[OF inv]] by simp
next
  case (returned player s)
  then show ?thesis using that(2) room_joined_returned[OF inv] by blast
next
  case opened
  then show ?thesis using that(2) room_joined_opened[OF inv] by blast
next
  case (failed t err)
  note k = room_chan_added_inv[of r]
  have "room_quiet r (room_chan_added r)"
    using k inv online_seats[OF k(6)] seated_seats[OF k(6)] by (simp add: room_quiet_def)
  then show ?thesis using that(1)[OF failed(4)] failed(2) by (simp add: seated_eq)
next
  case (started t)
  then show ?thesis using that(2) room_joined_started[OF inv] by blast
qed

lemma room_submit_outcome:
  assumes inv: "room_inv r"
  obtains r' result where "room_submit eval r p c = Some (r', result)" "room_quiet r r'"
  using inv
proof (cases rule: room_submit_cases[where playerID = p and c = c])
  case (failed err)
  then show ?thesis using that room_quiet_refl[OF inv] by blast
next
  case (refused resp)
  then show ?thesis using that room_quiet_refl[OF inv] by blast
next
  case (accepted player st s s' e)
  have "rm_phase r \<noteq> RoomWaiting" using inv accepted(3) by (auto simp: room_inv_def phase_inv_def)
  moreover have "p \<in> set (seated r)" using accepted(1) seatOf_seated[of r p] by simp
  ultimately have "room_quiet r (room_moved r s' (Some e))"
    using room_moved_inv[OF inv accepted(3,2,6)] accepted(2)
      online_seats[of "room_moved r s' (Some e)" r]
    by (auto simp: room_quiet_def)
  then show ?thesis using that accepted(8) by blast
qed

end

lemma room_recv_quiet: "room_inv r \<Longrightarrow> room_quiet r (r\<lparr>rm_chans := chan_recv (rm_chans r) k\<rparr>)"
proof -
  let ?r = "r\<lparr>rm_chans := chan_recv (rm_chans r) k\<rparr>"
  assume "room_inv r"
  then have "room_inv ?r" by (rule room_recv_inv)
  moreover have "online ?r = online r" "seated ?r = seated r"
    by (rule online_seats, simp) (rule seated_seats, simp)
  ultimately show ?thesis by (simp add: room_quiet_def)
qed

lemma unseat_online:
  assumes "room_wf r" "seatOf r p = Some (player, s)"
  shows "online (unseat player s r) q \<longleftrightarrow> online r q \<and> q \<noteq> p"
proof -
  have m: "(player, s) \<in> set (rm_seats r)" "se_playerID s = p" using seatOf_Some[OF assms(2)] by simp_all
  show ?thesis
    using assms(1)
  proof (cases r rule: room_wf_cases)
    case none
    then show ?thesis using m by simp
  next
    case (one a x)
    then show ?thesis using m by (auto simp: online_def)
  next
    case (two a x b y)
    then consider "player = a" "s = x" | "player = b" "s = y" using m by auto
    then show ?thesis using two m(2) by cases (auto simp: online_def)
  qed
qed

lemma room_leave_outcome:
  assumes inv: "room_inv r"
  obtains (stranger) err where "room_leave r p = Some (r, Inl err)" "p \<notin> set (seated r)"
  | (left) r' gone where "room_leave r p = Some (r', Inr gone)" "room_left p gone r r'"
  using inv
proof (cases rule: room_leave_cases[where playerID = p])
  case (stranger message)
  then show ?thesis using that(1) seatOf_seated[of r p] by simp
next
  case (empty r')
  note wf = room_inv_wf[OF inv]
  obtain player s where s: "seatOf r p = Some (player, s)" using empty(1) by auto
  have "\<not> some_connected (unseat player s r)"
    using empty(2) room_leave_eq[OF wf s] by (auto simp: Let_def split: if_splits)
  then have "\<not> (online r q \<and> q \<noteq> p)" for q
    using unseat_online[OF wf s] some_connected_online by blast
  then have "online r' q \<longleftrightarrow> online r q \<and> q \<noteq> p" for q
    using empty(5) some_connected_online by blast
  moreover have "p \<in> set (seated r)" using s seatOf_seated[of r p] by simp
  ultimately show ?thesis using that(2)[OF empty(2)] empty by (simp add: room_left_def seated_def)
next
  case (remains r' player s)
  note wf = room_inv_wf[OF inv]
  note s = remains(1)
  let ?r = "unseat player s r"
  let ?q = "if rm_phase ?r = RoomPlaying then ?r\<lparr>rm_phase := RoomSuspended\<rparr> else ?r"
  have "room_wf ?r" using wf seatOf_Some[OF s] by (intro wf_intros) simp_all
  then have "room_wf ?q" by (auto intro: wf_intros)
  note n = notifyOthers_posted[OF this]
  have "rm_seats r' = rm_seats ?r"
    using remains(2) room_leave_eq[OF wf s] n by (auto simp: Let_def split: if_splits)
  then have "online r' q \<longleftrightarrow> online r q \<and> q \<noteq> p" for q
    using unseat_online[OF wf s] online_seats by metis
  moreover have "p \<in> set (seated r)" using s seatOf_seated[of r p] by simp
  ultimately have "room_left p False r r'" using remains by (auto simp: room_left_def seated_def)
  then show ?thesis using that(2)[OF remains(2)] by blast
qed

lemma room_close_outcome:
  assumes "room_inv r"
  obtains r' where "room_close reason r = Some r'" "room_emptied r r'"
  using room_close_inv[OF assms, of reason] by (auto simp: room_emptied_def seated_def)

section \<open>What holds between any two sections\<close>

fun in_join :: "call \<Rightarrow> bool" where
  "in_join (JoinChoose p) = True"
| "in_join (JoinSeat p i) = True"
| "in_join (JoinRelease p i err) = True"
| "in_join (JoinRegister p i ms) = True"
| "in_join (JoinUnlock p result) = True"
| "in_join c = False"

text \<open>A call is about to seat a player in room \<open>i\<close>, to register one there, or to drop it.\<close>

fun joining :: "nat \<Rightarrow> call \<Rightarrow> bool" where
  "joining i (JoinSeat p j) = (i = j)"
| "joining i (JoinRelease p j err) = (i = j)"
| "joining i c = False"

fun registering :: "nat \<Rightarrow> call \<Rightarrow> bool" where
  "registering i (JoinRegister p j ms) = (i = j)"
| "registering i c = False"

fun dropping :: "nat \<Rightarrow> call \<Rightarrow> bool" where
  "dropping i (LeaveCleanup p roomID j) = (i = j)"
| "dropping i c = False"

lemma registering_join: "registering i c \<Longrightarrow> in_join c"
  by (cases c) auto

lemma joining_join: "joining i c \<Longrightarrow> in_join c"
  by (cases c) auto

text \<open>\<open>joinMu\<close> is held exactly by the one call that is inside \<open>Join\<close>.\<close>

definition lock_inv :: "server_calls \<Rightarrow> bool" where
  "lock_inv w \<longleftrightarrow>
     (\<forall>t < length (sc_calls w). in_join (sc_calls w ! t) \<longleftrightarrow> sc_joinMu w = Some t) \<and>
     (\<forall>t. sc_joinMu w = Some t \<longrightarrow> t < length (sc_calls w))"

text \<open>
  The books at any time: a registered player sits in the room that he is registered with, which may
  have been dropped. (Between calls more holds, see \<open>manager_inv\<close>.)
\<close>

definition books_inv :: "manager \<Rightarrow> bool" where
  "books_inv m \<longleftrightarrow>
     gomap_wf (mg_rooms m) \<and> gomap_wf (mg_players m) \<and>
     (\<forall>rid i. map_of (mg_rooms m) rid = Some i \<longrightarrow> i < length (mg_objs m) \<and> rid = room_name (Suc i)) \<and>
     (mg_waiting m \<noteq> '''' \<longrightarrow> map_of (mg_rooms m) (mg_waiting m) \<noteq> None) \<and>
     (\<forall>q rid. map_of (mg_players m) q = Some rid \<longrightarrow>
        (\<exists>j < length (mg_objs m). rid = room_name (Suc j) \<and> q \<in> set (seated (obj m j))))"

text \<open>What a call relies on while it is under way.\<close>

fun call_ok :: "manager \<Rightarrow> call \<Rightarrow> bool" where
  "call_ok m (JoinSeat p i) \<longleftrightarrow> i < length (mg_objs m) \<and>
     (rm_phase (obj m i) = RoomClosed \<or> p \<in> set (seated (obj m i)) \<or> length (seated (obj m i)) < 2)"
| "call_ok m (JoinRelease p i err) \<longleftrightarrow> i < length (mg_objs m) \<and> err \<noteq> room_full p"
| "call_ok m (JoinRegister p i ms) \<longleftrightarrow> i < length (mg_objs m) \<and> p \<in> set (seated (obj m i)) \<and>
     ms_RoomID ms = room_name (Suc i) \<and> ms_PlayerID ms = p"
| "call_ok m (JoinUnlock p result) \<longleftrightarrow> result \<noteq> Inl (room_full p)"
| "call_ok m (SubmitRoom p own i c) \<longleftrightarrow> i < length (mg_objs m)"
| "call_ok m (LeaveRoom p rid i) \<longleftrightarrow> i < length (mg_objs m) \<and> rid = room_name (Suc i)"
| "call_ok m (LeaveCleanup p rid i) \<longleftrightarrow> i < length (mg_objs m) \<and> rid = room_name (Suc i) \<and>
     p \<in> set (seated (obj m i)) \<and> rm_phase (obj m i) = RoomClosed \<and> \<not> some_connected (obj m i)"
| "call_ok m (CloseRooms reason is) \<longleftrightarrow>
     list_all (\<lambda>i. i < length (mg_objs m) \<and> map_of (mg_rooms m) (room_name (Suc i)) = None) is"
| "call_ok m c \<longleftrightarrow> True"

text \<open>A room is kept only while a player is connected or a call is under way that will see to it.\<close>

definition needed :: "call list \<Rightarrow> manager \<Rightarrow> nat \<Rightarrow> bool" where
  "needed cs m i \<longleftrightarrow>
     some_connected (obj m i) \<or> seated (obj m i) = [] \<and> (\<exists>c \<in> set cs. joining i c) \<or>
     (\<exists>c \<in> set cs. dropping i c)"

definition has_seat :: "call list \<Rightarrow> manager \<Rightarrow> nat \<Rightarrow> bool" where
  "has_seat cs m i \<longleftrightarrow>
     rm_phase (obj m i) = RoomClosed \<or> length (seated (obj m i)) < 2 \<or> (\<exists>c \<in> set cs. registering i c)"

definition calls_inv :: "server_calls \<Rightarrow> bool" where
  "calls_inv w \<longleftrightarrow>
     lock_inv w \<and> objs_inv (sc_manager w) \<and> books_inv (sc_manager w) \<and>
     (\<forall>c \<in> set (sc_calls w). call_ok (sc_manager w) c) \<and>
     (\<forall>rid i. map_of (mg_rooms (sc_manager w)) rid = Some i \<longrightarrow> needed (sc_calls w) (sc_manager w) i) \<and>
     (\<forall>i. map_of (mg_rooms (sc_manager w)) (mg_waiting (sc_manager w)) = Some i \<longrightarrow>
        has_seat (sc_calls w) (sc_manager w) i)"

lemma calls_start_inv: "calls_inv (calls_start n)"
proof -
  have "call_ok NewManager c" if "c \<in> set (replicate n Outside)" for c using that by simp
  then show ?thesis
    by (simp add: calls_inv_def calls_start_def lock_inv_def NewManager_def objs_inv_def books_inv_def)
qed

subsection \<open>What a section may do to the other calls\<close>

text \<open>Rooms are added, close for good, keep their players and stay empty; no old room comes back.\<close>

definition manager_le :: "manager \<Rightarrow> manager \<Rightarrow> bool" where
  "manager_le m m' \<longleftrightarrow>
     length (mg_objs m) \<le> length (mg_objs m') \<and>
     (\<forall>i < length (mg_objs m).
        (rm_phase (obj m i) = RoomClosed \<longrightarrow> rm_phase (obj m' i) = RoomClosed) \<and>
        set (seated (obj m i)) \<subseteq> set (seated (obj m' i)) \<and>
        (rm_phase (obj m i) = RoomClosed \<and> \<not> some_connected (obj m i) \<longrightarrow> \<not> some_connected (obj m' i)) \<and>
        (map_of (mg_rooms m) (room_name (Suc i)) = None \<longrightarrow> map_of (mg_rooms m') (room_name (Suc i)) = None))"

lemma manager_le_refl [simp]: "manager_le m m"
  by (simp add: manager_le_def)

lemma call_ok_le:
  assumes le: "manager_le m m'" and ok: "call_ok m c"
    and same: "in_join c \<Longrightarrow> \<forall>i < length (mg_objs m). seated (obj m' i) = seated (obj m i)"
  shows "call_ok m' c"
  using le ok
proof (cases c)
  case (CloseRooms reason "is")
  then show ?thesis using le ok by (auto simp: manager_le_def list_all_iff intro: less_le_trans)
qed (use same in \<open>auto simp: manager_le_def\<close>)

lemma joins_once:
  assumes "lock_inv w" "t < length (sc_calls w)" "in_join (sc_calls w ! t)" "c \<in> set (sc_calls w)" "in_join c"
  shows "c = sc_calls w ! t"
  using assms by (auto simp: lock_inv_def in_set_conv_nth)

lemma other_call: "c \<in> set cs \<Longrightarrow> c \<noteq> cs ! t \<Longrightarrow> c \<in> set (cs[t := c'])"
  by (auto simp: in_set_conv_nth) (metis nth_list_update_neq)

lemma kept_call: "\<exists>c \<in> set cs. P c \<Longrightarrow> \<not> P (cs ! t) \<Longrightarrow> \<exists>c \<in> set (cs[t := c']). P c"
  using other_call[of _ cs t c'] by blast

lemma own_call: "t < length cs \<Longrightarrow> c' \<in> set (cs[t := c'])"
  by (rule set_update_memI)

text \<open>One section of call \<open>t\<close>.\<close>

lemma calls_inv_step:
  assumes inv: "calls_inv w" and t: "t < length (sc_calls w)"
    and jn: "in_join c' = in_join (sc_calls w ! t)"
    and m': "objs_inv m'" "books_inv m'" "manager_le (sc_manager w) m'" "call_ok m' c'"
    and same: "\<not> in_join (sc_calls w ! t) \<Longrightarrow>
      \<forall>i < length (mg_objs (sc_manager w)). seated (obj m' i) = seated (obj (sc_manager w) i)"
    and need: "\<And>rid i. map_of (mg_rooms m') rid = Some i \<Longrightarrow> needed ((sc_calls w)[t := c']) m' i"
    and seat: "\<And>i. map_of (mg_rooms m') (mg_waiting m') = Some i \<Longrightarrow> has_seat ((sc_calls w)[t := c']) m' i"
  shows "calls_inv (w\<lparr>sc_manager := m', sc_calls := (sc_calls w)[t := c']\<rparr>)"
proof -
  let ?w = "w\<lparr>sc_manager := m', sc_calls := (sc_calls w)[t := c']\<rparr>"
  have lock: "lock_inv w" using inv by (simp add: calls_inv_def)
  then have "lock_inv ?w" using jn t by (auto simp: lock_inv_def nth_list_update)
  moreover have "call_ok m' c" if c: "c \<in> set ((sc_calls w)[t := c'])" for c
  proof -
    obtain u where u: "u < length (sc_calls w)" "c = (if u = t then c' else sc_calls w ! u)"
      using c by (auto simp: in_set_conv_nth nth_list_update)
    show ?thesis
    proof (cases "u = t")
      case False
      have "call_ok (sc_manager w) c" using inv u False by (simp add: calls_inv_def)
      moreover have "\<not> in_join (sc_calls w ! t)" if "in_join c"
        using lock that u t False by (auto simp: lock_inv_def)
      ultimately show ?thesis using call_ok_le[OF m'(3)] same by blast
    qed (use u m'(4) in simp)
  qed
  ultimately show ?thesis using m' need seat by (simp add: calls_inv_def)
qed

text \<open>A section that changes only room \<open>i\<close>.\<close>

lemma set_obj_objs_inv:
  assumes "objs_inv m" "i < length (mg_objs m)" "room_inv r" "rm_id r = rm_id (obj m i)"
  shows "objs_inv (set_obj i r m)"
  using assms by (auto simp: objs_inv_def)

lemma set_obj_books_inv:
  assumes "books_inv m" "i < length (mg_objs m)" "set (seated (obj m i)) \<subseteq> set (seated r)"
  shows "books_inv (set_obj i r m)"
proof -
  have "q \<in> set (seated (obj (set_obj i r m) j))" if "q \<in> set (seated (obj m j))" for q j
    using that assms(2,3) by auto
  then show ?thesis using assms(1) unfolding books_inv_def set_obj_fields by blast
qed

lemma set_obj_le:
  assumes "i < length (mg_objs m)" "set (seated (obj m i)) \<subseteq> set (seated r)"
    "rm_phase (obj m i) = RoomClosed \<longrightarrow>
       rm_phase r = RoomClosed \<and> (\<not> some_connected (obj m i) \<longrightarrow> \<not> some_connected r)"
  shows "manager_le m (set_obj i r m)"
  using assms by (auto simp: manager_le_def)

lemma still_call:
  assumes "\<exists>c \<in> set cs. P c" "P (cs ! t) \<Longrightarrow> P c'" "t < length cs"
  shows "\<exists>c \<in> set (cs[t := c']). P c"
  using assms kept_call[of cs P t c'] own_call[of t cs c'] by blast

lemma needed_mono:
  assumes "needed cs m j" "t < length cs"
    and "some_connected (obj m j) \<Longrightarrow> some_connected (obj m' j)"
    and "seated (obj m j) = [] \<Longrightarrow> joining j (cs ! t) \<Longrightarrow> joining j c'"
    and "seated (obj m j) = [] \<Longrightarrow> seated (obj m' j) = []"
    and "dropping j (cs ! t) \<Longrightarrow> dropping j c'"
  shows "needed (cs[t := c']) m' j"
  using assms(1) unfolding needed_def
proof (elim disjE conjE)
  assume "some_connected (obj m j)"
  then show "some_connected (obj m' j) \<or> seated (obj m' j) = [] \<and> (\<exists>c \<in> set (cs[t := c']). joining j c) \<or>
      (\<exists>c \<in> set (cs[t := c']). dropping j c)"
    using assms(3) by simp
next
  assume e: "seated (obj m j) = []" and c: "\<exists>c \<in> set cs. joining j c"
  have "\<exists>c \<in> set (cs[t := c']). joining j c" using c assms(4)[OF e] assms(2) by (rule still_call)
  then show "some_connected (obj m' j) \<or> seated (obj m' j) = [] \<and> (\<exists>c \<in> set (cs[t := c']). joining j c) \<or>
      (\<exists>c \<in> set (cs[t := c']). dropping j c)"
    using assms(5)[OF e] by simp
next
  assume c: "\<exists>c \<in> set cs. dropping j c"
  have "\<exists>c \<in> set (cs[t := c']). dropping j c" using c assms(6,2) by (rule still_call)
  then show "some_connected (obj m' j) \<or> seated (obj m' j) = [] \<and> (\<exists>c \<in> set (cs[t := c']). joining j c) \<or>
      (\<exists>c \<in> set (cs[t := c']). dropping j c)"
    by simp
qed

lemma has_seat_mono:
  assumes "has_seat cs m j" "t < length cs"
    and "rm_phase (obj m j) = RoomClosed \<Longrightarrow> rm_phase (obj m' j) = RoomClosed"
    and "length (seated (obj m' j)) = length (seated (obj m j))"
    and "registering j (cs ! t) \<Longrightarrow> registering j c' \<or> length (seated (obj m j)) < 2"
  shows "has_seat (cs[t := c']) m' j"
proof (cases "rm_phase (obj m j) = RoomClosed \<or> length (seated (obj m j)) < 2")
  case True
  then show ?thesis using assms(3,4) by (auto simp: has_seat_def)
next
  case False
  then have c: "\<exists>c \<in> set cs. registering j c" using assms(1) by (simp add: has_seat_def)
  have "registering j c'" if "registering j (cs ! t)" using assms(5)[OF that] False by simp
  from still_call[OF c this assms(2)] show ?thesis by (simp add: has_seat_def)
qed

text \<open>Room \<open>i\<close> changes and its members stay, while call \<open>t\<close> goes from one section to the next.\<close>

definition same_duty :: "call \<Rightarrow> call \<Rightarrow> bool" where
  "same_duty c c' \<longleftrightarrow>
     in_join c' = in_join c \<and>
     (\<forall>j. joining j c \<longrightarrow> joining j c') \<and> (\<forall>j. registering j c \<longrightarrow> registering j c') \<and>
     (\<forall>j. dropping j c \<longrightarrow> dropping j c')"

lemma calls_inv_quiet:
  assumes inv: "calls_inv w" and t: "t < length (sc_calls w)"
    and i: "i < length (mg_objs (sc_manager w))" and r: "room_quiet (obj (sc_manager w) i) r"
    and duty: "same_duty (sc_calls w ! t) c'" and ok: "call_ok (set_obj i r (sc_manager w)) c'"
  shows "calls_inv (w\<lparr>sc_manager := set_obj i r (sc_manager w), sc_calls := (sc_calls w)[t := c']\<rparr>)"
proof (rule calls_inv_step[OF inv t])
  let ?m = "sc_manager w"
  let ?m' = "set_obj i r ?m"
  have m: "objs_inv ?m" "books_inv ?m" using inv by (simp_all add: calls_inv_def)
  have sc: "some_connected r = some_connected (obj ?m i)"
    using r by (simp add: room_quiet_def some_connected_online)
  have s: "seated (obj ?m' j) = seated (obj ?m j)" "some_connected (obj ?m' j) = some_connected (obj ?m j)"
    "rm_phase (obj ?m j) = RoomClosed \<Longrightarrow> rm_phase (obj ?m' j) = RoomClosed" for j
    using r i sc by (auto simp: room_quiet_def)
  show "in_join c' = in_join (sc_calls w ! t)" using duty by (simp add: same_duty_def)
  show "objs_inv ?m'" using r by (intro set_obj_objs_inv[OF m(1) i]) (simp_all add: room_quiet_def)
  show "books_inv ?m'" using r by (intro set_obj_books_inv[OF m(2) i]) (simp add: room_quiet_def)
  show "manager_le ?m ?m'" using s by (auto simp: manager_le_def)
  show "call_ok ?m' c'" by (rule ok)
  show "\<forall>j < length (mg_objs ?m). seated (obj ?m' j) = seated (obj ?m j)" using s by blast
  show "needed ((sc_calls w)[t := c']) ?m' j" if "map_of (mg_rooms ?m') rid = Some j" for rid j
  proof (rule needed_mono[OF _ t])
    show "needed (sc_calls w) ?m j" using inv that by (simp add: calls_inv_def)
  qed (use s duty in \<open>auto simp: same_duty_def\<close>)
  show "has_seat ((sc_calls w)[t := c']) ?m' j" if "map_of (mg_rooms ?m') (mg_waiting ?m') = Some j" for j
  proof (rule has_seat_mono[OF _ t])
    show "has_seat (sc_calls w) ?m j" using inv that by (simp add: calls_inv_def)
  qed (use s duty in \<open>auto simp: same_duty_def\<close>)
qed

text \<open>A section that only reads.\<close>

lemma calls_inv_read:
  assumes inv: "calls_inv w" and t: "t < length (sc_calls w)"
    and duty: "same_duty (sc_calls w ! t) c'" and ok: "call_ok (sc_manager w) c'"
  shows "calls_inv (w\<lparr>sc_calls := (sc_calls w)[t := c']\<rparr>)"
proof -
  let ?m = "sc_manager w"
  have "calls_inv (w\<lparr>sc_manager := ?m, sc_calls := (sc_calls w)[t := c']\<rparr>)"
  proof (rule calls_inv_step[OF inv t])
    show "needed ((sc_calls w)[t := c']) ?m j" if "map_of (mg_rooms ?m) rid = Some j" for rid j
    proof (rule needed_mono[OF _ t])
      show "needed (sc_calls w) ?m j" using inv that by (simp add: calls_inv_def)
    qed (use duty in \<open>auto simp: same_duty_def\<close>)
    show "has_seat ((sc_calls w)[t := c']) ?m j" if "map_of (mg_rooms ?m) (mg_waiting ?m) = Some j" for j
    proof (rule has_seat_mono[OF _ t])
      show "has_seat (sc_calls w) ?m j" using inv that by (simp add: calls_inv_def)
    qed (use duty in \<open>auto simp: same_duty_def\<close>)
  qed (use inv duty ok in \<open>auto simp: calls_inv_def same_duty_def\<close>)
  then show ?thesis by simp
qed

section \<open>The sections of Join\<close>

definition players_less :: "manager \<Rightarrow> string \<Rightarrow> (string, string) gomap \<Rightarrow> bool" where
  "players_less m p ps \<longleftrightarrow>
     map_of ps p = None \<and> (\<forall>q. q \<noteq> p \<longrightarrow> map_of ps q = map_of (mg_players m) q) \<and>
     (gomap_wf (mg_players m) \<longrightarrow> gomap_wf ps)"

text \<open>The manager with a new room.\<close>

definition room_made :: "(string \<Rightarrow> 32 word) \<Rightarrow> manager \<Rightarrow> (string, string) gomap \<Rightarrow> manager" where
  "room_made seedFor m ps =
     (let n = mg_nextID m + 1; rid = room_name n in
      m\<lparr>mg_players := ps, mg_nextID := n, mg_objs := mg_objs m @ [newRoom rid (seedFor rid)],
        mg_rooms := AList.update rid (length (mg_objs m)) (mg_rooms m), mg_waiting := rid\<rparr>)"

lemma waiting_or_new_cases:
  obtains (waits) i where "mg_waiting m \<noteq> ''''" "map_of (mg_rooms m) (mg_waiting m) = Some i"
      "rm_phase (obj m i) \<noteq> RoomClosed" "waiting_or_new seedFor m = (m, i)"
  | (new) "waiting_or_new seedFor m = (room_made seedFor m (mg_players m), length (mg_objs m))"
      "\<forall>i. map_of (mg_rooms m) (mg_waiting m) = Some i \<longrightarrow> mg_waiting m = '''' \<or> rm_phase (obj m i) = RoomClosed"
proof (cases "\<exists>i. mg_waiting m \<noteq> '''' \<and> map_of (mg_rooms m) (mg_waiting m) = Some i \<and> rm_phase (obj m i) \<noteq> RoomClosed")
  case True
  then show ?thesis using waits by (auto simp: waiting_or_new_def Room_Phase_def)
next
  case False
  then have "waiting_or_new seedFor m = (room_made seedFor m (mg_players m), length (mg_objs m))"
    by (auto simp: waiting_or_new_def Room_Phase_def make_room_def room_made_def Let_def split: option.split)
  then show ?thesis using new False by blast
qed

lemma roomForJoin_cases:
  obtains (known) rid i where "map_of (mg_players m) p = Some rid" "map_of (mg_rooms m) rid = Some i"
      "roomForJoin seedFor m p = (m, i)"
  | (waits) ps i where "players_less m p ps" "mg_waiting m \<noteq> ''''" "map_of (mg_rooms m) (mg_waiting m) = Some i"
      "rm_phase (obj m i) \<noteq> RoomClosed" "roomForJoin seedFor m p = (m\<lparr>mg_players := ps\<rparr>, i)"
      "map_of (mg_players m) p = None \<or> (\<exists>rid. map_of (mg_players m) p = Some rid \<and> map_of (mg_rooms m) rid = None)"
  | (new) ps where "players_less m p ps"
      "roomForJoin seedFor m p = (room_made seedFor m ps, length (mg_objs m))"
      "\<forall>i. map_of (mg_rooms m) (mg_waiting m) = Some i \<longrightarrow> mg_waiting m = '''' \<or> rm_phase (obj m i) = RoomClosed"
      "map_of (mg_players m) p = None \<or> (\<exists>rid. map_of (mg_players m) p = Some rid \<and> map_of (mg_rooms m) rid = None)"
proof (cases "\<exists>rid i. map_of (mg_players m) p = Some rid \<and> map_of (mg_rooms m) rid = Some i")
  case True
  then show ?thesis using known by (auto simp: roomForJoin_def)
next
  case False
  let ?ps = "if map_of (mg_players m) p = None then mg_players m else AList.delete p (mg_players m)"
  let ?m = "m\<lparr>mg_players := ?ps\<rparr>"
  have gone: "map_of (mg_players m) p = None \<or>
      (\<exists>rid. map_of (mg_players m) p = Some rid \<and> map_of (mg_rooms m) rid = None)"
    using False by (cases "map_of (mg_players m) p") auto
  have same: "m\<lparr>mg_players := mg_players m\<rparr> = m" by simp
  have rj: "roomForJoin seedFor m p = waiting_or_new seedFor ?m"
    using gone by (auto simp: roomForJoin_def)
  have ps: "players_less m p ?ps" by (auto simp: players_less_def gomap_wf_delete)
  show ?thesis
  proof (cases rule: waiting_or_new_cases[of ?m seedFor])
    case (waits i)
    then show ?thesis using that(2)[OF ps, of i] rj gone by simp
  next
    case new
    then have "roomForJoin seedFor m p = (room_made seedFor m ?ps, length (mg_objs m))"
      using rj by (simp add: room_made_def Let_def)
    then show ?thesis using that(3)[OF ps] new(2) gone by simp
  qed
qed

lemma calls_invD:
  assumes "calls_inv w"
  shows "objs_inv (sc_manager w)" "books_inv (sc_manager w)" "lock_inv w"
    "\<And>c. c \<in> set (sc_calls w) \<Longrightarrow> call_ok (sc_manager w) c"
    "\<And>rid i. map_of (mg_rooms (sc_manager w)) rid = Some i \<Longrightarrow> needed (sc_calls w) (sc_manager w) i"
    "\<And>i. map_of (mg_rooms (sc_manager w)) (mg_waiting (sc_manager w)) = Some i \<Longrightarrow>
       has_seat (sc_calls w) (sc_manager w) i"
  using assms by (auto simp: calls_inv_def)

lemma objs_invD:
  assumes "objs_inv m" "i < length (mg_objs m)"
  shows "room_inv (obj m i)" "rm_id (obj m i) = room_name (Suc i)"
  using assms by (auto simp: objs_inv_def)

lemma books_room:
  assumes "books_inv m" "map_of (mg_rooms m) rid = Some i"
  shows "i < length (mg_objs m)" "rid = room_name (Suc i)"
  using assms by (auto simp: books_inv_def)

lemma books_player:
  "books_inv m \<Longrightarrow> map_of (mg_players m) q = Some rid \<Longrightarrow>
     \<exists>j < length (mg_objs m). rid = room_name (Suc j) \<and> q \<in> set (seated (obj m j))"
  unfolding books_inv_def by blast

lemma books_players_less:
  assumes "books_inv m" "players_less m p ps"
  shows "books_inv (m\<lparr>mg_players := ps\<rparr>)"
proof -
  have "map_of (mg_players m) q = Some rid" if "map_of ps q = Some rid" for q rid
    using assms(2) that by (cases "q = p") (auto simp: players_less_def)
  then show ?thesis using assms by (auto simp: books_inv_def players_less_def)
qed

text \<open>The room that \<open>roomForJoin\<close> makes is empty and waits.\<close>

lemma room_made_facts:
  assumes o: "objs_inv m" and b: "books_inv m" and ps: "players_less m p ps"
  shows "objs_inv (room_made seedFor m ps)" "books_inv (room_made seedFor m ps)"
    "manager_le m (room_made seedFor m ps)"
    "length (mg_objs (room_made seedFor m ps)) = Suc (length (mg_objs m))"
    "seated (obj (room_made seedFor m ps) (length (mg_objs m))) = []"
    "rm_phase (obj (room_made seedFor m ps) (length (mg_objs m))) = RoomWaiting"
    "\<not> some_connected (obj (room_made seedFor m ps) (length (mg_objs m)))"
    "j < length (mg_objs m) \<Longrightarrow> obj (room_made seedFor m ps) j = obj m j"
    "map_of (mg_rooms (room_made seedFor m ps)) rid =
       (if rid = room_name (Suc (length (mg_objs m))) then Some (length (mg_objs m)) else map_of (mg_rooms m) rid)"
    "mg_waiting (room_made seedFor m ps) = room_name (Suc (length (mg_objs m)))"
    "mg_players (room_made seedFor m ps) = ps"
proof -
  let ?n = "length (mg_objs m)"
  let ?m = "room_made seedFor m ps"
  have n: "mg_nextID m = ?n" using o by (simp add: objs_inv_def)
  let ?r = "newRoom (room_name (Suc ?n)) (seedFor (room_name (Suc ?n)))"
  have ob: "obj ?m j = (if j = ?n then ?r else obj m j)" if "j \<le> ?n" for j
    using that by (auto simp: room_made_def Let_def obj_def n nth_append)
  show len: "length (mg_objs ?m) = Suc ?n" by (simp add: room_made_def Let_def)
  show sn: "seated (obj ?m ?n) = []" "rm_phase (obj ?m ?n) = RoomWaiting" "\<not> some_connected (obj ?m ?n)"
    by (simp_all add: ob newRoom_def seated_eq some_connected_def)
  show old: "obj ?m j = obj m j" if "j < length (mg_objs m)" for j using that by (simp add: ob)
  show rooms: "map_of (mg_rooms ?m) rid = (if rid = room_name (Suc ?n) then Some ?n else map_of (mg_rooms m) rid)" for rid
    by (simp add: room_made_def Let_def n update_conv')
  show wt: "mg_waiting ?m = room_name (Suc ?n)" and pl: "mg_players ?m = ps"
    by (simp_all add: room_made_def Let_def n)
  have ri: "room_inv ?r" by (intro wf_intros) simp
  show "objs_inv ?m"
    using o ri by (auto simp: objs_inv_def len less_Suc_eq ob newRoom_def) (simp add: room_made_def Let_def)
  show "manager_le m ?m" using old len rooms by (auto simp: manager_le_def)
  have "\<exists>j < length (mg_objs ?m). rid = room_name (Suc j) \<and> q \<in> set (seated (obj ?m j))"
    if "map_of ps q = Some rid" for q rid
  proof -
    have "map_of (mg_players m) q = Some rid" using that ps by (cases "q = p") (auto simp: players_less_def)
    then obtain j where "j < ?n" "rid = room_name (Suc j)" "q \<in> set (seated (obj m j))"
      using books_player[OF b] by blast
    then show ?thesis using old[of j] len by (intro exI[of _ j]) simp
  qed
  moreover have "gomap_wf (mg_rooms ?m)" "gomap_wf ps"
    using b ps by (simp_all add: books_inv_def players_less_def room_made_def Let_def gomap_wf_update)
  moreover have "i < Suc ?n \<and> rid = room_name (Suc i)" if "map_of (mg_rooms ?m) rid = Some i" for rid i
    using that books_room[OF b, of rid i] by (auto simp: rooms split: if_splits)
  moreover have "mg_waiting ?m \<noteq> '''' \<longrightarrow> map_of (mg_rooms ?m) (mg_waiting ?m) \<noteq> None"
    by (simp add: rooms wt)
  ultimately show "books_inv ?m" unfolding books_inv_def len pl by blast
qed

text \<open>The call that \<open>calls_inv\<close> speaks of, and what it is known to rely on.\<close>

lemma own_call_ok: "calls_inv w \<Longrightarrow> t < length (sc_calls w) \<Longrightarrow> call_ok (sc_manager w) (sc_calls w ! t)"
  by (simp add: calls_inv_def)

definition step_kept ::
  "runner \<Rightarrow> (string \<Rightarrow> 32 word) \<Rightarrow> server_calls \<Rightarrow> nat \<Rightarrow> bool" where
  "step_kept runner seedFor w t \<longleftrightarrow>
     (\<exists>m' c'. call_step runner seedFor (sc_manager w) (sc_calls w ! t) = Some (m', c') \<and>
        calls_inv (w\<lparr>sc_manager := m', sc_calls := (sc_calls w)[t := c']\<rparr>))"

lemma step_keptI:
  "call_step runner seedFor (sc_manager w) (sc_calls w ! t) = Some (m', c') \<Longrightarrow>
   calls_inv (w\<lparr>sc_manager := m', sc_calls := (sc_calls w)[t := c']\<rparr>) \<Longrightarrow> step_kept runner seedFor w t"
  by (auto simp: step_kept_def)

lemma same_manager: "w\<lparr>sc_manager := sc_manager w, sc_calls := cs\<rparr> = w\<lparr>sc_calls := cs\<rparr>"
  by simp

lemma step_kept_read:
  assumes "calls_inv w" "t < length (sc_calls w)"
    and "call_step runner seedFor (sc_manager w) (sc_calls w ! t) = Some (sc_manager w, c')"
    and "same_duty (sc_calls w ! t) c'" "call_ok (sc_manager w) c'"
  shows "step_kept runner seedFor w t"
proof (rule step_keptI[OF assms(3)])
  show "calls_inv (w\<lparr>sc_manager := sc_manager w, sc_calls := (sc_calls w)[t := c']\<rparr>)"
    using calls_inv_read[OF assms(1,2,4,5)] by (simp only: same_manager)
qed

lemma choose_kept:
  assumes inv: "calls_inv w" and t: "t < length (sc_calls w)" and c: "sc_calls w ! t = JoinChoose p"
  shows "step_kept runner seedFor w t"
proof (cases rule: roomForJoin_cases[of "sc_manager w" p seedFor])
  let ?m = "sc_manager w"
  note k = calls_invD[OF inv]
  have nobody: "\<not> (\<exists>c \<in> set (sc_calls w). registering i c)" for i
  proof
    assume "\<exists>c \<in> set (sc_calls w). registering i c"
    then obtain d where d: "d \<in> set (sc_calls w)" "registering i d" by blast
    then have "in_join d" using registering_join by blast
    then have "d = JoinChoose p" using joins_once[OF k(3) t _ d(1)] c by simp
    then show False using d(2) by simp
  qed
  {
    case (known rid i)
    have "i < length (mg_objs ?m)" "p \<in> set (seated (obj ?m i))"
      using books_room[OF k(2) known(2)] books_player[OF k(2) known(1)] by auto
    then show ?thesis
      using c known(3) by (intro step_kept_read[OF inv t]) (auto simp: same_duty_def)
  next
    case (waits ps i)
    let ?m' = "?m\<lparr>mg_players := ps\<rparr>"
    have i: "i < length (mg_objs ?m)" using books_room[OF k(2) waits(3)] by simp
    have "length (seated (obj ?m i)) < 2" using k(6)[OF waits(3)] waits(4) nobody by (auto simp: has_seat_def)
    then have ok: "call_ok ?m' (JoinSeat p i)" using i by simp
    have "calls_inv (w\<lparr>sc_manager := ?m', sc_calls := (sc_calls w)[t := JoinSeat p i]\<rparr>)"
    proof (rule calls_inv_step[OF inv t _ _ _ _ ok])
      show "objs_inv ?m'" using k(1) by (simp add: objs_inv_def)
      show "books_inv ?m'" using books_players_less[OF k(2) waits(1)] .
      show "manager_le ?m ?m'" by (simp add: manager_le_def)
      show "needed ((sc_calls w)[t := JoinSeat p i]) ?m' j" if "map_of (mg_rooms ?m') rid = Some j" for rid j
        using k(5)[of rid j] that c by (intro needed_mono[OF _ t]) auto
      show "has_seat ((sc_calls w)[t := JoinSeat p i]) ?m' j"
        if "map_of (mg_rooms ?m') (mg_waiting ?m') = Some j" for j
        using k(6)[of j] that c by (intro has_seat_mono[OF _ t]) auto
    qed (use c in simp_all)
    then show ?thesis using c waits(5) by (intro step_keptI) simp_all
  next
    case (new ps)
    let ?m' = "room_made seedFor ?m ps" and ?n = "length (mg_objs ?m)"
    note f = room_made_facts[OF k(1,2) new(1), where seedFor = seedFor]
    have ok: "call_ok ?m' (JoinSeat p ?n)" using f(4,5) by simp
    have "calls_inv (w\<lparr>sc_manager := ?m', sc_calls := (sc_calls w)[t := JoinSeat p ?n]\<rparr>)"
    proof (rule calls_inv_step[OF inv t _ f(1-3) ok])
      show "needed ((sc_calls w)[t := JoinSeat p ?n]) ?m' j" if j: "map_of (mg_rooms ?m') rid = Some j" for rid j
      proof (cases "rid = room_name (Suc ?n)")
        case True
        then have "j = ?n" using j f(9) by simp
        moreover have "JoinSeat p ?n \<in> set ((sc_calls w)[t := JoinSeat p ?n])" using t by (rule own_call)
        then have "\<exists>c \<in> set ((sc_calls w)[t := JoinSeat p ?n]). joining ?n c" by (rule rev_bexI) simp
        ultimately show ?thesis using f(5) by (simp add: needed_def)
      next
        case False
        then have j': "map_of (mg_rooms ?m) rid = Some j" using j f(9) by simp
        show ?thesis
          using k(5)[OF j'] f(8)[OF books_room(1)[OF k(2) j']] c by (intro needed_mono[OF _ t]) auto
      qed
      show "has_seat ((sc_calls w)[t := JoinSeat p ?n]) ?m' j"
        if "map_of (mg_rooms ?m') (mg_waiting ?m') = Some j" for j
        using that f(5,9,10) by (simp add: has_seat_def)
    qed (use c in simp_all)
    then show ?thesis using c new(2) by (intro step_keptI) simp_all
  }
qed

context rules_runner
begin

lemma seat_kept:
  assumes inv: "calls_inv w" and t: "t < length (sc_calls w)" and c: "sc_calls w ! t = JoinSeat p i"
  shows "step_kept eval seedFor w t"
proof -
  let ?m = "sc_manager w"
  note k = calls_invD[OF inv]
  have i: "i < length (mg_objs ?m)"
    and fit: "rm_phase (obj ?m i) = RoomClosed \<or> p \<in> set (seated (obj ?m i)) \<or> length (seated (obj ?m i)) < 2"
    using own_call_ok[OF inv t] c by auto
  note o = objs_invD[OF k(1) i]
  show ?thesis
    using o(1)
  proof (cases rule: room_join_outcome[where p = p])
    case (refused r err)
    have "err \<noteq> room_full p" using refused(4) fit by auto
    then have "call_ok (set_obj i r ?m) (JoinRelease p i err)" using i by simp
    then have "calls_inv (w\<lparr>sc_manager := set_obj i r ?m, sc_calls := (sc_calls w)[t := JoinRelease p i err]\<rparr>)"
      using c by (intro calls_inv_quiet[OF inv t i refused(2)]) (simp_all add: same_duty_def)
    then show ?thesis using c refused(1) by (intro step_keptI) simp_all
  next
    case (joined r seat events again)
    let ?ms = "\<lparr>ms_RoomID = rm_id r, ms_PlayerID = p, ms_Seat = seat, ms_Events = events, ms_Reconnected = again\<rparr>"
    let ?m' = "set_obj i r ?m"
    have r: "room_inv r" "rm_id r = rm_id (obj ?m i)" "rm_phase (obj ?m i) \<noteq> RoomClosed"
      "set (seated (obj ?m i)) \<subseteq> set (seated r)" "p \<in> set (seated r)" "online r p"
      using joined(2) by (auto simp: room_joined_def)
    have ok: "call_ok ?m' (JoinRegister p i ?ms)" using i r o(2) by simp
    have "calls_inv (w\<lparr>sc_manager := ?m', sc_calls := (sc_calls w)[t := JoinRegister p i ?ms]\<rparr>)"
    proof (rule calls_inv_step[OF inv t _ _ _ _ ok])
      show "objs_inv ?m'" using r by (intro set_obj_objs_inv[OF k(1) i])
      show "books_inv ?m'" using r by (intro set_obj_books_inv[OF k(2) i])
      show "manager_le ?m ?m'" using r by (intro set_obj_le[OF i]) simp_all
      show "needed ((sc_calls w)[t := JoinRegister p i ?ms]) ?m' j" if j: "map_of (mg_rooms ?m') rid = Some j" for rid j
      proof (cases "j = i")
        case True
        then show ?thesis using r(6) i by (auto simp: needed_def some_connected_online)
      next
        case False
        have "needed (sc_calls w) ?m j" using k(5) j by simp
        then show ?thesis by (rule needed_mono[OF _ t]) (use False i c in auto)
      qed
      show "has_seat ((sc_calls w)[t := JoinRegister p i ?ms]) ?m' j"
        if j: "map_of (mg_rooms ?m') (mg_waiting ?m') = Some j" for j
      proof (cases "j = i")
        case True
        have "JoinRegister p i ?ms \<in> set ((sc_calls w)[t := JoinRegister p i ?ms])" using t by (rule own_call)
        then have "\<exists>d \<in> set ((sc_calls w)[t := JoinRegister p i ?ms]). registering i d" by (rule rev_bexI) simp
        then show ?thesis using True by (simp add: has_seat_def)
      next
        case False
        have "has_seat (sc_calls w) ?m j" using k(6) j by simp
        then show ?thesis by (rule has_seat_mono[OF _ t]) (use False i c in auto)
      qed
    qed (use c in simp_all)
    then show ?thesis using c joined(1) by (intro step_keptI) simp_all
  qed
qed

lemma submit_kept:
  assumes inv: "calls_inv w" and t: "t < length (sc_calls w)" and c: "sc_calls w ! t = SubmitRoom p own i x"
  shows "step_kept eval seedFor w t"
proof -
  let ?m = "sc_manager w"
  have i: "i < length (mg_objs ?m)" using own_call_ok[OF inv t] c by simp
  obtain r result where r: "room_submit eval (obj ?m i) p x = Some (r, result)" "room_quiet (obj ?m i) r"
    using room_submit_outcome[OF objs_invD(1)[OF calls_invD(1)[OF inv] i]] by blast
  have "calls_inv (w\<lparr>sc_manager := set_obj i r ?m, sc_calls := (sc_calls w)[t := SubmitReturn p own result]\<rparr>)"
    using c by (intro calls_inv_quiet[OF inv t i r(2)]) (simp_all add: same_duty_def)
  then show ?thesis using c r(1) by (intro step_keptI) simp_all
qed

end

subsection \<open>The sections that drop a room\<close>

definition room_dropped :: "manager \<Rightarrow> string \<Rightarrow> manager" where
  "room_dropped m rid =
     m\<lparr>mg_rooms := AList.delete rid (mg_rooms m), mg_waiting := (if mg_waiting m = rid then '''' else mg_waiting m)\<rparr>"

lemma room_dropped_fields [simp]:
  "mg_objs (room_dropped m rid) = mg_objs m" "mg_players (room_dropped m rid) = mg_players m"
  "mg_nextID (room_dropped m rid) = mg_nextID m" "obj (room_dropped m rid) i = obj m i"
  "map_of (mg_rooms (room_dropped m rid)) k = (if k = rid then None else map_of (mg_rooms m) k)"
  "mg_waiting (room_dropped m rid) = (if mg_waiting m = rid then '''' else mg_waiting m)"
  by (auto simp: room_dropped_def obj_def)

lemma room_dropped_books: "books_inv m \<Longrightarrow> books_inv (room_dropped m rid)"
  unfolding books_inv_def by (auto simp: room_dropped_def gomap_wf_delete obj_def)

lemma books_waiting: "books_inv m \<Longrightarrow> map_of (mg_rooms m) '''' = None"
  using books_room[of m "''''"] by (cases "map_of (mg_rooms m) ''''") auto

lemma release_eq:
  "releaseOnJoinFailure m i = (if seated (obj m i) = [] then room_dropped m (rm_id (obj m i)) else m)"
  by (auto simp: releaseOnJoinFailure_def room_dropped_def Let_def seated_def)

lemma release_kept:
  assumes inv: "calls_inv w" and t: "t < length (sc_calls w)" and c: "sc_calls w ! t = JoinRelease p i err"
  shows "step_kept runner seedFor w t"
proof -
  let ?m = "sc_manager w"
  let ?m' = "releaseOnJoinFailure ?m i"
  note k = calls_invD[OF inv]
  have ok: "i < length (mg_objs ?m)" "err \<noteq> room_full p" using own_call_ok[OF inv t] c by simp_all
  have f: "mg_objs ?m' = mg_objs ?m" "obj ?m' j = obj ?m j" "mg_players ?m' = mg_players ?m" for j
    by (simp_all add: release_eq)
  have rooms: "map_of (mg_rooms ?m') rid = Some j \<Longrightarrow>
      map_of (mg_rooms ?m) rid = Some j \<and> (seated (obj ?m i) = [] \<longrightarrow> j \<noteq> i)" for rid j
    using objs_invD[OF k(1) ok(1)] books_room[OF k(2), of rid j] by (auto simp: release_eq split: if_splits)
  have "calls_inv (w\<lparr>sc_manager := ?m', sc_calls := (sc_calls w)[t := JoinUnlock p (Inl err)]\<rparr>)"
  proof (rule calls_inv_step[OF inv t])
    show "objs_inv ?m'" using k(1) by (auto simp: release_eq objs_inv_def)
    show "books_inv ?m'" using k(2) by (simp add: release_eq room_dropped_books)
    show "manager_le ?m ?m'" by (auto simp: release_eq manager_le_def)
    show "needed ((sc_calls w)[t := JoinUnlock p (Inl err)]) ?m' j"
      if j: "map_of (mg_rooms ?m') rid = Some j" for rid j
      using k(5)[of rid j] rooms[OF j] c by (intro needed_mono[OF _ t]) (auto simp: f)
    show "has_seat ((sc_calls w)[t := JoinUnlock p (Inl err)]) ?m' j"
      if j: "map_of (mg_rooms ?m') (mg_waiting ?m') = Some j" for j
    proof (rule has_seat_mono[OF _ t])
      have "map_of (mg_rooms ?m) (mg_waiting ?m) = Some j"
        using j books_waiting[OF k(2)] by (auto simp: release_eq split: if_splits)
      then show "has_seat (sc_calls w) ?m j" by (rule k(6))
    qed (use c f in auto)
  qed (use c ok f in auto)
  then show ?thesis using c by (intro step_keptI) simp_all
qed

lemma register_kept:
  assumes inv: "calls_inv w" and t: "t < length (sc_calls w)" and c: "sc_calls w ! t = JoinRegister p i ms"
  shows "step_kept runner seedFor w t"
proof -
  let ?m = "sc_manager w"
  let ?m' = "join_record ?m i p"
  let ?id = "room_name (Suc i)"
  note k = calls_invD[OF inv]
  have ok: "i < length (mg_objs ?m)" "p \<in> set (seated (obj ?m i))" using own_call_ok[OF inv t] c by simp_all
  have id: "rm_id (obj ?m i) = ?id" using objs_invD[OF k(1) ok(1)] by simp
  have f: "mg_objs ?m' = mg_objs ?m" "mg_nextID ?m' = mg_nextID ?m" "mg_rooms ?m' = mg_rooms ?m" "obj ?m' j = obj ?m j"
    "mg_players ?m' = AList.update p ?id (mg_players ?m)"
    "mg_waiting ?m' = (if length (seated (obj ?m i)) \<ge> 2 \<and> mg_waiting ?m = ?id then '''' else mg_waiting ?m)" for j
    by (auto simp: join_record_def Let_def id seated_def)
  have "calls_inv (w\<lparr>sc_manager := ?m', sc_calls := (sc_calls w)[t := JoinUnlock p (Inr ms)]\<rparr>)"
  proof (rule calls_inv_step[OF inv t])
    show "objs_inv ?m'" using k(1) by (simp add: objs_inv_def f)
    have "\<exists>j < length (mg_objs ?m'). rid = room_name (Suc j) \<and> q \<in> set (seated (obj ?m' j))"
      if "map_of (mg_players ?m') q = Some rid" for q rid
      using that books_player[OF k(2), of q rid] ok by (auto simp: f update_conv' split: if_splits)
    then show "books_inv ?m'"
      using k(2) unfolding books_inv_def by (simp add: f gomap_wf_update)
    show "manager_le ?m ?m'" by (simp add: manager_le_def f)
    show "needed ((sc_calls w)[t := JoinUnlock p (Inr ms)]) ?m' j"
      if j: "map_of (mg_rooms ?m') rid = Some j" for rid j
      using k(5)[of rid j] j c by (intro needed_mono[OF _ t]) (auto simp: f)
    show "has_seat ((sc_calls w)[t := JoinUnlock p (Inr ms)]) ?m' j"
      if j: "map_of (mg_rooms ?m') (mg_waiting ?m') = Some j" for j
    proof -
      have w: "mg_waiting ?m' = mg_waiting ?m" using j books_waiting[OF k(2)] by (auto simp: f split: if_splits)
      then have j': "map_of (mg_rooms ?m) (mg_waiting ?m) = Some j" using j by (simp add: f)
      have "length (seated (obj ?m i)) < 2" if "j = i"
        using w that books_room(2)[OF k(2) j'] j books_waiting[OF k(2)] by (auto simp: f split: if_splits)
      then show ?thesis using k(6)[OF j'] c by (intro has_seat_mono[OF _ t]) (auto simp: f)
    qed
  qed (use c f in auto)
  then show ?thesis using c by (intro step_keptI) simp_all
qed

section \<open>The sections of Leave and Close\<close>

lemma leave_lookup_Some:
  "leave_lookup m p = Some (rid, i) \<longleftrightarrow> map_of (mg_players m) p = Some rid \<and> map_of (mg_rooms m) rid = Some i"
  by (auto simp: leave_lookup_def split: option.splits)

lemma lookup_kept:
  assumes inv: "calls_inv w" and t: "t < length (sc_calls w)" and c: "sc_calls w ! t = LeaveLookup p own"
  shows "step_kept runner seedFor w t"
proof (cases "leave_lookup (sc_manager w) p")
  case None
  then show ?thesis using c by (intro step_kept_read[OF inv t]) (auto simp: same_duty_def)
next
  case (Some x)
  obtain rid i where x: "x = (rid, i)" by fastforce
  then have "call_ok (sc_manager w) (LeaveRoom p rid i)"
    using Some books_room[OF calls_invD(2)[OF inv], of rid i] by (simp add: leave_lookup_Some)
  then show ?thesis using c Some x by (intro step_kept_read[OF inv t]) (auto simp: same_duty_def)
qed

lemma leave_kept:
  assumes inv: "calls_inv w" and t: "t < length (sc_calls w)" and c: "sc_calls w ! t = LeaveRoom p rid i"
  shows "step_kept runner seedFor w t"
proof -
  let ?m = "sc_manager w"
  note k = calls_invD[OF inv]
  have i: "i < length (mg_objs ?m)" "rid = room_name (Suc i)" using own_call_ok[OF inv t] c by simp_all
  note o = objs_invD[OF k(1) i(1)]
  show ?thesis
    using o(1)
  proof (cases rule: room_leave_outcome[where p = p])
    case (stranger err)
    then have "call_step runner seedFor ?m (sc_calls w ! t) = Some (?m, Outside)" using c i by simp
    then show ?thesis using c by (intro step_kept_read[OF inv t]) (auto simp: same_duty_def)
  next
    case (left r gone)
    let ?m' = "set_obj i r ?m" and ?c = "if gone then LeaveCleanup p rid i else Outside"
    have r: "room_inv r" "rm_id r = rm_id (obj ?m i)" "seated r = seated (obj ?m i)" "p \<in> set (seated r)"
      "gone \<Longrightarrow> rm_phase r = RoomClosed \<and> \<not> some_connected r" "\<not> gone \<Longrightarrow> some_connected r"
      using left(2) by (auto simp: room_left_def)
    have closed: "rm_phase (obj ?m i) = RoomClosed \<Longrightarrow> rm_phase r = RoomClosed"
      using left(2) by (cases gone) (auto simp: room_left_def)
    have less: "some_connected r \<Longrightarrow> some_connected (obj ?m i)"
      using left(2) by (auto simp: room_left_def some_connected_online)
    have ok: "call_ok ?m' ?c" using i r by simp
    have "calls_inv (w\<lparr>sc_manager := ?m', sc_calls := (sc_calls w)[t := ?c]\<rparr>)"
    proof (rule calls_inv_step[OF inv t _ _ _ _ ok])
      show "objs_inv ?m'" using r by (intro set_obj_objs_inv[OF k(1) i(1)])
      show "books_inv ?m'" using r by (intro set_obj_books_inv[OF k(2) i(1)]) simp
      show "manager_le ?m ?m'" using r closed less by (intro set_obj_le[OF i(1)]) auto
      show "needed ((sc_calls w)[t := ?c]) ?m' j" if j: "map_of (mg_rooms ?m') rid' = Some j" for rid' j
      proof (cases "j = i")
        case True
        show ?thesis
        proof (cases gone)
          case True
          have "?c \<in> set ((sc_calls w)[t := ?c])" using t by (rule own_call)
          then have "\<exists>d \<in> set ((sc_calls w)[t := ?c]). dropping i d" by (rule rev_bexI) (use True in simp)
          then show ?thesis using \<open>j = i\<close> by (simp add: needed_def)
        next
          case False
          then show ?thesis using r(6) i(1) \<open>j = i\<close> by (simp add: needed_def)
        qed
      next
        case False
        have "needed (sc_calls w) ?m j" using k(5) j by simp
        then show ?thesis by (rule needed_mono[OF _ t]) (use False i c in auto)
      qed
      show "has_seat ((sc_calls w)[t := ?c]) ?m' j"
        if j: "map_of (mg_rooms ?m') (mg_waiting ?m') = Some j" for j
      proof -
        have "has_seat (sc_calls w) ?m j" using k(6) j by simp
        then show ?thesis by (rule has_seat_mono[OF _ t]) (use r closed i c in auto)
      qed
    qed (use c r i in simp_all)
    then show ?thesis using c left(1) by (intro step_keptI) simp_all
  qed
qed

lemma leave_cleanup_eq:
  "leave_cleanup m rid i p =
     room_dropped (m\<lparr>mg_players := AList.delete p
       (fold (\<lambda>(player, seated) ps. AList.delete seated ps) (Room_Seats (obj m i)) (mg_players m))\<rparr>) rid"
  by (simp add: leave_cleanup_def room_dropped_def Let_def)

lemma leave_cleanup_players:
  "map_of (mg_players (leave_cleanup m rid i p)) q =
     (if q = p \<or> q \<in> set (seated (obj m i)) then None else map_of (mg_players m) q)"
  by (auto simp: leave_cleanup_eq map_of_fold_delete seated_def)

lemma leave_cleanup_fields:
  "mg_objs (leave_cleanup m rid i p) = mg_objs m" "mg_nextID (leave_cleanup m rid i p) = mg_nextID m"
  "obj (leave_cleanup m rid i p) j = obj m j"
  "map_of (mg_rooms (leave_cleanup m rid i p)) k = (if k = rid then None else map_of (mg_rooms m) k)"
  "mg_waiting (leave_cleanup m rid i p) = (if mg_waiting m = rid then '''' else mg_waiting m)"
  by (simp_all add: leave_cleanup_eq)

lemma leave_cleanup_books:
  assumes "books_inv m"
  shows "books_inv (leave_cleanup m rid i p)"
proof -
  let ?ps = "AList.delete p (fold (\<lambda>(player, seated) ps. AList.delete seated ps) (Room_Seats (obj m i)) (mg_players m))"
  have "books_inv (m\<lparr>mg_players := ?ps\<rparr>)"
    using assms unfolding books_inv_def
    by (simp add: gomap_wf_delete gomap_wf_fold_delete map_of_fold_delete)
  then show ?thesis unfolding leave_cleanup_eq by (rule room_dropped_books)
qed

lemma cleanup_kept:
  assumes inv: "calls_inv w" and t: "t < length (sc_calls w)" and c: "sc_calls w ! t = LeaveCleanup p rid i"
  shows "step_kept runner seedFor w t"
proof -
  let ?m = "sc_manager w"
  let ?m' = "leave_cleanup ?m rid i p"
  note k = calls_invD[OF inv] and f = leave_cleanup_fields[of ?m rid i p]
  have ok: "i < length (mg_objs ?m)" "rid = room_name (Suc i)" using own_call_ok[OF inv t] c by simp_all
  have rooms: "map_of (mg_rooms ?m) rid' = Some j \<and> j \<noteq> i" if "map_of (mg_rooms ?m') rid' = Some j" for rid' j
    using that ok(2) books_room(2)[OF k(2), of rid' j] by (auto simp: leave_cleanup_fields split: if_splits)
  have "calls_inv (w\<lparr>sc_manager := ?m', sc_calls := (sc_calls w)[t := Outside]\<rparr>)"
  proof (rule calls_inv_step[OF inv t])
    show "objs_inv ?m'" using k(1) by (simp add: objs_inv_def f)
    show "books_inv ?m'" using k(2) by (rule leave_cleanup_books)
    show "manager_le ?m ?m'" by (auto simp: manager_le_def f)
    show "needed ((sc_calls w)[t := Outside]) ?m' j" if j: "map_of (mg_rooms ?m') rid' = Some j" for rid' j
      using k(5)[of rid' j] rooms[OF j] c by (intro needed_mono[OF _ t]) (auto simp: f)
    show "has_seat ((sc_calls w)[t := Outside]) ?m' j"
      if j: "map_of (mg_rooms ?m') (mg_waiting ?m') = Some j" for j
    proof -
      have "map_of (mg_rooms ?m) (mg_waiting ?m) = Some j"
        using rooms[OF j] books_waiting[OF k(2)] by (auto simp: f split: if_splits)
      from k(6)[OF this] show ?thesis by (rule has_seat_mono[OF _ t]) (use f c in auto)
    qed
  qed (use c f in auto)
  then show ?thesis using c by (intro step_keptI) simp_all
qed

lemma reset_kept:
  assumes inv: "calls_inv w" and t: "t < length (sc_calls w)" and c: "sc_calls w ! t = CloseReset reason"
  shows "step_kept runner seedFor w t"
proof -
  let ?m = "sc_manager w"
  let ?m' = "?m\<lparr>mg_rooms := [], mg_players := [], mg_waiting := ''''\<rparr>" and ?c = "CloseRooms reason (map snd (mg_rooms ?m))"
  note k = calls_invD[OF inv]
  have "gomap_wf (mg_rooms ?m)" using k(2) by (simp add: books_inv_def)
  then have ok: "call_ok ?m' ?c"
    using books_room(1)[OF k(2)] by (auto simp: list_all_iff gomap_mem_iff)
  have "calls_inv (w\<lparr>sc_manager := ?m', sc_calls := (sc_calls w)[t := ?c]\<rparr>)"
    using k(1) c by (intro calls_inv_step[OF inv t _ _ _ _ ok]) (auto simp: objs_inv_def books_inv_def manager_le_def)
  then show ?thesis using c by (intro step_keptI) (simp_all add: close_reset_def)
qed

lemma close_kept:
  assumes inv: "calls_inv w" and t: "t < length (sc_calls w)" and c: "sc_calls w ! t = CloseRooms reason is"
  shows "step_kept runner seedFor w t"
proof (cases "is")
  case Nil
  then show ?thesis using c by (intro step_kept_read[OF inv t]) (auto simp: same_duty_def)
next
  case (Cons i js)
  let ?m = "sc_manager w"
  note k = calls_invD[OF inv]
  have i: "i < length (mg_objs ?m)" "map_of (mg_rooms ?m) (room_name (Suc i)) = None"
    and js: "call_ok ?m (CloseRooms reason js)"
    using own_call_ok[OF inv t] c Cons by simp_all
  obtain r where r: "room_close reason (obj ?m i) = Some r" "room_emptied (obj ?m i) r"
    using room_close_outcome[OF objs_invD(1)[OF k(1) i(1)]] by blast
  let ?m' = "set_obj i r ?m"
  have e: "room_inv r" "rm_id r = rm_id (obj ?m i)" "seated r = seated (obj ?m i)" "rm_phase r = RoomClosed"
    "\<not> some_connected r"
    using r(2) by (simp_all add: room_emptied_def)
  have live: "j \<noteq> i" if "map_of (mg_rooms ?m) rid = Some j" for rid j
    using books_room(2)[OF k(2) that] i(2) that by auto
  have ok: "call_ok ?m' (CloseRooms reason js)" using js by simp
  have "calls_inv (w\<lparr>sc_manager := ?m', sc_calls := (sc_calls w)[t := CloseRooms reason js]\<rparr>)"
  proof (rule calls_inv_step[OF inv t _ _ _ _ ok])
    show "objs_inv ?m'" using e by (intro set_obj_objs_inv[OF k(1) i(1)])
    show "books_inv ?m'" using e by (intro set_obj_books_inv[OF k(2) i(1)]) simp
    show "manager_le ?m ?m'" using e by (intro set_obj_le[OF i(1)]) simp_all
    show "needed ((sc_calls w)[t := CloseRooms reason js]) ?m' j" if j: "map_of (mg_rooms ?m') rid = Some j" for rid j
      using k(5)[of rid j] live[of rid j] j c i by (intro needed_mono[OF _ t]) auto
    show "has_seat ((sc_calls w)[t := CloseRooms reason js]) ?m' j"
      if j: "map_of (mg_rooms ?m') (mg_waiting ?m') = Some j" for j
      using k(6)[of j] live[of _ j] j c i by (intro has_seat_mono[OF _ t]) auto
  qed (use c e i in simp_all)
  then show ?thesis using c Cons r(1) by (intro step_keptI) simp_all
qed

section \<open>Schedules\<close>

lemma calls_inv_receive:
  assumes inv: "calls_inv w" and i: "i < length (mg_objs (sc_manager w))"
    and r: "room_quiet (obj (sc_manager w) i) r"
  shows "calls_inv (w\<lparr>sc_manager := set_obj i r (sc_manager w)\<rparr>)"
proof -
  let ?m = "sc_manager w"
  let ?m' = "set_obj i r ?m"
  note k = calls_invD[OF inv]
  have sc: "some_connected r = some_connected (obj ?m i)"
    using r by (simp add: room_quiet_def some_connected_online)
  have s: "seated (obj ?m' j) = seated (obj ?m j)" "some_connected (obj ?m' j) = some_connected (obj ?m j)"
    "rm_phase (obj ?m j) = RoomClosed \<Longrightarrow> rm_phase (obj ?m' j) = RoomClosed" for j
    using r i sc by (auto simp: room_quiet_def)
  have le: "manager_le ?m ?m'" using s by (auto simp: manager_le_def)
  have "lock_inv (w\<lparr>sc_manager := ?m'\<rparr>)" using k(3) by (simp add: lock_inv_def)
  moreover have "objs_inv ?m'" using r by (intro set_obj_objs_inv[OF k(1) i]) (simp_all add: room_quiet_def)
  moreover have "books_inv ?m'" using r by (intro set_obj_books_inv[OF k(2) i]) (simp add: room_quiet_def)
  moreover have "call_ok ?m' c" if "c \<in> set (sc_calls w)" for c
    using call_ok_le[OF le k(4)[OF that]] s(1) by blast
  moreover have "needed (sc_calls w) ?m' j" if "map_of (mg_rooms ?m') rid = Some j" for rid j
    using k(5)[of rid j] that s by (simp add: needed_def)
  moreover have "has_seat (sc_calls w) ?m' j" if "map_of (mg_rooms ?m') (mg_waiting ?m') = Some j" for j
    using k(6)[of j] that s(3)[of j] unfolding has_seat_def set_obj_fields s(1) by blast
  ultimately show ?thesis by (simp add: calls_inv_def)
qed

lemma begin_call_read: "same_duty c (begin_call op c)" "call_ok m c \<Longrightarrow> call_ok m (begin_call op c)"
  by (cases "(op, c)" rule: begin_call.cases; simp add: same_duty_def)+

lemma lock_taken:
  assumes inv: "calls_inv w" and t: "t < length (sc_calls w)" and c: "sc_calls w ! t = JoinLock p"
    and free: "sc_joinMu w = None"
  shows "calls_inv (w\<lparr>sc_joinMu := Some t, sc_calls := (sc_calls w)[t := JoinChoose p]\<rparr>)"
proof -
  let ?cs = "(sc_calls w)[t := JoinChoose p]"
  note k = calls_invD[OF inv]
  have "lock_inv (w\<lparr>sc_joinMu := Some t, sc_calls := ?cs\<rparr>)"
    using k(3) t free by (auto simp: lock_inv_def nth_list_update)
  moreover have "call_ok (sc_manager w) d" if "d \<in> set ?cs" for d
    using set_update_subset_insert[of "sc_calls w" t "JoinChoose p"] that k(4)[of d] by auto
  moreover have "needed ?cs (sc_manager w) j" if "map_of (mg_rooms (sc_manager w)) rid = Some j" for rid j
    using k(5)[OF that] c by (intro needed_mono[OF _ t]) auto
  moreover have "has_seat ?cs (sc_manager w) j"
    if "map_of (mg_rooms (sc_manager w)) (mg_waiting (sc_manager w)) = Some j" for j
    using k(6)[OF that] c by (intro has_seat_mono[OF _ t]) auto
  ultimately show ?thesis using k(1,2) by (simp add: calls_inv_def)
qed

lemma lock_given:
  assumes inv: "calls_inv w" and t: "t < length (sc_calls w)" and c: "sc_calls w ! t = JoinUnlock p result"
    and c': "\<not> in_join c'" "call_ok (sc_manager w) c'"
  shows "calls_inv (w\<lparr>sc_joinMu := None, sc_calls := (sc_calls w)[t := c']\<rparr>)"
proof -
  let ?cs = "(sc_calls w)[t := c']"
  note k = calls_invD[OF inv]
  have held: "sc_joinMu w = Some t" using k(3) t c by (auto simp: lock_inv_def)
  then have "lock_inv (w\<lparr>sc_joinMu := None, sc_calls := ?cs\<rparr>)"
    using k(3) c' by (auto simp: lock_inv_def nth_list_update)
  moreover have "call_ok (sc_manager w) d" if "d \<in> set ?cs" for d
    using set_update_subset_insert[of "sc_calls w" t c'] that k(4)[of d] c' by auto
  moreover have "needed ?cs (sc_manager w) j" if "map_of (mg_rooms (sc_manager w)) rid = Some j" for rid j
    using k(5)[OF that] c by (intro needed_mono[OF _ t]) auto
  moreover have "has_seat ?cs (sc_manager w) j"
    if "map_of (mg_rooms (sc_manager w)) (mg_waiting (sc_manager w)) = Some j" for j
    using k(6)[OF that] c by (intro has_seat_mono[OF _ t]) auto
  ultimately show ?thesis using k(1,2) by (simp add: calls_inv_def)
qed

lemma advance_section:
  assumes "\<forall>p result. sc_calls w ! t \<noteq> JoinLock p \<and> sc_calls w ! t \<noteq> JoinUnlock p result"
  shows "advance_call runner seedFor w t =
    (case call_step runner seedFor (sc_manager w) (sc_calls w ! t) of
       None \<Rightarrow> None
     | Some (m, c') \<Rightarrow> Some (w\<lparr>sc_manager := m, sc_calls := (sc_calls w)[t := c']\<rparr>))"
  using assms by (cases "sc_calls w ! t") (simp_all add: advance_call_def del: call_step.simps)

context rules_runner
begin

lemma call_step_kept:
  assumes inv: "calls_inv w" and t: "t < length (sc_calls w)"
  shows "step_kept eval seedFor w t"
proof (cases "sc_calls w ! t")
  case (SubmitLookup p own rid x)
  show ?thesis
  proof (cases "submit_lookup (sc_manager w) rid p")
    case (Inl resp)
    then show ?thesis using SubmitLookup by (intro step_kept_read[OF inv t]) (auto simp: same_duty_def)
  next
    case (Inr i)
    then have "map_of (mg_rooms (sc_manager w)) rid = Some i"
      by (auto simp: submit_lookup_def split: option.splits if_splits)
    then have "i < length (mg_objs (sc_manager w))" using books_room(1)[OF calls_invD(2)[OF inv]] by blast
    then show ?thesis using SubmitLookup Inr by (intro step_kept_read[OF inv t]) (auto simp: same_duty_def)
  qed
next
  case (SubmitReturn p own result)
  then show ?thesis by (intro step_kept_read[OF inv t]) (auto simp: same_duty_def)
next
  case (JoinLock p)
  then show ?thesis by (intro step_kept_read[OF inv t]) (auto simp: same_duty_def)
next
  case (JoinUnlock p result)
  then show ?thesis using own_call_ok[OF inv t] by (intro step_kept_read[OF inv t]) (auto simp: same_duty_def)
next
  case Outside
  then show ?thesis by (intro step_kept_read[OF inv t]) (auto simp: same_duty_def)
next
  case (Inside p own)
  then show ?thesis by (intro step_kept_read[OF inv t]) (auto simp: same_duty_def)
qed (erule choose_kept[OF inv t] seat_kept[OF inv t] release_kept[OF inv t] register_kept[OF inv t]
      submit_kept[OF inv t] lookup_kept[OF inv t] leave_kept[OF inv t] cleanup_kept[OF inv t]
      reset_kept[OF inv t] close_kept[OF inv t])+

lemma advance_kept:
  assumes inv: "calls_inv w" and t: "t < length (sc_calls w)"
  shows "\<exists>w'. advance_call eval seedFor w t = Some w' \<and> calls_inv w' \<and> length (sc_calls w') = length (sc_calls w)"
proof -
  consider (lock) p where "sc_calls w ! t = JoinLock p" | (unlock) p result where "sc_calls w ! t = JoinUnlock p result"
    | (work) "\<forall>p result. sc_calls w ! t \<noteq> JoinLock p \<and> sc_calls w ! t \<noteq> JoinUnlock p result"
    by blast
  then show ?thesis
  proof cases
    case lock
    then show ?thesis using inv lock_taken[OF inv t lock] by (simp add: advance_call_def)
  next
    case unlock
    let ?c = "case result of Inl err \<Rightarrow> Outside | Inr ms \<Rightarrow> Inside p (ms_RoomID ms)"
    have "calls_inv (w\<lparr>sc_joinMu := None, sc_calls := (sc_calls w)[t := ?c]\<rparr>)"
      by (rule lock_given[OF inv t unlock]) (simp_all split: sum.split)
    then show ?thesis using unlock by (simp add: advance_call_def)
  next
    case work
    obtain m' c' where s: "call_step eval seedFor (sc_manager w) (sc_calls w ! t) = Some (m', c')"
      "calls_inv (w\<lparr>sc_manager := m', sc_calls := (sc_calls w)[t := c']\<rparr>)"
      using call_step_kept[OF inv t, of seedFor] by (auto simp: step_kept_def)
    have "advance_call eval seedFor w t = Some (w\<lparr>sc_manager := m', sc_calls := (sc_calls w)[t := c']\<rparr>)"
      using s(1) advance_section[OF work] by simp
    then show ?thesis using s(2) by simp
  qed
qed

end

lemma calls_exec_kept:
  assumes inv: "calls_inv w"
  shows "\<exists>w'. calls_exec seedFor w x = Some w' \<and> calls_inv w' \<and> length (sc_calls w') = length (sc_calls w)"
proof (cases x)
  case (Begin t op)
  show ?thesis
  proof (cases "t < length (sc_calls w)")
    case True
    then show ?thesis
      using Begin calls_inv_read[OF inv True begin_call_read(1) begin_call_read(2)[OF own_call_ok[OF inv True]], of op]
      by simp
  qed (use Begin inv in simp)
next
  case (Advance t fails)
  then show ?thesis using engine.advance_kept[OF inv] inv by (cases "t < length (sc_calls w)") simp_all
next
  case (Receive i k)
  then show ?thesis
    using inv calls_inv_receive[OF inv _ room_recv_quiet[OF objs_invD(1)[OF calls_invD(1)[OF inv]]]] by simp
qed

lemma calls_run_kept:
  "calls_inv w \<Longrightarrow> \<exists>w'. calls_run seedFor w xs = Some w' \<and> calls_inv w' \<and> length (sc_calls w') = length (sc_calls w)"
proof (induction xs arbitrary: w)
  case (Cons x xs)
  obtain w1 where w1: "calls_exec seedFor w x = Some w1" "calls_inv w1" "length (sc_calls w1) = length (sc_calls w)"
    using calls_exec_kept[OF Cons.prems] by blast
  with Cons.IH[OF w1(2)] show ?case by simp
qed simp

lemma calls_run_append:
  "calls_run seedFor w (xs @ ys) = Option.bind (calls_run seedFor w xs) (\<lambda>w'. calls_run seedFor w' ys)"
  by (induction xs arbitrary: w) (auto split: option.splits)

section \<open>Every call can be finished\<close>

text \<open>The sections that a call has still to run when nobody else runs.\<close>

fun call_work :: "manager \<Rightarrow> call \<Rightarrow> nat" where
  "call_work m (JoinLock p) = 5"
| "call_work m (JoinChoose p) = 4"
| "call_work m (JoinSeat p i) = 3"
| "call_work m (JoinRelease p i err) = 2"
| "call_work m (JoinRegister p i ms) = 2"
| "call_work m (JoinUnlock p result) = 1"
| "call_work m (SubmitLookup p own rid c) = 3"
| "call_work m (SubmitRoom p own i c) = 2"
| "call_work m (SubmitReturn p own result) = 1"
| "call_work m (LeaveLookup p own) = 3"
| "call_work m (LeaveRoom p rid i) = 2"
| "call_work m (LeaveCleanup p rid i) = 1"
| "call_work m (CloseReset reason) = 2 + length (mg_rooms m)"
| "call_work m (CloseRooms reason is) = 1 + length is"
| "call_work m c = 0"

lemma call_work_rest: "call_work m c = 0 \<longleftrightarrow> at_rest c"
  by (cases c) simp_all

lemma call_step_work:
  assumes "call_step runner seedFor m c = Some (m', c')" "\<not> at_rest c"
    "\<forall>p result. c \<noteq> JoinLock p \<and> c \<noteq> JoinUnlock p result"
  shows "call_work m' c' < call_work m c" "\<forall>p. c' \<noteq> JoinLock p"
  using assms
  by (cases "(runner, seedFor, m, c)" rule: call_step.cases;
      auto simp: close_reset_def elim!: close_section.elims
        split: prod.splits option.splits sum.splits if_splits)+

definition ready :: "server_calls \<Rightarrow> nat \<Rightarrow> bool" where
  "ready w t \<longleftrightarrow> (sc_joinMu w = None \<or> (\<forall>p. sc_calls w ! t \<noteq> JoinLock p))"

lemma advance_works:
  assumes inv: "calls_inv w" and t: "t < length (sc_calls w)" and c: "\<not> at_rest (sc_calls w ! t)" "ready w t"
  shows "\<exists>w' c'. advance_call (engine_runner fails) seedFor w t = Some w' \<and> calls_inv w' \<and> ready w' t \<and>
    sc_calls w' = (sc_calls w)[t := c'] \<and>
    call_work (sc_manager w') c' < call_work (sc_manager w) (sc_calls w ! t)"
proof -
  obtain w' where w': "advance_call (engine_runner fails) seedFor w t = Some w'" "calls_inv w'"
    using engine.advance_kept[OF inv t] by blast
  consider (lock) p where "sc_calls w ! t = JoinLock p" | (unlock) p result where "sc_calls w ! t = JoinUnlock p result"
    | (work) "\<forall>p result. sc_calls w ! t \<noteq> JoinLock p \<and> sc_calls w ! t \<noteq> JoinUnlock p result"
    by blast
  then show ?thesis
  proof cases
    case lock
    then have "w' = w\<lparr>sc_joinMu := Some t, sc_calls := (sc_calls w)[t := JoinChoose p]\<rparr>"
      using w'(1) c(2) by (simp add: advance_call_def ready_def)
    then show ?thesis using w' lock t by (intro exI[of _ w'] exI[of _ "JoinChoose p"]) (simp add: ready_def)
  next
    case unlock
    let ?c = "case result of Inl err \<Rightarrow> Outside | Inr ms \<Rightarrow> Inside p (ms_RoomID ms)"
    have "w' = w\<lparr>sc_joinMu := None, sc_calls := (sc_calls w)[t := ?c]\<rparr>"
      using w'(1) unlock by (simp add: advance_call_def)
    then show ?thesis
      using w' unlock t by (intro exI[of _ w'] exI[of _ ?c]) (simp add: ready_def split: sum.split)
  next
    case work
    obtain m' c' where s: "call_step (engine_runner fails) seedFor (sc_manager w) (sc_calls w ! t) = Some (m', c')"
      "w' = w\<lparr>sc_manager := m', sc_calls := (sc_calls w)[t := c']\<rparr>"
      using w'(1) advance_section[OF work] by (auto split: option.splits)
    note k = call_step_work[OF s(1) c(1) work]
    show ?thesis using w' s(2) k t by (intro exI[of _ w'] exI[of _ c']) (simp add: ready_def)
  qed
qed

lemma call_finishes:
  assumes "calls_inv w" "t < length (sc_calls w)" "ready w t"
  shows "\<exists>k w' c'. calls_run seedFor w (replicate k (Advance t fails)) = Some w' \<and> calls_inv w' \<and>
    sc_calls w' = (sc_calls w)[t := c'] \<and> at_rest c'"
  using assms
proof (induction "call_work (sc_manager w) (sc_calls w ! t)" arbitrary: w rule: less_induct)
  case less
  show ?case
  proof (cases "at_rest (sc_calls w ! t)")
    case True
    have "calls_run seedFor w (replicate 0 (Advance t fails)) = Some w" by simp
    then show ?thesis using less.prems True by (metis list_update_id)
  next
    case False
    obtain w1 c1 where w1: "advance_call (engine_runner fails) seedFor w t = Some w1" "calls_inv w1" "ready w1 t"
      "sc_calls w1 = (sc_calls w)[t := c1]" "call_work (sc_manager w1) c1 < call_work (sc_manager w) (sc_calls w ! t)"
      using advance_works[OF less.prems(1,2) False less.prems(3)] by blast
    have t1: "t < length (sc_calls w1)" "sc_calls w1 ! t = c1" using less.prems(2) w1(4) by simp_all
    obtain k w' c' where w': "calls_run seedFor w1 (replicate k (Advance t fails)) = Some w'" "calls_inv w'"
      "sc_calls w' = (sc_calls w1)[t := c']" "at_rest c'"
      using less.hyps[of w1] w1 t1 by auto
    have "calls_run seedFor w (replicate (Suc k) (Advance t fails)) = Some w'"
      using w'(1) w1(1) less.prems(2) by simp
    moreover have "sc_calls w' = (sc_calls w)[t := c']" using w'(3) w1(4) by simp
    ultimately show ?thesis using w'(2,4) by blast
  qed
qed

fun advances :: "action \<Rightarrow> bool" where
  "advances (Advance t fails) = True"
| "advances x = False"

lemma unrest_less:
  "t < length cs \<Longrightarrow> \<not> at_rest (cs ! t) \<Longrightarrow> at_rest c' \<Longrightarrow>
   length (filter (\<lambda>c. \<not> at_rest c) (cs[t := c'])) < length (filter (\<lambda>c. \<not> at_rest c) cs)"
proof (induction cs arbitrary: t)
  case (Cons c cs)
  then show ?case by (cases t) simp_all
qed simp

lemma some_ready:
  assumes inv: "calls_inv w" and busy: "\<not> calls_quiet w"
  shows "\<exists>t < length (sc_calls w). \<not> at_rest (sc_calls w ! t) \<and> ready w t"
proof (cases "sc_joinMu w")
  case None
  then show ?thesis using busy by (auto simp: calls_quiet_def ready_def list_all_length)
next
  case (Some t)
  then have "t < length (sc_calls w)" "in_join (sc_calls w ! t)"
    using calls_invD(3)[OF inv] by (auto simp: lock_inv_def)
  then show ?thesis by (intro exI[of _ t]) (cases "sc_calls w ! t"; simp add: ready_def)
qed

text \<open>There is no deadlock: whatever is under way, the calls can be advanced until all have returned.\<close>

lemma calls_finish:
  assumes "calls_inv w"
  shows "\<exists>xs w'. list_all advances xs \<and> calls_run seedFor w xs = Some w' \<and> calls_inv w' \<and> calls_quiet w'"
  using assms
proof (induction "length (filter (\<lambda>c. \<not> at_rest c) (sc_calls w))" arbitrary: w rule: less_induct)
  case less
  show ?case
  proof (cases "calls_quiet w")
    case True
    have "list_all advances [] \<and> calls_run seedFor w [] = Some w" by simp
    then show ?thesis using less.prems True by blast
  next
    case False
    obtain t where t: "t < length (sc_calls w)" "\<not> at_rest (sc_calls w ! t)" "ready w t"
      using some_ready[OF less.prems False] by blast
    obtain k w1 c1 where w1: "calls_run seedFor w (replicate k (Advance t (\<lambda>_. None))) = Some w1" "calls_inv w1"
      "sc_calls w1 = (sc_calls w)[t := c1]" "at_rest c1"
      using call_finishes[OF less.prems t(1,3)] by blast
    have "length (filter (\<lambda>c. \<not> at_rest c) (sc_calls w1)) < length (filter (\<lambda>c. \<not> at_rest c) (sc_calls w))"
      using unrest_less[OF t(1,2) w1(4)] w1(3) by simp
    from less.hyps[OF this w1(2)] obtain xs w' where xs: "list_all advances xs" "calls_run seedFor w1 xs = Some w'"
      "calls_inv w'" "calls_quiet w'"
      by blast
    have "list_all advances (replicate k (Advance t (\<lambda>_. None)) @ xs)"
      using xs(1) by (auto simp: list_all_iff)
    moreover have "calls_run seedFor w (replicate k (Advance t (\<lambda>_. None)) @ xs) = Some w'"
      using w1(1) xs(2) by (simp add: calls_run_append)
    ultimately show ?thesis using xs(3,4) by blast
  qed
qed

end
