(* ===== verification/Connections.thy ===== *)
theory Connections
  imports CallsLemmas
begin

text \<open>
  The connections of a server that is not shutting down. Whatever the interleaving of their calls,
  the rooms and the connections belong together: between calls the manager's books are exactly the
  ones of the calls run one after the other, and without connections nothing is left.
\<close>

section \<open>Connections and rooms\<close>

text \<open>The player and the room that a connection stands for, from the moment it has the seat until it gives it up.\<close>

fun owner :: "call \<Rightarrow> (string \<times> string) option" where
  "owner (JoinRegister p i ms) = Some (p, ms_RoomID ms)"
| "owner (JoinUnlock p (Inr ms)) = Some (p, ms_RoomID ms)"
| "owner (Inside p own) = Some (p, own)"
| "owner (SubmitLookup p own rid c) = Some (p, own)"
| "owner (SubmitRoom p own i c) = Some (p, own)"
| "owner (SubmitReturn p own result) = Some (p, own)"
| "owner (LeaveLookup p own) = Some (p, own)"
| "owner (LeaveRoom p rid i) = Some (p, rid)"
| "owner c = None"

fun registers :: "string \<Rightarrow> nat \<Rightarrow> call \<Rightarrow> bool" where
  "registers q i (JoinRegister p j ms) = (q = p \<and> i = j)"
| "registers q i c = False"

fun closing :: "call \<Rightarrow> bool" where
  "closing (CloseReset reason) = True"
| "closing (CloseRooms reason is) = True"
| "closing c = False"

text \<open>A connection's player is connected to its room, and every connected player has one connection.\<close>

definition owners_inv :: "manager \<Rightarrow> call list \<Rightarrow> bool" where
  "owners_inv m cs \<longleftrightarrow>
     (\<forall>c \<in> set cs. \<forall>p rid. owner c = Some (p, rid) \<longrightarrow>
        (\<exists>i. map_of (mg_rooms m) rid = Some i \<and> online (obj m i) p)) \<and>
     (\<forall>t u p q r1 r2. t < length cs \<longrightarrow> u < length cs \<longrightarrow> t \<noteq> u \<longrightarrow> owner (cs ! t) = Some (p, r1) \<longrightarrow>
        owner (cs ! u) = Some (q, r2) \<longrightarrow> p \<noteq> q) \<and>
     (\<forall>rid i q. map_of (mg_rooms m) rid = Some i \<longrightarrow> online (obj m i) q \<longrightarrow>
        (\<exists>c \<in> set cs. owner c = Some (q, rid)))"

text \<open>Who sits in a room that is kept is registered with it, or about to be.\<close>

definition seats_inv :: "manager \<Rightarrow> call list \<Rightarrow> bool" where
  "seats_inv m cs \<longleftrightarrow>
     (\<forall>rid i q. map_of (mg_rooms m) rid = Some i \<longrightarrow> q \<in> set (seated (obj m i)) \<longrightarrow>
        map_of (mg_players m) q = Some rid \<or> (\<exists>c \<in> set cs. registers q i c)) \<and>
     (\<forall>p i ms. JoinRegister p i ms \<in> set cs \<longrightarrow>
        map_of (mg_players m) p = None \<or> map_of (mg_players m) p = Some (room_name (Suc i))) \<and>
     (\<forall>p i. JoinSeat p i \<in> set cs \<longrightarrow> p \<in> set (seated (obj m i)) \<or> map_of (mg_players m) p = None) \<and>
     (\<forall>q rid. map_of (mg_players m) q = Some rid \<longrightarrow> map_of (mg_rooms m) rid \<noteq> None)"

text \<open>Rooms are dropped once, and only after everybody has left.\<close>

definition drops_inv :: "manager \<Rightarrow> call list \<Rightarrow> bool" where
  "drops_inv m cs \<longleftrightarrow>
     (\<forall>p rid i. LeaveCleanup p rid i \<in> set cs \<longrightarrow> map_of (mg_rooms m) rid = Some i) \<and>
     (\<forall>t u i. t < length cs \<longrightarrow> u < length cs \<longrightarrow> dropping i (cs ! t) \<longrightarrow> dropping i (cs ! u) \<longrightarrow> t = u) \<and>
     (\<forall>i < length (mg_objs m). map_of (mg_rooms m) (room_name (Suc i)) = None \<longrightarrow>
        rm_phase (obj m i) = RoomClosed \<and> \<not> some_connected (obj m i)) \<and>
     (\<forall>i < length (mg_objs m). rm_phase (obj m i) = RoomClosed \<longrightarrow> seated (obj m i) \<noteq> []) \<and>
     (\<forall>p i err. JoinRelease p i err \<in> set cs \<longrightarrow> seated (obj m i) \<noteq> [])"

text \<open>The room that waits for a player.\<close>

definition waits_inv :: "manager \<Rightarrow> call list \<Rightarrow> bool" where
  "waits_inv m cs \<longleftrightarrow>
     (\<forall>rid i. map_of (mg_rooms m) rid = Some i \<longrightarrow> rm_phase (obj m i) = RoomWaiting \<longrightarrow> mg_waiting m = rid) \<and>
     (\<forall>i. map_of (mg_rooms m) (mg_waiting m) = Some i \<longrightarrow>
        rm_phase (obj m i) = RoomWaiting \<or> (\<exists>c \<in> set cs. dropping i c) \<or>
        length (seated (obj m i)) \<ge> 2 \<and> (\<exists>c \<in> set cs. registering i c))"

definition conns_inv :: "manager \<Rightarrow> call list \<Rightarrow> bool" where
  "conns_inv m cs \<longleftrightarrow>
     (\<forall>c \<in> set cs. \<not> closing c) \<and> owners_inv m cs \<and> seats_inv m cs \<and> drops_inv m cs \<and> waits_inv m cs"

definition server_inv :: "server_calls \<Rightarrow> bool" where
  "server_inv w \<longleftrightarrow> calls_inv w \<and> conns_inv (sc_manager w) (sc_calls w)"

lemma owners_invD:
  assumes "owners_inv m cs"
  shows "c \<in> set cs \<Longrightarrow> owner c = Some (p, rid) \<Longrightarrow> \<exists>i. map_of (mg_rooms m) rid = Some i \<and> online (obj m i) p"
    "t < length cs \<Longrightarrow> u < length cs \<Longrightarrow> t \<noteq> u \<Longrightarrow> owner (cs ! t) = Some (p, r1) \<Longrightarrow>
       owner (cs ! u) = Some (q, r2) \<Longrightarrow> p \<noteq> q"
    "map_of (mg_rooms m) rid = Some i \<Longrightarrow> online (obj m i) q \<Longrightarrow> \<exists>c \<in> set cs. owner c = Some (q, rid)"
  using assms unfolding owners_inv_def by - (elim conjE, (blast | metis))+

lemma seats_invD:
  assumes "seats_inv m cs"
  shows "map_of (mg_rooms m) rid = Some i \<Longrightarrow> q \<in> set (seated (obj m i)) \<Longrightarrow>
       map_of (mg_players m) q = Some rid \<or> (\<exists>c \<in> set cs. registers q i c)"
    "JoinRegister p i ms \<in> set cs \<Longrightarrow>
       map_of (mg_players m) p = None \<or> map_of (mg_players m) p = Some (room_name (Suc i))"
    "JoinSeat p i \<in> set cs \<Longrightarrow> p \<in> set (seated (obj m i)) \<or> map_of (mg_players m) p = None"
    "map_of (mg_players m) q = Some rid \<Longrightarrow> map_of (mg_rooms m) rid \<noteq> None"
  using assms unfolding seats_inv_def by - (elim conjE, (blast | metis))+

lemma drops_invD:
  assumes "drops_inv m cs"
  shows "LeaveCleanup p rid i \<in> set cs \<Longrightarrow> map_of (mg_rooms m) rid = Some i"
    "t < length cs \<Longrightarrow> u < length cs \<Longrightarrow> dropping i (cs ! t) \<Longrightarrow> dropping i (cs ! u) \<Longrightarrow> t = u"
    "i < length (mg_objs m) \<Longrightarrow> map_of (mg_rooms m) (room_name (Suc i)) = None \<Longrightarrow>
       rm_phase (obj m i) = RoomClosed \<and> \<not> some_connected (obj m i)"
    "i < length (mg_objs m) \<Longrightarrow> rm_phase (obj m i) = RoomClosed \<Longrightarrow> seated (obj m i) \<noteq> []"
    "JoinRelease p i err \<in> set cs \<Longrightarrow> seated (obj m i) \<noteq> []"
  using assms unfolding drops_inv_def by - (elim conjE, (blast | metis))+

lemma waits_invD:
  assumes "waits_inv m cs"
  shows "map_of (mg_rooms m) rid = Some i \<Longrightarrow> rm_phase (obj m i) = RoomWaiting \<Longrightarrow> mg_waiting m = rid"
    "map_of (mg_rooms m) (mg_waiting m) = Some i \<Longrightarrow>
       rm_phase (obj m i) = RoomWaiting \<or> (\<exists>c \<in> set cs. dropping i c) \<or>
       length (seated (obj m i)) \<ge> 2 \<and> (\<exists>c \<in> set cs. registering i c)"
  using assms unfolding waits_inv_def by - (elim conjE, (blast | metis))+

lemma owners_invI:
  assumes "\<And>c p rid. c \<in> set cs \<Longrightarrow> owner c = Some (p, rid) \<Longrightarrow>
      \<exists>i. map_of (mg_rooms m) rid = Some i \<and> online (obj m i) p"
    and "\<And>t u p q r1 r2. t < length cs \<Longrightarrow> u < length cs \<Longrightarrow> t \<noteq> u \<Longrightarrow> owner (cs ! t) = Some (p, r1) \<Longrightarrow>
       owner (cs ! u) = Some (q, r2) \<Longrightarrow> p \<noteq> q"
    and "\<And>rid i q. map_of (mg_rooms m) rid = Some i \<Longrightarrow> online (obj m i) q \<Longrightarrow>
      \<exists>c \<in> set cs. owner c = Some (q, rid)"
  shows "owners_inv m cs"
  unfolding owners_inv_def by (intro conjI allI ballI impI; rule assms; assumption)

lemma seats_invI:
  assumes "\<And>rid i q. map_of (mg_rooms m) rid = Some i \<Longrightarrow> q \<in> set (seated (obj m i)) \<Longrightarrow>
       map_of (mg_players m) q = Some rid \<or> (\<exists>c \<in> set cs. registers q i c)"
    and "\<And>p i ms. JoinRegister p i ms \<in> set cs \<Longrightarrow>
       map_of (mg_players m) p = None \<or> map_of (mg_players m) p = Some (room_name (Suc i))"
    and "\<And>p i. JoinSeat p i \<in> set cs \<Longrightarrow> p \<in> set (seated (obj m i)) \<or> map_of (mg_players m) p = None"
    and "\<And>q rid. map_of (mg_players m) q = Some rid \<Longrightarrow> map_of (mg_rooms m) rid \<noteq> None"
  shows "seats_inv m cs"
  unfolding seats_inv_def by (intro conjI allI impI; rule assms; assumption)

lemma drops_invI:
  assumes "\<And>p rid i. LeaveCleanup p rid i \<in> set cs \<Longrightarrow> map_of (mg_rooms m) rid = Some i"
    and "\<And>t u i. t < length cs \<Longrightarrow> u < length cs \<Longrightarrow> dropping i (cs ! t) \<Longrightarrow> dropping i (cs ! u) \<Longrightarrow> t = u"
    and "\<And>i. i < length (mg_objs m) \<Longrightarrow> map_of (mg_rooms m) (room_name (Suc i)) = None \<Longrightarrow>
       rm_phase (obj m i) = RoomClosed \<and> \<not> some_connected (obj m i)"
    and "\<And>i. i < length (mg_objs m) \<Longrightarrow> rm_phase (obj m i) = RoomClosed \<Longrightarrow> seated (obj m i) \<noteq> []"
    and "\<And>p i err. JoinRelease p i err \<in> set cs \<Longrightarrow> seated (obj m i) \<noteq> []"
  shows "drops_inv m cs"
  unfolding drops_inv_def
  by (intro conjI allI impI;
    (rule assms(1,2,4,5) assms(3)[THEN conjunct1] assms(3)[THEN conjunct2], assumption+))

lemma waits_invI:
  assumes "\<And>rid i. map_of (mg_rooms m) rid = Some i \<Longrightarrow> rm_phase (obj m i) = RoomWaiting \<Longrightarrow> mg_waiting m = rid"
    and "\<And>i. map_of (mg_rooms m) (mg_waiting m) = Some i \<Longrightarrow>
       rm_phase (obj m i) = RoomWaiting \<or> (\<exists>c \<in> set cs. dropping i c) \<or>
       length (seated (obj m i)) \<ge> 2 \<and> (\<exists>c \<in> set cs. registering i c)"
  shows "waits_inv m cs"
  unfolding waits_inv_def by (intro conjI allI impI; rule assms; assumption)

lemma upd_member: "c \<in> set (cs[t := c']) \<Longrightarrow> c = c' \<or> c \<in> set cs"
  using set_update_subset_insert[of cs t c'] by blast

lemma calls_start_server: "server_inv (calls_start n)"
proof -
  have "owner (replicate n Outside ! t) = None" "\<not> dropping i (replicate n Outside ! t)" if "t < n" for t i
    using that by simp_all
  then have "conns_inv NewManager (replicate n Outside)"
    by (auto simp: conns_inv_def owners_inv_def seats_inv_def drops_inv_def waits_inv_def NewManager_def)
  then show ?thesis using calls_start_inv[of n] by (simp add: server_inv_def calls_start_def)
qed

subsection \<open>Sections that leave the members of all rooms as they are\<close>

definition same_view :: "manager \<Rightarrow> manager \<Rightarrow> bool" where
  "same_view m m' \<longleftrightarrow>
     length (mg_objs m') = length (mg_objs m) \<and> mg_rooms m' = mg_rooms m \<and> mg_waiting m' = mg_waiting m \<and>
     map_of (mg_players m') = map_of (mg_players m) \<and>
     (\<forall>j. seated (obj m' j) = seated (obj m j) \<and> online (obj m' j) = online (obj m j) \<and>
        (rm_phase (obj m j) = RoomClosed \<longrightarrow> rm_phase (obj m' j) = RoomClosed) \<and>
        (rm_phase (obj m' j) = RoomWaiting) = (rm_phase (obj m j) = RoomWaiting) \<and>
        (rm_phase (obj m' j) = RoomClosed \<longrightarrow> rm_phase (obj m j) = RoomClosed \<or> seated (obj m j) \<noteq> []))"

lemma same_view_refl [simp]: "same_view m m"
  by (simp add: same_view_def)

lemma same_view_quiet:
  assumes "i < length (mg_objs m)" "room_quiet (obj m i) r"
  shows "same_view m (set_obj i r m)"
  using assms by (auto simp: same_view_def room_quiet_def)

lemma conns_inv_view:
  assumes inv: "conns_inv m cs" and view: "same_view m m'"
  shows "conns_inv m' cs"
proof -
  have v: "length (mg_objs m') = length (mg_objs m)" "mg_rooms m' = mg_rooms m" "mg_waiting m' = mg_waiting m"
    "map_of (mg_players m') = map_of (mg_players m)" "seated (obj m' j) = seated (obj m j)"
    "online (obj m' j) = online (obj m j)" "some_connected (obj m' j) = some_connected (obj m j)"
    "rm_phase (obj m j) = RoomClosed \<Longrightarrow> rm_phase (obj m' j) = RoomClosed"
    "(rm_phase (obj m' j) = RoomWaiting) = (rm_phase (obj m j) = RoomWaiting)"
    "rm_phase (obj m' j) = RoomClosed \<Longrightarrow> rm_phase (obj m j) = RoomClosed \<or> seated (obj m j) \<noteq> []" for j
    using view by (auto simp: same_view_def some_connected_online)
  have I: "\<forall>c \<in> set cs. \<not> closing c" "owners_inv m cs" "seats_inv m cs" "drops_inv m cs" "waits_inv m cs"
    using inv by (simp_all add: conns_inv_def)
  have "owners_inv m' cs" using I(2) unfolding owners_inv_def v .
  moreover have "seats_inv m' cs" using I(3) unfolding seats_inv_def v .
  moreover have "waits_inv m' cs" using I(5) unfolding waits_inv_def v .
  moreover have "drops_inv m' cs"
  proof (rule drops_invI, unfold v(1-7))
    show "rm_phase (obj m' i) = RoomClosed \<and> \<not> some_connected (obj m i)"
      if "i < length (mg_objs m)" "map_of (mg_rooms m) (room_name (Suc i)) = None" for i
      using drops_invD(3)[OF I(4) that] v(8) by blast
    show "seated (obj m i) \<noteq> []" if "i < length (mg_objs m)" "rm_phase (obj m' i) = RoomClosed" for i
      using that v(10)[of i] drops_invD(4)[OF I(4), of i] by blast
  qed (rule drops_invD(1,2,5)[OF I(4)]; assumption)+
  ultimately show ?thesis using I(1) by (simp add: conns_inv_def)
qed

text \<open>Calls whose next step is neither registered nor announced anywhere.\<close>

fun plain :: "call \<Rightarrow> bool" where
  "plain (JoinSeat p i) = False"
| "plain (JoinRelease p i err) = False"
| "plain (JoinRegister p i ms) = False"
| "plain (LeaveCleanup p rid i) = False"
| "plain c = (\<not> closing c)"

text \<open>\<open>on_line m rid q\<close>: the manager keeps room \<open>rid\<close> and \<open>q\<close> is connected to it.\<close>

definition on_line :: "manager \<Rightarrow> string \<Rightarrow> string \<Rightarrow> bool" where
  "on_line m rid q \<longleftrightarrow> (\<exists>i. map_of (mg_rooms m) rid = Some i \<and> online (obj m i) q)"

lemma owners_on_line:
  assumes "owners_inv m cs"
  shows "c \<in> set cs \<Longrightarrow> owner c = Some (p, rid) \<Longrightarrow> on_line m rid p"
    "on_line m rid q \<Longrightarrow> \<exists>c \<in> set cs. owner c = Some (q, rid)"
  using owners_invD(1,3)[OF assms] by (auto simp: on_line_def)

lemma owners_inv_on_lineI:
  assumes "\<And>c p rid. c \<in> set cs \<Longrightarrow> owner c = Some (p, rid) \<Longrightarrow> on_line m rid p"
    and "\<And>t u p q r1 r2. t < length cs \<Longrightarrow> u < length cs \<Longrightarrow> t \<noteq> u \<Longrightarrow> owner (cs ! t) = Some (p, r1) \<Longrightarrow>
       owner (cs ! u) = Some (q, r2) \<Longrightarrow> p \<noteq> q"
    and "\<And>rid q. on_line m rid q \<Longrightarrow> \<exists>c \<in> set cs. owner c = Some (q, rid)"
  shows "owners_inv m cs"
  by (rule owners_invI; (rule assms(1)[unfolded on_line_def] assms(2) assms(3)[unfolded on_line_def]; blast?))

lemma owners_inv_same:
  assumes inv: "owners_inv m cs" and t: "t < length cs" and own: "owner c' = owner (cs ! t)"
    and line: "on_line m' = on_line m"
  shows "owners_inv m' (cs[t := c'])"
proof -
  let ?cs = "cs[t := c']"
  have at: "owner (?cs ! u) = owner (cs ! u)" if "u < length cs" for u
    using that own t by (cases "u = t") simp_all
  have own_set: "(\<exists>c \<in> set ?cs. owner c = x) \<longleftrightarrow> (\<exists>c \<in> set cs. owner c = x)" for x
    using at by (force simp: in_set_conv_nth)
  show ?thesis
  proof (rule owners_inv_on_lineI)
    show "on_line m' rid p" if "c \<in> set ?cs" "owner c = Some (p, rid)" for c p rid
      using own_set[of "Some (p, rid)"] owners_on_line(1)[OF inv] that line by metis
    show "p \<noteq> q" if "u < length ?cs" "k < length ?cs" "u \<noteq> k" "owner (?cs ! u) = Some (p, r1)"
      "owner (?cs ! k) = Some (q, r2)" for u k p q r1 r2
      using owners_invD(2)[OF inv _ _ that(3), of p r1 q r2] at[of u] at[of k] that by simp
    show "\<exists>c \<in> set ?cs. owner c = Some (q, rid)" if "on_line m' rid q" for rid q
      using owners_on_line(2)[OF inv] that line own_set by metis
  qed
qed

text \<open>A player takes a seat: his call becomes the owner.\<close>

lemma owners_inv_joined:
  assumes inv: "owners_inv m cs" and t: "t < length cs" and none: "owner (cs ! t) = None"
    and own: "owner c' = Some (p, rid)" and fresh: "\<And>c r. c \<in> set cs \<Longrightarrow> owner c \<noteq> Some (p, r)"
    and line: "\<And>r q. on_line m' r q \<longleftrightarrow> on_line m r q \<or> r = rid \<and> q = p"
  shows "owners_inv m' (cs[t := c'])"
proof (rule owners_inv_on_lineI)
  let ?cs = "cs[t := c']"
  show "on_line m' r q" if "c \<in> set ?cs" "owner c = Some (q, r)" for c q r
    using upd_member[OF that(1)] owners_on_line(1)[OF inv] that(2) line own by auto
  show "q1 \<noteq> q2" if u: "u < length ?cs" "k < length ?cs" "u \<noteq> k" "owner (?cs ! u) = Some (q1, r1)"
    "owner (?cs ! k) = Some (q2, r2)" for u k q1 q2 r1 r2
  proof -
    consider "u = t" "k \<noteq> t" | "u \<noteq> t" "k = t" | "u \<noteq> t" "k \<noteq> t" using u(3) by blast
    then show ?thesis
    proof cases
      case 1
      then show ?thesis using u own t fresh[of "cs ! k" r2] by auto
    next
      case 2
      then show ?thesis using u own t fresh[of "cs ! u" r1] by auto
    next
      case 3
      then show ?thesis using u owners_invD(2)[OF inv _ _ u(3), of q1 r1 q2 r2] by simp
    qed
  qed
  show "\<exists>c \<in> set ?cs. owner c = Some (q, r)" if "on_line m' r q" for r q
  proof (cases "on_line m r q")
    case True
    from owners_on_line(2)[OF inv True] show ?thesis
      by (rule kept_call[where P = "\<lambda>c. owner c = Some (q, r)"]) (simp add: none)
  next
    case False
    then have "q = p" "r = rid" using that line by simp_all
    then show ?thesis using own own_call[OF t, of c'] by blast
  qed
qed

text \<open>A player gives his seat up: his call owns nothing any more.\<close>

lemma owners_inv_left:
  assumes inv: "owners_inv m cs" and t: "t < length cs" and own: "owner (cs ! t) = Some (p, rid)"
    and none: "owner c' = None" and line: "\<And>r q. on_line m' r q \<longleftrightarrow> on_line m r q \<and> (r = rid \<longrightarrow> q \<noteq> p)"
  shows "owners_inv m' (cs[t := c'])"
proof (rule owners_inv_on_lineI)
  let ?cs = "cs[t := c']"
  have other: "u \<noteq> t" if "u < length cs" "owner (?cs ! u) \<noteq> None" for u using that none by auto
  show "on_line m' r q" if c: "c \<in> set ?cs" "owner c = Some (q, r)" for c q r
  proof -
    obtain u where u: "u < length cs" "c = ?cs ! u" using c(1) by (auto simp: in_set_conv_nth)
    then have ut: "u \<noteq> t" using other c(2) by auto
    then have cu: "c = cs ! u" using u by simp
    then have "q \<noteq> p" using owners_invD(2)[OF inv u(1) t ut, of q r p rid] c(2) own by simp
    moreover have "on_line m r q" using owners_on_line(1)[OF inv, of c] c(2) cu u(1) by simp
    ultimately show ?thesis using line by simp
  qed
  show "q1 \<noteq> q2" if u: "u < length ?cs" "k < length ?cs" "u \<noteq> k" "owner (?cs ! u) = Some (q1, r1)"
    "owner (?cs ! k) = Some (q2, r2)" for u k q1 q2 r1 r2
    using owners_invD(2)[OF inv _ _ u(3), of q1 r1 q2 r2] other[of u] other[of k] u by simp
  show "\<exists>c \<in> set ?cs. owner c = Some (q, r)" if l: "on_line m' r q" for r q
  proof -
    have "on_line m r q" "r = rid \<longrightarrow> q \<noteq> p" using l line by simp_all
    then show ?thesis
      using kept_call[OF owners_on_line(2)[OF inv, of r q], of t c'] own by auto
  qed
qed

lemma conns_inv_same:
  assumes inv: "conns_inv m cs" and t: "t < length cs" and view: "same_view m m'"
    and own: "owner c' = owner (cs ! t)" and c: "\<And>q i. \<not> registers q i (cs ! t)" "\<And>i. \<not> registering i (cs ! t)"
      "\<And>i. \<not> dropping i (cs ! t)"
    and c': "plain c' \<or> (\<exists>p i err. c' = JoinRelease p i err \<and> seated (obj m i) \<noteq> []) \<or>
      (\<exists>p i. c' = JoinSeat p i \<and> (p \<in> set (seated (obj m i)) \<or> map_of (mg_players m) p = None))"
  shows "conns_inv m' (cs[t := c'])"
proof -
  let ?cs = "cs[t := c']"
  have v: "length (mg_objs m') = length (mg_objs m)" "mg_rooms m' = mg_rooms m" "mg_waiting m' = mg_waiting m"
    "map_of (mg_players m') = map_of (mg_players m)" "seated (obj m' j) = seated (obj m j)"
    "online (obj m' j) = online (obj m j)" "some_connected (obj m' j) = some_connected (obj m j)"
    "rm_phase (obj m j) = RoomClosed \<Longrightarrow> rm_phase (obj m' j) = RoomClosed"
    "(rm_phase (obj m' j) = RoomWaiting) = (rm_phase (obj m j) = RoomWaiting)"
    "rm_phase (obj m' j) = RoomClosed \<Longrightarrow> rm_phase (obj m j) = RoomClosed \<or> seated (obj m j) \<noteq> []" for j
    using view by (auto simp: same_view_def some_connected_online)
  have nc: "\<not> closing c'" "\<And>q i. \<not> registers q i c'" "\<And>i. \<not> dropping i c'"
    "\<And>p i ms. c' \<noteq> JoinRegister p i ms" "\<And>p rid i. c' \<noteq> LeaveCleanup p rid i"
    using c' by auto (cases c'; simp)+
  have I: "\<forall>c \<in> set cs. \<not> closing c" "owners_inv m cs" "seats_inv m cs" "drops_inv m cs" "waits_inv m cs"
    using inv by (simp_all add: conns_inv_def)
  have "\<forall>c \<in> set ?cs. \<not> closing c" using I(1) nc(1) upd_member by metis
  moreover have "owners_inv m' ?cs"
    by (rule owners_inv_same[OF I(2) t own]) (simp add: on_line_def v fun_eq_iff)
  moreover have "seats_inv m' ?cs"
  proof -
    have reg: "(\<exists>c \<in> set cs. registers q i c) \<Longrightarrow> (\<exists>c \<in> set ?cs. registers q i c)" for q i
      using kept_call[of cs "registers q i" t c'] c(1) by blast
    have "p \<in> set (seated (obj m i)) \<or> map_of (mg_players m) p = None" if "JoinSeat p i \<in> set ?cs" for p i
    proof (cases "JoinSeat p i = c'")
      case True
      then show ?thesis using c' by auto
    next
      case False
      then show ?thesis using upd_member[OF that] seats_invD(3)[OF I(3), of p i] by auto
    qed
    moreover have "JoinRegister p i ms \<in> set cs" if "JoinRegister p i ms \<in> set ?cs" for p i ms
      using upd_member[OF that] nc(4) by metis
    ultimately show ?thesis using I(3) reg unfolding seats_inv_def v by blast
  qed
  moreover have "drops_inv m' ?cs"
  proof -
    have d5: "seated (obj m i) \<noteq> []" if "JoinRelease p i err \<in> set ?cs" for p i err
    proof (cases "JoinRelease p i err = c'")
      case True
      then show ?thesis using c' by auto
    next
      case False
      then show ?thesis using upd_member[OF that] drops_invD(5)[OF I(4)] by blast
    qed
    have d1: "map_of (mg_rooms m) rid = Some i" if "LeaveCleanup p rid i \<in> set ?cs" for p rid i
      by (rule drops_invD(1)[OF I(4), of p]) (use upd_member[OF that] nc(5) in metis)
    have "dropping i (cs ! u)" if "u < length cs" "dropping i (?cs ! u)" for u i
      using that nc(3) t by (cases "u = t") simp_all
    then have d2: "a = b" if "a < length cs" "b < length cs" "dropping i (?cs ! a)" "dropping i (?cs ! b)" for a b i
      using drops_invD(2)[OF I(4) that(1,2)] that by blast
    have d4: "seated (obj m i) \<noteq> []" if "i < length (mg_objs m)" "rm_phase (obj m' i) = RoomClosed" for i
      using that v(10)[of i] drops_invD(4)[OF I(4), of i] by blast
    have d3: "rm_phase (obj m' i) = RoomClosed \<and> \<not> some_connected (obj m i)"
      if "i < length (mg_objs m)" "map_of (mg_rooms m) (room_name (Suc i)) = None" for i
      using drops_invD(3)[OF I(4) that] v(8) by blast
    show ?thesis
      by (rule drops_invI; unfold v(1-7) length_list_update; (rule d1 d2 d3 d4 d5, assumption+))
  qed
  moreover have "waits_inv m' ?cs"
  proof -
    have kept: "(\<exists>d \<in> set cs. dropping i d) \<Longrightarrow> (\<exists>d \<in> set ?cs. dropping i d)"
      "(\<exists>d \<in> set cs. registering i d) \<Longrightarrow> (\<exists>d \<in> set ?cs. registering i d)" for i
      using kept_call[of cs "dropping i" t c'] kept_call[of cs "registering i" t c'] c by simp_all
    show ?thesis
    proof (rule waits_invI)
      fix i assume "map_of (mg_rooms m') (mg_waiting m') = Some i"
      then show "rm_phase (obj m' i) = RoomWaiting \<or> (\<exists>c \<in> set ?cs. dropping i c) \<or>
          length (seated (obj m' i)) \<ge> 2 \<and> (\<exists>c \<in> set ?cs. registering i c)"
        using waits_invD(2)[OF I(5), of i] kept[of i] unfolding v by blast
    qed (use waits_invD(1)[OF I(5)] v in simp)
  qed
  ultimately show ?thesis by (simp add: conns_inv_def)
qed

section \<open>The sections of a connection\<close>

lemma server_invD:
  assumes "server_inv w"
  shows "calls_inv w" "conns_inv (sc_manager w) (sc_calls w)"
    "c \<in> set (sc_calls w) \<Longrightarrow> \<not> closing c" "owners_inv (sc_manager w) (sc_calls w)"
    "seats_inv (sc_manager w) (sc_calls w)" "drops_inv (sc_manager w) (sc_calls w)"
    "waits_inv (sc_manager w) (sc_calls w)"
  using assms by (auto simp: server_inv_def conns_inv_def)

lemma registers_joins: "registers q i c \<Longrightarrow> in_join c" "registers q i c \<Longrightarrow> registering i c"
  by (cases c; simp)+

lemma registers_is: "registers q i c \<Longrightarrow> \<exists>ms. c = JoinRegister q i ms"
  by (cases c) auto

lemma drops_once:
  assumes "drops_inv m cs" "a < length (cs[t := c'])" "b < length (cs[t := c'])"
    "dropping i (cs[t := c'] ! a)" "dropping i (cs[t := c'] ! b)" "\<not> dropping i c'"
  shows "a = b"
proof -
  have "u < length cs \<and> dropping i (cs ! u)" if "u < length (cs[t := c'])" "dropping i (cs[t := c'] ! u)" for u
    using that assms(6) by (cases "u = t") simp_all
  then show ?thesis using drops_invD(2)[OF assms(1)] assms(2-5) by blast
qed

lemma on_line_books:
  assumes "books_inv m" "i < length (mg_objs m)" "rid = room_name (Suc i)" "map_of (mg_rooms m) rid \<noteq> None"
  shows "map_of (mg_rooms m) rid = Some i"
proof -
  obtain j where "map_of (mg_rooms m) rid = Some j" using assms(4) by auto
  then show ?thesis using books_room(2)[OF assms(1)] assms(3) by fastforce
qed

text \<open>A player who has a connection is registered with its room.\<close>

lemma owner_registered:
  assumes inv: "server_inv w" and c: "c \<in> set (sc_calls w)" "owner c = Some (p, rid)" "\<not> in_join c"
  shows "map_of (mg_players (sc_manager w)) p = Some rid"
proof -
  let ?m = "sc_manager w"
  note s = server_invD[OF inv]
  obtain i where i: "map_of (mg_rooms ?m) rid = Some i" "online (obj ?m i) p"
    using owners_invD(1)[OF s(4) c(1,2)] by blast
  have "\<not> (\<exists>d \<in> set (sc_calls w). registers p i d)"
  proof
    assume "\<exists>d \<in> set (sc_calls w). registers p i d"
    then obtain d where d: "d \<in> set (sc_calls w)" "registers p i d" by blast
    then obtain ms where ms: "d = JoinRegister p i ms" using registers_is by blast
    obtain t u where t: "t < length (sc_calls w)" "c = sc_calls w ! t" and u: "u < length (sc_calls w)" "d = sc_calls w ! u"
      using c(1) d(1) by (auto simp: in_set_conv_nth)
    have "t \<noteq> u" using c(3) d t u registers_joins(1) by metis
    have "owner (sc_calls w ! u) = Some (p, ms_RoomID ms)" using u(2) ms by (metis owner.simps(1))
    then show False
      using owners_invD(2)[OF s(4) t(1) u(1) \<open>t \<noteq> u\<close>, of p rid p "ms_RoomID ms"] c(2) t(2) by simp
  qed
  then show ?thesis using seats_invD(1)[OF s(5) i(1) online_seated[OF i(2)]] by blast
qed

lemma owner_room:
  assumes inv: "server_inv w" and c: "c \<in> set (sc_calls w)" "owner c = Some (p, rid)"
  shows "\<exists>i. map_of (mg_rooms (sc_manager w)) rid = Some i \<and> online (obj (sc_manager w) i) p"
  using owners_invD(1)[OF server_invD(4)[OF inv] c] .

text \<open>The lookups of a connection never fail.\<close>

lemma leave_finds_room:
  assumes inv: "server_inv w" and c: "LeaveLookup p own \<in> set (sc_calls w)"
  shows "\<exists>i. leave_lookup (sc_manager w) p = Some (own, i)"
  using owner_registered[OF inv c] owner_room[OF inv c] by (auto simp: leave_lookup_def)

lemma choose_conns:
  assumes inv: "server_inv w" and t: "t < length (sc_calls w)" and c: "sc_calls w ! t = JoinChoose p"
    and step: "call_step runner seedFor (sc_manager w) (sc_calls w ! t) = Some (m', c')"
  shows "conns_inv m' ((sc_calls w)[t := c'])"
proof -
  let ?m = "sc_manager w"
  note s = server_invD[OF inv]
  note k = calls_invD[OF s(1)]
  have gone: "map_of (mg_players ?m) p = None"
    if "map_of (mg_players ?m) p = None \<or> (\<exists>rid. map_of (mg_players ?m) p = Some rid \<and> map_of (mg_rooms ?m) rid = None)"
    using that seats_invD(4)[OF s(5), of p] by fastforce
  have same_players: "map_of ps = map_of (mg_players ?m)"
    if "players_less ?m p ps" "map_of (mg_players ?m) p = None" for ps
  proof
    fix q show "map_of ps q = map_of (mg_players ?m) q"
      using that by (cases "q = p") (simp_all add: players_less_def)
  qed
  show ?thesis
  proof (cases rule: roomForJoin_cases[of ?m p seedFor])
    case (known rid i)
    have "p \<in> set (seated (obj ?m i))"
      using books_room[OF k(2) known(2)] books_player[OF k(2) known(1)] by auto
    then have "conns_inv ?m ((sc_calls w)[t := JoinSeat p i])"
      using c by (intro conns_inv_same[OF s(2) t]) auto
    then show ?thesis using step c known(3) by simp
  next
    case (waits ps i)
    note none = gone[OF waits(6)]
    have "same_view ?m (?m\<lparr>mg_players := ps\<rparr>)"
      using same_players[OF waits(1) none] by (simp add: same_view_def)
    then have "conns_inv (?m\<lparr>mg_players := ps\<rparr>) ((sc_calls w)[t := JoinSeat p i])"
      using c none by (intro conns_inv_same[OF s(2) t]) auto
    then show ?thesis using step c waits(5) by simp
  next
    case (new ps)
    let ?m' = "room_made seedFor ?m ps" and ?n = "length (mg_objs ?m)" and ?cs = "(sc_calls w)[t := JoinSeat p (length (mg_objs ?m))]"
    note none = gone[OF new(4)]
    note pl = same_players[OF new(1) none]
    note f = room_made_facts[OF k(1,2) new(1), where seedFor = seedFor]
    have old: "map_of (mg_rooms ?m') rid = Some j \<Longrightarrow> j \<noteq> ?n \<Longrightarrow>
        map_of (mg_rooms ?m) rid = Some j \<and> j < ?n \<and> obj ?m' j = obj ?m j" for rid j
      using f(9)[of rid] f(8)[of j] books_room(1)[OF k(2), of rid j] by (auto split: if_splits)
    have keep: "map_of (mg_rooms ?m) rid = Some j \<Longrightarrow>
        map_of (mg_rooms ?m') rid = Some j \<and> j \<noteq> ?n \<and> obj ?m' j = obj ?m j" for rid j
      using f(9)[of rid] f(8)[of j] books_room[OF k(2), of rid j] by auto
    have other: "c \<in> set (sc_calls w)" if "c \<in> set ?cs" "c \<noteq> JoinSeat p ?n" for c
      using upd_member[OF that(1)] that(2) by blast
    have alone: "\<not> in_join c" if "c \<in> set (sc_calls w)" "c \<noteq> JoinChoose p" for c
      using joins_once[OF k(3) t _ that(1)] c that(2) by auto
    have ok: "call_ok ?m c" if "c \<in> set (sc_calls w)" for c using k(4)[OF that] .
    have "\<forall>c \<in> set ?cs. \<not> closing c" using s(3) other by fastforce
    moreover have "owners_inv ?m' ?cs"
    proof (rule owners_inv_same[OF s(4) t])
      have "online (obj ?m' ?n) q = False" for q using f(7) by (simp add: some_connected_online)
      then have "on_line ?m' rid q = on_line ?m rid q" for rid q
        unfolding on_line_def using old[of rid] keep[of rid] by metis
      then show "on_line ?m' = on_line ?m" by (simp add: fun_eq_iff)
    qed (simp add: c)
    moreover have "seats_inv ?m' ?cs"
    proof (rule seats_invI)
      show "map_of (mg_players ?m') q = Some rid \<or> (\<exists>c \<in> set ?cs. registers q i c)"
        if "map_of (mg_rooms ?m') rid = Some i" "q \<in> set (seated (obj ?m' i))" for rid i q
      proof -
        have "i \<noteq> ?n" using that(2) f(5) by auto
        with old[OF that(1)] have "map_of (mg_rooms ?m) rid = Some i" "q \<in> set (seated (obj ?m i))"
          using that(2) by auto
        from seats_invD(1)[OF s(5) this] show ?thesis
          using kept_call[of "sc_calls w" "registers q i" t "JoinSeat p ?n"] c by (auto simp: f(11) pl)
      qed
      show "map_of (mg_players ?m') q = None \<or> map_of (mg_players ?m') q = Some (room_name (Suc i))"
        if "JoinRegister q i ms \<in> set ?cs" for q i ms
        using alone[OF other[OF that]] by simp
      show "q \<in> set (seated (obj ?m' i)) \<or> map_of (mg_players ?m') q = None" if "JoinSeat q i \<in> set ?cs" for q i
      proof (cases "JoinSeat q i = JoinSeat p ?n")
        case True
        then show ?thesis using none by (simp add: f(11) pl)
      next
        case False
        then show ?thesis using alone[OF other[OF that]] by simp
      qed
      show "map_of (mg_rooms ?m') rid \<noteq> None" if "map_of (mg_players ?m') q = Some rid" for q rid
        using seats_invD(4)[OF s(5), of q rid] that f(9)[of rid] by (auto simp: f(11) pl)
    qed
    moreover have "drops_inv ?m' ?cs"
    proof (rule drops_invI)
      show "map_of (mg_rooms ?m') rid = Some i" if "LeaveCleanup q rid i \<in> set ?cs" for q rid i
        using drops_invD(1)[OF s(6) other[OF that]] keep[of rid i] by simp
      show "a = b" if "a < length ?cs" "b < length ?cs" "dropping i (?cs ! a)" "dropping i (?cs ! b)" for a b i
        using drops_once[OF s(6) that] by simp
      show "rm_phase (obj ?m' i) = RoomClosed \<and> \<not> some_connected (obj ?m' i)"
        if "i < length (mg_objs ?m')" "map_of (mg_rooms ?m') (room_name (Suc i)) = None" for i
      proof -
        have "i \<noteq> ?n" "map_of (mg_rooms ?m) (room_name (Suc i)) = None"
          using that(2) f(9)[of "room_name (Suc i)"] by (auto split: if_splits)
        then show ?thesis using that(1) f(4,8) drops_invD(3)[OF s(6), of i] by simp
      qed
      show "seated (obj ?m' i) \<noteq> []" if "i < length (mg_objs ?m')" "rm_phase (obj ?m' i) = RoomClosed" for i
      proof -
        have "i \<noteq> ?n" using that(2) f(6) by auto
        then show ?thesis using that f(4,8) drops_invD(4)[OF s(6), of i] by simp
      qed
      show "seated (obj ?m' i) \<noteq> []" if "JoinRelease q i err \<in> set ?cs" for q i err
        using alone[OF other[OF that]] by simp
    qed
    moreover have "waits_inv ?m' ?cs"
    proof (rule waits_invI)
      show "mg_waiting ?m' = rid" if "map_of (mg_rooms ?m') rid = Some i" "rm_phase (obj ?m' i) = RoomWaiting" for rid i
      proof (cases "i = ?n")
        case True
        then show ?thesis using that(1) f(9)[of rid] f(10) books_room(1)[OF k(2), of rid i] by (auto split: if_splits)
      next
        case False
        with old[OF that(1)] have o: "map_of (mg_rooms ?m) rid = Some i" "rm_phase (obj ?m i) = RoomWaiting"
          using that(2) by auto
        then have "mg_waiting ?m = rid" by (rule waits_invD(1)[OF s(7)])
        then show ?thesis using new(3) o books_waiting[OF k(2)] by auto
      qed
      show "rm_phase (obj ?m' i) = RoomWaiting \<or> (\<exists>c \<in> set ?cs. dropping i c) \<or>
          length (seated (obj ?m' i)) \<ge> 2 \<and> (\<exists>c \<in> set ?cs. registering i c)"
        if "map_of (mg_rooms ?m') (mg_waiting ?m') = Some i" for i
        using that f(6,9,10) by simp
    qed
    ultimately have "conns_inv ?m' ?cs" by (simp add: conns_inv_def)
    then show ?thesis using step c new(2) by simp
  qed
qed

lemma seat_conns_refused:
  assumes inv: "server_inv w" and t: "t < length (sc_calls w)" and c: "sc_calls w ! t = JoinSeat p i"
    and i: "i < length (mg_objs (sc_manager w))" and q: "room_quiet (obj (sc_manager w) i) r"
    and e: "rm_phase (obj (sc_manager w) i) = RoomClosed \<or> seated (obj (sc_manager w) i) \<noteq> []"
  shows "conns_inv (set_obj i r (sc_manager w)) ((sc_calls w)[t := JoinRelease p i err])"
proof -
  note s = server_invD[OF inv]
  have "seated (obj (sc_manager w) i) \<noteq> []" using e drops_invD(4)[OF s(6) i] by blast
  then show ?thesis using c by (intro conns_inv_same[OF s(2) t same_view_quiet[OF i q]]) auto
qed

lemma seat_conns_joined:
  assumes inv: "server_inv w" and t: "t < length (sc_calls w)" and c: "sc_calls w ! t = JoinSeat p i"
    and i: "i < length (mg_objs (sc_manager w))" and r: "room_joined p (obj (sc_manager w) i) r"
    and ms: "ms_RoomID ms = rm_id r"
  shows "conns_inv (set_obj i r (sc_manager w)) ((sc_calls w)[t := JoinRegister p i ms])"
proof -
  let ?m = "sc_manager w" and ?c = "JoinRegister p i ms" and ?rid = "room_name (Suc i)"
  let ?m' = "set_obj i r ?m" and ?cs = "(sc_calls w)[t := ?c]"
  note s = server_invD[OF inv]
  note k = calls_invD[OF s(1)]
  have j: "rm_phase (obj ?m i) \<noteq> RoomClosed" "rm_phase r \<noteq> RoomClosed" "\<not> online (obj ?m i) p" "room_inv r"
    "\<And>q. online r q \<longleftrightarrow> online (obj ?m i) q \<or> q = p"
    "seated r = seated (obj ?m i) \<or> seated r = seated (obj ?m i) @ [p]"
    "rm_phase r = RoomWaiting \<Longrightarrow> rm_phase (obj ?m i) = RoomWaiting" "p \<in> set (seated r)"
    using r by (auto simp: room_joined_def)
  have two: "rm_phase r = RoomWaiting \<or> length (seated r) \<ge> 2" if "rm_phase (obj ?m i) = RoomWaiting"
    using r that unfolding room_joined_def by (metis not_less)
  have id: "ms_RoomID ms = ?rid" using r ms objs_invD(2)[OF k(1) i] by (simp add: room_joined_def)
  have live: "map_of (mg_rooms ?m) ?rid = Some i"
    using drops_invD(3)[OF s(6) i] j(1) by (intro on_line_books[OF k(2) i refl]) blast
  have other: "d \<in> set (sc_calls w)" if "d \<in> set ?cs" "d \<noteq> ?c" for d
    using upd_member[OF that(1)] that(2) by blast
  have alone: "\<not> in_join d" if "d \<in> set (sc_calls w)" "d \<noteq> JoinSeat p i" for d
    using joins_once[OF k(3) t _ that(1)] c that(2) by auto
  have noreg: "\<not> (\<exists>d \<in> set (sc_calls w). registers q l d)" for q l
    using alone registers_is by fastforce
  have seat_p: "p \<in> set (seated (obj ?m i)) \<or> map_of (mg_players ?m) p = None"
    using seats_invD(3)[OF s(5), of p i] nth_mem[OF t] c by simp
  have pl: "map_of (mg_players ?m) p = None \<or> map_of (mg_players ?m) p = Some ?rid"
    using seat_p seats_invD(1)[OF s(5) live, of p] noreg by blast
  have fresh: "owner d \<noteq> Some (p, rid)" if d: "d \<in> set (sc_calls w)" for d rid
  proof
    assume own: "owner d = Some (p, rid)"
    then have nj: "\<not> in_join d" using alone[OF d] by (cases "d = JoinSeat p i") auto
    have "map_of (mg_players ?m) p = Some rid" using owner_registered[OF inv d own nj] .
    then have "rid = ?rid" using pl by simp
    then show False using owner_room[OF inv d own] live j(3) by simp
  qed
  have "\<forall>d \<in> set ?cs. \<not> closing d" using s(3) other by fastforce
  moreover have "owners_inv ?m' ?cs"
  proof (rule owners_inv_joined[OF s(4) t _ _ fresh])
    show "owner (sc_calls w ! t) = None" by (simp add: c)
    show "owner ?c = Some (p, ?rid)" by (simp add: id)
    show "on_line ?m' rid q \<longleftrightarrow> on_line ?m rid q \<or> rid = ?rid \<and> q = p" for rid q
    proof (cases "rid = ?rid")
      case True
      then show ?thesis using live i j(5) by (simp add: on_line_def)
    next
      case False
      have "l \<noteq> i" if "map_of (mg_rooms ?m) rid = Some l" for l
        using books_room(2)[OF k(2) that] False by auto
      then show ?thesis using False i by (auto simp: on_line_def)
    qed
  qed
  moreover have "seats_inv ?m' ?cs"
  proof (rule seats_invI)
    show "map_of (mg_players ?m') q = Some rid \<or> (\<exists>d \<in> set ?cs. registers q l d)"
      if l: "map_of (mg_rooms ?m') rid = Some l" "q \<in> set (seated (obj ?m' l))" for rid l q
    proof (cases "q \<in> set (seated (obj ?m l))")
      case True
      then show ?thesis using seats_invD(1)[OF s(5), of rid l q] l(1) noreg by auto
    next
      case False
      then have "l = i" "q = p" using l(2) j(6) i by (auto split: if_splits)
      moreover have "?c \<in> set ?cs" using t by (rule own_call)
      ultimately have "\<exists>d \<in> set ?cs. registers q l d" by (intro bexI[of _ ?c]) simp_all
      then show ?thesis by blast
    qed
    show "map_of (mg_players ?m') q = None \<or> map_of (mg_players ?m') q = Some (room_name (Suc l))"
      if "JoinRegister q l x \<in> set ?cs" for q l x
    proof (cases "JoinRegister q l x = ?c")
      case True
      then show ?thesis using pl by simp
    next
      case False
      then show ?thesis using alone[OF other[OF that]] by simp
    qed
    show "q \<in> set (seated (obj ?m' l)) \<or> map_of (mg_players ?m') q = None" if "JoinSeat q l \<in> set ?cs" for q l
    proof -
      have "JoinSeat q l \<in> set (sc_calls w)" using other[OF that] by simp
      then have "q \<in> set (seated (obj ?m l)) \<or> map_of (mg_players ?m) q = None" by (rule seats_invD(3)[OF s(5)])
      then show ?thesis using j(6) i by auto
    qed
    show "map_of (mg_rooms ?m') rid \<noteq> None" if "map_of (mg_players ?m') q = Some rid" for q rid
      using seats_invD(4)[OF s(5), of q rid] that by simp
  qed
  moreover have "drops_inv ?m' ?cs"
  proof (rule drops_invI)
    show "map_of (mg_rooms ?m') rid = Some l" if "LeaveCleanup q rid l \<in> set ?cs" for q rid l
      using drops_invD(1)[OF s(6) other[OF that]] by simp
    show "a = b" if "a < length ?cs" "b < length ?cs" "dropping l (?cs ! a)" "dropping l (?cs ! b)" for a b l
      using drops_once[OF s(6) that] by simp
    show "rm_phase (obj ?m' l) = RoomClosed \<and> \<not> some_connected (obj ?m' l)"
      if "l < length (mg_objs ?m')" "map_of (mg_rooms ?m') (room_name (Suc l)) = None" for l
      using drops_invD(3)[OF s(6), of l] that live i by auto
    show "seated (obj ?m' l) \<noteq> []" if "l < length (mg_objs ?m')" "rm_phase (obj ?m' l) = RoomClosed" for l
      using drops_invD(4)[OF s(6), of l] that j(2) i by (auto split: if_splits)
    show "seated (obj ?m' l) \<noteq> []" if "JoinRelease q l err \<in> set ?cs" for q l err
      using alone[OF other[OF that]] by simp
  qed
  moreover have "waits_inv ?m' ?cs"
  proof (rule waits_invI)
    show "mg_waiting ?m' = rid" if "map_of (mg_rooms ?m') rid = Some l" "rm_phase (obj ?m' l) = RoomWaiting" for rid l
      using waits_invD(1)[OF s(7), of rid l] that j(7) i by (auto split: if_splits)
    show "rm_phase (obj ?m' l) = RoomWaiting \<or> (\<exists>d \<in> set ?cs. dropping l d) \<or>
        length (seated (obj ?m' l)) \<ge> 2 \<and> (\<exists>d \<in> set ?cs. registering l d)"
      if l: "map_of (mg_rooms ?m') (mg_waiting ?m') = Some l" for l
    proof -
      have old: "rm_phase (obj ?m l) = RoomWaiting \<or> (\<exists>d \<in> set (sc_calls w). dropping l d)"
        using waits_invD(2)[OF s(7), of l] l alone registering_join by fastforce
      have drop: "\<exists>d \<in> set ?cs. dropping l d" if "\<exists>d \<in> set (sc_calls w). dropping l d"
        using that by (rule kept_call) (simp add: c)
      show ?thesis
      proof (cases "l = i")
        case True
        have "\<exists>d \<in> set ?cs. registering i d" using own_call[OF t, of ?c] by (intro bexI[of _ ?c]) simp_all
        then show ?thesis using True old drop two i by auto
      next
        case False
        then show ?thesis using old drop i by auto
      qed
    qed
  qed
  ultimately show ?thesis by (simp add: conns_inv_def)
qed

lemma release_conns:
  assumes inv: "server_inv w" and t: "t < length (sc_calls w)" and c: "sc_calls w ! t = JoinRelease p i err"
  shows "conns_inv (releaseOnJoinFailure (sc_manager w) i) ((sc_calls w)[t := JoinUnlock p (Inl err)])"
proof -
  note s = server_invD[OF inv]
  have "seated (obj (sc_manager w) i) \<noteq> []" using drops_invD(5)[OF s(6), of p i err] nth_mem[OF t] c by simp
  then show ?thesis using c by (intro conns_inv_same[OF s(2) t]) (auto simp: release_eq)
qed

lemma register_conns:
  assumes inv: "server_inv w" and t: "t < length (sc_calls w)" and c: "sc_calls w ! t = JoinRegister p i ms"
  shows "conns_inv (join_record (sc_manager w) i p) ((sc_calls w)[t := JoinUnlock p (Inr ms)])"
proof -
  let ?m = "sc_manager w" and ?c = "JoinUnlock p (Inr ms)" and ?rid = "room_name (Suc i)"
  let ?m' = "join_record ?m i p" and ?cs = "(sc_calls w)[t := ?c]"
  note s = server_invD[OF inv]
  note k = calls_invD[OF s(1)]
  have mem: "JoinRegister p i ms \<in> set (sc_calls w)" using nth_mem[OF t] c by simp
  have ok: "i < length (mg_objs ?m)" "p \<in> set (seated (obj ?m i))" "ms_RoomID ms = ?rid" using k(4)[OF mem] by simp_all
  note o = objs_invD[OF k(1) ok(1)]
  have live: "map_of (mg_rooms ?m) ?rid = Some i"
    using owner_room[OF inv mem, of p ?rid] ok(3) by (intro on_line_books[OF k(2) ok(1) refl]) auto
  have pl: "map_of (mg_players ?m) p = None \<or> map_of (mg_players ?m) p = Some ?rid"
    using seats_invD(2)[OF s(5) mem] .
  have f: "mg_objs ?m' = mg_objs ?m" "mg_rooms ?m' = mg_rooms ?m" "obj ?m' l = obj ?m l"
    "map_of (mg_players ?m') q = (if q = p then Some ?rid else map_of (mg_players ?m) q)"
    "mg_waiting ?m' = (if length (seated (obj ?m i)) \<ge> 2 \<and> mg_waiting ?m = ?rid then '''' else mg_waiting ?m)" for l q
    by (auto simp: join_record_def Let_def o(2) seated_def update_conv')
  have other: "d \<in> set (sc_calls w)" if "d \<in> set ?cs" "d \<noteq> ?c" for d
    using upd_member[OF that(1)] that(2) by blast
  have alone: "\<not> in_join d" if "d \<in> set (sc_calls w)" "d \<noteq> JoinRegister p i ms" for d
    using joins_once[OF k(3) t _ that(1)] c that(2) by auto
  have "\<forall>d \<in> set ?cs. \<not> closing d" using s(3) other by fastforce
  moreover have "owners_inv ?m' ?cs"
    by (rule owners_inv_same[OF s(4) t]) (simp_all add: c on_line_def f fun_eq_iff)
  moreover have "seats_inv ?m' ?cs"
  proof (rule seats_invI)
    show "map_of (mg_players ?m') q = Some rid \<or> (\<exists>d \<in> set ?cs. registers q l d)"
      if l: "map_of (mg_rooms ?m') rid = Some l" "q \<in> set (seated (obj ?m' l))" for rid l q
    proof -
      have l': "map_of (mg_rooms ?m) rid = Some l" "q \<in> set (seated (obj ?m l))" using l by (simp_all add: f)
      consider "map_of (mg_players ?m) q = Some rid" | d where "d \<in> set (sc_calls w)" "registers q l d"
        using seats_invD(1)[OF s(5) l'] by blast
      then show ?thesis
      proof cases
        case 1
        then show ?thesis using pl by (auto simp: f)
      next
        case 2
        then have "d = JoinRegister p i ms" using alone registers_joins(1) by blast
        then have "q = p" "l = i" using 2(2) by simp_all
        moreover have "rid = ?rid" using books_room(2)[OF k(2) l'(1)] \<open>l = i\<close> by simp
        ultimately show ?thesis by (simp add: f)
      qed
    qed
    show "map_of (mg_players ?m') q = None \<or> map_of (mg_players ?m') q = Some (room_name (Suc l))"
      if "JoinRegister q l x \<in> set ?cs" for q l x
    proof -
      have "JoinRegister q l x = JoinRegister p i ms" using alone[OF other[OF that]] by auto
      then show ?thesis by (simp add: f)
    qed
    show "q \<in> set (seated (obj ?m' l)) \<or> map_of (mg_players ?m') q = None" if "JoinSeat q l \<in> set ?cs" for q l
      using alone[OF other[OF that]] by simp
    show "map_of (mg_rooms ?m') rid \<noteq> None" if "map_of (mg_players ?m') q = Some rid" for q rid
      using seats_invD(4)[OF s(5), of q rid] that live by (auto simp: f split: if_splits)
  qed
  moreover have "drops_inv ?m' ?cs"
  proof (rule drops_invI)
    show "map_of (mg_rooms ?m') rid = Some l" if "LeaveCleanup q rid l \<in> set ?cs" for q rid l
      using drops_invD(1)[OF s(6) other[OF that]] by (simp add: f)
    show "a = b" if "a < length ?cs" "b < length ?cs" "dropping l (?cs ! a)" "dropping l (?cs ! b)" for a b l
      using drops_once[OF s(6) that] by simp
    show "seated (obj ?m' l) \<noteq> []" if "JoinRelease q l err \<in> set ?cs" for q l err
      using alone[OF other[OF that]] by simp
  qed (use drops_invD(3,4)[OF s(6)] in \<open>simp_all add: f\<close>)
  moreover have "waits_inv ?m' ?cs"
  proof (rule waits_invI)
    show "mg_waiting ?m' = rid" if l: "map_of (mg_rooms ?m') rid = Some l" "rm_phase (obj ?m' l) = RoomWaiting" for rid l
    proof -
      have w: "mg_waiting ?m = rid" using waits_invD(1)[OF s(7), of rid l] l by (simp add: f)
      have "length (seated (obj ?m i)) < 2" if "rid = ?rid"
      proof -
        have "l = i" using l(1) that live by (simp add: f)
        then show ?thesis using l(2) o(1) by (simp add: f room_inv_def phase_inv_def seated_length)
      qed
      then show ?thesis using w by (auto simp: f)
    qed
    show "rm_phase (obj ?m' l) = RoomWaiting \<or> (\<exists>d \<in> set ?cs. dropping l d) \<or>
        length (seated (obj ?m' l)) \<ge> 2 \<and> (\<exists>d \<in> set ?cs. registering l d)"
      if l: "map_of (mg_rooms ?m') (mg_waiting ?m') = Some l" for l
    proof -
      have w: "mg_waiting ?m' = mg_waiting ?m" using l books_waiting[OF k(2)] by (auto simp: f split: if_splits)
      then have l': "map_of (mg_rooms ?m) (mg_waiting ?m) = Some l" using l by (simp add: f)
      have "length (seated (obj ?m i)) < 2" if "l = i"
        using w that books_room(2)[OF k(2) l'] books_waiting[OF k(2)] l by (auto simp: f split: if_splits)
      then have "\<not> (length (seated (obj ?m l)) \<ge> 2 \<and> (\<exists>d \<in> set (sc_calls w). registering l d))"
        using alone registering_join by fastforce
      then have "rm_phase (obj ?m l) = RoomWaiting \<or> (\<exists>d \<in> set (sc_calls w). dropping l d)"
        using waits_invD(2)[OF s(7) l'] by blast
      then show ?thesis using kept_call[of "sc_calls w" "dropping l" t ?c] c by (auto simp: f)
    qed
  qed
  ultimately show ?thesis by (simp add: conns_inv_def)
qed

lemma leave_conns:
  assumes inv: "server_inv w" and t: "t < length (sc_calls w)" and c: "sc_calls w ! t = LeaveRoom p rid i"
    and r: "room_left p gone (obj (sc_manager w) i) r"
  shows "conns_inv (set_obj i r (sc_manager w)) ((sc_calls w)[t := if gone then LeaveCleanup p rid i else Outside])"
proof -
  let ?m = "sc_manager w" and ?c = "if gone then LeaveCleanup p rid i else Outside"
  let ?m' = "set_obj i r ?m" and ?cs = "(sc_calls w)[t := ?c]"
  note s = server_invD[OF inv]
  note k = calls_invD[OF s(1)]
  have mem: "LeaveRoom p rid i \<in> set (sc_calls w)" using nth_mem[OF t] c by simp
  have i: "i < length (mg_objs ?m)" "rid = room_name (Suc i)" using k(4)[OF mem] by simp_all
  obtain i' where "map_of (mg_rooms ?m) rid = Some i'" "online (obj ?m i') p" using owner_room[OF inv mem] by auto
  moreover from this have "i' = i" using books_room(2)[OF k(2), of rid i'] i(2) by simp
  ultimately have live: "map_of (mg_rooms ?m) rid = Some i" "online (obj ?m i) p" by simp_all
  have l: "room_inv r" "seated r = seated (obj ?m i)" "p \<in> set (seated r)"
    "\<And>q. online r q \<longleftrightarrow> online (obj ?m i) q \<and> q \<noteq> p" "gone \<Longrightarrow> rm_phase r = RoomClosed"
    "rm_phase r = RoomWaiting \<Longrightarrow> rm_phase (obj ?m i) = RoomWaiting"
    "\<not> gone \<Longrightarrow> rm_phase (obj ?m i) = RoomWaiting \<Longrightarrow> rm_phase r = RoomWaiting"
    using r by (cases gone; auto simp: room_left_def)+
  have other: "d \<in> set (sc_calls w)" if "d \<in> set ?cs" "d \<noteq> ?c" for d
    using upd_member[OF that(1)] that(2) by blast
  have seats: "seated (obj ?m' j) = seated (obj ?m j)" for j using l(2) i(1) by simp
  have nodrop: "\<not> dropping i d" if "d \<in> set (sc_calls w)" for d
  proof
    assume "dropping i d"
    then obtain q rid' where "d = LeaveCleanup q rid' i" by (cases d) auto
    then have "\<not> some_connected (obj ?m i)" using k(4)[OF that] by simp
    then show False using live(2) some_connected_online by blast
  qed
  have "\<forall>d \<in> set ?cs. \<not> closing d" using s(3) other by (metis (full_types) closing.simps)
  moreover have "owners_inv ?m' ?cs"
  proof (rule owners_inv_left[OF s(4) t])
    show "owner (sc_calls w ! t) = Some (p, rid)" by (simp add: c)
    show "on_line ?m' rid' q \<longleftrightarrow> on_line ?m rid' q \<and> (rid' = rid \<longrightarrow> q \<noteq> p)" for rid' q
    proof (cases "rid' = rid")
      case True
      then show ?thesis using live i(1) l(4) by (simp add: on_line_def)
    next
      case False
      have "j \<noteq> i" if "map_of (mg_rooms ?m) rid' = Some j" for j
        using books_room(2)[OF k(2) that] False i(2) by auto
      then show ?thesis using False i(1) by (auto simp: on_line_def)
    qed
  qed simp
  moreover have "seats_inv ?m' ?cs"
  proof (rule seats_invI)
    show "map_of (mg_players ?m') q = Some rid' \<or> (\<exists>d \<in> set ?cs. registers q j d)"
      if "map_of (mg_rooms ?m') rid' = Some j" "q \<in> set (seated (obj ?m' j))" for rid' j q
    proof -
      have "map_of (mg_rooms ?m) rid' = Some j" "q \<in> set (seated (obj ?m j))" using that seats by simp_all
      moreover have "\<exists>d \<in> set ?cs. registers q j d" if "\<exists>d \<in> set (sc_calls w). registers q j d"
        using that by (rule kept_call) (simp add: c)
      ultimately show ?thesis using seats_invD(1)[OF s(5), of rid' j q] unfolding set_obj_fields by blast
    qed
    show "map_of (mg_players ?m') q = None \<or> map_of (mg_players ?m') q = Some (room_name (Suc j))"
      if "JoinRegister q j x \<in> set ?cs" for q j x
      using seats_invD(2)[OF s(5) other[OF that]] by simp
    show "q \<in> set (seated (obj ?m' j)) \<or> map_of (mg_players ?m') q = None" if "JoinSeat q j \<in> set ?cs" for q j
      using seats_invD(3)[OF s(5) other[OF that]] unfolding seats by simp
    show "map_of (mg_rooms ?m') rid' \<noteq> None" if "map_of (mg_players ?m') q = Some rid'" for q rid'
      using seats_invD(4)[OF s(5), of q rid'] that by simp
  qed
  moreover have "drops_inv ?m' ?cs"
  proof (rule drops_invI)
    show "map_of (mg_rooms ?m') rid' = Some j" if d: "LeaveCleanup q rid' j \<in> set ?cs" for q rid' j
    proof (cases "LeaveCleanup q rid' j = ?c")
      case True
      then show ?thesis using live by (simp split: if_splits)
    next
      case False
      then show ?thesis using drops_invD(1)[OF s(6) other[OF d False]] by simp
    qed
    show "a = b" if d: "a < length ?cs" "b < length ?cs" "dropping j (?cs ! a)" "dropping j (?cs ! b)" for a b j
    proof (cases "dropping j ?c")
      case True
      then have "j = i" by (simp split: if_splits)
      have "u = t" if "u < length ?cs" "dropping j (?cs ! u)" for u
        using that nodrop[of "?cs ! u"] \<open>j = i\<close> by (cases "u = t") simp_all
      then show ?thesis using d by metis
    next
      case False
      then show ?thesis using drops_once[OF s(6) d] by blast
    qed
    show "rm_phase (obj ?m' j) = RoomClosed \<and> \<not> some_connected (obj ?m' j)"
      if "j < length (mg_objs ?m')" "map_of (mg_rooms ?m') (room_name (Suc j)) = None" for j
      using drops_invD(3)[OF s(6), of j] that live i by (auto split: if_splits)
    show "seated (obj ?m' j) \<noteq> []" if "j < length (mg_objs ?m')" "rm_phase (obj ?m' j) = RoomClosed" for j
    proof (cases "j = i")
      case True
      then show ?thesis using l(3) i(1) by auto
    next
      case False
      then show ?thesis using drops_invD(4)[OF s(6), of j] that i(1) by simp
    qed
    show "seated (obj ?m' j) \<noteq> []" if "JoinRelease q j err \<in> set ?cs" for q j err
      using drops_invD(5)[OF s(6) other[OF that]] unfolding seats by simp
  qed
  moreover have "waits_inv ?m' ?cs"
  proof (rule waits_invI)
    show "mg_waiting ?m' = rid'" if "map_of (mg_rooms ?m') rid' = Some j" "rm_phase (obj ?m' j) = RoomWaiting" for rid' j
      using waits_invD(1)[OF s(7), of rid' j] that l(6) i(1) by (auto split: if_splits)
    show "rm_phase (obj ?m' j) = RoomWaiting \<or> (\<exists>d \<in> set ?cs. dropping j d) \<or>
        length (seated (obj ?m' j)) \<ge> 2 \<and> (\<exists>d \<in> set ?cs. registering j d)"
      if j: "map_of (mg_rooms ?m') (mg_waiting ?m') = Some j" for j
    proof (cases "j = i \<and> gone")
      case True
      have "?c \<in> set ?cs" using t by (rule own_call)
      then have "\<exists>d \<in> set ?cs. dropping j d" using True by (intro bexI[of _ ?c]) simp_all
      then show ?thesis by blast
    next
      case False
      have kept: "(\<exists>d \<in> set (sc_calls w). dropping j d) \<Longrightarrow> (\<exists>d \<in> set ?cs. dropping j d)"
        "(\<exists>d \<in> set (sc_calls w). registering j d) \<Longrightarrow> (\<exists>d \<in> set ?cs. registering j d)"
        using kept_call[of "sc_calls w" "dropping j" t ?c] kept_call[of "sc_calls w" "registering j" t ?c] c by simp_all
      have "map_of (mg_rooms ?m) (mg_waiting ?m) = Some j" using j by simp
      moreover have "rm_phase (obj ?m j) = RoomWaiting \<Longrightarrow> rm_phase (obj ?m' j) = RoomWaiting"
        using False l(7) i(1) by (cases "j = i") auto
      ultimately show ?thesis using waits_invD(2)[OF s(7)] kept unfolding seats by blast
    qed
  qed
  ultimately show ?thesis by (simp add: conns_inv_def)
qed

lemma cleanup_conns:
  assumes inv: "server_inv w" and t: "t < length (sc_calls w)" and c: "sc_calls w ! t = LeaveCleanup p rid i"
  shows "conns_inv (leave_cleanup (sc_manager w) rid i p) ((sc_calls w)[t := Outside])"
proof -
  let ?m = "sc_manager w"
  let ?m' = "leave_cleanup ?m rid i p" and ?cs = "(sc_calls w)[t := Outside]"
  note s = server_invD[OF inv]
  note k = calls_invD[OF s(1)]
  note f = leave_cleanup_fields leave_cleanup_players
  have mem: "LeaveCleanup p rid i \<in> set (sc_calls w)" using nth_mem[OF t] c by simp
  have ok: "i < length (mg_objs ?m)" "rid = room_name (Suc i)" "p \<in> set (seated (obj ?m i))"
    "rm_phase (obj ?m i) = RoomClosed" "\<not> some_connected (obj ?m i)"
    using k(4)[OF mem] by simp_all
  have live: "map_of (mg_rooms ?m) rid = Some i" using drops_invD(1)[OF s(6) mem] .
  have nobody: "\<not> online (obj ?m i) q" for q using ok(5) some_connected_online by blast
  have other: "d \<in> set (sc_calls w)" if "d \<in> set ?cs" "d \<noteq> Outside" for d
    using upd_member[OF that(1)] that(2) by blast
  have rooms: "map_of (mg_rooms ?m') rid' = Some j \<longleftrightarrow> map_of (mg_rooms ?m) rid' = Some j \<and> j \<noteq> i" for rid' j
    using live ok(2) books_room(2)[OF k(2), of rid' j] by (auto simp: leave_cleanup_fields)
  have inside: "map_of (mg_players ?m) q = Some rid" if q: "q \<in> set (seated (obj ?m i))" for q
  proof -
    have "\<not> registers q i d" if d: "d \<in> set (sc_calls w)" for d
    proof
      assume "registers q i d"
      then obtain ms where ms: "d = JoinRegister q i ms" using registers_is by blast
      then have "ms_RoomID ms = rid" using k(4)[OF d] ok(2) by simp
      then have "owner d = Some (q, rid)" using ms by simp
      then show False using owner_room[OF inv d] live nobody by auto
    qed
    then show ?thesis using seats_invD(1)[OF s(5) live q] by blast
  qed
  have "\<forall>d \<in> set ?cs. \<not> closing d" using s(3) other by fastforce
  moreover have "owners_inv ?m' ?cs"
  proof (rule owners_inv_same[OF s(4) t])
    have "on_line ?m' rid' q = on_line ?m rid' q" for rid' q
      using rooms[of rid'] nobody by (auto simp: on_line_def f(3))
    then show "on_line ?m' = on_line ?m" by (simp add: fun_eq_iff)
  qed (simp add: c)
  moreover have "seats_inv ?m' ?cs"
  proof (rule seats_invI)
    show "map_of (mg_players ?m') q = Some rid' \<or> (\<exists>d \<in> set ?cs. registers q j d)"
      if l: "map_of (mg_rooms ?m') rid' = Some j" "q \<in> set (seated (obj ?m' j))" for rid' j q
    proof -
      have j: "map_of (mg_rooms ?m) rid' = Some j" "j \<noteq> i" "q \<in> set (seated (obj ?m j))"
        using l rooms by (simp_all add: f)
      have "rid' \<noteq> rid" using books_room(2)[OF k(2) j(1)] j(2) ok(2) by auto
      then have "map_of (mg_players ?m) q = Some rid' \<longrightarrow> q \<noteq> p \<and> q \<notin> set (seated (obj ?m i))"
        using inside ok(3) by auto
      then show ?thesis
        using seats_invD(1)[OF s(5) j(1,3)] kept_call[of "sc_calls w" "registers q j" t Outside] c
        by (auto simp: f)
    qed
    show "map_of (mg_players ?m') q = None \<or> map_of (mg_players ?m') q = Some (room_name (Suc j))"
      if "JoinRegister q j x \<in> set ?cs" for q j x
      using seats_invD(2)[OF s(5) other[OF that]] by (simp add: f)
    show "q \<in> set (seated (obj ?m' j)) \<or> map_of (mg_players ?m') q = None" if "JoinSeat q j \<in> set ?cs" for q j
      using seats_invD(3)[OF s(5) other[OF that]] by (auto simp: f)
    show "map_of (mg_rooms ?m') rid' \<noteq> None" if q: "map_of (mg_players ?m') q = Some rid'" for q rid'
    proof -
      have q': "map_of (mg_players ?m) q = Some rid'" "q \<notin> set (seated (obj ?m i))" using q by (auto simp: f split: if_splits)
      have "rid' \<noteq> rid" using books_player[OF k(2) q'(1)] q'(2) ok(2) by auto
      then show ?thesis using seats_invD(4)[OF s(5) q'(1)] by (simp add: f)
    qed
  qed
  moreover have "drops_inv ?m' ?cs"
  proof (rule drops_invI)
    show "map_of (mg_rooms ?m') rid' = Some j" if d: "LeaveCleanup q rid' j \<in> set ?cs" for q rid' j
    proof -
      obtain u where u: "u < length ?cs" "?cs ! u = LeaveCleanup q rid' j" using d by (metis in_set_conv_nth)
      then have ut: "u \<noteq> t" using t by auto
      have "j \<noteq> i" using drops_invD(2)[OF s(6), of u t i] u ut t c by auto
      then show ?thesis using drops_invD(1)[OF s(6) other[OF d]] rooms by simp
    qed
    show "a = b" if "a < length ?cs" "b < length ?cs" "dropping j (?cs ! a)" "dropping j (?cs ! b)" for a b j
      using drops_once[OF s(6) that] by simp
    show "rm_phase (obj ?m' j) = RoomClosed \<and> \<not> some_connected (obj ?m' j)"
      if "j < length (mg_objs ?m')" "map_of (mg_rooms ?m') (room_name (Suc j)) = None" for j
      using drops_invD(3)[OF s(6), of j] that ok by (cases "j = i") (auto simp: f split: if_splits)
    show "seated (obj ?m' j) \<noteq> []" if "j < length (mg_objs ?m')" "rm_phase (obj ?m' j) = RoomClosed" for j
      using drops_invD(4)[OF s(6), of j] that by (simp add: f)
    show "seated (obj ?m' j) \<noteq> []" if "JoinRelease q j err \<in> set ?cs" for q j err
      using drops_invD(5)[OF s(6) other[OF that]] by (simp add: f)
  qed
  moreover have "waits_inv ?m' ?cs"
  proof (rule waits_invI)
    show "mg_waiting ?m' = rid'" if j: "map_of (mg_rooms ?m') rid' = Some j" "rm_phase (obj ?m' j) = RoomWaiting" for rid' j
    proof -
      have j': "map_of (mg_rooms ?m) rid' = Some j" "j \<noteq> i" using j(1) rooms by simp_all
      then have "rid' \<noteq> rid" using books_room(2)[OF k(2) j'(1)] ok(2) by auto
      moreover have "mg_waiting ?m = rid'" using waits_invD(1)[OF s(7) j'(1)] j(2) by (simp add: f)
      ultimately show ?thesis by (simp add: f)
    qed
    show "rm_phase (obj ?m' j) = RoomWaiting \<or> (\<exists>d \<in> set ?cs. dropping j d) \<or>
        length (seated (obj ?m' j)) \<ge> 2 \<and> (\<exists>d \<in> set ?cs. registering j d)"
      if j: "map_of (mg_rooms ?m') (mg_waiting ?m') = Some j" for j
    proof -
      have j': "map_of (mg_rooms ?m) (mg_waiting ?m') = Some j" "j \<noteq> i" using j rooms by blast+
      have "mg_waiting ?m' = mg_waiting ?m" using j' books_waiting[OF k(2)] by (auto simp: f split: if_splits)
      then have "map_of (mg_rooms ?m) (mg_waiting ?m) = Some j" using j'(1) by simp
      moreover have "(\<exists>d \<in> set (sc_calls w). dropping j d) \<Longrightarrow> (\<exists>d \<in> set ?cs. dropping j d)"
        "(\<exists>d \<in> set (sc_calls w). registering j d) \<Longrightarrow> (\<exists>d \<in> set ?cs. registering j d)"
        using kept_call[of "sc_calls w" "dropping j" t Outside] kept_call[of "sc_calls w" "registering j" t Outside]
          c j'(2) by simp_all
      ultimately show ?thesis using waits_invD(2)[OF s(7)] unfolding f by blast
    qed
  qed
  ultimately show ?thesis by (simp add: conns_inv_def)
qed

context rules_runner
begin

lemma step_conns:
  assumes inv: "server_inv w" and t: "t < length (sc_calls w)"
    and step: "call_step eval seedFor (sc_manager w) (sc_calls w ! t) = Some (m', c')"
  shows "conns_inv m' ((sc_calls w)[t := c'])"
proof -
  note s = server_invD[OF inv]
  note k = calls_invD[OF s(1)]
  have mem: "sc_calls w ! t \<in> set (sc_calls w)" using t by simp
  note ok = k(4)[OF mem]
  have same: ?thesis if "m' = sc_manager w" "owner c' = owner (sc_calls w ! t)" "plain c'" "plain (sc_calls w ! t)"
    using that by (intro conns_inv_same[OF s(2) t]) (cases "sc_calls w ! t"; auto)+
  show ?thesis
  proof (cases "sc_calls w ! t")
    case (JoinChoose p)
    then show ?thesis using choose_conns[OF inv t _ step] by blast
  next
    case (JoinSeat p i)
    have i: "i < length (mg_objs (sc_manager w))" using ok JoinSeat by simp
    show ?thesis
      using objs_invD(1)[OF k(1) i]
    proof (cases rule: room_join_outcome[where p = p])
      case (refused r err)
      then show ?thesis using seat_conns_refused[OF inv t JoinSeat i refused(2,3)] step JoinSeat by auto
    next
      case (joined r seat events again)
      then show ?thesis using seat_conns_joined[OF inv t JoinSeat i joined(2)] step JoinSeat by auto
    qed
  next
    case (JoinRelease p i err)
    then show ?thesis using release_conns[OF inv t JoinRelease] step by simp
  next
    case (JoinRegister p i ms)
    then show ?thesis using register_conns[OF inv t JoinRegister] step by simp
  next
    case (SubmitLookup p own rid x)
    then show ?thesis using step by (intro same) (auto split: sum.splits)
  next
    case (SubmitRoom p own i x)
    have i: "i < length (mg_objs (sc_manager w))" using ok SubmitRoom by simp
    obtain r result where r: "room_submit eval (obj (sc_manager w) i) p x = Some (r, result)"
      "room_quiet (obj (sc_manager w) i) r"
      using room_submit_outcome[OF objs_invD(1)[OF k(1) i]] by blast
    have "conns_inv (set_obj i r (sc_manager w)) ((sc_calls w)[t := SubmitReturn p own result])"
      using SubmitRoom by (intro conns_inv_same[OF s(2) t same_view_quiet[OF i r(2)]]) auto
    then show ?thesis using step SubmitRoom r(1) by simp
  next
    case (LeaveLookup p own)
    then obtain i where "leave_lookup (sc_manager w) p = Some (own, i)" using leave_finds_room[OF inv] mem by metis
    then show ?thesis using step LeaveLookup by (intro same) auto
  next
    case (LeaveRoom p rid i)
    have i: "i < length (mg_objs (sc_manager w))" "rid = room_name (Suc i)" using ok LeaveRoom by simp_all
    obtain i' where "map_of (mg_rooms (sc_manager w)) rid = Some i'" "online (obj (sc_manager w) i') p"
      using owner_room[OF inv mem, of p rid] LeaveRoom by auto
    moreover from this have "i' = i" using books_room(2)[OF k(2), of rid i'] i(2) by simp
    ultimately have p: "p \<in> set (seated (obj (sc_manager w) i))" using online_seated by blast
    show ?thesis
      using objs_invD(1)[OF k(1) i(1)]
    proof (cases rule: room_leave_outcome[where p = p])
      case (stranger err)
      then show ?thesis using p by simp
    next
      case (left r gone)
      then show ?thesis using leave_conns[OF inv t LeaveRoom left(2)] step LeaveRoom by simp
    qed
  next
    case (LeaveCleanup p rid i)
    then show ?thesis using cleanup_conns[OF inv t LeaveCleanup] step by simp
  next
    case (CloseReset reason)
    then show ?thesis using s(3)[OF mem] by simp
  next
    case (CloseRooms reason "is")
    then show ?thesis using s(3)[OF mem] by simp
  next
    case Outside
    then have "m' = sc_manager w \<and> c' = Outside" using step by simp
    then show ?thesis using Outside by (intro same) simp_all
  next
    case (JoinLock p)
    then have "m' = sc_manager w \<and> c' = JoinLock p" using step by simp
    then show ?thesis using JoinLock by (intro same) simp_all
  next
    case (JoinUnlock p result)
    then have "m' = sc_manager w \<and> c' = JoinUnlock p result" using step by simp
    then show ?thesis using JoinUnlock by (intro same) simp_all
  next
    case (Inside p own)
    then have "m' = sc_manager w \<and> c' = Inside p own" using step by simp
    then show ?thesis using Inside by (intro same) simp_all
  next
    case (SubmitReturn p own result)
    then have "m' = sc_manager w \<and> c' = Inside p own" using step by simp
    then show ?thesis using SubmitReturn by (intro same) simp_all
  qed
qed

lemma advance_conns:
  assumes inv: "server_inv w" and t: "t < length (sc_calls w)"
    and step: "advance_call eval seedFor w t = Some w'"
  shows "conns_inv (sc_manager w') (sc_calls w')"
proof -
  note s = server_invD[OF inv]
  consider (lock) p where "sc_calls w ! t = JoinLock p" | (unlock) p result where "sc_calls w ! t = JoinUnlock p result"
    | (work) "\<forall>p result. sc_calls w ! t \<noteq> JoinLock p \<and> sc_calls w ! t \<noteq> JoinUnlock p result"
    by blast
  then show ?thesis
  proof cases
    case lock
    have "conns_inv (sc_manager w) ((sc_calls w)[t := JoinChoose p])"
      using lock by (intro conns_inv_same[OF s(2) t]) auto
    then show ?thesis using step lock s(2) by (auto simp: advance_call_def split: if_splits)
  next
    case unlock
    let ?c = "case result of Inl err \<Rightarrow> Outside | Inr ms \<Rightarrow> Inside p (ms_RoomID ms)"
    have "conns_inv (sc_manager w) ((sc_calls w)[t := ?c])"
      using unlock by (intro conns_inv_same[OF s(2) t]) (auto split: sum.split)
    then show ?thesis using step unlock by (auto simp: advance_call_def)
  next
    case work
    obtain m' c' where "call_step eval seedFor (sc_manager w) (sc_calls w ! t) = Some (m', c')"
      "w' = w\<lparr>sc_manager := m', sc_calls := (sc_calls w)[t := c']\<rparr>"
      using step advance_section[OF work] by (auto split: option.splits)
    then show ?thesis using step_conns[OF inv t] by simp
  qed
qed

end

lemma begin_call_plain:
  "begin_call op c = c \<or> owner (begin_call op c) = owner c \<and> plain c \<and> (plain (begin_call op c) \<or> closes (Begin t op))"
  by (cases "(op, c)" rule: begin_call.cases) simp_all

lemma server_exec_kept:
  assumes inv: "server_inv w" and x: "\<not> closes x"
  shows "\<exists>w'. calls_exec seedFor w x = Some w' \<and> server_inv w'"
proof -
  note s = server_invD[OF inv]
  note k = calls_invD[OF s(1)]
  obtain w' where w': "calls_exec seedFor w x = Some w'" "calls_inv w'"
    using calls_exec_kept[OF s(1)] by blast
  have "conns_inv (sc_manager w') (sc_calls w')"
  proof (cases x)
    case (Begin t op)
    show ?thesis
    proof (cases "t < length (sc_calls w) \<and> begin_call op (sc_calls w ! t) \<noteq> sc_calls w ! t")
      case True
      let ?c = "begin_call op (sc_calls w ! t)"
      have t: "t < length (sc_calls w)" using True by simp
      have c: "owner ?c = owner (sc_calls w ! t)" "plain (sc_calls w ! t)" "plain ?c"
        using begin_call_plain[of op "sc_calls w ! t" t] True x Begin by auto
      have "conns_inv (sc_manager w) ((sc_calls w)[t := ?c])"
        using c by (intro conns_inv_same[OF s(2) t]) (cases "sc_calls w ! t"; auto)+
      then show ?thesis using w'(1) Begin t by auto
    next
      case False
      then have "w' = w" using w'(1) Begin by (auto split: if_splits)
      then show ?thesis using s(2) by simp
    qed
  next
    case (Advance t fails)
    then show ?thesis
      using w'(1) engine.advance_conns[OF inv] s(2) by (cases "t < length (sc_calls w)") auto
  next
    case (Receive i l)
    let ?r = "(obj (sc_manager w) i)\<lparr>rm_chans := chan_recv (rm_chans (obj (sc_manager w) i)) l\<rparr>"
    show ?thesis
    proof (cases "i < length (mg_objs (sc_manager w))")
      case True
      have v: "same_view (sc_manager w) (set_obj i ?r (sc_manager w))"
        using True by (intro same_view_quiet room_recv_quiet objs_invD(1)[OF k(1)])
      have "conns_inv (set_obj i ?r (sc_manager w)) (sc_calls w)" using s(2) v by (rule conns_inv_view)
      then show ?thesis using w'(1) Receive True by auto
    next
      case False
      then show ?thesis using w'(1) Receive s(2) by auto
    qed
  qed
  then show ?thesis using w' by (simp add: server_inv_def)
qed

lemma server_run_kept:
  "server_inv w \<Longrightarrow> \<not> list_ex closes xs \<Longrightarrow> \<exists>w'. calls_run seedFor w xs = Some w' \<and> server_inv w'"
proof (induction xs arbitrary: w)
  case (Cons x xs)
  obtain w1 where w1: "calls_exec seedFor w x = Some w1" "server_inv w1"
    using server_exec_kept[OF Cons.prems(1)] Cons.prems(2) by auto
  with Cons.IH[OF w1(2)] Cons.prems(2) show ?case by simp
qed simp

section \<open>Between calls\<close>

lemma quiet_calls:
  "calls_quiet w \<Longrightarrow> c \<in> set (sc_calls w) \<Longrightarrow> at_rest c"
  by (simp add: calls_quiet_def list_all_iff)

lemma quiet_none:
  assumes "calls_quiet w" "c \<in> set (sc_calls w)"
  shows "\<not> registers q i c" "\<not> registering i c" "\<not> dropping i c" "\<not> joining i c"
  using quiet_calls[OF assms] by (cases c; simp)+

text \<open>With the shutdown: a room that is kept between calls has a connected player.\<close>

lemma quiet_rooms:
  assumes "calls_inv w" "calls_quiet w" "map_of (mg_rooms (sc_manager w)) rid = Some i"
  shows "some_connected (obj (sc_manager w) i)"
  using calls_invD(5)[OF assms(1,3)] quiet_none[OF assms(2)] by (auto simp: needed_def)

text \<open>Without it: all that holds between calls that run one after the other.\<close>

lemma quiet_manager_inv:
  assumes inv: "server_inv w" and quiet: "calls_quiet w"
  shows "manager_inv (sc_manager w)"
proof -
  let ?m = "sc_manager w"
  note s = server_invD[OF inv]
  note k = calls_invD[OF s(1)]
  note n = quiet_none[OF quiet]
  have wait: "(rm_phase (obj ?m i) = RoomWaiting) = (mg_waiting ?m = rid)"
    if "map_of (mg_rooms ?m) rid = Some i" for rid i
    using waits_invD(1)[OF s(7) that] waits_invD(2)[OF s(7), of i] that n by auto
  have "rooms_inv ?m"
    using k(2) wait books_room[OF k(2)] quiet_rooms[OF s(1) quiet] unfolding rooms_inv_def books_inv_def by metis
  moreover have "players_inv ?m"
  proof -
    have "map_of (mg_players ?m) q = Some rid \<longleftrightarrow>
        (\<exists>i. map_of (mg_rooms ?m) rid = Some i \<and> q \<in> set (seated (obj ?m i)))" for q rid
    proof
      assume q: "map_of (mg_players ?m) q = Some rid"
      obtain j where j: "j < length (mg_objs ?m)" "rid = room_name (Suc j)" "q \<in> set (seated (obj ?m j))"
        using books_player[OF k(2) q] by blast
      then have "map_of (mg_rooms ?m) rid = Some j"
        using seats_invD(4)[OF s(5) q] by (intro on_line_books[OF k(2)])
      then show "\<exists>i. map_of (mg_rooms ?m) rid = Some i \<and> q \<in> set (seated (obj ?m i))" using j(3) by blast
    next
      assume "\<exists>i. map_of (mg_rooms ?m) rid = Some i \<and> q \<in> set (seated (obj ?m i))"
      then show "map_of (mg_players ?m) q = Some rid" using seats_invD(1)[OF s(5)] n by blast
    qed
    then show ?thesis using k(2) by (simp add: players_inv_def books_inv_def)
  qed
  moreover have "dropped_inv ?m" using drops_invD(3)[OF s(6)] by (simp add: dropped_inv_def)
  ultimately show ?thesis using k(1) by (simp add: manager_inv_def)
qed

text \<open>When the last connection has gone, nothing is left.\<close>

lemma nothing_left:
  assumes inv: "server_inv w" and out: "\<forall>c \<in> set (sc_calls w). c = Outside"
  shows "RoomCount (sc_manager w) = 0 \<and> PlayerCount (sc_manager w) = 0"
proof -
  have quiet: "calls_quiet w" using out by (auto simp: calls_quiet_def list_all_iff)
  note s = server_invD[OF inv]
  have "map_of (mg_rooms (sc_manager w)) rid = None" for rid
  proof (rule ccontr)
    assume "map_of (mg_rooms (sc_manager w)) rid \<noteq> None"
    then obtain i where i: "map_of (mg_rooms (sc_manager w)) rid = Some i" by blast
    obtain q where "online (obj (sc_manager w) i) q"
      using quiet_rooms[OF s(1) quiet i] some_connected_online by blast
    from owners_invD(3)[OF s(4) i this] show False using out by auto
  qed
  then have "map_of (mg_rooms (sc_manager w)) = Map.empty" by (rule ext)
  then have "RoomCount (sc_manager w) = 0" by (simp add: RoomCount_def)
  then show ?thesis using RoomCount_zero[OF quiet_manager_inv[OF inv quiet]] by simp
qed

text \<open>Between calls the connections are the connected players.\<close>

lemma quiet_owners:
  assumes inv: "server_inv w" and quiet: "calls_quiet w"
  shows "Inside p rid \<in> set (sc_calls w) \<longleftrightarrow> on_line (sc_manager w) rid p"
proof
  assume "Inside p rid \<in> set (sc_calls w)"
  then show "on_line (sc_manager w) rid p"
    by (rule owners_on_line(1)[OF server_invD(4)[OF inv]]) simp
next
  assume "on_line (sc_manager w) rid p"
  then obtain c where c: "c \<in> set (sc_calls w)" "owner c = Some (p, rid)"
    using owners_on_line(2)[OF server_invD(4)[OF inv]] by blast
  then have "c = Inside p rid" using quiet_calls[OF quiet c(1)] by (cases c rule: owner.cases) simp_all
  then show "Inside p rid \<in> set (sc_calls w)" using c(1) by simp
qed

lemma submit_finds_player:
  assumes inv: "server_inv w" and c: "SubmitLookup p own own x \<in> set (sc_calls w)"
  shows "\<exists>i. submit_lookup (sc_manager w) own p = Inr i \<and> online (obj (sc_manager w) i) p"
  using owner_registered[OF inv c] owner_room[OF inv c] by (auto simp: submit_lookup_def)

end
