(* ===== verification/CallsAlone.thy ===== *)
theory CallsAlone
  imports CallsLemmas
begin

text \<open>
  A call that nobody interrupts does what the operation of \<open>Manager\<close> says, so that the runs of
  \<open>manager_run\<close> are among the schedules; and a schedule in which a newcomer is turned away by a
  player who leaves at the same time.
\<close>

text \<open>The goroutines that can begin a call at this point.\<close>

fun begins :: "manager_op \<Rightarrow> call \<Rightarrow> bool" where
  "begins (CallJoin p) Outside = True"
| "begins (CallSubmit rid q c) (Inside p own) = (q = p)"
| "begins (CallLeave q) (Inside p own) = (q = p)"
| "begins (CallClose reason) Outside = True"
| "begins op c = False"

lemma advance_rest:
  "t < length (sc_calls w) \<Longrightarrow> at_rest (sc_calls w ! t) \<Longrightarrow>
   calls_run seedFor w (replicate k (Advance t fails)) = Some w"
proof (induction k)
  case (Suc k)
  have "(sc_calls w)[t := sc_calls w ! t] = sc_calls w" by simp
  then have e: "(sc_calls w)[t := c] = sc_calls w" if "sc_calls w ! t = c" for c using that by simp
  have "advance_call (engine_runner fails) seedFor w t = Some w"
    using Suc.prems(2) e by (cases "sc_calls w ! t") (simp_all add: advance_call_def)
  then show ?case using Suc by simp
qed simp

lemma join_alone:
  assumes t: "t < length (sc_calls w)" "sc_calls w ! t = Outside" and free: "sc_joinMu w = None"
    and j: "Manager_Join (engine_runner fails) seedFor (sc_manager w) p = Some (m', res)"
  shows "calls_run seedFor w (Begin t (CallJoin p) # replicate 5 (Advance t fails)) =
    Some (w\<lparr>sc_manager := m', sc_calls := (sc_calls w)[t :=
      case res of Inl err \<Rightarrow> Outside | Inr ms \<Rightarrow> Inside p (ms_RoomID ms)]\<rparr>)"
proof (cases "p = ''''")
  case True
  have "(sc_calls w)[t := Outside] = sc_calls w" using t by (metis list_update_id)
  then show ?thesis using True j t advance_rest[of t w seedFor 5 fails] by (auto simp: Manager_Join_def)
next
  case False
  obtain m1 i where rj: "roomForJoin seedFor (sc_manager w) p = (m1, i)" by fastforce
  obtain r x where x: "room_join (engine_runner fails) (obj m1 i) p = Some (r, x)"
    using j False rj by (auto simp: Manager_Join_def split: option.splits)
  show ?thesis
  proof (cases x)
    case (Inl err)
    then have "m' = releaseOnJoinFailure (set_obj i r m1) i \<and> res = Inl err"
      using j False rj x by (simp add: Manager_Join_def)
    then show ?thesis using False rj x t free Inl by (simp add: advance_call_def eval_nat_numeral)
  next
    case (Inr y)
    obtain seat events again where y: "y = (seat, events, again)" by (cases y)
    let ?ms = "\<lparr>ms_RoomID = rm_id r, ms_PlayerID = p, ms_Seat = seat, ms_Events = events, ms_Reconnected = again\<rparr>"
    have "m' = join_record (set_obj i r m1) i p \<and> res = Inr ?ms"
      using j False rj x Inr y by (simp add: Manager_Join_def)
    then show ?thesis using False rj x t free Inr y by (simp add: advance_call_def eval_nat_numeral)
  qed
qed

lemma submit_alone:
  assumes t: "t < length (sc_calls w)" "sc_calls w ! t = Inside p own"
    and s: "Manager_Submit (engine_runner fails) (sc_manager w) rid p c = Some (m', result)"
  shows "calls_run seedFor w (Begin t (CallSubmit rid p c) # replicate 3 (Advance t fails)) =
    Some (w\<lparr>sc_manager := m'\<rparr>)"
proof -
  have e: "(sc_calls w)[t := Inside p own] = sc_calls w" using t by (metis list_update_id)
  show ?thesis
  proof (cases "submit_lookup (sc_manager w) rid p")
    case (Inl resp)
    then have "m' = sc_manager w"
      using s by (auto simp: submit_lookup_def Manager_Submit_def split: option.splits if_splits)
    then show ?thesis using Inl t e by (simp add: advance_call_def eval_nat_numeral)
  next
    case (Inr i)
    then have "room_submit (engine_runner fails) (obj (sc_manager w) i) p c \<noteq> None \<and>
        m' = set_obj i (fst (the (room_submit (engine_runner fails) (obj (sc_manager w) i) p c))) (sc_manager w)"
      using s by (auto simp: submit_lookup_def Manager_Submit_def split: option.splits if_splits)
    then show ?thesis using Inr t e by (auto simp: advance_call_def eval_nat_numeral)
  qed
qed

lemma leave_alone:
  assumes t: "t < length (sc_calls w)" "sc_calls w ! t = Inside p own"
    and l: "Manager_Leave (sc_manager w) p = Some (m', err)"
  shows "calls_run seedFor w (Begin t (CallLeave p) # replicate 3 (Advance t fails)) =
    Some (w\<lparr>sc_manager := m', sc_calls := (sc_calls w)[t := Outside]\<rparr>)"
proof (cases "leave_lookup (sc_manager w) p")
  case None
  then have "m' = sc_manager w" using l by (simp add: Manager_Leave_def)
  then show ?thesis using None t by (simp add: advance_call_def eval_nat_numeral)
next
  case (Some x)
  obtain rid i where x: "x = (rid, i)" by fastforce
  obtain r y where y: "room_leave (obj (sc_manager w) i) p = Some (r, y)"
    using l Some x by (auto simp: Manager_Leave_def split: option.splits)
  show ?thesis
  proof (cases y)
    case (Inl e)
    then have "m' = set_obj i r (sc_manager w)" using l Some x y by (simp add: Manager_Leave_def)
    then show ?thesis using Some x y t Inl by (simp add: advance_call_def eval_nat_numeral)
  next
    case (Inr gone)
    then have "m' = (if gone then leave_cleanup (set_obj i r (sc_manager w)) rid i p else set_obj i r (sc_manager w))"
      using l Some x y by (auto simp: Manager_Leave_def Let_def)
    then show ?thesis using Some x y t Inr by (auto simp: advance_call_def eval_nat_numeral)
  qed
qed

lemma close_rooms_alone:
  assumes "t < length (sc_calls w)" "sc_calls w ! t = CloseRooms reason is"
    and "close_rooms reason is (sc_manager w) = Some m'"
  shows "calls_run seedFor w (replicate (Suc (length is)) (Advance t fails)) =
    Some (w\<lparr>sc_manager := m', sc_calls := (sc_calls w)[t := Outside]\<rparr>)"
  using assms
proof (induction "is" arbitrary: w)
  case Nil
  then show ?case by (simp add: advance_call_def)
next
  case (Cons i "is")
  obtain r where r: "room_close reason (obj (sc_manager w) i) = Some r"
    "close_rooms reason is (set_obj i r (sc_manager w)) = Some m'"
    using Cons.prems(3) by (auto split: option.splits)
  let ?w = "w\<lparr>sc_manager := set_obj i r (sc_manager w), sc_calls := (sc_calls w)[t := CloseRooms reason is]\<rparr>"
  have "calls_exec seedFor w (Advance t fails) = Some ?w"
    using Cons.prems(1,2) r(1) by (simp add: advance_call_def)
  moreover have "calls_run seedFor ?w (replicate (Suc (length is)) (Advance t fails)) =
    Some (?w\<lparr>sc_manager := m', sc_calls := (sc_calls ?w)[t := Outside]\<rparr>)"
    using Cons.prems(1) r(2) by (intro Cons.IH) simp_all
  ultimately show ?case by (simp del: calls_exec.simps add: replicate_Suc)
qed

lemma close_alone:
  assumes t: "t < length (sc_calls w)" "sc_calls w ! t = Outside"
    and m': "Manager_Close reason (sc_manager w) = Some m'"
  shows "calls_run seedFor w (Begin t (CallClose reason) #
      replicate (Suc (Suc (length (mg_rooms (sc_manager w))))) (Advance t fails)) =
    Some (w\<lparr>sc_manager := m', sc_calls := (sc_calls w)[t := Outside]\<rparr>)"
proof -
  let ?m = "fst (close_reset (sc_manager w))" and ?is = "map snd (mg_rooms (sc_manager w))"
  let ?w = "w\<lparr>sc_manager := ?m, sc_calls := (sc_calls w)[t := CloseRooms reason ?is]\<rparr>"
  have "calls_run seedFor ?w (replicate (Suc (length ?is)) (Advance t fails)) =
    Some (?w\<lparr>sc_manager := m', sc_calls := (sc_calls ?w)[t := Outside]\<rparr>)"
    using t m' by (intro close_rooms_alone) (simp_all add: Manager_Close_def close_reset_def)
  then show ?thesis using t by (simp add: advance_call_def close_reset_def)
qed

text \<open>Run one after the other, the calls are the operations of the manager.\<close>

lemma call_alone:
  assumes t: "t < length (sc_calls w)" and op: "begins op (sc_calls w ! t)"
    and free: "sc_joinMu w = None"
    and m': "manager_exec (engine_runner fails) seedFor (sc_manager w) op = Some m'"
  shows "\<exists>k w'. calls_run seedFor w (Begin t op # replicate k (Advance t fails)) = Some w' \<and> sc_manager w' = m' \<and>
    sc_joinMu w' = None \<and> at_rest (sc_calls w' ! t) \<and> (\<forall>u. u \<noteq> t \<longrightarrow> sc_calls w' ! u = sc_calls w ! u)"
proof (cases "(op, sc_calls w ! t)" rule: begins.cases)
  case (1 p)
  then obtain res where j: "Manager_Join (engine_runner fails) seedFor (sc_manager w) p = Some (m', res)"
    using m' by auto
  let ?w = "w\<lparr>sc_manager := m', sc_calls := (sc_calls w)[t :=
      case res of Inl err \<Rightarrow> Outside | Inr ms \<Rightarrow> Inside p (ms_RoomID ms)]\<rparr>"
  have "calls_run seedFor w (Begin t op # replicate 5 (Advance t fails)) = Some ?w"
    using join_alone[OF t _ free j] 1 by simp
  moreover have "sc_manager ?w = m' \<and> sc_joinMu ?w = None \<and> at_rest (sc_calls ?w ! t) \<and>
      (\<forall>u. u \<noteq> t \<longrightarrow> sc_calls ?w ! u = sc_calls w ! u)"
    using t free by (simp split: sum.split)
  ultimately show ?thesis by blast
next
  case (2 rid q c p own)
  then obtain res where "Manager_Submit (engine_runner fails) (sc_manager w) rid p c = Some (m', res)"
    using m' op by auto
  from submit_alone[OF t _ this] show ?thesis
    using 2 op t free by (intro exI[of _ 3] exI) auto
next
  case (3 q p own)
  then obtain err where "Manager_Leave (sc_manager w) p = Some (m', err)" using m' op by auto
  from leave_alone[OF t _ this] show ?thesis
    using 3 op t free by (intro exI[of _ 3] exI) auto
next
  case (4 reason)
  then have "Manager_Close reason (sc_manager w) = Some m'" using m' by simp
  from close_alone[OF t _ this] show ?thesis
    using 4 t free by (intro exI[of _ "Suc (Suc (length (mg_rooms (sc_manager w))))"] exI) auto
qed (use op in simp_all)

section \<open>A race between joining and leaving\<close>

text \<open>
  \<open>Join\<close> picks the waiting room in one section and takes the seat in another. When its only player
  leaves in between, the room is closed: the newcomer is refused although a new room was to be had.
\<close>

lemma alone_in_room:
  assumes inv: "room_inv r" and s: "Room_Seats r = [(PlayerDark, p)]"
  obtains r' where "room_leave r p = Some (r', Inr True)" "rm_phase r' = RoomClosed"
  using inv
proof (cases rule: room_leave_outcome[where p = p])
  case (stranger err)
  then show ?thesis using s by (simp add: seated_def)
next
  case (left r' gone)
  have "\<not> some_connected r'"
  proof
    assume "some_connected r'"
    then obtain q where "online r' q" using some_connected_online by blast
    then have "online r q" "q \<noteq> p" using left(2) by (simp_all add: room_left_def)
    then show False using online_seated[of r q] s by (simp add: seated_def)
  qed
  then have gone using left(2) by (auto simp: room_left_def)
  then show ?thesis using that[of r'] left by (simp add: room_left_def)
qed

text \<open>The server after a first player has joined.\<close>

definition first_inside :: "(string \<Rightarrow> 32 word) \<Rightarrow> server_calls" where
  "first_inside seeds =
     \<lparr>sc_manager = manager_opened seeds NewManager ''alice'', sc_joinMu = None,
      sc_calls = [Inside ''alice'' (room_name 1), Outside]\<rparr>"

lemma first_joins:
  "calls_run seeds (calls_start 2) (Begin 0 (CallJoin ''alice'') # replicate 5 (Advance 0 (\<lambda>_. None))) =
     Some (first_inside seeds)"
proof -
  have "\<exists>ms. Manager_Join (engine_runner (\<lambda>_. None)) seeds NewManager ''alice'' =
      Some (manager_opened seeds NewManager ''alice'', Inr ms) \<and> ms_RoomID ms = room_name 1"
    using NewManager_inv
    by (cases rule: engine.Manager_Join_cases[where playerID = "''alice''" and seedFor = seeds and fails = "\<lambda>_. None"])
      (simp_all add: NewManager_def)
  then show ?thesis
    using join_alone[of 0 "calls_start 2" "\<lambda>_. None" seeds "''alice''"]
    by (auto simp: calls_start_def numeral_2_eq_2 first_inside_def)
qed

lemma join_refused_by_leave:
  "\<exists>w. calls_run seeds (first_inside seeds)
     ((Begin 1 (CallJoin ''bob'') # replicate 2 (Advance 1 (\<lambda>_. None))) @
      (Begin 0 (CallLeave ''alice'') # replicate 2 (Advance 0 (\<lambda>_. None))) @
      [Advance 1 (\<lambda>_. None)]) = Some w \<and>
     sc_calls w = [LeaveCleanup ''alice'' (room_name 1) 0,
       JoinRelease ''bob'' 0 (JoinError ''bob'' (''room'' @ utf8 [0x306F, 0x7D42, 0x4E86,
      0x3057, 0x3066, 0x3044, 0x307E, 0x3059]))]"
proof -
  let ?rid = "room_name (Suc 0)" and ?f = "\<lambda>_. None :: rt_error option"
  let ?r = "room_opened (newRoom ?rid (seeds ?rid)) ''alice''"
  let ?m = "manager_opened seeds NewManager ''alice''"
  note o = room_opened_new[of "Suc 0" "seeds ?rid" "''alice''"]
  obtain r' where r': "room_leave ?r ''alice'' = Some (r', Inr True)" "rm_phase r' = RoomClosed"
    using alone_in_room[OF o(1,3)] .
  have m: "mg_objs ?m = [?r]" "mg_rooms ?m = [(?rid, 0)]" "mg_players ?m = [(''alice'', ?rid)]" "mg_waiting ?m = ?rid"
    "obj ?m 0 = ?r" "set_obj 0 r ?m = ?m\<lparr>mg_objs := [r]\<rparr>" for r
    by (simp_all add: manager_opened_def NewManager_def Let_def obj_def set_obj_def)
  let ?w = "\<lparr>sc_manager = ?m, sc_joinMu = Some 1, sc_calls = [Inside ''alice'' ?rid, JoinSeat ''bob'' 0]\<rparr>"
  let ?w' = "\<lparr>sc_manager = ?m\<lparr>mg_objs := [r']\<rparr>, sc_joinMu = Some 1,
        sc_calls = [LeaveCleanup ''alice'' ?rid 0, JoinSeat ''bob'' 0]\<rparr>"
  have "calls_run seeds (first_inside seeds) (Begin 1 (CallJoin ''bob'') # replicate 2 (Advance 1 ?f)) = Some ?w"
    using o(2)
    by (simp add: first_inside_def numeral_2_eq_2 advance_call_def roomForJoin_def waiting_or_new_def m Room_Phase_def)
  moreover have "calls_run seeds ?w (Begin 0 (CallLeave ''alice'') # replicate 2 (Advance 0 ?f)) = Some ?w'"
    using r'(1) by (simp add: numeral_2_eq_2 advance_call_def leave_lookup_def m)
  moreover have "\<exists>w. calls_run seeds ?w' [Advance 1 ?f] = Some w \<and>
      sc_calls w = [LeaveCleanup ''alice'' ?rid 0,
      JoinRelease ''bob'' 0 (JoinError ''bob'' (''room'' @ utf8 [0x306F, 0x7D42, 0x4E86,
      0x3057, 0x3066, 0x3044, 0x307E, 0x3059]))]"
    using r'(2) by (simp add: advance_call_def obj_def set_obj_def room_join_def)
  ultimately show ?thesis by (simp only: calls_run_append) simp
qed

end
