(* ===== verification/Properties.thy ===== *)
theory Properties
  imports Matches ServerLemmas PeerLemmas Connections CallsAlone
begin

text \<open>
  What the parts promise together, from the bytes of a frame to the replay that is served: the
  properties of the game records, of the store, of the sessions and of the transport, each with a
  concrete instance.
\<close>

section \<open>Concrete values for the instances\<close>

definition gonako_there :: script_runner where
  "gonako_there = \<lparr>sr_gonakoPath = ''gonako'', sr_timeout = 10\<rparr>"

abbreviation working_decoder :: "script_runner \<Rightarrow> string \<Rightarrow> decoder" where
  "working_decoder \<equiv> record_decoder (\<lambda>_. None)"

lemma finished_game:
  assumes "gid \<noteq> ''''"
  obtains cs s where "play (new_game gid seed) cs = Some s" "st_Phase s = PhaseFinished"
    "list_all (\<lambda>c. Command_Validate c = None) cs"
  using play_finishes[OF new_game_inv[OF assms, of seed]] by auto

text \<open>A configuration, and a connection's limiter that has tokens left.\<close>

definition small_config :: demo_config where
  "small_config = \<lparr>dc_addr = '':8080'', dc_webDir = ''web'', dc_rulesDir = ''rules'', dc_publicOrigin = '''',
     dc_maxConnections = 2, dc_maxRooms = 2, dc_commandRate = 8, dc_commandBurst = 16,
     dc_idleTimeout = 60 * second, dc_maxConnectionAge = 60 * second,
     dc_pingInterval = wsPingInterval, dc_readTimeout = 2 * wsPingInterval + 15 * second\<rparr>"

text \<open>
  A world in which the \<open>n\<close>-th command of a game is sent as \<open>n\<close> zero bytes, and the frames that
  carry the game.
\<close>

definition numbered_world :: "command list \<Rightarrow> world" where
  "numbered_world cs = \<lparr>wd_show = (\<lambda>_. ''error''), wd_config = small_config,
     wd_parse = (\<lambda>data. if length data < length cs then Some (cs ! length data) else None),
     wd_seeds = (\<lambda>_. 7)\<rparr>"

definition numbered :: "command list \<Rightarrow> sent list" where
  "numbered cs = map (\<lambda>n. (cs ! n, newRateLimiter 8 16 0, 0, replicate n 0)) [0..<length cs]"

lemma numbered_ok:
  "list_all (\<lambda>c. Command_Validate c = None) cs \<Longrightarrow> list_all (sent_ok (numbered_world cs)) (numbered cs)"
  "map fst (numbered cs) = cs"
  by (auto simp: numbered_def sent_ok_def numbered_world_def list_all_iff limiter_allow_def newRateLimiter_def Let_def)
    (simp add: o_def map_nth)

lemma numbered_config [simp]: "2 \<le> dc_maxRooms (wd_config (numbered_world cs))"
  "wd_seeds (numbered_world cs) = (\<lambda>_. 7)"
  by (simp_all add: numbered_world_def small_config_def)

section \<open>Sessions\<close>

text \<open>
  The process that runs the game records may fail (a timeout, a crash, no program) on any text:
  \<open>decode\<close> is what it does in a run of the server. A record is checked once, when its game ends, and
  its text holds the id of its room, so one failure per text is all that can happen.
\<close>

definition broken_decoder :: decoder where
  "broken_decoder = record_decoder (\<lambda>_. Some (ExitError 1)) gonako_there ''''"

lemma broken_decoder_fails:
  "may_fail (working_decoder gonako_there '''') broken_decoder" "\<nexists>source x. broken_decoder source = Inr x"
proof -
  show "may_fail (working_decoder gonako_there '''') broken_decoder"
    unfolding broken_decoder_def by (rule record_decoder_may_fail)
  show "\<nexists>source x. broken_decoder source = Inr x"
    using record_decoder_failed[where fails = "\<lambda>_. Some (ExitError 1)", OF refl] unfolding broken_decoder_def
    by (metis sum.distinct(1))
qed

text \<open>
  C2. Whatever happens, in any order (joins, frames with any bytes, leaves, refused handshakes,
  failures of the engine and of the process that checks the records), the server does not panic, and
  the record of every room holds exactly the room's game: its seed, and the accepted commands with
  their events in order, from the new game to the state that the room has now; it counts as finished
  exactly when the game is. The operations of the sessions follow each other, and the texts of the
  clock are printable.
\<close>

theorem records_keep_games:
  assumes "may_fail (working_decoder g harness) decode" "list_all (\<lambda>(t, x). stamp (snd t)) xs"
  shows "\<exists>a. session_run w decode new_app xs = Some a \<and> manager_inv (ap_matches a) \<and>
    map rm_seed (mg_objs (ap_matches a)) = map rd_seed (ld_objs (ap_records a)) \<and>
    list_all2 keeps (mg_objs (ap_matches a)) (ld_objs (ap_records a))"
proof -
  obtain a where a: "session_run w decode new_app xs = Some a" "app_inv decode (working_decoder g harness) a"
    using session_run_inv[OF assms(1) new_app_inv assms(2), where w = w] by blast
  then have k: "list_all2 keeps (mg_objs (ap_matches a)) (ld_objs (ap_records a))" "manager_inv (ap_matches a)"
    by (simp_all add: app_inv_def records_inv_def room_recorded_def list_all2_conv_all_nth obj_def)
  then have "map rm_seed (mg_objs (ap_matches a)) = map rd_seed (ld_objs (ap_records a))"
    by (auto simp: list_all2_conv_all_nth keeps_def intro!: nth_equalityI)
  with a(1) k show ?thesis by blast
qed

lemma records_keep_games_witness:
  "\<exists>a. session_run (numbered_world []) broken_decoder new_app (joins ''12:00'' ''ann'' ''bob'') = Some a \<and>
    manager_inv (ap_matches a) \<and> map rm_seed (mg_objs (ap_matches a)) = map rd_seed (ld_objs (ap_records a)) \<and>
    list_all2 keeps (mg_objs (ap_matches a)) (ld_objs (ap_records a))"
  by (rule records_keep_games[OF broken_decoder_fails(1)]) (simp add: joins_def stamp_def printable_def)

text \<open>
  C12. Two players who connect to a server with room for two matches, and whose connections carry the
  commands of a game (within the rate, in frames that parse), play that game: the run exists and the
  room's state is the one that the rules give, whether or not the record of the game can be saved.
\<close>

theorem match_can_be_played:
  assumes "may_fail (working_decoder g harness) decode"
    "ValidateGameID p = None" "ValidateGameID q = None" "p \<noteq> q" "stamp clock" "2 \<le> dc_maxRooms (wd_config w)"
    "play (new_game (room_name 1) (wd_seeds w (room_name 1))) (map fst xs) = Some s" "list_all (sent_ok w) xs"
  shows "\<exists>a. session_run w decode new_app (joins clock p q @ map (sent_op clock 0 p q) xs) = Some a \<and>
    map_option wire_state (rm_state (obj (ap_matches a) 0)) = Some s"
  using match_plays[OF assms] by (auto simp: plays_at_def Let_def)

lemma match_can_be_played_witness:
  "\<exists>cs a s. session_run (numbered_world cs) (working_decoder gonako_there '''') new_app
      (joins ''12:00'' ''ann'' ''bob'' @ map (sent_op ''12:00'' 0 ''ann'' ''bob'') (numbered cs)) = Some a \<and>
    map_option wire_state (rm_state (obj (ap_matches a) 0)) = Some s \<and> st_Phase s = PhaseFinished"
proof -
  obtain cs s where cs: "play (new_game (room_name 1) 7) cs = Some s" "st_Phase s = PhaseFinished"
    "list_all (\<lambda>c. Command_Validate c = None) cs"
    by (rule finished_game[of "room_name 1" 7]) (simp add: room_name_def)
  have "\<exists>a. session_run (numbered_world cs) (working_decoder gonako_there '''') new_app
      (joins ''12:00'' ''ann'' ''bob'' @ map (sent_op ''12:00'' 0 ''ann'' ''bob'') (numbered cs)) = Some a \<and>
    map_option wire_state (rm_state (obj (ap_matches a) 0)) = Some s"
    by (rule match_can_be_played[OF may_fail_refl])
      (use cs numbered_ok(1)[OF cs(3)] in \<open>simp_all add: numbered_ok(2) stamp_def printable_def ValidateGameID_def gameIDPattern_def gameid_char_def is_digit_def Let_def\<close>)
  with cs(2) show ?thesis by blast
qed

text \<open>A run in which a game is played to its end, with any decoder.\<close>

definition played :: "command list \<Rightarrow> (moment \<times> session_op) list" where
  "played cs = joins ''12:00'' ''ann'' ''bob'' @ map (sent_op ''12:00'' 0 ''ann'' ''bob'') (numbered cs)"

lemma played_match:
  obtains cs where
    "\<And>decode. may_fail (working_decoder gonako_there '''') decode \<Longrightarrow>
       \<exists>a s1. session_run (numbered_world cs) decode new_app (played cs) = Some a \<and>
         length (mg_objs (ap_matches a)) = 1 \<and> rm_state (obj (ap_matches a) 0) = Some s1 \<and> st_Phase s1 = PhaseFinished"
    "list_all (\<lambda>(t, x). stamp (snd t)) (played cs)"
proof -
  obtain cs s where cs: "play (new_game (room_name 1) 7) cs = Some s" "st_Phase s = PhaseFinished"
    "list_all (\<lambda>c. Command_Validate c = None) cs"
    by (rule finished_game[of "room_name 1" 7]) (simp add: room_name_def)
  have ids: "ValidateGameID ''ann'' = None" "ValidateGameID ''bob'' = None" "''ann'' \<noteq> ''bob''" "stamp ''12:00''"
    by (simp_all add: stamp_def printable_def ValidateGameID_def gameIDPattern_def gameid_char_def is_digit_def Let_def)
  have ply: "play (new_game (room_name 1) (wd_seeds (numbered_world cs) (room_name 1))) (map fst (numbered cs)) = Some s"
    using cs(1) by (simp add: numbered_ok(2))
  have "\<exists>a s1. session_run (numbered_world cs) decode new_app (played cs) = Some a \<and>
      length (mg_objs (ap_matches a)) = 1 \<and> rm_state (obj (ap_matches a) 0) = Some s1 \<and> st_Phase s1 = PhaseFinished"
    if fl: "may_fail (working_decoder gonako_there '''') decode" for decode
  proof -
    obtain a s1 where a: "session_run (numbered_world cs) decode new_app (played cs) = Some a"
      "plays_at a 0 ''ann'' ''bob'' s1" "wire_state s1 = s"
      "map rm_seed (mg_objs (ap_matches a)) = [wd_seeds (numbered_world cs) (room_name 1)]"
      using match_plays[OF fl ids numbered_config(1) ply numbered_ok(1)[OF cs(3)], folded played_def]
      by (elim exE conjE) (rule that)
    have "rm_state (obj (ap_matches a) 0) = Some s1" "st_Phase s1 = PhaseFinished"
      using a(2,3) cs(2) by (auto simp: plays_at_def Let_def)
    moreover have "length (mg_objs (ap_matches a)) = 1" using arg_cong[OF a(4), of length] by simp
    ultimately show ?thesis using a(1) by blast
  qed
  moreover have "list_all (\<lambda>(t, x). stamp (snd t)) (played cs)"
    using ids(4) by (auto simp: played_def joins_def list_all_iff sent_op_def)
  ultimately show ?thesis by (rule that)
qed

text \<open>
  C1. Whenever a game has finished in a run of the server (sessions in any order, printable clock
  texts, fewer than \<open>10 ^ 59\<close> rooms, whose names are then valid ids), one of two things is true.
  Either its record was written, replayed, compared and stored without an error, and what is served
  under the room's name is every state of the room's game, from the new game to its end, with its
  winner; or the process that replays the record failed: then the record keeps that error, and
  nothing is served under the name (404).
\<close>

theorem finished_match_served:
  assumes "may_fail (working_decoder g harness) decode"
    "session_run w decode new_app xs = Some a" "list_all (\<lambda>(t, x). stamp (snd t)) xs"
    "i < length (mg_objs (ap_matches a))" "Suc i < 10 ^ 59"
    "rm_state (obj (ap_matches a) i) = Some s" "st_Phase s = PhaseFinished"
  shows "rd_saveError (ld_objs (ap_records a) ! i) = None \<and> (\<exists>source x. decode source = Inr x) \<and>
      (\<exists>cs source w. play (new_game (room_name (Suc i)) (rm_seed (obj (ap_matches a) i))) cs = Some (wire_state s) \<and>
        st_Winner s = Some w \<and>
        handleReplay (working_decoder g harness) (ap_replays a) (room_name (Suc i)) =
          ReplayServed (room_name (Suc i)) source
            (state_frames 0 (states_of (new_game (room_name (Suc i)) (rm_seed (obj (ap_matches a) i))) cs)) w) \<or>
    (\<exists>err. rd_saveError (ld_objs (ap_records a) ! i) = Some (SaveReplay err) \<and>
      (\<exists>source. decode source = Inl err \<and> working_decoder g harness source \<noteq> Inl err) \<and>
      (\<forall>decode'. handleReplay decode' (ap_replays a) (room_name (Suc i)) = ReplayFailed 404 (utf8 [0x5B8C, 0x4E86, 0x3057, 0x305F, 0x5BFE, 0x5C40, 0x306E, 0x68CB, 0x8B5C, 0x304C, 0x3042, 0x308A, 0x307E, 0x305B, 0x3093])))"
proof -
  have "app_inv decode (working_decoder g harness) a"
    using session_run_inv[OF assms(1) new_app_inv assms(3), where w = w] assms(2) by simp
  from finished_served[OF this assms(4-)] show ?thesis unfolding replays_game_def process_failed_def by simp
qed

lemma finished_match_served_witness:
  "(\<exists>cs a cs' source w.
      session_run (numbered_world cs) (working_decoder gonako_there '''') new_app (played cs) = Some a \<and>
      handleReplay (working_decoder gonako_there '''') (ap_replays a) (room_name 1) =
        ReplayServed (room_name 1) source (state_frames 0 (states_of (new_game (room_name 1) (rm_seed (obj (ap_matches a) 0))) cs')) w) \<and>
    (\<exists>cs a err. session_run (numbered_world cs) broken_decoder new_app (played cs) = Some a \<and>
      rd_saveError (ld_objs (ap_records a) ! 0) = Some (SaveReplay err) \<and>
      handleReplay (working_decoder gonako_there '''') (ap_replays a) (room_name 1) = ReplayFailed 404 (utf8 [0x5B8C, 0x4E86, 0x3057, 0x305F, 0x5BFE, 0x5C40, 0x306E, 0x68CB, 0x8B5C, 0x304C, 0x3042, 0x308A, 0x307E, 0x305B, 0x3093]))"
proof (rule played_match)
  let ?d = "working_decoder gonako_there ''''"
  fix cs
  assume run: "\<And>decode. may_fail ?d decode \<Longrightarrow>
       \<exists>a s1. session_run (numbered_world cs) decode new_app (played cs) = Some a \<and>
         length (mg_objs (ap_matches a)) = 1 \<and> rm_state (obj (ap_matches a) 0) = Some s1 \<and> st_Phase s1 = PhaseFinished"
    and st: "list_all (\<lambda>(t, x). stamp (snd t)) (played cs)"
  obtain a s1 where a: "session_run (numbered_world cs) ?d new_app (played cs) = Some a"
    "length (mg_objs (ap_matches a)) = 1" "rm_state (obj (ap_matches a) 0) = Some s1" "st_Phase s1 = PhaseFinished"
    using run[OF may_fail_refl] by blast
  obtain cs' source w where "handleReplay ?d (ap_replays a) (room_name (Suc 0)) =
      ReplayServed (room_name (Suc 0)) source
        (state_frames 0 (states_of (new_game (room_name (Suc 0)) (rm_seed (obj (ap_matches a) 0))) cs')) w"
    using finished_match_served[OF may_fail_refl a(1) st _ _ a(3,4)] a(2) by auto
  moreover obtain b t1 where b: "session_run (numbered_world cs) broken_decoder new_app (played cs) = Some b"
    "length (mg_objs (ap_matches b)) = 1" "rm_state (obj (ap_matches b) 0) = Some t1" "st_Phase t1 = PhaseFinished"
    using run[OF broken_decoder_fails(1)] by blast
  moreover obtain err where "rd_saveError (ld_objs (ap_records b) ! 0) = Some (SaveReplay err)"
    "handleReplay ?d (ap_replays b) (room_name (Suc 0)) = ReplayFailed 404 (utf8 [0x5B8C,
      0x4E86, 0x3057, 0x305F, 0x5BFE, 0x5C40, 0x306E, 0x68CB, 0x8B5C, 0x304C, 0x3042, 0x308A,
      0x307E, 0x305B, 0x3093])"
    using finished_match_served[OF broken_decoder_fails(1) b(1) st _ _ b(3,4)] b(2) broken_decoder_fails(2) by auto
  ultimately show ?thesis using a(1) unfolding One_nat_def by (intro conjI exI)
qed

text \<open>
  C13. A connection announces the end of its room's match only after the record has been dealt with:
  if \<open>forwardEvents\<close> passes on a finished state, the room's game is finished, and either the replay can
  be served and the event is all that is sent, or the process that replays the record failed; then an
  error is sent before the event, and nothing is served under the room's name. (Sessions in any order,
  printable clock texts, fewer than \<open>10 ^ 59\<close> rooms.)
\<close>

theorem end_announced_after_saving:
  assumes "may_fail (working_decoder g harness) decode"
    "session_run w decode new_app xs = Some a" "list_all (\<lambda>(t, x). stamp (snd t)) xs"
    "i < length (mg_objs (ap_matches a))" "Suc i < 10 ^ 59"
    "forward_step (Some (ld_objs (ap_records a) ! i)) (Some event) = Some (out, goes_on)"
    "re_State event = Some s" "st_Phase s = PhaseFinished"
  shows "goes_on \<and> (\<exists>s'. rm_state (obj (ap_matches a) i) = Some s' \<and> st_Phase s' = PhaseFinished) \<and>
    (out = [OutEvent event] \<and> (\<exists>source x. decode source = Inr x) \<and>
       (\<exists>source frames w. handleReplay (working_decoder g harness) (ap_replays a) (room_name (Suc i)) =
          ReplayServed (room_name (Suc i)) source frames w) \<or>
     out = [OutServerError (utf8 [0x68CB, 0x8B5C, 0x3092, 0x4FDD, 0x5B58, 0x3067, 0x304D,
      0x307E, 0x305B, 0x3093, 0x3067, 0x3057, 0x305F]), OutEvent event] \<and>
       (\<exists>source err. decode source = Inl err \<and> working_decoder g harness source \<noteq> Inl err) \<and>
       (\<forall>decode'. handleReplay decode' (ap_replays a) (room_name (Suc i)) = ReplayFailed 404 (utf8 [0x5B8C, 0x4E86, 0x3057, 0x305F, 0x5BFE, 0x5C40, 0x306E, 0x68CB, 0x8B5C, 0x304C, 0x3042, 0x308A, 0x307E, 0x305B, 0x3093])))"
proof -
  have inv: "app_inv decode (working_decoder g harness) a"
    using session_run_inv[OF assms(1) new_app_inv assms(3), where w = w] assms(2) by simp
  have ready: "rd_ready (ld_objs (ap_records a) ! i)"
    using assms(6-) by (auto simp: forward_step_def split: if_splits)
  have k: "keeps (obj (ap_matches a) i) (ld_objs (ap_records a) ! i)"
    using inv assms(4) by (simp add: app_inv_def records_inv_def room_recorded_def)
  then obtain s' where s': "rm_state (obj (ap_matches a) i) = Some s'" "st_Phase s' = PhaseFinished"
    using ready by (auto simp: keeps_def split: option.splits)
  have f: "out = (if rd_saveError (ld_objs (ap_records a) ! i) \<noteq> None then [OutServerError (utf8 [0x68CB, 0x8B5C, 0x3092, 0x4FDD, 0x5B58, 0x3067, 0x304D, 0x307E, 0x305B, 0x3093, 0x3067, 0x3057, 0x305F])] else [])
      @ [OutEvent event]" "goes_on"
    using assms(6-) ready by (simp_all add: forward_step_def)
  from finished_served[OF inv assms(4,5) s'] show ?thesis
  proof (elim disjE conjE exE)
    assume "rd_saveError (ld_objs (ap_records a) ! i) = None"
      "replays_game (working_decoder g harness) (ap_replays a) (room_name (Suc i)) (rm_seed (obj (ap_matches a) i)) (wire_state s')"
    then show ?thesis if "decode source = Inr x" for source x
      using that f s' unfolding replays_game_def by (cases x) auto
  next
    fix err
    assume "rd_saveError (ld_objs (ap_records a) ! i) = Some (SaveReplay err)"
      "process_failed (working_decoder g harness) decode err"
    then show ?thesis
      if "\<forall>decode'. handleReplay decode' (ap_replays a) (room_name (Suc i)) = ReplayFailed 404 (utf8 [0x5B8C, 0x4E86, 0x3057, 0x305F, 0x5BFE, 0x5C40, 0x306E, 0x68CB, 0x8B5C, 0x304C, 0x3042, 0x308A, 0x307E, 0x305B, 0x3093])"
      using that f s' unfolding process_failed_def by auto
  qed
qed

lemma end_announced_after_saving_witness:
  "(\<exists>(a :: app) event source frames w. re_Type event = EventState \<and> map_option st_Phase (re_State event) = Some PhaseFinished \<and>
      forward_step (Some (ld_objs (ap_records a) ! 0)) (Some event) = Some ([OutEvent event], True) \<and>
      handleReplay (working_decoder gonako_there '''') (ap_replays a) (room_name 1) = ReplayServed (room_name 1) source frames w) \<and>
    (\<exists>cs a event. session_run (numbered_world cs) broken_decoder new_app (played cs) = Some a \<and>
      map_option st_Phase (re_State event) = Some PhaseFinished \<and>
      forward_step (Some (ld_objs (ap_records a) ! 0)) (Some event) =
        Some ([OutServerError (utf8 [0x68CB, 0x8B5C, 0x3092, 0x4FDD, 0x5B58, 0x3067, 0x304D,
      0x307E, 0x305B, 0x3093, 0x3067, 0x3057, 0x305F]), OutEvent event], True))"
proof (rule played_match)
  let ?d = "working_decoder gonako_there ''''"
  fix cs
  assume run: "\<And>decode. may_fail ?d decode \<Longrightarrow>
       \<exists>a s1. session_run (numbered_world cs) decode new_app (played cs) = Some a \<and>
         length (mg_objs (ap_matches a)) = 1 \<and> rm_state (obj (ap_matches a) 0) = Some s1 \<and> st_Phase s1 = PhaseFinished"
    and st: "list_all (\<lambda>(t, x). stamp (snd t)) (played cs)"
  have fwd: "\<exists>out goes_on. forward_step (Some (ld_objs (ap_records a) ! 0)) (Some (room_event EventState (Some s1) None '''')) =
      Some (out, goes_on)"
    if "may_fail ?d decode" "session_run (numbered_world cs) decode new_app (played cs) = Some a"
      "length (mg_objs (ap_matches a)) = 1" "rm_state (obj (ap_matches a) 0) = Some s1" "st_Phase s1 = PhaseFinished"
    for decode a s1
  proof -
    have "app_inv decode ?d a"
      using session_run_inv[OF that(1) new_app_inv st, where w = "numbered_world cs"] that(2) by simp
    then have "rd_ready (ld_objs (ap_records a) ! 0)"
      using that(3-) by (simp add: app_inv_def records_inv_def room_recorded_def keeps_def)
    then show ?thesis using that(5) by (auto simp: forward_step_def room_event_def)
  qed
  have ev: "re_State (room_event EventState (Some s1) None '''') = Some s1" "re_Type (room_event EventState (Some s1) None '''') = EventState"
    for s1 by (simp_all add: room_event_def)
  obtain a s1 where a: "session_run (numbered_world cs) ?d new_app (played cs) = Some a"
    "length (mg_objs (ap_matches a)) = 1" "rm_state (obj (ap_matches a) 0) = Some s1" "st_Phase s1 = PhaseFinished"
    using run[OF may_fail_refl] by blast
  let ?e = "room_event EventState (Some s1) None ''''"
  obtain out goes_on where f: "forward_step (Some (ld_objs (ap_records a) ! 0)) (Some ?e) = Some (out, goes_on)"
    using fwd[OF may_fail_refl a] by blast
  obtain source frames w where o: "out = [OutEvent ?e]" goes_on
    "handleReplay ?d (ap_replays a) (room_name (Suc 0)) = ReplayServed (room_name (Suc 0)) source frames w"
    using end_announced_after_saving[OF may_fail_refl a(1) st _ _ f ev(1) a(4)] a(2) by auto
  obtain b t1 where b: "session_run (numbered_world cs) broken_decoder new_app (played cs) = Some b"
    "length (mg_objs (ap_matches b)) = 1" "rm_state (obj (ap_matches b) 0) = Some t1" "st_Phase t1 = PhaseFinished"
    using run[OF broken_decoder_fails(1)] by blast
  let ?e' = "room_event EventState (Some t1) None ''''"
  obtain out' goes_on' where f': "forward_step (Some (ld_objs (ap_records b) ! 0)) (Some ?e') = Some (out', goes_on')"
    using fwd[OF broken_decoder_fails(1) b] by blast
  have o': "goes_on' \<and> out' = [OutServerError (utf8 [0x68CB, 0x8B5C, 0x3092, 0x4FDD,
      0x5B58, 0x3067, 0x304D, 0x307E, 0x305B, 0x3093, 0x3067, 0x3057, 0x305F]), OutEvent ?e']"
    using end_announced_after_saving[OF broken_decoder_fails(1) b(1) st _ _ f' ev(1) b(4)] b(2) broken_decoder_fails(2) by auto
  have "map_option st_Phase (re_State ?e) = Some PhaseFinished" "map_option st_Phase (re_State ?e') = Some PhaseFinished"
    using a(4) b(4) by (simp_all add: ev(1))
  then show ?thesis
    unfolding One_nat_def
    by (intro conjI exI[of _ a] exI[of _ ?e] exI[of _ source] exI[of _ frames] exI[of _ w]
        exI[of _ cs] exI[of _ b] exI[of _ ?e']) (use b(1) f f' o o' ev in \<open>simp_all\<close>)
qed

text \<open>
  Whatever sessions do, a server that allows only one room never starts a match: the second player
  is turned away like everybody else, because the limit is checked before the waiting room is
  considered.
\<close>

theorem one_room_server_starts_no_match:
  assumes "may_fail (working_decoder g harness) decode"
    "session_run w decode new_app xs = Some a" "list_all (\<lambda>(t, x). stamp (snd t)) xs"
    "dc_maxRooms (wd_config w) = 1"
  shows "list_all (\<lambda>r. rm_state r = None) (mg_objs (ap_matches a))"
  using one_room_no_games[OF assms(1) new_app_inv _ _ assms(2,3)] assms(4)
  by (simp add: no_games_def new_app_def NewManager_def)

lemma one_room_server_starts_no_match_witness:
  "\<exists>a. session_run ((numbered_world [])\<lparr>wd_config := small_config\<lparr>dc_maxRooms := 1\<rparr>\<rparr>) (working_decoder gonako_there '''')
      new_app (joins ''12:00'' ''ann'' ''bob'') = Some a \<and> list_all (\<lambda>r. rm_state r = None) (mg_objs (ap_matches a))"
proof -
  have st: "list_all (\<lambda>(t, x). stamp (snd t)) (joins ''12:00'' ''ann'' ''bob'')"
    by (simp add: joins_def stamp_def printable_def)
  obtain a where a: "session_run ((numbered_world [])\<lparr>wd_config := small_config\<lparr>dc_maxRooms := 1\<rparr>\<rparr>)
      (working_decoder gonako_there '''') new_app (joins ''12:00'' ''ann'' ''bob'') = Some a"
    using session_run_inv[OF may_fail_refl new_app_inv st] by blast
  show ?thesis using a one_room_server_starts_no_match[OF may_fail_refl a st] by simp
qed

section \<open>Game records\<close>

text \<open>What an annotated line claims of the event of its move.\<close>

definition annotation_true :: "outline \<Rightarrow> nat \<Rightarrow> frame \<Rightarrow> bool" where
  "annotation_true ol i f \<longleftrightarrow>
     (case fr_Event f of
        None \<Rightarrow> True
      | Some e \<Rightarrow>
          i < length (ol_MoveLines ol) \<and> ml_Annotated (ol_MoveLines ol ! i) \<longrightarrow>
            ml_Color (ol_MoveLines ol ! i) = (case ev_PlacedColor e of None \<Rightarrow> 0 | Some c \<Rightarrow> int (unat c)) \<and>
            ml_Changed (ol_MoveLines ol ! i) = int (length (elems (ev_Changes e))))"

lemma verifyAnnotation_None: "verifyAnnotation ol i f = None \<longleftrightarrow> annotation_true ol i f"
  by (auto simp: verifyAnnotation_def annotation_true_def Let_def split: option.split)

lemma replayed_game:
  obtains source r where "Replay (working_decoder gonako_there '''') source = Inr r" "plain_record source"
    "stamp (sc_StartedAt (rr_Script r))" "stamp (sc_EndedAt (rr_Script r))" "sc_GameID (rr_Script r) = ''g''"
proof -
  obtain cs s where cs: "play (new_game ''g'' 7) cs = Some s" "st_Phase s = PhaseFinished"
    by (rule finished_game[of "''g''" 7]) simp
  have ids: "ValidateGameID ''g'' = None" "stamp ''12:00''"
    by (simp_all add: stamp_def printable_def ValidateGameID_def gameIDPattern_def gameid_char_def is_digit_def Let_def)
  obtain source where "source = written_game ''12:00'' ''12:00'' ''g'' 7 (acts (new_game ''g'' 7) cs) s" by blast
  from game_replays[where fails = "\<lambda>_. None" and g = gonako_there and harness = "''''", OF cs ids ids(2) this refl]
  show ?thesis using that ids(2) by auto
qed

text \<open>
  C4. Writing and reading are inverse: a record that replays (and whose brackets the interpreter does
  not expand) can be written, what is written replays to the same record and the same frames apart
  from their line numbers, and writing that again gives the same text.
\<close>

theorem record_roundtrip:
  assumes "Replay (working_decoder g harness) source = Inr r" "plain_record source"
    "stamp (sc_StartedAt (rr_Script r))" "stamp (sc_EndedAt (rr_Script r))"
  shows "\<exists>source' r'. EncodeResult (Some r) = Inr source' \<and> Replay (working_decoder g harness) source' = Inr r' \<and>
    EncodeResult (Some r') = Inr source' \<and> map unlined (rr_Frames r') = map unlined (rr_Frames r) \<and>
    Result_Record r' = Result_Record r"
  by (rule reencode[OF assms refl])

lemma record_roundtrip_witness:
  "\<exists>source r source'. Replay (working_decoder gonako_there '''') source = Inr r \<and> EncodeResult (Some r) = Inr source' \<and>
    (\<exists>r'. Replay (working_decoder gonako_there '''') source' = Inr r' \<and> Result_Record r' = Result_Record r)"
proof (rule replayed_game)
  fix source r
  assume r: "Replay (working_decoder gonako_there '''') source = Inr r" "plain_record source"
    "stamp (sc_StartedAt (rr_Script r))" "stamp (sc_EndedAt (rr_Script r))"
  show ?thesis using record_roundtrip[OF r] r(1) by auto
qed

lemma record_encoded:
  assumes "Replay (working_decoder g harness) source = Inr r" "plain_record source"
    "stamp (sc_StartedAt (rr_Script r))" "stamp (sc_EndedAt (rr_Script r))"
  shows "\<exists>text. EncodeResult (Some r) = Inr text"
  using reencode[OF assms refl] by blast

text \<open>
  C28. Reading a record looks at every line: the first line that is neither empty nor a comment nor one
  of the five forms is reported with its number and its text, and without such a line reading succeeds.
\<close>

theorem Scan_reports_first_bad_line:
  "case find (\<lambda>(i, raw). \<not> admitted (TrimSpace raw)) (enumerate 0 (split_on nl source)) of
     Some (i, raw) \<Rightarrow> Scan source = Inl (syntax_error (int i + 1) (TrimSpace raw))
   | None \<Rightarrow> \<exists>ol. Scan source = Inr ol"
  by (rule Scan_vocabulary)



text \<open>
  C26. A replay that succeeds has checked, of the record against the outcome of the rules: there is an end
  line, there is one state more than moves, the last state is finished, and its winner is the recorded
  one; and every placement line whose annotation was read (both numbers fit 64 bits) has the colour and
  the number of converted pieces of its event. The numbers in the annotation of the end line are not
  compared. The replay up to move \<open>n\<close> is the first \<open>n + 1\<close> frames of it.
\<close>

theorem replay_verifies:
  assumes "Replay decode source = Inr r" "0 \<le> n"
  shows "Script_Finished (rr_Script r) \<and>
    st_Phase (FinalState r) = PhaseFinished \<and> st_Winner (FinalState r) = Some (sc_Winner (rr_Script r)) \<and>
    length (rr_Frames r) = length (sc_Moves (rr_Script r)) + 1 \<and>
    list_all (\<lambda>i. annotation_true (rr_Outline r) i (rr_Frames r ! Suc i)) [0..<length (sc_Moves (rr_Script r))] \<and>
    (\<exists>r'. ReplayUntil decode source n = Inr r' \<and> rr_Frames r' = take (nat n + 1) (rr_Frames r))"
  using Replay_checks[OF assms(1)] ReplayUntil_prefix[OF assms] by (auto simp: list_all_iff verifyAnnotation_None)

lemma replay_verifies_witness:
  "\<exists>source r. Replay (working_decoder gonako_there '''') source = Inr r \<and> st_Phase (FinalState r) = PhaseFinished \<and>
    st_Winner (FinalState r) = Some (sc_Winner (rr_Script r)) \<and>
    (\<exists>r'. ReplayUntil (working_decoder gonako_there '''') source 3 = Inr r' \<and> rr_Frames r' = take 4 (rr_Frames r))"
proof (rule replayed_game)
  fix source r
  assume r: "Replay (working_decoder gonako_there '''') source = Inr r"
  show ?thesis using replay_verifies[OF r, of 3] r by auto
qed

section \<open>The store\<close>

lemma first_occurrences:
  "fold (\<lambda>e is. if P e \<and> h e \<notin> set is then is @ [h e] else is) es [] = rev (remdups (rev (map h (filter P es))))"
  by (induction es rule: rev_induct) (auto simp: fold_append)

text \<open>
  C27. After any saves, the store is the map of the latest entry of each valid id, and it lists one summary
  of each in the order in which the ids were first saved; entries with an invalid id are refused.
\<close>

theorem store_keeps_latest:
  "store_Get (fold (\<lambda>e s. fst (store_Save s e)) es NewMemoryStore) gid =
     (case find (\<lambda>e. entry_id e = gid \<and> ValidateGameID gid = None) (rev es) of
        None \<Rightarrow> Inl (NotFound gid)
      | Some e \<Rightarrow> Inr (Entry_Clone e)) \<and>
   map sm_GameID (store_List (fold (\<lambda>e s. fst (store_Save s e)) es NewMemoryStore)) =
     rev (remdups (rev (map entry_id (filter (\<lambda>e. ValidateGameID (entry_id e) = None) es))))"
proof -
  let ?s = "memory.saves es NewMemoryStore"
  have s: "fold (\<lambda>e s. fst (store_Save s e)) es NewMemoryStore = ?s" by (simp add: memory.saves_def)
  have g: "store_Get ?s gid = (case find (\<lambda>e. entry_id e = gid \<and> ValidateGameID gid = None) (rev es) of
      None \<Rightarrow> Inl (NotFound gid) | Some e \<Rightarrow> Inr (Entry_Clone e))" for gid
    using memory.get_saves[OF NewMemoryStore_ok(1), of es gid]
    by (simp add: store_Get_def NewMemoryStore_def split: option.split)
  have i: "ms_order ?s = rev (remdups (rev (map entry_id (filter (\<lambda>e. ValidateGameID (entry_id e) = None) es))))"
    using memory.ids_saves[OF NewMemoryStore_ok(1), of es] by (simp add: first_occurrences)
  have "sm_GameID (Record_Summary (en_Record (projr (store_Get ?s gid)))) = gid" if m: "gid \<in> set (ms_order ?s)" for gid
  proof -
    obtain e where "store_Get ?s gid = Inr e" using memory.get_ids[OF memory.saves_ok[OF NewMemoryStore_ok(1)]] m by blast
    then show ?thesis unfolding g
      by (auto simp: find_Some_iff Record_Summary_def split: option.splits)
  qed
  then have "map sm_GameID (store_List ?s) = ms_order ?s"
    unfolding memory.listed_saves[OF NewMemoryStore_ok(1)] by (simp add: map_idI)
  then show ?thesis unfolding s i using g by blast
qed

text \<open>
  C25. \<open>SaveSource\<close> stores only sources that replay: it keeps the store as it is on an error; otherwise the
  source replays, the service gives back the same source and the same replay under the record's id, and
  every other id keeps its entry. \<open>SaveResult\<close> replays nothing: it stores the encoding of the result it
  is given under the result's id, or keeps the store as it is; if that result is the whole replay of
  a record (whose brackets the interpreter does not expand), then what it stored replays to the same
  record and the same frames apart from their line numbers.
\<close>

theorem saved_source_replays:
  assumes "memory_ok s"
  shows "(case SaveSource store_Save decode s source of
      (s', Inl err) \<Rightarrow> s' = s
    | (s', Inr saved) \<Rightarrow>
        (\<exists>r. Replay decode source = Inr r \<and> saved = Result_Record r \<and>
           service_Source store_Get s' (gr_GameID saved) = Inr source \<and>
           service_Replay store_Get decode s' (gr_GameID saved) = Inr r) \<and>
        (\<forall>gid. gid = gr_GameID saved \<or> store_Get s' gid = store_Get s gid)) \<and>
    (case SaveResult store_Save s result of
      (s', Inl err) \<Rightarrow> s' = s
    | (s', Inr kept) \<Rightarrow>
        EncodeResult (Some result) = Inr kept \<and>
        service_Source store_Get s' (sc_GameID (rr_Script result)) = Inr kept \<and>
        (\<forall>gid. gid = sc_GameID (rr_Script result) \<or> store_Get s' gid = store_Get s gid) \<and>
        (\<forall>g harness played. Replay (working_decoder g harness) played = Inr result \<and> plain_record played \<and>
           stamp (sc_StartedAt (rr_Script result)) \<and> stamp (sc_EndedAt (rr_Script result)) \<longrightarrow>
           (\<exists>r'. service_Replay store_Get (working_decoder g harness) s' (sc_GameID (rr_Script result)) = Inr r' \<and>
              Result_Record r' = Result_Record result \<and>
              map unlined (rr_Frames r') = map unlined (rr_Frames result))))"
proof (intro conjI, goal_cases)
  case 1
  obtain s' res where sv: "SaveSource store_Save decode s source = (s', res)" by fastforce
  show ?case
  proof (cases res)
    case (Inl err)
    then show ?thesis using memory.SaveSource_failed[of decode s source s' err] sv by simp
  next
    case (Inr saved)
    have "store_Get s' gid = store_Get s gid" if "gid \<noteq> gr_GameID saved" for gid
      using sv that memory.get_other[OF assms] Inr
      by (auto simp: SaveSource_def Let_def split: sum.splits prod.splits option.splits) (metis entry.select_convs(1) fst_conv)
    then show ?thesis
      using memory.SaveSource_saved[OF assms, of decode source s' saved] sv Inr by fastforce
  qed
next
  case 2
  obtain s' res where sv: "SaveResult store_Save s result = (s', res)" by fastforce
  show ?case
  proof (cases res)
    case (Inl err)
    then show ?thesis using memory.SaveResult_failed[of s result s' err] sv by simp
  next
    case (Inr kept)
    note k = memory.SaveResult_saved[OF assms, of result s' kept] memory.SaveResult_other[OF assms, of result s' kept]
    have src: "service_Source store_Get s' (sc_GameID (rr_Script result)) = Inr kept"
      using k(1) sv Inr by (simp add: service_Source_def)
    have "\<exists>r'. service_Replay store_Get (working_decoder g harness) s' (sc_GameID (rr_Script result)) = Inr r' \<and>
        Result_Record r' = Result_Record result \<and> map unlined (rr_Frames r') = map unlined (rr_Frames result)"
      if r: "Replay (working_decoder g harness) played = Inr result" "plain_record played"
        "stamp (sc_StartedAt (rr_Script result))" "stamp (sc_EndedAt (rr_Script result))" for g harness played
    proof -
      obtain kept' r' where "EncodeResult (Some result) = Inr kept'" "Replay (working_decoder g harness) kept' = Inr r'"
        "map unlined (rr_Frames r') = map unlined (rr_Frames result)" "Result_Record r' = Result_Record result"
        using reencode[OF r refl] by blast
      then show ?thesis using k(1) sv Inr src by (auto simp: service_Replay_def)
    qed
    then show ?thesis using k sv Inr src by auto
  qed
qed

lemma saved_source_replays_witness:
  "\<exists>source s' saved r. SaveSource store_Save (working_decoder gonako_there '''') NewMemoryStore source = (s', Inr saved) \<and>
    saved = Result_Record r \<and> service_Source store_Get s' ''g'' = Inr source \<and>
    service_Replay store_Get (working_decoder gonako_there '''') s' ''g'' = Inr r \<and>
    (\<exists>s2 kept r2. SaveResult store_Save NewMemoryStore r = (s2, Inr kept) \<and>
      service_Replay store_Get (working_decoder gonako_there '''') s2 ''g'' = Inr r2 \<and> Result_Record r2 = Result_Record r)"
proof (rule replayed_game)
  let ?d = "working_decoder gonako_there ''''"
  fix source r
  assume r: "Replay ?d source = Inr r" "plain_record source"
    "stamp (sc_StartedAt (rr_Script r))" "stamp (sc_EndedAt (rr_Script r))" "sc_GameID (rr_Script r) = ''g''"
  have v: "ValidateGameID ''g'' = None"
    by (simp add: ValidateGameID_def gameIDPattern_def gameid_char_def is_digit_def Let_def)
  then have "snd (store_Save NewMemoryStore \<lparr>en_Record = Result_Record r, en_Source = source\<rparr>) = None"
    using r(5) by (simp add: store_Save_fields(1) Result_Record_def)
  then obtain s' where s': "SaveSource store_Save ?d NewMemoryStore source = (s', Inr (Result_Record r))"
    using r(1) by (cases "store_Save NewMemoryStore \<lparr>en_Record = Result_Record r, en_Source = source\<rparr>") (simp add: SaveSource_def)
  obtain kept where t: "EncodeResult (Some r) = Inr kept" using record_encoded[OF r(1-4)] by blast
  have "snd (store_Save NewMemoryStore \<lparr>en_Record = Result_Record r, en_Source = kept\<rparr>) = None"
    using r(5) v by (simp add: store_Save_fields(1) Result_Record_def)
  then obtain s2 where s2: "SaveResult store_Save NewMemoryStore r = (s2, Inr kept)"
    using t by (cases "store_Save NewMemoryStore \<lparr>en_Record = Result_Record r, en_Source = kept\<rparr>") (simp add: SaveResult_def)
  have "gr_GameID (Result_Record r) = ''g''" using r(5) by (simp add: Result_Record_def)
  moreover obtain r2 where "service_Replay store_Get ?d s2 ''g'' = Inr r2" "Result_Record r2 = Result_Record r"
    using conjunct2[OF saved_source_replays[OF NewMemoryStore_ok(1), of ?d source r, unfolded s2 prod.case sum.case]] r
    by metis
  moreover have "service_Source store_Get s' ''g'' = Inr source \<and> service_Replay store_Get ?d s' ''g'' = Inr r"
    using conjunct1[OF saved_source_replays[OF NewMemoryStore_ok(1), of ?d source r, unfolded s' prod.case sum.case]]
      r(1) calculation(1) by auto
  ultimately show ?thesis using s' s2 by blast
qed

section \<open>Frames\<close>

text \<open>
  C11. The server reads exactly the frames of the WebSocket protocol that it supports: whatever bytes
  arrive, \<open>readFrame\<close> accepts if and only if they begin with the bytes of a whole, masked, unfragmented
  client frame within its limits, and then it gives that frame and the bytes that follow it.
\<close>

theorem client_frames_roundtrip:
  "readFrame s = Inr (f, rest) \<longleftrightarrow>
     (\<exists>key. length key = 4 \<and> client_frame_ok f \<and> s = client_frame key f @ rest)"
  by (rule readFrame_iff)

text \<open>
  C30. A client reads what \<open>writeFrame\<close> wrote, and the next frame begins right behind it, for every payload
  that it writes but one: a payload of 65536 bytes passes the limit, its length is written as 0, and
  the client reads an empty frame and takes the payload for frames.
\<close>

theorem written_frames_read:
  assumes "writeFrame f = Inr out" "wf_opcode f AND 0x0f = wf_opcode f"
  shows "server_frame (out @ rest) =
    (if length (wf_data f) = 65536 then Some (f\<lparr>wf_data := []\<rparr>, wf_data f @ rest) else Some (f, rest))"
  using written_frame_read[OF assms] by (simp add: maxWSMessage_def)

lemma written_frames_read_witness:
  "\<exists>out. writeFrame \<lparr>wf_opcode = 1,
      wf_data = replicate 65536 0x20\<rparr> = Inr out \<and>
    server_frame out = Some (\<lparr>wf_opcode = 1, wf_data = []\<rparr>, replicate 65536 0x20)"
proof -
  obtain out where out: "writeFrame \<lparr>wf_opcode = 1,
      wf_data = replicate 65536 0x20\<rparr> = Inr out"
    by (simp add: writeFrame_def Let_def maxWSMessage_def)
  have "wf_opcode \<lparr>wf_opcode = 1,
      wf_data = replicate 65536 0x20\<rparr> AND 0x0f = wf_opcode \<lparr>wf_opcode = 1,
      wf_data = replicate 65536 0x20\<rparr>"
    by (simp)
  from written_frames_read[OF out this, of "[]"] show ?thesis
    using out by simp
qed

text \<open>
  C31. However the goroutines of a connection interleave, and whenever it fails, the frames go out whole
  and in the order in which they were put into the queue: the client reads a prefix of them, and unless
  a write failed nothing else, with at most the 32 queued frames and the one being written still to come.
\<close>

theorem peer_delivers_in_order:
  assumes "peer_run p qs" "list_all (\<lambda>q. fine (qf_frame q)) qs"
  shows "length (pr_outgoing p) \<le> 32 \<and>
    (\<exists>fs rest. prefix fs (map qf_frame qs) \<and> reads_as (pr_wire p) fs rest \<and>
      (rest = [] \<and> length qs \<le> length fs + 33 \<or> pr_loop p \<in> {Closing, Returned}))"
proof -
  obtain ws rest where d: "prefix ws qs" "pr_wire p = concat (map (frame_bytes \<circ> qf_frame) ws) @ rest"
    "rest = [] \<and> length qs \<le> length ws + 33 \<or> pr_loop p \<in> {Closing, Returned}" "length (pr_outgoing p) \<le> 32"
    using delivered_order[OF assms(1)] by (auto simp: outgoingBuffer_def)
  have "list_all fine (map qf_frame ws)"
    using assms(2) d(1) by (auto simp: list_all_iff dest: set_mono_prefix)
  from reads_written[OF this, of rest] have "reads_as (pr_wire p) (map qf_frame ws) rest" by (simp add: d(2))
  moreover have "prefix (map qf_frame ws) (map qf_frame qs)" by (rule map_mono_prefix[OF d(1)])
  ultimately show ?thesis using d(3,4) by (metis length_map)
qed

text \<open>A peer that has written a ping and has a close frame to flush.\<close>

definition ping :: queued where
  "ping = \<lparr>qf_frame = \<lparr>wf_opcode = 9, wf_data = []\<rparr>, qf_ack = None\<rparr>"

definition farewell :: queued where
  "farewell = \<lparr>qf_frame = \<lparr>wf_opcode = 8, wf_data = [0x03, 0xE8]\<rparr>,
      qf_ack = Some 0\<rparr>"

definition flushing_peer :: peer where
  "flushing_peer = \<lparr>pr_outgoing = [farewell], pr_done = False, pr_conn = True, pr_loop = Selecting,
     pr_wire = [0x89, 0], pr_acks = 1, pr_acked = [], pr_lastActive = 0\<rparr>"

lemma flushing_peer_run: "peer_run flushing_peer [ping, farewell]"
proof -
  let ?p0 = "newWSPeer 0"
  let ?p1 = "?p0\<lparr>pr_outgoing := [ping]\<rparr>"
  let ?p2 = "?p0\<lparr>pr_loop := Writing ping\<rparr>"
  let ?p3 = "?p0\<lparr>pr_wire := [0x89, 0]\<rparr>"
  have "peer_run ?p1 ([] @ [\<lparr>qf_frame = qf_frame ping, qf_ack = None\<rparr>])"
    by (rule peer_run.sends[OF peer_run.start[of 0]]) (simp add: peer_send_def newWSPeer_def outgoingBuffer_def ping_def)
  then have "peer_run ?p1 [ping]" by (simp add: ping_def)
  then have "peer_run ?p2 [ping]"
    by (rule peer_run.writes) (simp add: writeLoop_step_def newWSPeer_def)
  then have "peer_run ?p3 [ping]"
    by (rule peer_run.writes)
      (simp add: writeLoop_step_def write_results_def writeFrame_def newWSPeer_def ping_def close_ack_def maxWSMessage_def Let_def)
  then have "peer_run flushing_peer ([ping] @ [\<lparr>qf_frame = qf_frame farewell, qf_ack = Some 0\<rparr>])"
    by (rule peer_run.flushes) (simp add: flush_put_def newWSPeer_def outgoingBuffer_def farewell_def flushing_peer_def)
  then show ?thesis by (simp add: farewell_def)
qed

lemma peer_delivers_in_order_witness:
  "peer_run flushing_peer [ping, farewell] \<and> reads_as (pr_wire flushing_peer) [qf_frame ping] [] \<and>
    (\<exists>fs rest. prefix fs [qf_frame ping, qf_frame farewell] \<and> reads_as (pr_wire flushing_peer) fs rest \<and> rest = [])"
proof -
  have "list_all (\<lambda>q. fine (qf_frame q)) [ping, farewell]"
    by (simp add: fine_def ping_def farewell_def maxWSMessage_def)
  from peer_delivers_in_order[OF flushing_peer_run this] have
    "\<exists>fs rest. prefix fs [qf_frame ping, qf_frame farewell] \<and> reads_as (pr_wire flushing_peer) fs rest \<and> rest = []"
    by (auto simp: flushing_peer_def)
  moreover have "reads_as (pr_wire flushing_peer) [qf_frame ping] []"
    by (simp add: flushing_peer_def ping_def server_frame_def read_full_def)
  ultimately show ?thesis using flushing_peer_run by blast
qed

text \<open>
  C24. \<open>flush\<close> never waits for ever: \<open>writeLoop\<close> on its own makes at most \<open>work p\<close> steps, and when it can
  make none, every flush has its answer and every \<open>send\<close> can go on. A flush that was acknowledged on a
  connection that did not fail has been written behind everything before it.
\<close>

theorem flush_answered:
  assumes "peer_run p qs" "q \<in> set qs" "qf_ack q = Some n" "writer_path p ps"
  shows "length ps \<le> work p \<and>
    (writeLoop_step (last (p # ps)) \<noteq> [] \<or>
     flush_returns n (last (p # ps)) \<and> peer_send f (last (p # ps)) \<noteq> []) \<and>
    (\<not> flush_returns n p \<or> pr_done p \<or> pr_loop p = Closing \<or>
     (\<exists>ws more. qs = ws @ more \<and> q \<in> set ws \<and> pr_wire p = concat (map (frame_bytes \<circ> qf_frame) ws)))"
  using writer_path_run[OF assms(4,1)] writer_blocked[OF _ _ assms(2,3), of "last (p # ps)" f] flush_written[OF assms(1-3)]
  by blast

lemma flush_answered_witness:
  "let p1 = flushing_peer\<lparr>pr_outgoing := [], pr_loop := Writing farewell\<rparr>;
       p2 = flushing_peer\<lparr>pr_outgoing := [], pr_wire := [0x89, 0, 0x88, 2, 0x03, 0xE8],
      pr_acked := [0]\<rparr>
   in writer_path flushing_peer [p1, p2] \<and> length [p1, p2] \<le> work flushing_peer \<and> flush_returns 0 p2"
proof -
  let ?p1 = "flushing_peer\<lparr>pr_outgoing := [], pr_loop := Writing farewell\<rparr>"
  let ?p2 = "flushing_peer\<lparr>pr_outgoing := [], pr_wire := [0x89, 0, 0x88, 2, 0x03, 0xE8],
      pr_acked := [0]\<rparr>"
  have path: "writer_path flushing_peer [?p1, ?p2]"
    by (simp add: writeLoop_step_def write_results_def writeFrame_def flushing_peer_def farewell_def close_ack_def
        maxWSMessage_def Let_def)
  have q: "farewell \<in> set [ping, farewell]" "qf_ack farewell = Some 0" by (simp_all add: farewell_def)
  have stuck: "writeLoop_step ?p2 = []" by (simp add: writeLoop_step_def flushing_peer_def)
  from flush_answered[OF flushing_peer_run q path] show ?thesis using path stuck by (simp add: Let_def)
qed

text \<open>
  A close frame always fits into a control frame and stays valid: the code is followed by a prefix of
  the reason that ends at a character, all of it if it fits and otherwise at most three bytes less than
  fit.
\<close>

theorem close_reason_fits:
  assumes "utf8_valid reason"
  shows "\<exists>kept. wf_data (wsCloseFrame code reason) = PutUint16 code @ kept \<and> kept = take (length kept) reason \<and>
    utf8_valid kept \<and> length kept \<le> 123 \<and> (if length reason \<le> 123 then kept = reason else 120 \<le> length kept)"
  using close_frame_fits[OF assms, of code] by (auto simp: not_le)

lemma close_reason_fits_witness:
  "\<exists>kept. wf_data (wsCloseFrame closeGoingAway (bytes_of ''bye'')) = PutUint16 closeGoingAway @ kept \<and> kept = bytes_of ''bye''"
proof -
  have "utf8_valid (bytes_of ''bye'')" by code_simp
  from close_reason_fits[OF this, of closeGoingAway] show ?thesis by (auto simp: bytes_of_def)
qed

section \<open>Limits of the server\<close>

text \<open>
  C32. However the steps of the connections interleave (each \<open>admit\<close> is two atomic steps), never more
  connections than allowed are admitted at a time, and the counter is the number of those admitted or
  about to be refused: no slot is lost.
\<close>

theorem admission_limit:
  assumes "(admission_step config)\<^sup>*\<^sup>* no_connections a" "0 \<le> dc_maxConnections config"
  shows "int (in_phase Admitted a) \<le> dc_maxConnections config \<and>
    ad_connections a = int (in_phase Admitted a + in_phase Refusing a)"
  using admission_inv_reachable[OF assms] by (simp add: admission_inv_def)

lemma admission_limit_witness:
  "let a = admit small_config (admit small_config (admit small_config no_connections)) in
   ad_conns a = [Admitted, Admitted, Refusing] \<and> int (in_phase Admitted a) \<le> 2 \<and> ad_connections a = 3"
proof -
  let ?a = "admit small_config (admit small_config (admit small_config no_connections))"
  have "(admission_step small_config)\<^sup>*\<^sup>* no_connections ?a"
    by (meson admission_step.intros(1) rtranclp.intros)
  from admission_limit[OF this] show ?thesis
    by (simp add: admit_def no_connections_def small_config_def in_phase_def Let_def)
qed

text \<open>
  C33. The limiter of a connection lets through at most the burst and what the elapsed time refills, whatever
  the times of the commands are, also when the clock goes back.
\<close>

theorem command_rate_bound:
  assumes "limiter_run (newRateLimiter rate burst start) ts = (l, oks)" "0 \<le> burst" "0 < rate"
  shows "of_nat (accepted oks) \<le> of_int burst + seconds (fold max ts start - start) * rate"
proof -
  have inv: "limiter_inv (newRateLimiter rate burst start)" using assms(2,3) by (simp add: limiter_inv_def newRateLimiter_def)
  show ?thesis using limiter_run_bound[OF assms(1) inv] by (auto simp: newRateLimiter_def limiter_inv_def)
qed

lemma command_rate_bound_witness:
  "snd (limiter_run (newRateLimiter 1 2 0) [0, 0, 0, second, second]) = [True, True, False, True, False] \<and>
   of_nat (accepted [True, True, False, True, False]) \<le> of_int 2 + seconds (second - 0) * 1"
proof -
  have s: "snd (limiter_run (newRateLimiter 1 2 0) [0, 0, 0, second, second]) = [True, True, False, True, False]"
    by (simp add: limiter_allow_def newRateLimiter_def Let_def)
  obtain l where "limiter_run (newRateLimiter 1 2 0) [0, 0, 0, second, second] = (l, [True, True, False, True, False])"
    using s by (cases "limiter_run (newRateLimiter 1 2 0) [0, 0, 0, second, second]") auto
  from command_rate_bound[OF this] s show ?thesis by (simp add: accepted_def seconds_def)
qed

text \<open>
  C34. With a public origin configured, a WebSocket handshake gets past the check of its origin in exactly two
  cases: the connection comes from a loopback address, to a loopback host, and its \<open>Origin\<close> is an
  http or https origin with that same host; or its \<open>Origin\<close> header is a bare origin with the scheme and the
  host of the public origin, up to the case of letters. Everybody else is answered with 403, and nobody
  gets that answer who passes the check.
\<close>

theorem public_origin_checked:
  assumes "parsePublicOrigin parse isLoopback raw = Inr (dc_publicOrigin config)" "dc_publicOrigin config \<noteq> ''''"
    "parse (TrimSpace raw) = Inr u"
  shows "(allowWebSocketOrigin parse isLoopback config r \<longleftrightarrow>
      (\<exists>remote port v. SplitHostPort (rq_RemoteAddr r) = Some (remote, port) \<and> isLoopback remote \<and>
         (let host = (case SplitHostPort (rq_Host r) of Some (host, _) \<Rightarrow> host | None \<Rightarrow> rq_Host r)
          in EqualFold host ''localhost'' \<or> isLoopback host) \<and>
         parse (rq_Header r ''Origin'') = Inr v \<and> ur_Scheme v \<in> {''http'', ''https''} \<and>
         EqualFold (ur_Host v) (rq_Host r) \<and> ur_Path v = '''' \<and> ur_RawQuery v = '''') \<or>
      (\<exists>v. TrimSpace (rq_Header r ''Origin'') \<noteq> '''' \<and> parse (TrimSpace (rq_Header r ''Origin'')) = Inr v \<and>
         bare_origin v \<and> ur_Path v = '''' \<and> same_origin u v)) \<and>
    ((\<exists>message. upgradeWebSocket parse isLoopback decode64 acceptKey hijacker hijack config r = UpgradeRefused 403 message) \<longleftrightarrow>
      \<not> allowWebSocketOrigin parse isLoopback config r)"
proof
  have a: "allowWebSocketOrigin parse isLoopback config r \<longleftrightarrow> localWebSocketOrigin parse isLoopback r \<or>
      publicOriginMatches parse (dc_publicOrigin config) (rq_Header r ''Origin'')"
    by (simp add: allowWebSocketOrigin_def)
  have l: "localWebSocketOrigin parse isLoopback r \<longleftrightarrow>
      (\<exists>remote port v. SplitHostPort (rq_RemoteAddr r) = Some (remote, port) \<and> isLoopback remote \<and>
         (let host = (case SplitHostPort (rq_Host r) of Some (host, _) \<Rightarrow> host | None \<Rightarrow> rq_Host r)
          in EqualFold host ''localhost'' \<or> isLoopback host) \<and>
         parse (rq_Header r ''Origin'') = Inr v \<and> ur_Scheme v \<in> {''http'', ''https''} \<and>
         EqualFold (ur_Host v) (rq_Host r) \<and> ur_Path v = '''' \<and> ur_RawQuery v = '''')"
    by (auto simp: localWebSocketOrigin_def Let_def split: option.split sum.split)
  show "allowWebSocketOrigin parse isLoopback config r \<longleftrightarrow>
      (\<exists>remote port v. SplitHostPort (rq_RemoteAddr r) = Some (remote, port) \<and> isLoopback remote \<and>
         (let host = (case SplitHostPort (rq_Host r) of Some (host, _) \<Rightarrow> host | None \<Rightarrow> rq_Host r)
          in EqualFold host ''localhost'' \<or> isLoopback host) \<and>
         parse (rq_Header r ''Origin'') = Inr v \<and> ur_Scheme v \<in> {''http'', ''https''} \<and>
         EqualFold (ur_Host v) (rq_Host r) \<and> ur_Path v = '''' \<and> ur_RawQuery v = '''') \<or>
      (\<exists>v. TrimSpace (rq_Header r ''Origin'') \<noteq> '''' \<and> parse (TrimSpace (rq_Header r ''Origin'')) = Inr v \<and>
         bare_origin v \<and> ur_Path v = '''' \<and> same_origin u v)"
    unfolding a l publicOriginMatches_iff[OF assms] by (rule refl)
  show "(\<exists>message. upgradeWebSocket parse isLoopback decode64 acceptKey hijacker hijack config r = UpgradeRefused 403 message) \<longleftrightarrow>
      \<not> allowWebSocketOrigin parse isLoopback config r"
    by (auto simp: upgradeWebSocket_def Let_def split: option.split)
qed

text \<open>Three requests to a server with a public origin: from a browser, from the same machine, and from elsewhere.\<close>

definition request_from :: "string \<Rightarrow> string \<Rightarrow> string \<Rightarrow> http_request" where
  "request_from remote host origin =
     \<lparr>rq_RemoteAddr = remote, rq_Host = host, rq_Header = (\<lambda>h. if h = ''Origin'' then origin else '''')\<rparr>"

lemma public_origin_checked_witness:
  "let u = \<lparr>ur_Scheme = ''https'', ur_Opaque = '''', ur_User = False, ur_Host = ''Game.example'', ur_Path = '''',
         ur_RawQuery = '''', ur_Fragment = ''''\<rparr>;
       parse = (\<lambda>s. if s = ''https://Game.example'' then Inr u
                    else if s = ''HTTPS://game.example'' then Inr (u\<lparr>ur_Scheme := ''HTTPS'', ur_Host := ''game.example''\<rparr>)
                    else if s = ''http://10.0.0.1:80'' then Inr (u\<lparr>ur_Scheme := ''http'', ur_Host := ''10.0.0.1:80''\<rparr>)
                    else Inl ''no URL'');
       isLoopback = (\<lambda>host. host = ''10.0.0.1'');
       config = small_config\<lparr>dc_publicOrigin := ''https://game.example''\<rparr>
   in parsePublicOrigin parse isLoopback ''https://Game.example'' = Inr (dc_publicOrigin config) \<and>
      allowWebSocketOrigin parse isLoopback config (request_from ''20.0.0.7:44'' ''game.example'' ''HTTPS://game.example'') \<and>
      allowWebSocketOrigin parse isLoopback config (request_from ''10.0.0.1:52'' ''10.0.0.1:80'' ''http://10.0.0.1:80'') \<and>
      \<not> allowWebSocketOrigin parse isLoopback config (request_from ''20.0.0.7:44'' ''10.0.0.1:80'' ''http://10.0.0.1:80'')"
proof -
  let ?u = "\<lparr>ur_Scheme = ''https'', ur_Opaque = '''', ur_User = False, ur_Host = ''Game.example'', ur_Path = '''',
         ur_RawQuery = '''', ur_Fragment = ''''\<rparr>"
  let ?parse = "\<lambda>s. if s = ''https://Game.example'' then Inr ?u
                    else if s = ''HTTPS://game.example'' then Inr (?u\<lparr>ur_Scheme := ''HTTPS'', ur_Host := ''game.example''\<rparr>)
                    else if s = ''http://10.0.0.1:80'' then Inr (?u\<lparr>ur_Scheme := ''http'', ur_Host := ''10.0.0.1:80''\<rparr>)
                    else Inl ''no URL''"
  let ?loop = "\<lambda>host. host = ''10.0.0.1''" and ?config = "small_config\<lparr>dc_publicOrigin := ''https://game.example''\<rparr>"
  have t: "TrimSpace ''https://Game.example'' = ''https://Game.example''" "TrimSpace ''HTTPS://game.example'' = ''HTTPS://game.example''"
    "TrimSpace ''http://10.0.0.1:80'' = ''http://10.0.0.1:80''"
    using TrimSpace_printable[of "CHR ''h''" "CHR ''e''" "''ttps://Game.exampl''"]
      TrimSpace_printable[of "CHR ''H''" "CHR ''e''" "''TTPS://game.exampl''"]
      TrimSpace_printable[of "CHR ''h''" "CHR ''0''" "''ttp://10.0.0.1:8''"]
    by (simp_all add: printable_def)
  have l: "ToLower ''Game.example'' = ''game.example''" "ToLower ''game.example'' = ''game.example''"
    "ToLower ''https'' = ''https''" "ToLower ''HTTPS'' = ''https''" "ToLower ''http'' = ''http''"
    by (simp_all add: ToLower.simps starts_with_def utf8_def utf8_char_def lower_char_def Let_def)
  have p: "parsePublicOrigin ?parse ?loop ''https://Game.example'' = Inr (dc_publicOrigin ?config)"
    by (simp add: parsePublicOrigin_def Let_def t l)
  have u: "?parse (TrimSpace ''https://Game.example'') = Inr ?u" by (simp add: t)
  have f: "EqualFold s s" for s by (simp add: EqualFold_def)
  have split: "SplitHostPort ''20.0.0.7:44'' = Some (''20.0.0.7'', ''44'')" "SplitHostPort ''10.0.0.1:52'' = Some (''10.0.0.1'', ''52'')"
    "SplitHostPort ''10.0.0.1:80'' = Some (''10.0.0.1'', ''80'')"
    by (simp_all add: SplitHostPort_def Let_def)
  note c = conjunct1[OF public_origin_checked[OF p _ u]]
  have "allowWebSocketOrigin ?parse ?loop ?config (request_from ''20.0.0.7:44'' ''game.example'' ''HTTPS://game.example'')"
    unfolding c[simplified] by (simp add: request_from_def t l bare_origin_def same_origin_def)
  moreover have "allowWebSocketOrigin ?parse ?loop ?config (request_from ''10.0.0.1:52'' ''10.0.0.1:80'' ''http://10.0.0.1:80'')"
    unfolding c[simplified] by (simp add: request_from_def split f)
  moreover have "\<not> allowWebSocketOrigin ?parse ?loop ?config (request_from ''20.0.0.7:44'' ''10.0.0.1:80'' ''http://10.0.0.1:80'')"
    unfolding c[simplified] by (simp add: request_from_def split t l same_origin_def)
  ultimately show ?thesis using p unfolding Let_def by blast
qed

section \<open>Calls that run at the same time\<close>

text \<open>
  C7. Any number of connections may join, submit, leave and receive at the same time, with a shutdown at any
  moment, their critical sections interleaved in any order and the platform failing whenever it
  likes: no call ever panics (no channel is closed twice or sent on when closed), every room is in a
  sound state whose game was played by the rules, \<open>joinMu\<close> is held by exactly the one call that is
  inside \<open>Join\<close>, and there is no deadlock: from every point the calls can be advanced until all have
  returned, and then every room that is kept has a connected player.
\<close>

theorem overlapping_calls_never_panic:
  "\<exists>w. calls_run seeds (calls_start n) xs = Some w \<and> objs_inv (sc_manager w) \<and> lock_inv w \<and>
     (\<exists>ys w'. list_all advances ys \<and> calls_run seeds w ys = Some w' \<and> calls_quiet w' \<and>
        (\<forall>rid r. Manager_Room (sc_manager w') rid = Some r \<longrightarrow> some_connected r))"
proof -
  obtain w where w: "calls_run seeds (calls_start n) xs = Some w" "calls_inv w"
    using calls_run_kept[OF calls_start_inv] by blast
  obtain ys w' where ys: "list_all advances ys" "calls_run seeds w ys = Some w'" "calls_inv w'" "calls_quiet w'"
    using calls_finish[OF w(2)] by blast
  have "some_connected r" if "Manager_Room (sc_manager w') rid = Some r" for rid r
    using that quiet_rooms[OF ys(3,4)] by (auto simp: Manager_Room_def)
  then show ?thesis using w ys calls_invD(1,3)[OF w(2)] by blast
qed

lemma overlapping_calls_never_panic_witness:
  "\<exists>w. calls_run (\<lambda>_. 7) (calls_start 3)
      [Begin 0 (CallJoin ''alice''), Begin 1 (CallJoin ''bob''), Advance 0 (\<lambda>_. None), Advance 1 (\<lambda>_. None),
       Begin 2 (CallClose ''bye''), Advance 0 (\<lambda>_. None), Advance 2 (\<lambda>_. None)] = Some w \<and> lock_inv w"
  using overlapping_calls_never_panic[of "\<lambda>_. 7" 3
      "[Begin 0 (CallJoin ''alice''), Begin 1 (CallJoin ''bob''), Advance 0 (\<lambda>_. None), Advance 1 (\<lambda>_. None),
       Begin 2 (CallClose ''bye''), Advance 0 (\<lambda>_. None), Advance 2 (\<lambda>_. None)]"]
  by (elim exE conjE) (intro exI conjI)

text \<open>
  C8. While the server is not shutting down, whatever the interleaving: whenever no call is under way, the books
  are exactly those of calls that run one after the other (a player is registered with a room
  exactly if he sits in it, every room has a connected player, the waiting room is the one that
  waits, dropped rooms are closed), the connections are exactly the connected players with their
  rooms, and when the last connection has gone no room and no player is left.
\<close>

theorem books_agree_between_calls:
  assumes "calls_run seeds (calls_start n) xs = Some w" "\<not> list_ex closes xs" "calls_quiet w"
  shows "manager_inv (sc_manager w) \<and>
    (\<forall>p rid. Inside p rid \<in> set (sc_calls w) \<longleftrightarrow> on_line (sc_manager w) rid p) \<and>
    ((\<forall>c \<in> set (sc_calls w). c = Outside) \<longrightarrow> RoomCount (sc_manager w) = 0 \<and> PlayerCount (sc_manager w) = 0)"
proof -
  obtain w' where "calls_run seeds (calls_start n) xs = Some w'" "server_inv w'"
    using server_run_kept[OF calls_start_server assms(2)] by blast
  with assms(1) have inv: "server_inv w" by simp
  have "Inside p rid \<in> set (sc_calls w) \<longleftrightarrow> on_line (sc_manager w) rid p" for p rid
    using quiet_owners[OF inv assms(3)] .
  then show ?thesis using quiet_manager_inv[OF inv assms(3)] nothing_left[OF inv] by blast
qed

lemma books_agree_between_calls_witness:
  "calls_run (\<lambda>_. 7) (calls_start 2) (Begin 0 (CallJoin ''alice'') # replicate 5 (Advance 0 (\<lambda>_. None))) =
     Some (first_inside (\<lambda>_. 7)) \<and> on_line (sc_manager (first_inside (\<lambda>_. 7))) (room_name 1) ''alice''"
proof -
  let ?xs = "Begin 0 (CallJoin ''alice'') # replicate 5 (Advance 0 (\<lambda>_. None))"
  have q: "\<not> list_ex closes ?xs" "calls_quiet (first_inside (\<lambda>_. 7))"
    by (simp_all add: eval_nat_numeral calls_quiet_def first_inside_def)
  have "Inside ''alice'' (room_name 1) \<in> set (sc_calls (first_inside (\<lambda>_. 7)))" by (simp add: first_inside_def)
  then show ?thesis using books_agree_between_calls[OF first_joins q] first_joins by blast
qed

text \<open>
  C23. What \<open>joinMu\<close> is for: in no interleaving is a player turned away because the room that was picked for him
  filled up meanwhile. And while the server is not shutting down, a connection's submission always
  finds the room that its player sits in, whatever the other connections do.
\<close>

theorem calls_find_their_room:
  assumes "calls_run seeds (calls_start n) xs = Some w"
  shows "(\<forall>p. JoinUnlock p (Inl (JoinError p (''room'' @ utf8 [0x306F, 0x6E80, 0x5E2D,
      0x3067, 0x3059]))) \<notin> set (sc_calls w)) \<and>
    (\<not> list_ex closes xs \<longrightarrow>
      (\<forall>p own c. SubmitLookup p own own c \<in> set (sc_calls w) \<longrightarrow>
        (\<exists>i. submit_lookup (sc_manager w) own p = Inr i \<and> online (obj (sc_manager w) i) p)))"
proof -
  obtain w' where "calls_run seeds (calls_start n) xs = Some w'" "calls_inv w'"
    using calls_run_kept[OF calls_start_inv] by blast
  with assms have inv: "calls_inv w" by simp
  have "server_inv w" if xs: "\<not> list_ex closes xs"
  proof -
    obtain w' where "calls_run seeds (calls_start n) xs = Some w'" "server_inv w'"
      using server_run_kept[OF calls_start_server xs] by blast
    with assms show ?thesis by simp
  qed
  then show ?thesis using calls_invD(4)[OF inv] submit_finds_player by fastforce
qed

lemma calls_find_their_room_witness:
  "\<exists>w. calls_run (\<lambda>_. 7) (calls_start 2)
      (Begin 0 (CallJoin ''alice'') # replicate 5 (Advance 0 (\<lambda>_. None))) = Some w \<and>
     JoinUnlock ''bob'' (Inl (JoinError ''bob'' (''room'' @ utf8 [0x306F, 0x6E80, 0x5E2D,
      0x3067, 0x3059]))) \<notin> set (sc_calls w)"
  using calls_find_their_room[OF first_joins] first_joins by blast

end
