(* ===== verification/Spec2Isabelle.thy ===== *)
theory Spec2Isabelle
  imports RuntimeTest Startup Properties
begin

text \<open>
  Gradation Reversi: a two-player board game whose server, written in Go (\<open>server/\<close>), is the
  authority over every match, and whose rules are a program of their own (\<open>rules/game/rules.nako3\<close>)
  that the server runs for every command. Finished matches are written as game records, which are
  programs themselves: replaying one runs it (\<open>rules/replay/harness.nako3\<close>). This development models
  the server, the rules and the records, and proves what makes them correct.

  \<^bold>\<open>Parts and theories.\<close>

  \<^item> \<open>Prelude\<close>: how Go values are represented (slices with nil, maps as association lists without
    duplicate keys, strings as bytes), the parts of the Go library the code calls on strings and
    numbers, and generic lemmas.
  \<^item> \<open>Protocol\<close>: the types, constructors, clones and validators of \<open>internal/protocol\<close>. Objects
    are records, the string enumerations abbreviations; a validator returns the first violation.
  \<^item> \<open>Rules\<close>, \<open>RulesLemmas\<close>, \<open>Game\<close>: the rule engine, function by function; the geometry of the
    board, the specification of a placement as a simultaneous conversion, the characterisation of
    the legal moves and the winner; games as sequences of accepted commands and their invariant.
  \<^item> \<open>Runtime\<close>: \<open>internal/runtime\<close>, the process boundary. The process, \<open>os.Stat\<close> and
    \<open>encoding/json\<close> are parameters. The Go interface \<open>Runner\<close> is the locale \<open>contract_runner\<close>
    (what any runner owes its clients), extended by \<open>rules_runner\<close> (a runner that judges by the
    rules). \<open>Evaluate\<close> is interpreted as a contract runner for every process; the engine behind the
    validators, with arbitrary platform failures, as a rules runner; and \<open>Evaluate\<close> refines it when
    the process runs the rules. \<open>RuntimeTest\<close>: the fake runner of the tests.
  \<^item> \<open>LocalGame\<close>: \<open>internal/localgame\<close>, one match over HTTP. State: the optional game state.
  \<^item> \<open>Room\<close>, \<open>RoomLemmas\<close>, \<open>Delivery\<close>: \<open>internal/match/room.go\<close>. State: seats, phase, game
    state and the channels made so far; an operation is a function to the next room and its result,
    \<open>None\<close> for a panic. The lemmas give every operation's effect by cases, the invariant
    \<open>room_inv\<close>, and what reaches the players' channels.
  \<^item> \<open>Manager\<close>, \<open>ManagerLemmas\<close>: \<open>internal/match/manager.go\<close>. State: room objects, the maps of
    rooms and players, the waiting room, the counter. Critical sections are functions of their own.
  \<^item> \<open>Calls\<close>, \<open>CallsLemmas\<close>, \<open>Connections\<close>, \<open>CallsAlone\<close>: the same calls overlapping. A goroutine
    stands before one of its critical sections (\<open>call\<close>), \<open>call_step\<close> runs the next one on the shared
    manager, \<open>joinMu\<close> is state, and \<open>calls_run\<close> runs a schedule. \<open>calls_inv\<close> holds in every
    interleaving, with a shutdown at any moment; \<open>conns_inv\<close> (each connection is a connected player
    of a kept room, registered with it) in those without. Uninterrupted, a call is the operation of
    \<open>Manager\<close> (\<open>call_alone\<close>), which the other theories use.
  \<^item> \<open>Lines\<close>, \<open>GameRecord\<close>, \<open>Scan\<close>, \<open>ScanLemmas\<close>: \<open>internal/replay\<close> \<open>record.go\<close>, \<open>encode.go\<close>,
    \<open>decode.go\<close>, \<open>errors.go\<close>, \<open>script_runner.go\<close>. A record is a byte string; each regular expression of
    the code is a function on it; \<open>Scan\<close> folds the lines into an outline; the lines that the writer
    makes are recognised as what they are.
  \<^item> \<open>Replay\<close>, \<open>ReplayLemmas\<close>, \<open>ReplayErrors\<close>: \<open>replay.go\<close> and the harness. A record is run as the
    calls of its lines; the interpreter behind them is the locale \<open>gonako_script\<close>, interpreted on the
    harness. Writing and replaying are inverse; \<open>names_line\<close> says which error names a line.
  \<^item> \<open>Store\<close>, \<open>StoreLemmas\<close>: \<open>store.go\<close>, \<open>service.go\<close>. The Go interface \<open>Store\<close> is the locale
    \<open>record_store\<close>; the in-memory store is its interpretation.
  \<^item> \<open>Transport\<close>, \<open>TransportLemmas\<close>: the WebSocket frames of \<open>main.go\<close>, byte by byte, UTF-8 included.
    \<open>Peer\<close>, \<open>PeerLemmas\<close>: the queue of a connection with its goroutines. A channel operation or a write
    is one step with all its possible results; \<open>peer_run\<close> is every interleaving of them.
  \<^item> \<open>Server\<close>, \<open>ServerLemmas\<close>, \<open>Startup\<close>: configuration, origins, handshake, admission (a step
    relation, since \<open>admit\<close> is two atomic operations), rate limiter, keep-alive, health, and the
    construction of the parts by \<open>main\<close>.
  \<^item> \<open>Session\<close>, \<open>SessionLemmas\<close>, \<open>Matches\<close>: the handlers of \<open>main.go\<close>: joining, the loop over the
    frames, submitting, keeping and saving the record of a match, forwarding events, serving replays.
    \<open>session_run\<close> is any sequence of requests, frames, leaves and shutdowns.
  \<^item> \<open>Properties\<close> and this theory: the properties.

  \<^bold>\<open>How the parts interact.\<close> A client's frame is read, parsed and submitted through the manager to its
  room, from there as a request through a runner to the engine, and the engine's response back; the
  room's new state goes to the channels of both seats and from there through each connection's queue
  to the wire. The handler keeps every accepted command in the room's record; the command that ends
  the match makes it write the record, replay it, compare and store it, and only then is the end
  announced. The client lemmas of services, rooms, manager and sessions are proved inside the runner
  locales and used through the interpretation of the engine, for any platform failures.

  \<^bold>\<open>What the properties show.\<close> Whole runs of the server: C1, C2, C12, C13 (records are the games, a
  finished match is served or its failure kept, any game can be played). The rules: C3, C9, C10, C14 to C18, C35. Rooms and
  manager: C5, C6, C19 to C22 (no panic, refinement of the rules, ownership of seats, delivery,
  reconnection); overlapping calls: C7, C8, C23 (no panic or deadlock, consistent books and no leaks,
  no refusal for want of a seat). Connections: C11, C24, C30, C31 (frames, order, flush). Game
  records and store: C4, C25 to C29. Limits of the server: C32 to C34. The engine's boundary and
  the local game: C36 to C40.

  \<^bold>\<open>Bounds and fuel.\<close> \<open>walk\<close> has fuel 8: a walk moves by at least one square and the board has 8 in
  a direction (\<open>walk_enough\<close>). Everything else terminates structurally or by a measure.

  \<^bold>\<open>Assumptions of the runs.\<close> A session step is one call of the manager with what happens around it
  (interleaved calls: \<open>Calls\<close>); the runner of the rules may fail at any step, and the process that
  runs the records on any of them (\<open>may_fail\<close>: it does what the interpreter would do, or reports an
  error); the text of the clock has no blanks. Durations and rates are
  exact numbers where Go has floating point.

  \<^bold>\<open>Not modelled.\<close> JSON text, HTTP (the routes, headers, listening) and TLS, the interpreter of the
  rules' language (the rules and the harness are translated by hand), file systems, and the browser
  client. \<open>url.Parse\<close>, \<open>net.ParseIP\<close>, base64, SHA-1 and the clock are parameters.
\<close>

section \<open>A first move, for the witnesses\<close>

abbreviation "game0 \<equiv> new_game ''g'' 7"
abbreviation "move0 \<equiv> PlaceCommand ''c'' ''dark'' 0 3 2"

lemma first_move: "accepts game0 move0 = Some (after_place game0 3 2)"
proof -
  have len: "length (cells game0) = 64" by (simp add: first_board_pieces)
  have b: "in_board 3 2" "cells game0 ! board_index 3 2 = None" "sandwiches (cells game0) 3 2"
    by (simp_all add: in_board_def board_index_def first_board_def sandwiches_def directions_def)
  show ?thesis
    unfolding accepts_iff[OF len] using b
    by (simp add: PlaceCommand_def command_timely_def Player_Valid_def)
qed

lemma game0_inv: "game_inv game0" by (rule new_game_inv) simp

lemma first_play: "play game0 [move0] = Some (after_place game0 3 2)"
  by (simp add: first_move)

section \<open>The rules of the game\<close>

text \<open>
  C3. Whatever commands the engine accepts from a new game on, the state keeps the invariant of a
  game: a 64-cell board, the turn number counting placed pieces and passes, the player to move
  following from the turn's parity, the colour taken from the generator's state, the legal moves
  those of the board, and a finished state exactly when the board is full or after two passes.
\<close>

theorem play_keeps_game:
  assumes "gameId \<noteq> ''''" "play (new_game gameId seed) cs = Some s"
  shows "game_inv s"
  using play_inv[OF new_game_inv[OF assms(1)] assms(2)] .

lemma play_keeps_game_witness: "game_inv (after_place game0 3 2)"
  by (rule play_keeps_game[OF _ first_play]) simp

text \<open>
  C14. Games are bounded: no sequence of accepted commands from a new game is longer than 61, and
  one that fills the board has exactly 60 commands and has finished the game.
\<close>

theorem game_length:
  assumes "gameId \<noteq> ''''" "play (new_game gameId seed) cs = Some s"
  shows "length cs \<le> 61 \<and> (pieces (cells s) = 64 \<longrightarrow> length cs = 60 \<and> st_Phase s = ''finished'')"
proof (intro conjI impI)
  note inv = new_game_inv[OF assms(1), of seed]
  note s = play_inv[OF inv assms(2)]
  have t: "st_TurnNumber s = int (length cs)" using play_turn[OF inv assms(2)] by simp
  then show "length cs \<le> 61" using game_inv_turn_bound[OF s] by simp
  assume "pieces (cells s) = 64"
  then show "length cs = 60" "st_Phase s = ''finished''" using game_inv_full[OF s] t by simp_all
qed

lemma game_length_witness:
  "length [move0] \<le> 61 \<and> pieces (cells (after_place game0 3 2)) \<noteq> 64"
  using game_length[OF _ first_play] by auto

text \<open>
  No game gets stuck: in every game state that is still playing, the player to move has a
  command that is accepted, namely the first legal move or, without one, a pass.
\<close>

theorem player_can_move:
  assumes "game_inv s" "st_Phase s = ''playing''" "cid \<noteq> ''''"
  shows "\<exists>s'. accepts s (next_command s cid) = Some s' \<and> game_inv s' \<and>
    st_TurnNumber s' = st_TurnNumber s + 1"
  using next_command_accepted[OF assms] accepts_inv[OF assms(1)]
    accepts_turn(4)[OF game_inv_length[OF assms(1)]] by blast

text \<open>
  C15. Every game can be played to its end: from a game state there are commands that the engine
  accepts one after the other and that finish the game.
\<close>

theorem game_can_finish:
  assumes "game_inv s"
  shows "\<exists>cs s'. play s cs = Some s' \<and> st_Phase s' = ''finished'' \<and> st_Winner s' \<noteq> None"
proof -
  obtain cs s' where s': "play s cs = Some s'" "st_Phase s' = ''finished''"
    using play_finishes[OF assms] by blast
  have "game_inv s'" using play_inv[OF assms s'(1)] .
  then have "st_Winner s' \<noteq> None" using s'(2) by (auto simp: game_inv_def)
  with s' show ?thesis by blast
qed

lemma game_can_finish_witness:
  "\<exists>cs s'. play game0 cs = Some s' \<and> st_Phase s' = ''finished'' \<and> st_Winner s' \<noteq> None"
  by (rule game_can_finish[OF game0_inv])

text \<open>
  C10. An accepted placement converts all sandwiched pieces at once: every cell of the new board is
  given by the old board alone, the placed cell by the next colour, a cell strictly inside one of
  the runs by the mean of the placed colour, its own and that of the run's far end, any other cell
  by itself.
\<close>

theorem placement_board:
  assumes "length (cells s) = 64" "accepts s c = Some s'" "cm_Type c = ''place''"
  shows "\<exists>row col. cm_Row c = Some row \<and> cm_Col c = Some col \<and> in_board row col \<and>
    cells s ! board_index row col = None \<and> sandwiches (cells s) row col \<and>
    cells s' = map (converted_cell (cells s) (st_NextColor s) row col) [0..<64]"
proof -
  obtain row col where rc: "cm_Row c = Some row" "cm_Col c = Some col" "in_board row col"
    "cells s ! board_index row col = None" "sandwiches (cells s) row col" "s' = after_place s row col"
    using assms(2,3) unfolding accepts_iff[OF assms(1)] by auto
  then have "cells s' = map (converted_cell (cells s) (st_NextColor s) row col) [0..<64]"
    by (simp add: after_place_def Let_def)
  with rc show ?thesis by blast
qed

lemma placement_board_witness:
  "\<exists>row col. cm_Row move0 = Some row \<and> cm_Col move0 = Some col \<and> in_board row col \<and>
    cells game0 ! board_index row col = None \<and> sandwiches (cells game0) row col \<and>
    cells (after_place game0 3 2) = map (converted_cell (cells game0) (st_NextColor game0) row col) [0..<64]"
  by (rule placement_board[OF _ first_move]) (simp_all add: first_board_pieces PlaceCommand_def)

text \<open>
  The order in which the engine treats the sandwiched lines does not matter: any permutation of
  the lines gives the same board.
\<close>

theorem flip_order_irrelevant:
  assumes "mset lns = mset (sandwich_lines ob row col)"
  shows "fst (flip_lines ob placed lns) = fst (flip_lines ob placed (sandwich_lines ob row col))"
  using assms by (rule flip_lines_perm)

text \<open>
  C9. The legal moves that a state shows are exactly the placements that the engine accepts from the
  player to move, and a pass is accepted exactly when there is none.
\<close>

theorem legal_moves_are_accepted:
  assumes inv: "game_inv s" and ph: "st_Phase s = ''playing''" and cid: "cid \<noteq> ''''"
  shows "(accepts s (PlaceCommand cid (st_CurrentPlayer s) (st_TurnNumber s) row col) \<noteq> None
      \<longleftrightarrow> IsLegalMove s row col) \<and>
    (accepts s (PassCommand cid (st_CurrentPlayer s) (st_TurnNumber s)) \<noteq> None
      \<longleftrightarrow> elems (st_LegalMoves s) = [])"
proof (intro conjI)
  have lm: "elems (st_LegalMoves s) = legal_moves (cells s)" and t: "0 \<le> st_TurnNumber s"
    and p: "Player_Valid (st_CurrentPlayer s)"
    using inv ph by (auto simp: game_inv_def)
  have il: "IsLegalMove s row col \<longleftrightarrow> \<lparr>pos_Row = row, pos_Col = col\<rparr> \<in> set (legal_moves (cells s))"
    unfolding IsLegalMove_def lm by (metis position.surjective old.unit.exhaust position.select_convs)
  show "accepts s (PlaceCommand cid (st_CurrentPlayer s) (st_TurnNumber s) row col) \<noteq> None
      \<longleftrightarrow> IsLegalMove s row col"
    unfolding il legal_moves_iff not_None_eq accepts_iff[OF game_inv_length[OF inv]]
    using ph cid t p by (simp add: PlaceCommand_def command_timely_def)
  show "accepts s (PassCommand cid (st_CurrentPlayer s) (st_TurnNumber s)) \<noteq> None
      \<longleftrightarrow> elems (st_LegalMoves s) = []"
    unfolding lm not_None_eq accepts_iff[OF game_inv_length[OF inv]]
    using ph cid t p by (simp add: PassCommand_def command_timely_def)
qed

lemma legal_moves_are_accepted_witness:
  "(accepts game0 (PlaceCommand ''c'' (st_CurrentPlayer game0) (st_TurnNumber game0) 3 2) \<noteq> None
      \<longleftrightarrow> IsLegalMove game0 3 2) \<and>
   (accepts game0 (PassCommand ''c'' (st_CurrentPlayer game0) (st_TurnNumber game0)) \<noteq> None
      \<longleftrightarrow> elems (st_LegalMoves game0) = [])"
  using legal_moves_are_accepted[OF game0_inv, of "''c''"] by simp

text \<open>
  C16. A command is accepted as a whole or not at all: the response to a rejected command carries the
  unchanged state, no event and an error with a code of the contract and a message; the response to
  an accepted one carries a new state and an event and no error.
\<close>

theorem command_atomic:
  "(if rs_OK (apply_command s c)
    then (\<exists>s' e. apply_command s c = ok_response s' (Some e) \<and> accepts s c = Some s')
    else rs_State (apply_command s c) = Some s \<and> rs_Event (apply_command s c) = None \<and>
         accepts s c = None \<and>
         (\<exists>e. rs_Error (apply_command s c) = Some e \<and> ErrorCode_Valid (pe_Code e) \<and> pe_Message e \<noteq> ''''))"
proof (cases "rs_OK (apply_command s c)")
  case True
  then obtain s' where "accepts s c = Some s'" using accepts_None_iff by blast
  then show ?thesis using True accepts_Some by auto
next
  case False
  then show ?thesis
    using rejection_iff rejection_of_fields[of s "apply_command s c"] accepts_None_iff by auto
qed

text \<open>
  C17. Acceptance moves the game on by one turn: the command was for this turn and by the player to
  move, the turn number grows by one, the opponent is to move, and the random state and the next
  colour are the generator's successors.
\<close>

theorem acceptance_advances:
  assumes "length (cells s) = 64" "accepts s c = Some s'"
  shows "cm_ExpectedTurn c = st_TurnNumber s \<and> cm_Player c = st_CurrentPlayer s \<and>
    st_Phase s \<noteq> ''finished'' \<and> st_TurnNumber s' = st_TurnNumber s + 1 \<and>
    st_CurrentPlayer s' = Opponent (st_CurrentPlayer s) \<and>
    st_RNGState s' = st_RNGState s * 1664525 + 1013904223 \<and>
    unat (st_NextColor s') = unat (st_RNGState s') div 2 ^ 24 \<and>
    st_GameID s' = st_GameID s"
  using accepts_turn[OF assms] by (simp add: lcg_next_word color_of_unat)

lemma acceptance_advances_witness:
  "cm_ExpectedTurn move0 = st_TurnNumber game0 \<and> cm_Player move0 = st_CurrentPlayer game0 \<and>
    st_Phase game0 \<noteq> ''finished'' \<and>
    st_TurnNumber (after_place game0 3 2) = st_TurnNumber game0 + 1 \<and>
    st_CurrentPlayer (after_place game0 3 2) = Opponent (st_CurrentPlayer game0) \<and>
    st_RNGState (after_place game0 3 2) = st_RNGState game0 * 1664525 + 1013904223 \<and>
    unat (st_NextColor (after_place game0 3 2)) = unat (st_RNGState (after_place game0 3 2)) div 2 ^ 24 \<and>
    st_GameID (after_place game0 3 2) = st_GameID game0"
  by (rule acceptance_advances[OF _ first_move]) (simp add: first_board_pieces)

text \<open>
  C18. A command that was accepted is never applied twice: sent again to the state that it led to, it
  is rejected, as a command for a past turn or, when it ended the game, because the game is over.
\<close>

theorem resent_command_rejected:
  assumes "length (cells s) = 64" "accepts s c = Some s'"
  shows "accepts s' c = None \<and>
    (\<exists>e. rs_Error (apply_command s' c) = Some e \<and>
      pe_Code e = (if st_Phase s' = ''finished'' then CodeGameFinished else CodeStaleTurn))"
  using resend_code[OF assms] by (auto simp: accepts_None_iff error_response_def)

lemma resent_command_rejected_witness: "accepts (after_place game0 3 2) move0 = None"
  using resent_command_rejected[OF _ first_move] by (simp add: first_board_pieces)

text \<open>
  The winner is decided by the mean colour: dark wins exactly when twice the sum of the colours is
  less than 255 times the number of pieces, light otherwise.
\<close>

theorem winner_by_mean:
  assumes "length b = 64"
  shows "winner_of b = (if 2 * color_sum b < pieces b * 255 then ''dark'' else ''light'')"
  using assms by (rule winner_of_eq)

text \<open>
  C35. The engine computes with double precision numbers: its generator is the 32-bit linear
  congruential generator, no intermediate value leaves the range in which doubles are exact, and a
  mixed colour is the floor of the mean of three bytes, so that it never wraps.
\<close>

theorem engine_arithmetic:
  "lcg_next rng = rng * 1664525 + 1013904223 \<and>
   int (unat rng) * 1664525 + 1013904223 < 2 ^ 53 \<and>
   unat (mix_color placed fx t) = (unat placed + cell_color fx + cell_color t) div 3"
  by (intro conjI lcg_next_word lcg_exact_in_double mix_color_unat)

section \<open>The engine and its boundary\<close>

text \<open>
  C36. Every response of the engine to a request of the server passes the server's own check of
  responses: the request is valid, and a state in it that is still playing has seen at most one
  pass in a row.
\<close>

theorem engine_meets_contract:
  assumes "Request_Validate q = None" "pred_option sendable (rq_State q)"
  shows "Response_Validate (evaluate q) = None"
  using assms by (rule evaluate_valid)

lemma engine_meets_contract_witness:
  "Response_Validate (evaluate (NewGameRequest ''g'' 7)) = None"
  by (rule engine_meets_contract) (simp_all add: Request_Validate_new, simp add: NewGameRequest_def)

text \<open>
  The engine's check of a state and the server's check of a state are equivalent.
\<close>

theorem state_checks_agree: "state_valid s \<longleftrightarrow> State_Validate s = None"
  by (rule state_valid_iff)

text \<open>
  C37. Whatever the process and the JSON functions do, \<open>Evaluate\<close> returns a response that satisfies
  the contract or one of four errors, each with its cause: a timeout, with the configured duration, a
  cancelled context, a process that failed, or an output that is not a response of the contract. The
  texts of the process in a timeout and in a failure are cut to the limit and its mark; the output in
  the last error is the whole output of the process.
\<close>

theorem Evaluate_sound:
  "case Evaluate g marshal unmarshal cmd q of
     Inr None \<Rightarrow> False
   | Inr (Some r) \<Rightarrow> Response_Validate r = None
   | Inl (ConfigError field value message) \<Rightarrow> False
   | Inl (TimeoutError t err) \<Rightarrow>
       (\<exists>payload. marshal q = Inr payload \<and> pr_CtxErr (cmd payload) = Some DeadlineExceeded) \<and>
       t = gk_timeout g \<and> length err \<le> stderrLimit + 3
   | Inl ContextCanceled \<Rightarrow> (\<exists>payload. marshal q = Inr payload \<and> pr_CtxErr (cmd payload) = Some Canceled)
   | Inl (ExecError code err out) \<Rightarrow>
       (\<exists>payload. marshal q = Inr payload \<and> pr_RunErr (cmd payload) \<noteq> None) \<and>
       length err \<le> stderrLimit + 3 \<and> length out \<le> stderrLimit + 3
   | Inl (DecodeError out cause) \<Rightarrow>
       (\<exists>err. marshal q = Inl err \<and> out = '''' \<and> cause = JSONError err) \<or>
       (\<exists>payload. marshal q = Inr payload \<and> out = pr_Stdout (cmd payload) \<and>
          (case unmarshal out of
             Inl err \<Rightarrow> cause = JSONError err
           | Inr r \<Rightarrow> (\<exists>e. Response_Validate r = Some e \<and> cause = ContractError e)))"
proof (cases "Evaluate g marshal unmarshal cmd q")
  case (Inr x)
  then show ?thesis using gonako.eval_not_nil gonako.eval_valid by (cases x) auto
next
  case (Inl err)
  then show ?thesis
    by (auto simp: Evaluate_def run_process_def Let_def length_truncate split: option.splits sum.splits if_splits)
qed

text \<open>
  C38. The server's evaluation refines the engine: when the process, on the JSON of a valid request,
  fails or prints the JSON of the engine's response, then \<open>Evaluate\<close> gives what the engine gives,
  up to failures of the platform. The process's documented behaviour is the hypothesis.
\<close>

theorem Evaluate_refines_rules:
  assumes "process_runs_rules marshal unmarshal cmd q" "pred_option sendable (rq_State q)"
  shows "Evaluate g marshal unmarshal cmd q = engine_runner (platform_failure g marshal cmd) q"
  using assms by (rule Evaluate_refines_engine)

lemma Evaluate_refines_rules_witness:
  "Evaluate \<lparr>gk_gonakoPath = ''gonako'', gk_rulesPath = ''rules'', gk_timeout = 5\<rparr>
     (\<lambda>q. Inr '''') (\<lambda>out. Inr (evaluate (NewGameRequest ''g'' 7)))
     (\<lambda>payload. \<lparr>pr_Stdout = ''{}'', pr_Stderr = '''', pr_CtxErr = None, pr_RunErr = None\<rparr>)
     (NewGameRequest ''g'' 7) =
   engine_runner (platform_failure \<lparr>gk_gonakoPath = ''gonako'', gk_rulesPath = ''rules'', gk_timeout = 5\<rparr>
     (\<lambda>q. Inr '''')
     (\<lambda>payload. \<lparr>pr_Stdout = ''{}'', pr_Stderr = '''', pr_CtxErr = None, pr_RunErr = None\<rparr>))
     (NewGameRequest ''g'' 7)"
  by (rule Evaluate_refines_rules)
    (simp add: process_runs_rules_def wire_new, simp add: NewGameRequest_def)

section \<open>The local game\<close>

text \<open>
  C39. The local service never panics and its state is a game: an evaluation leaves the state, starts
  a new game or plays one command that the rules accept, whatever the request and whenever the
  platform fails.
\<close>

theorem local_service_plays:
  assumes "pred_option server_state st"
  shows "\<exists>st' r. local_Evaluate (engine_runner fails) st q = Some (st', r) \<and>
    pred_option server_state st' \<and> game_step (map_option wire_state st) (map_option wire_state st')"
proof -
  obtain st' r where "local_Evaluate (engine_runner fails) st q = Some (st', r)"
    using engine.local_no_panic by fastforce
  then show ?thesis using engine.local_Evaluate_step[OF assms] engine.local_Evaluate_inv[OF assms] by blast
qed

lemma local_service_plays_witness:
  "\<exists>st' r. local_Evaluate (engine_runner (\<lambda>q. None)) None (NewGameRequest ''g'' 7) = Some (st', r) \<and>
    pred_option server_state st' \<and> game_step (map_option wire_state None) (map_option wire_state st')"
  by (rule local_service_plays) simp

lemma local_Evaluate_error:
  "local_Evaluate runner st q = Some (st', Inl err) \<Longrightarrow> st' = st"
  by (auto simp: local_Evaluate_def ApplyCommand_def Let_def split: option.splits sum.splits if_splits)

text \<open>
  C40. The HTTP handler answers every body, by its cause: 400 for a body that is not one JSON value within
  the limit, which is never evaluated; otherwise 200 with the answer of the evaluation, 504 when that
  timed out and 502 when the platform failed in another way. Unless it answers 200 the game is
  unchanged, and it moves by at most one step of the rules.
\<close>

theorem handler_answers:
  assumes "pred_option server_state st"
  shows "\<exists>st' status response.
    local_ServeHTTP (engine_runner fails) decode at_eof st body = Some (st', status, response) \<and>
    status \<in> {200, 400, 502, 504} \<and> (status \<noteq> 200 \<longrightarrow> st' = st) \<and>
    (length body > maxRequestBytes \<longrightarrow> status = 400) \<and>
    (case decode (take maxRequestBytes body) of
       None \<Rightarrow> status = 400
     | Some (q, rest) \<Rightarrow>
         if \<not> at_eof rest \<or> length body > maxRequestBytes then status = 400
         else (case local_Evaluate (engine_runner fails) st q of
             None \<Rightarrow> False
           | Some (_, Inr answer) \<Rightarrow> status = 200 \<and> response = answer
           | Some (_, Inl (TimeoutError _ _)) \<Rightarrow> status = 504
           | Some (_, Inl _) \<Rightarrow> status = 502)) \<and>
    pred_option server_state st' \<and> game_step (map_option wire_state st) (map_option wire_state st')"
proof (cases "decode (take maxRequestBytes body)")
  case None
  then show ?thesis using assms by (simp add: local_ServeHTTP_def game_step.stay)
next
  case (Some qr)
  obtain q rest where q: "decode (take maxRequestBytes body) = Some (q, rest)" using Some by fastforce
  show ?thesis
  proof (cases "\<not> at_eof rest \<or> length body > maxRequestBytes")
    case True
    then show ?thesis using q assms by (simp add: local_ServeHTTP_def game_step.stay)
  next
    case False
    obtain st' r where e: "local_Evaluate (engine_runner fails) st q = Some (st', r)"
      using engine.local_no_panic by fastforce
    note step = engine.local_Evaluate_step[OF assms e] engine.local_Evaluate_inv[OF assms e]
    show ?thesis
    proof (cases r)
      case (Inl err)
      then have "st' = st" using e local_Evaluate_error by blast
      then show ?thesis using q False e Inl assms
        by (auto simp: local_ServeHTTP_def game_step.stay Let_def split: rt_error.split)
    next
      case (Inr response)
      then show ?thesis using q False e step by (simp add: local_ServeHTTP_def)
    qed
  qed
qed

lemma handler_answers_witness:
  "\<exists>st' response.
    local_ServeHTTP (engine_runner (\<lambda>q. None)) (\<lambda>b. Some (NewGameRequest ''g'' 7, '''')) (\<lambda>b. True) None ''x'' =
      Some (st', 200, response) \<and>
    map_option rs_OK response = Some True \<and> map_option wire_state st' = Some (new_game ''g'' 7)"
proof -
  have e: "local_Evaluate (engine_runner (\<lambda>q. None)) None (NewGameRequest ''g'' 7) =
      Some (Some (State_Clone (new_game ''g'' 7)), Inr (local_cloneResponse (Some (ok_response (new_game ''g'' 7) None))))"
    using engine_starts[of "''g''" 7] by (simp add: local_Evaluate_def NewGameRequest_def ok_response_def Let_def)
  obtain st' status response where h: "local_ServeHTTP (engine_runner (\<lambda>q. None)) (\<lambda>b. Some (NewGameRequest ''g'' 7, ''''))
      (\<lambda>b. True) None ''x'' = Some (st', status, response)" "status = 200" "response = local_cloneResponse (Some (ok_response (new_game ''g'' 7) None))"
    using handler_answers[of None "\<lambda>q. None" "\<lambda>b. Some (NewGameRequest ''g'' 7, '''')" "\<lambda>b. True" "''x''"]
    by (auto simp: e maxRequestBytes_def)
  have "st' = Some (State_Clone (new_game ''g'' 7))"
    using h(1) by (simp add: local_ServeHTTP_def e maxRequestBytes_def)
  then show ?thesis using h wire_game_inv[OF new_game_inv[of "''g''" 7]] by (simp add: ok_response_def local_cloneResponse_def)
qed

section \<open>A room with a game, for the witnesses\<close>

abbreviation "table1 \<equiv> room_opened (newRoom ''g'' 7) ''alice''"
abbreviation "table \<equiv> room_started table1 ''bob''"

lemma table1_seats: "rm_seats table1 =
    [(PlayerDark, \<lparr>se_playerID = ''alice'', se_events = Some 0, se_connected = True\<rparr>)]"
  by (simp add: room_opened_def newRoom_def)

lemma table1_inv: "room_inv table1" "rm_phase table1 = RoomWaiting" "rm_id table1 = ''g''" "rm_seed table1 = 7"
proof -
  have inv: "room_inv (newRoom ''g'' 7)" by (rule newRoom_inv) simp
  show "room_inv table1" by (rule room_opened_inv[OF inv]) (simp_all add: newRoom_def)
  show "rm_phase table1 = RoomWaiting" "rm_id table1 = ''g''" "rm_seed table1 = 7"
    by (simp_all add: room_opened_def newRoom_def)
qed

lemma table_inv: "room_inv table" "rm_phase table = RoomPlaying" "rm_state table = Some (State_Clone game0)"
  using room_started_inv[OF table1_inv(1) table1_seats table1_inv(2), of "''bob''"] table1_inv(3,4)
  by (simp_all add: seatOf_None table1_seats)

lemma table_seats: "rm_seats table =
    [(PlayerDark, \<lparr>se_playerID = ''alice'', se_events = Some 0, se_connected = True\<rparr>),
     (PlayerLight, \<lparr>se_playerID = ''bob'', se_events = Some 1, se_connected = True\<rparr>)]"
  by (simp add: room_started_def Let_def table1_seats) (simp add: room_opened_def newRoom_def seat_taken_def)

lemma table_alice: "seatOf table ''alice'' =
    Some (cm_Player move0, \<lparr>se_playerID = ''alice'', se_events = Some 0, se_connected = True\<rparr>)"
  by (simp add: seatOf_def table_seats PlaceCommand_def)

lemma table_bob: "seatOf table ''bob'' =
    Some (PlayerLight, \<lparr>se_playerID = ''bob'', se_events = Some 1, se_connected = True\<rparr>)"
  by (simp add: seatOf_def table_seats)

lemma move0_valid: "Command_Validate move0 = None"
  by (simp add: Command_Validate_def PlaceCommand_def Player_Valid_def InBounds_def BoardSize_def)

lemma table_accepts: "accepts (wire_state (State_Clone game0)) move0 = Some (after_place game0 3 2)"
  using first_move by (simp add: wire_game_inv[OF game0_inv])

lemma table_submit:
  "\<exists>e. room_submit (engine_runner (\<lambda>q. None)) table ''alice'' move0 =
    Some (room_moved table (after_place game0 3 2) (Some e),
      Inr (room_cloneResponse (Some (ok_response (after_place game0 3 2) (Some e)))))"
  by (rule submit_accepted[OF table_inv(1) table_alice _ table_inv(3) move0_valid table_accepts])
    (simp_all add: table_inv(2))

section \<open>Rooms\<close>

text \<open>
  C5. No sequence of joins, submissions, departures, closings and receives makes a room panic,
  whenever the platform fails, and the room's invariant holds throughout: two seats at most with
  different players, connected seats holding distinct open channels with bounded buffers, a phase
  that fits the seats, and a state that is a game played from the room's own seed.
\<close>

theorem room_never_panics:
  assumes "roomID \<noteq> ''''"
  shows "\<exists>r. room_run (newRoom roomID seed) xs = Some r \<and> room_inv r \<and>
    (\<forall>s. rm_state r = Some s \<longrightarrow> (\<exists>cs. play (new_game roomID seed) cs = Some (wire_state s)))"
proof -
  obtain r where r: "room_run (newRoom roomID seed) xs = Some r" "room_inv r" "rm_id r = roomID" "rm_seed r = seed"
    using room_run_ok[OF newRoom_inv[OF assms, of seed], of xs] by (auto simp: newRoom_def)
  then have "\<exists>cs. play (new_game roomID seed) cs = Some (wire_state s)" if "rm_state r = Some s" for s
    using that by (auto simp: room_inv_def room_game_def)
  with r show ?thesis by blast
qed

lemma room_never_panics_witness:
  "\<exists>r. room_run (newRoom ''room-1'' 7)
      [(\<lambda>q. None, DoJoin ''alice''), (\<lambda>q. None, DoJoin ''bob''), (\<lambda>q. None, DoLeave ''alice'')] = Some r \<and>
    room_inv r \<and> (\<forall>s. rm_state r = Some s \<longrightarrow> (\<exists>cs. play (new_game ''room-1'' 7) cs = Some (wire_state s)))"
  by (rule room_never_panics) simp

text \<open>
  C6. One call moves the room's game by at most one step of the rules: the state stays, becomes the
  new game of the room's id and seed, or follows from one command that the rules accept, sent for a
  seat that is taken; a closed room stays closed, and id and seed never change.
\<close>

theorem room_step_refines_rules:
  assumes "room_inv r"
  shows "\<exists>r'. room_exec (engine_runner fails) r x = Some r' \<and> room_step_ok r r'"
  using engine.room_exec_ok[OF assms] .

lemma room_step_refines_rules_witness:
  "\<exists>r'. room_exec (engine_runner (\<lambda>q. None)) (newRoom ''room-1'' 7) (DoJoin ''alice'') = Some r' \<and>
    room_step_ok (newRoom ''room-1'' 7) r'"
  by (rule room_step_refines_rules) (rule newRoom_inv, simp)

text \<open>
  C19. A submission changes a room only if the sender sits on the seat in whose name the command is,
  the room is open and the rules accept the command in the room's state; then the room has the state
  that the rules give, and so does the answer. Otherwise the room, its channels included, is untouched.
\<close>

theorem submit_only_own_seat:
  assumes "room_inv r" "room_submit (engine_runner fails) r playerID c = Some (r', result)"
  shows "r' = r \<or>
    (\<exists>seat s s' resp. seatOf r playerID = Some (cm_Player c, seat) \<and> rm_phase r \<noteq> RoomClosed \<and>
       rm_state r = Some s \<and> accepts (wire_state s) c = Some s' \<and>
       rm_state r' = Some (State_Clone s') \<and> rm_seats r' = rm_seats r \<and>
       result = Inr (Some resp) \<and> rs_OK resp \<and> rs_State resp = Some (State_Clone s'))"
  using assms(1)
  by (cases rule: engine.room_submit_cases[where playerID = playerID and c = c and fails = fails])
    (use assms(2) in \<open>auto simp: cloned_ok_response\<close>)

lemma submit_only_own_seat_witness:
  "(\<exists>r' resp seat s'. room_submit (engine_runner (\<lambda>q. None)) table ''alice'' move0 = Some (r', Inr (Some resp)) \<and>
      r' \<noteq> table \<and> seatOf table ''alice'' = Some (cm_Player move0, seat) \<and>
      accepts (wire_state (State_Clone game0)) move0 = Some s' \<and> rm_state r' = Some (State_Clone s') \<and>
      rs_OK resp \<and> rs_State resp = Some (State_Clone s')) \<and>
    (\<exists>result. room_submit (engine_runner (\<lambda>q. None)) table ''bob'' move0 = Some (table, result))"
proof -
  obtain r' result where a: "room_submit (engine_runner (\<lambda>q. None)) table ''alice'' move0 = Some (r', result)"
    "rm_state r' = Some (State_Clone (after_place game0 3 2))"
    using table_submit by auto
  have ne: "r' \<noteq> table"
    using a(2) table_inv(3) by (auto simp: after_place_def Let_def State_Clone_def new_game_def newRoom_def)
  obtain r2 result2 where b: "room_submit (engine_runner (\<lambda>q. None)) table ''bob'' move0 = Some (r2, result2)"
    using engine.room_submit_cases[where fails = "\<lambda>q. None", OF table_inv(1), of "''bob''" move0] by metis
  have "r2 = table" using submit_only_own_seat[OF table_inv(1) b] table_bob by (auto simp: PlaceCommand_def)
  then show ?thesis
    using submit_only_own_seat[OF table_inv(1) a(1)] a(1) b ne table_inv(3) by (metis option.inject)
qed


text \<open>
  A submission that is not accepted gets a complete answer: an error of the platform, or a
  rejection with an error of the contract and the room's unchanged state.
\<close>

theorem refused_submit_answers:
  assumes "room_inv r"
  shows "case room_submit (engine_runner fails) r playerID c of
      None \<Rightarrow> False
    | Some (r', Inl err) \<Rightarrow> r' = r
    | Some (r', Inr None) \<Rightarrow> False
    | Some (r', Inr (Some resp)) \<Rightarrow>
        if rs_OK resp then rs_Error resp = None \<and> rs_Event resp \<noteq> None \<and> same_state (the (rs_State resp)) (the (rm_state r'))
        else r' = r \<and> refusal r resp"
  using assms
proof (cases rule: engine.room_submit_cases[where playerID = playerID and c = c and fails = fails])
  case (refused resp)
  then show ?thesis by (simp add: refusal_def)
next
  case (accepted player st s s' e)
  then show ?thesis by (simp add: room_cloneResponse_def)
qed simp

text \<open>
  While the platform works, what the rules accept goes through: a command of the player on his own
  seat in an open room that the rules accept in the room's state is accepted.
\<close>

theorem accepted_move_goes_through:
  assumes "room_inv r" "seatOf r playerID = Some (cm_Player c, st)" "rm_phase r \<noteq> RoomClosed"
    "rm_state r = Some s" "Command_Validate c = None" "accepts (wire_state s) c = Some s'"
    "fails (ApplyCommandRequest (State_Clone s) c) = None"
  shows "\<exists>r' resp. room_submit (engine_runner fails) r playerID c = Some (r', Inr (Some resp)) \<and>
    rs_OK resp \<and> rm_state r' = Some (State_Clone s') \<and> rs_State resp = Some (State_Clone s')"
  using submit_accepted[where fails = fails, OF assms] by (auto simp: room_cloneResponse_def)

text \<open>
  C20. An accepted command reaches every seat that holds a channel: the confirmed state with the event
  of the command is appended for that seat, followed by the end of the game if it ended; only what
  exceeds the buffer's 16 events is dropped. State and event are what the rules give for the command,
  and the answer carries the same state and event.
\<close>

theorem accepted_move_delivered:
  assumes "room_inv r" "room_submit (engine_runner fails) r playerID c = Some (r', Inr (Some resp))" "rs_OK resp"
    "(player, s) \<in> set (rm_seats r)" "se_events s = Some i"
  shows "\<exists>s0 s' e. rm_state r = Some s0 \<and> accepts (wire_state s0) c = Some s' \<and>
    apply_command (wire_state s0) c = ok_response s' (Some e) \<and>
    rm_state r' = Some (State_Clone s') \<and> rs_State resp = Some (State_Clone s') \<and>
    rs_Event resp = Some (e\<lparr>ev_Changes := slice_copy (ev_Changes e)\<rparr>) \<and>
    cn_buf (rm_chans r' ! i) =
      take 16 (cn_buf (rm_chans r ! i) @ moved_events r s' (Some e) player)"
  using assms(1)
proof (cases rule: engine.room_submit_cases[where playerID = playerID and c = c and fails = fails])
  case (refused resp')
  then show ?thesis using assms(2,3) by (simp add: refusal_def)
next
  case (accepted pl st s0 s' e)
  have r': "r' = room_moved r s' (Some e)" "room_cloneResponse (Some (ok_response s' (Some e))) = Some resp"
    using assms(2) accepted(8) by auto
  then have "rs_State resp = Some (State_Clone s')" "rs_Event resp = Some (e\<lparr>ev_Changes := slice_copy (ev_Changes e)\<rparr>)"
    using r'(2)[symmetric] by (simp_all add: cloned_ok_response)
  then show ?thesis
    using accepted(3,6,7) r'(1) moved_buffer[OF room_inv_wf[OF assms(1)] assms(4,5), of s' "Some e"] eventBuffer_def
    by (intro exI[of _ s0] exI[of _ s'] exI[of _ e]) simp
qed (use assms(2) in simp)

lemma accepted_move_delivered_witness:
  "\<exists>r' resp e. room_submit (engine_runner (\<lambda>q. None)) table ''alice'' move0 = Some (r', Inr (Some resp)) \<and> rs_OK resp \<and>
    apply_command game0 move0 = ok_response (after_place game0 3 2) (Some e) \<and>
    rs_Event resp = Some (e\<lparr>ev_Changes := slice_copy (ev_Changes e)\<rparr>) \<and>
    cn_buf (rm_chans r' ! 1) =
      take 16 (cn_buf (rm_chans table ! 1) @ moved_events table (after_place game0 3 2) (Some e) PlayerLight)"
proof -
  obtain r' resp where a: "room_submit (engine_runner (\<lambda>q. None)) table ''alice'' move0 = Some (r', Inr (Some resp))"
    "rs_OK resp"
    using table_submit by (auto simp: room_cloneResponse_def)
  let ?bob = "\<lparr>se_playerID = ''bob'', se_events = Some 1, se_connected = True\<rparr>"
  have bob: "(PlayerLight, ?bob) \<in> set (rm_seats table)" "se_events ?bob = Some 1"
    unfolding table_seats by simp_all
  obtain s' e where d: "accepts (wire_state (State_Clone game0)) move0 = Some s'"
    "apply_command (wire_state (State_Clone game0)) move0 = ok_response s' (Some e)"
    "rs_Event resp = Some (e\<lparr>ev_Changes := slice_copy (ev_Changes e)\<rparr>)"
    "cn_buf (rm_chans r' ! 1) = take 16 (cn_buf (rm_chans table ! 1) @ moved_events table s' (Some e) PlayerLight)"
    using accepted_move_delivered[OF table_inv(1) a bob] unfolding table_inv(3) option.inject by metis
  have "s' = after_place game0 3 2" using d(1) table_accepts by simp
  moreover have "wire_state (State_Clone game0) = game0" by (simp add: wire_game_inv[OF game0_inv])
  ultimately show ?thesis using a d by (intro exI[of _ r'] exI[of _ resp] exI[of _ e]) simp
qed

text \<open>
  The order in which a distribution visits the seats, which Go leaves open, does not matter: with
  the seats in any other order every channel receives the same.
\<close>

theorem broadcast_order_irrelevant:
  assumes "room_wf r" "mset seats' = mset (rm_seats r)"
  shows "broadcast build (r\<lparr>rm_seats := seats'\<rparr>) =
    map_option (\<lambda>r'. r'\<lparr>rm_seats := seats'\<rparr>) (broadcast build r)"
  using assms by (rule broadcast_perm)

text \<open>
  C22. A disconnected player gets his seat back: after leaving a match whose opponent stays, the same
  player's next join succeeds as a reconnection to the same seat, resumes the match, and the new
  channel starts with the current state.
\<close>

theorem reconnection:
  assumes inv: "room_inv r" and ph: "rm_phase r \<noteq> RoomClosed" and l: "room_leave r playerID = Some (r1, Inr False)"
  shows "\<exists>r2 player seat. seatOf r playerID = Some (player, seat) \<and>
    room_join (engine_runner fails) r1 playerID = Some (r2, Inr (player, length (rm_chans r1), True)) \<and>
    rm_phase r2 = RoomPlaying \<and> rm_state r2 = rm_state r \<and> Room_Seats r2 = Room_Seats r \<and>
    cn_buf (rm_chans r2 ! length (rm_chans r1)) = [state_note r1 player]"
  using inv
proof (cases rule: room_leave_cases[where playerID = playerID])
  case (remains r' player s)
  then have r': "r' = r1" using l by simp
  note inv1 = remains(3)[unfolded r'] and seat1 = remains(5)[unfolded r']
  have ph1: "rm_phase r1 \<noteq> RoomClosed" using remains(6) ph r' by (auto split: if_splits)
  have j: "room_join (engine_runner fails) r1 playerID =
      Some (room_returned r1 playerID player, Inr (player, length (rm_chans r1), True))"
    using ph1 seat1 rejoin_eq[OF room_inv_wf[OF inv1] seat1] by (simp add: room_join_def)
  show ?thesis
    using remains(1) j room_returned_inv[OF inv1 seat1 _ ph1] returned_buffer[OF inv1 seat1 _ ph1]
      remains(9,10) r' by simp
qed (use l in simp_all)

lemma table_leave: "\<exists>r1. room_leave table ''alice'' = Some (r1, Inr False)"
proof -
  let ?alice = "\<lparr>se_playerID = ''alice'', se_events = Some 0, se_connected = True\<rparr>"
  note wf = room_inv_wf[OF table_inv(1)]
  have "seatOf table ''alice'' = Some (PlayerDark, ?alice)" by (simp add: seatOf_def table_seats)
  note eq = room_leave_eq[OF wf this]
  have "room_wf (unseat PlayerDark ?alice table)" by (rule unseat_wf[OF wf]) (simp add: table_seats)
  then have "room_wf ((unseat PlayerDark ?alice table)\<lparr>rm_phase := RoomSuspended\<rparr>)" by (rule room_wf_update)
  then show ?thesis
    using eq by (simp add: some_connected_def table_seats table_inv(2) notifyOthers_posted Let_def)
qed

lemma reconnection_witness:
  "\<exists>r1 r2 player seat. seatOf table ''alice'' = Some (player, seat) \<and>
    room_join (engine_runner (\<lambda>q. None)) r1 ''alice'' = Some (r2, Inr (player, length (rm_chans r1), True)) \<and>
    rm_phase r2 = RoomPlaying \<and> rm_state r2 = rm_state table \<and> Room_Seats r2 = Room_Seats table \<and>
    cn_buf (rm_chans r2 ! length (rm_chans r1)) = [state_note r1 player]"
proof -
  obtain r1 where l: "room_leave table ''alice'' = Some (r1, Inr False)" using table_leave by blast
  have "rm_phase table \<noteq> RoomClosed" by (simp add: table_inv(2))
  from reconnection[OF table_inv(1) this l] show ?thesis by blast
qed

text \<open>
  Closing a room succeeds and leaves nothing open: every channel that a seat held is closed, no
  seat is connected or holds a channel any more, and the room is closed.
\<close>

theorem closing_releases:
  assumes "room_inv r"
  shows "\<exists>r'. room_close reason r = Some r' \<and> rm_phase r' = RoomClosed \<and> held (rm_seats r') = [] \<and>
    \<not> some_connected r' \<and> list_all (\<lambda>i. cn_closed (rm_chans r' ! i)) (held (rm_seats r))"
proof -
  obtain r' where r': "room_close reason r = Some r'" "rm_phase r' = RoomClosed" "held (rm_seats r') = []"
    "\<not> some_connected r'"
    using room_close_inv[OF assms, of reason] by blast
  then show ?thesis using room_close_channels[OF room_inv_wf[OF assms] r'(1)] by (auto simp: list_all_iff)
qed

lemma closing_releases_witness:
  "\<exists>r'. room_close ''bye'' table = Some r' \<and> rm_phase r' = RoomClosed \<and> held (rm_seats r') = [] \<and>
    \<not> some_connected r' \<and> list_all (\<lambda>i. cn_closed (rm_chans r' ! i)) (held (rm_seats table))"
  by (rule closing_releases[OF table_inv(1)])

section \<open>The manager\<close>

text \<open>
  From a new manager on, no sequence of calls makes it panic, whenever the platform fails, and
  between calls its books agree: rooms are named by their number, a player is registered with a
  room exactly if he sits in it, a room in the map has a connected player and is the waiting room
  exactly if it waits, and a dropped room is closed and left by everybody.
\<close>

theorem manager_never_panics:
  "\<exists>m. manager_run seeds NewManager xs = Some m \<and> manager_inv m"
  by (rule manager_run_ok) (rule NewManager_inv)

text \<open>
  Nothing leaks: at any time between calls every room that is kept has a connected player, at most
  one room waits for an opponent, and there are players exactly if there are rooms.
\<close>

theorem no_leaked_rooms:
  assumes "manager_run seeds NewManager xs = Some m"
  shows "(\<forall>rid r. Manager_Room m rid = Some r \<longrightarrow> some_connected r) \<and>
    (\<forall>a b r r'. Manager_Room m a = Some r \<and> Manager_Room m b = Some r' \<and>
       rm_phase r = RoomWaiting \<and> rm_phase r' = RoomWaiting \<longrightarrow> a = b) \<and>
    (RoomCount m = 0 \<longleftrightarrow> PlayerCount m = 0)"
proof -
  obtain m' where "manager_run seeds NewManager xs = Some m'" "manager_inv m'"
    using manager_run_ok[OF NewManager_inv] by blast
  with assms have inv: "manager_inv m" by simp
  show ?thesis
    using manager_room(3)[OF inv] one_waiting[OF inv] RoomCount_zero[OF inv]
    by (auto simp: Manager_Room_def)
qed

lemma no_leaked_rooms_witness:
  "\<exists>m. manager_run (\<lambda>_. 7) NewManager [(\<lambda>q. None, CallJoin ''alice'')] = Some m \<and>
    (RoomCount m = 0 \<longleftrightarrow> PlayerCount m = 0)"
proof -
  obtain m where m: "manager_run (\<lambda>_. 7) NewManager [(\<lambda>q. None, CallJoin ''alice'')] = Some m"
    using manager_run_ok[OF NewManager_inv] by blast
  from no_leaked_rooms[OF m] m show ?thesis by (intro exI[of _ m]) simp
qed

text \<open>A new game fails to start only when the platform fails.\<close>

lemma new_game_failed:
  assumes "engine_runner fails (NewGameRequest gid seed) = Inl err" "gid \<noteq> ''''"
  shows "fails (NewGameRequest gid seed) = Some err"
proof (cases "fails (NewGameRequest gid seed)")
  case None
  then have "engine_runner fails (NewGameRequest gid seed) = engine_runner (\<lambda>_. None) (NewGameRequest gid seed)"
    unfolding engine_runner_def by (simp only: simp_thms)
  then show ?thesis using assms(1) engine_starts[OF assms(2), of seed] by simp
next
  case (Some e)
  have "Request_Validate (NewGameRequest gid seed) = None" using assms(2) by (simp add: Request_Validate_new)
  then show ?thesis using assms(1) Some by (simp add: engine_runner_def)
qed

text \<open>
  C21. First come, first served: when no room waits, a new player opens a room and gets the dark seat;
  the next new player, whatever he is called, gets the light seat of the same room, whose game starts
  from the room's id and seed, unless the platform fails to start that game: then he gets its error
  and is not registered.
\<close>

theorem two_players_meet:
  assumes inv: "manager_inv m" and w: "mg_waiting m = ''''"
    and p: "map_of (mg_players m) p = None" "p \<noteq> ''''"
    and q: "map_of (mg_players m) q = None" "q \<noteq> ''''" "q \<noteq> p"
  shows "\<exists>m1 a. Manager_Join (engine_runner fails) seeds m p = Some (m1, Inr a) \<and> ms_Seat a = PlayerDark \<and>
    (\<exists>m2 result. Manager_Join (engine_runner fails') seeds m1 q = Some (m2, result) \<and>
      (case result of
         Inl err \<Rightarrow> map_of (mg_players m2) q = None \<and>
           (\<exists>e. err = JoinRuntimeError e \<and> fails' (NewGameRequest (ms_RoomID a) (seeds (ms_RoomID a))) = Some e)
       | Inr b \<Rightarrow> ms_Seat b = PlayerLight \<and> ms_RoomID b = ms_RoomID a \<and> mg_waiting m2 = '''' \<and>
           map_option rm_state (Manager_Room m2 (ms_RoomID a)) =
             Some (Some (State_Clone (new_game (ms_RoomID a) (seeds (ms_RoomID a)))))))"
proof -
  have none: "map_of (mg_rooms m) '''' = None"
    using manager_room(2)[OF inv, of "''''"] by (cases "map_of (mg_rooms m) ''''") auto
  show ?thesis
    using inv p(2)
  proof (cases rule: engine.Manager_Join_cases[where playerID = p and seedFor = seeds and fails = fails])
  case opened
  let ?m1 = "manager_opened seeds m p" and ?rid = "room_name (Suc (length (mg_objs m)))"
  let ?r = "room_opened (newRoom ?rid (seeds ?rid)) p"
  have w1: "mg_waiting ?m1 = ?rid" "map_of (mg_players ?m1) q = None" "map_of (mg_rooms ?m1) ?rid = Some (length (mg_objs m))"
    "obj ?m1 (length (mg_objs m)) = ?r"
    using q by (simp_all add: manager_opened_def Let_def obj_def nth_append)
  have sd: "rm_seed ?r = seeds ?rid" by (simp add: room_opened_def newRoom_def)
  have "\<exists>m2 result. Manager_Join (engine_runner fails') seeds ?m1 q = Some (m2, result) \<and>
      (case result of
         Inl err \<Rightarrow> map_of (mg_players m2) q = None \<and>
           (\<exists>e. err = JoinRuntimeError e \<and> fails' (NewGameRequest ?rid (seeds ?rid)) = Some e)
       | Inr b \<Rightarrow> ms_Seat b = PlayerLight \<and> ms_RoomID b = ?rid \<and> mg_waiting m2 = '''' \<and>
           map_option rm_state (Manager_Room m2 ?rid) =
             Some (Some (State_Clone (new_game ?rid (seeds ?rid)))))"
    using opened(4) q(2)
  proof (cases rule: engine.Manager_Join_cases[where playerID = q and seedFor = seeds and fails = fails'])
    case (failed i err)
    have "rm_id ?r = ?rid" by (simp add: room_opened_def newRoom_def)
    then have "engine_runner fails' (NewGameRequest ?rid (seeds ?rid)) = Inl err"
      using failed(2,5) w1 sd by simp
    then have "fails' (NewGameRequest ?rid (seeds ?rid)) = Some err"
      by (rule new_game_failed) (simp add: room_name_def)
    then show ?thesis using w1 failed(3) by simp
  next
    case (started i t)
    have i: "i = length (mg_objs m)" using started(2) w1 by simp
    note k = manager_room[OF opened(4) started(2)]
    have ph: "rm_phase (obj ?m1 i) = RoomWaiting" using k(4) by simp
    have free: "seatOf (obj ?m1 i) q = None"
      using manager_player[OF opened(4), of q ?rid] w1 i seatOf_seated by fastforce
    have "rm_state (room_started ?r q) = Some (State_Clone (new_game ?rid (seeds ?rid)))"
      using room_started_inv(6)[OF k(5) started(3) ph free] i w1 sd k(6) by simp
    then show ?thesis
      using started(4) w1 i k(1) by (simp add: manager_started_def Manager_Room_def)
  qed (use w1 in simp_all)
  then show ?thesis using opened(3) by (simp cong: sum.case_cong)
  qed (use p w none in simp_all)
qed

lemma two_players_meet_witness:
  "\<exists>m1 m2 a b. Manager_Join (engine_runner (\<lambda>q. None)) (\<lambda>_. 7) NewManager ''alice'' = Some (m1, Inr a) \<and>
    ms_Seat a = PlayerDark \<and>
    Manager_Join (engine_runner (\<lambda>q. None)) (\<lambda>_. 7) m1 ''bob'' = Some (m2, Inr b) \<and>
    ms_Seat b = PlayerLight \<and> ms_RoomID b = ms_RoomID a \<and>
    map_option rm_state (Manager_Room m2 (ms_RoomID a)) = Some (Some (State_Clone (new_game (ms_RoomID a) 7)))"
proof -
  have "mg_waiting NewManager = ''''" "map_of (mg_players NewManager) ''alice'' = None"
    "map_of (mg_players NewManager) ''bob'' = None"
    by (simp_all add: NewManager_def)
  then obtain m1 a m2 result where j: "Manager_Join (engine_runner (\<lambda>q. None)) (\<lambda>_. 7) NewManager ''alice'' = Some (m1, Inr a)"
    "ms_Seat a = PlayerDark" "Manager_Join (engine_runner (\<lambda>q. None)) (\<lambda>_. 7) m1 ''bob'' = Some (m2, result)"
    "case result of
       Inl err \<Rightarrow> map_of (mg_players m2) ''bob'' = None \<and> (\<exists>e. err = JoinRuntimeError e \<and> None = Some e)
     | Inr b \<Rightarrow> ms_Seat b = PlayerLight \<and> ms_RoomID b = ms_RoomID a \<and> mg_waiting m2 = '''' \<and>
         map_option rm_state (Manager_Room m2 (ms_RoomID a)) = Some (Some (State_Clone (new_game (ms_RoomID a) 7)))"
    using two_players_meet[OF NewManager_inv, of "''alice''" "''bob''" "\<lambda>q. None" "\<lambda>_. 7" "\<lambda>q. None"] by auto
  then show ?thesis by (cases result) auto
qed

text \<open>
  A submission reaches a room only through its own membership: the manager changes only if the
  sender is registered with the room he names and the rules accept his command there, and then it
  changes that room alone.
\<close>

theorem submit_only_own_room:
  assumes "manager_inv m" "Manager_Submit (engine_runner fails) m roomID playerID c = Some (m', result)"
  shows "m' = m \<or>
    (\<exists>i s s' r. map_of (mg_players m) playerID = Some roomID \<and> map_of (mg_rooms m) roomID = Some i \<and>
       rm_state (obj m i) = Some s \<and> accepts (wire_state s) c = Some s' \<and>
       m' = set_obj i r m \<and> rm_state r = Some (State_Clone s') \<and> manager_inv m')"
  using assms(1)
proof (cases rule: engine.Manager_Submit_cases[where roomID = roomID and playerID = playerID and c = c and fails = fails])
  case (accepted i player st s s' e)
  let ?r = "room_moved (obj m i) s' (Some e)"
  have "m' = set_obj i ?r m" "rm_state ?r = Some (State_Clone s')" using assms(2) accepted(8) by auto
  then show ?thesis using accepted(1,2,4,6,9) by blast
qed (use assms(2) in simp_all)

lemma submit_only_own_room_witness:
  "\<exists>m' result. Manager_Submit (engine_runner (\<lambda>q. None)) NewManager ''room-1'' ''eve'' (PassCommand ''c'' ''dark'' 0)
      = Some (m', result) \<and> (m' = NewManager \<or> map_of (mg_players NewManager) ''eve'' = Some ''room-1'')"
proof -
  have s: "Manager_Submit (engine_runner (\<lambda>q. None)) NewManager ''room-1'' ''eve'' (PassCommand ''c'' ''dark'' 0) =
      Some (NewManager, Inr (Some (room_rejected CodeInvalidRequest (''room'' @ utf8 [0x306B,
      0x53C2, 0x52A0, 0x3057, 0x3066, 0x3044, 0x307E, 0x305B, 0x3093]) None)))"
    by (simp add: Manager_Submit_def NewManager_def)
  from submit_only_own_room[OF NewManager_inv s] s show ?thesis by blast
qed

text \<open>
  Closing the manager closes every room that ever existed and forgets all of them and all players.
\<close>

theorem close_closes_all:
  assumes "manager_inv m"
  shows "\<exists>m'. Manager_Close reason m = Some m' \<and> manager_inv m' \<and> RoomCount m' = 0 \<and> PlayerCount m' = 0 \<and>
    list_all (\<lambda>r. rm_phase r = RoomClosed \<and> \<not> some_connected r) (mg_objs m')"
proof -
  obtain m' where m': "Manager_Close reason m = Some m'" "manager_inv m'" "RoomCount m' = 0" "PlayerCount m' = 0"
    "\<forall>i < length (mg_objs m'). rm_phase (obj m' i) = RoomClosed \<and> \<not> some_connected (obj m' i)"
    using Manager_Close_ok[OF assms] by blast
  have "list_all (\<lambda>r. rm_phase r = RoomClosed \<and> \<not> some_connected r) (mg_objs m')"
    unfolding list_all_length using m'(5) by (simp add: obj_def)
  with m' show ?thesis by blast
qed

lemma close_closes_all_witness:
  "\<exists>m'. Manager_Close ''bye'' (manager_opened (\<lambda>_. 7) NewManager ''alice'') = Some m' \<and> manager_inv m' \<and>
    RoomCount m' = 0 \<and> PlayerCount m' = 0 \<and>
    list_all (\<lambda>r. rm_phase r = RoomClosed \<and> \<not> some_connected r) (mg_objs m')"
  by (rule close_closes_all, rule manager_opened_inv[OF NewManager_inv]) (simp_all add: NewManager_def)

section \<open>The test runner\<close>

text \<open>
  The fixed state with which the fake runner answers is the rules' new game for seed 1, and its
  response meets the contract.
\<close>

theorem fake_state_is_new_game:
  assumes "gameID \<noteq> ''''"
  shows "NewState gameID = new_game gameID 1 \<and> Response_Validate (Accepted (NewState gameID)) = None"
proof -
  have s: "NewState gameID = new_game gameID 1" by (rule fake_new_game[OF assms])
  have "State_Validate (new_game gameID 1) = None" by (rule game_inv_valid[OF new_game_inv[OF assms]])
  then show ?thesis by (simp add: s Accepted_def Response_Validate_None)
qed

lemma fake_state_is_new_game_witness:
  "NewState ''g'' = new_game ''g'' 1 \<and> Response_Validate (Accepted (NewState ''g'')) = None"
  by (rule fake_state_is_new_game) simp

end
